(* ===== verification/Edge_Prelude.thy ===== *)
theory Edge_Prelude
  imports Main "HOL-Library.Word" "HOL-Library.Monad_Syntax"
begin

section \<open>Prelude: machine integers, byte buffers, results\<close>

text \<open>
  What every component of the development shares: the names of the machine-integer types, the
  little-endian conversions of the Rust standard library (\<open>to_le_bytes\<close>, \<open>from_le_bytes\<close>),
  checked and saturating arithmetic, buffers as byte lists with slices and writes that can
  panic, and the error results. \<open>Inl\<close> is an \<open>Err\<close> and \<open>Inr\<close> an \<open>Ok\<close>; where the source
  can panic the model returns an \<open>option\<close> and \<open>None\<close> is the panic.
\<close>

named_theorems wire_simps \<open>bytes, slices and layouts of the wire\<close>

type_synonym u8 = "8 word"
type_synonym u16 = "16 word"
type_synonym u32 = "32 word"
type_synonym u64 = "64 word"
type_synonym i8 = "8 word"
type_synonym i64 = "64 word"
type_synonym bytes = "8 word list"

subsection \<open>Results\<close>

fun bind_ok :: "'e + 'a \<Rightarrow> ('a \<Rightarrow> 'e + 'b) \<Rightarrow> 'e + 'b" where
  "bind_ok (Inl e) f = Inl e"
| "bind_ok (Inr x) f = f x"

lemma bind_ok_Inr_iff [simp]: "bind_ok r f = Inr y \<longleftrightarrow> (\<exists>x. r = Inr x \<and> f x = Inr y)"
  by (cases r) auto

lemma bind_ok_Inl_iff: "bind_ok r f = Inl e \<longleftrightarrow> r = Inl e \<or> (\<exists>x. r = Inr x \<and> f x = Inl e)"
  by (cases r) auto

text \<open>\<open>Option::ok_or\<close>.\<close>

definition ok_or :: "'e \<Rightarrow> 'a option \<Rightarrow> 'e + 'a" where
  "ok_or e x = (case x of None \<Rightarrow> Inl e | Some v \<Rightarrow> Inr v)"

lemma ok_or_Inr [simp]: "ok_or e x = Inr v \<longleftrightarrow> x = Some v"
  by (auto simp: ok_or_def split: option.splits)

subsection \<open>Little-endian bytes\<close>

fun le_digits :: "nat \<Rightarrow> nat \<Rightarrow> bytes" where
  "le_digits 0 k = []"
| "le_digits (Suc n) k = word_of_nat (k mod 256) # le_digits n (k div 256)"

fun le_value :: "bytes \<Rightarrow> nat" where
  "le_value [] = 0"
| "le_value (b # bs) = unat b + 256 * le_value bs"

definition to_le :: "'a::len word \<Rightarrow> bytes" where
  "to_le w = le_digits (LENGTH('a) div 8) (unat w)"

definition from_le :: "bytes \<Rightarrow> 'a::len word" where
  "from_le bs = word_of_nat (le_value bs)"

lemma length_le_digits [simp]: "length (le_digits n k) = n"
  by (induction n arbitrary: k) auto

lemma unat_bound: "unat (w :: 'a::len word) < 2 ^ LENGTH('a)"
  by (rule unsigned_less)

lemma unat_u8_bound: "unat (b :: u8) < 256"
  using unat_bound [of b] by simp

lemma unat_u16_bound: "unat (b :: u16) < 65536"
  using unat_bound [of b] by simp

lemma unat_u32_bound: "unat (b :: u32) < 4294967296"
  using unat_bound [of b] by simp

lemma unat_u64_bound: "unat (b :: u64) < 18446744073709551616"
  using unat_bound [of b] by simp

lemma unat_byte_of_nat: "unat (word_of_nat (k mod 256) :: u8) = k mod 256"
  by (simp add: unat_of_nat)

lemma le_value_digits: "le_value (le_digits n k) = k mod 256 ^ n"
proof (induction n arbitrary: k)
  case 0
  then show ?case by simp
next
  case (Suc n)
  have "le_value (le_digits (Suc n) k) = k mod 256 + 256 * ((k div 256) mod 256 ^ n)"
    using Suc by (simp add: unat_byte_of_nat)
  also have "\<dots> = k mod (256 * 256 ^ n)"
    by (simp add: mod_mult2_eq)
  finally show ?case by simp
qed

lemma le_digits_value: "le_digits (length bs) (le_value bs) = bs"
proof (induction bs)
  case Nil
  then show ?case by simp
next
  case (Cons b bs)
  have "(unat b + 256 * le_value bs) mod 256 = unat b"
    and "(unat b + 256 * le_value bs) div 256 = le_value bs"
    using unat_u8_bound [of b] by simp_all
  then show ?case using Cons by simp
qed

lemma le_value_bound: "le_value bs < 256 ^ length bs"
  using le_value_digits [of "length bs" "le_value bs"]
  by (metis le_digits_value mod_less_divisor zero_less_numeral zero_less_power)

lemma length_to_le: "length (to_le (w :: 'a::len word)) = LENGTH('a) div 8"
  by (simp add: to_le_def)

lemma length_to_le_widths [simp, wire_simps]:
  "length (to_le (a :: u8)) = 1"
  "length (to_le (b :: u16)) = 2"
  "length (to_le (c :: u32)) = 4"
  "length (to_le (d :: u64)) = 8"
  by (simp_all add: length_to_le)

lemma from_to_le:
  assumes "LENGTH('a::len) = 8 * n"
  shows "from_le (to_le (w :: 'a word)) = w"
proof -
  have "unat w < 256 ^ n"
    using unat_bound [of w] assms by (simp add: power_mult)
  then show ?thesis
    using assms by (simp add: from_le_def to_le_def le_value_digits)
qed

lemma from_to_le_widths [simp, wire_simps]:
  "from_le (to_le (b :: u16)) = b"
  "from_le (to_le (c :: u32)) = c"
  "from_le (to_le (d :: u64)) = d"
  by (simp_all add: from_to_le [where n = 2] from_to_le [where n = 4] from_to_le [where n = 8])

subsection \<open>Checked and saturating arithmetic\<close>

definition sat_add :: "'a::len word \<Rightarrow> 'a word \<Rightarrow> 'a word" where
  "sat_add a b = (if unat a + unat b < 2 ^ LENGTH('a) then a + b else - 1)"

definition sat_sub :: "'a::len word \<Rightarrow> 'a word \<Rightarrow> 'a word" where
  "sat_sub a b = (if b \<le> a then a - b else 0)"

definition checked_add :: "'a::len word \<Rightarrow> 'a word \<Rightarrow> 'a word option" where
  "checked_add a b = (if unat a + unat b < 2 ^ LENGTH('a) then Some (a + b) else None)"

definition checked_mul :: "'a::len word \<Rightarrow> 'a word \<Rightarrow> 'a word option" where
  "checked_mul a b = (if unat a * unat b < 2 ^ LENGTH('a) then Some (a * b) else None)"

lemma unat_sat_add: "unat (sat_add a b) = min (unat a + unat b) (2 ^ LENGTH('a) - 1)"
  for a b :: "'a::len word"
proof (cases "unat a + unat b < 2 ^ LENGTH('a)")
  case True
  then show ?thesis by (simp add: sat_add_def unat_word_ariths)
next
  case False
  then show ?thesis by (simp add: sat_add_def unsigned_minus_1_eq_mask mask_eq_exp_minus_1)
qed

lemma unat_sat_sub: "unat (sat_sub a b) = unat a - unat b"
  for a b :: "'a::len word"
  by (simp add: sat_sub_def unat_sub word_le_nat_alt)

lemma unat_fold_sat_add:
  fixes m :: "'a::len word"
  shows "unat (fold (\<lambda>x m. sat_add m (f x)) xs m) =
    min (unat m + (\<Sum>x\<leftarrow>xs. unat (f x))) (2 ^ LENGTH('a) - 1)"
proof (induction xs arbitrary: m)
  case Nil
  have "unat m \<le> 2 ^ LENGTH('a) - 1"
    using unat_bound [of m] by linarith
  then show ?case by (simp add: min_absorb1)
next
  case (Cons x xs)
  have "min (min a b + c) b = min (a + c) b" for a b c :: nat
    by simp
  then show ?case
    by (simp only: fold_simps Cons.IH unat_sat_add list.map sum_list.Cons add.assoc)
qed

lemma checked_add_Some: "checked_add a b = Some c \<longleftrightarrow>
    unat a + unat b < 2 ^ LENGTH('a) \<and> unat c = unat a + unat b"
  for a b c :: "'a::len word"
  by (auto simp: checked_add_def unat_word_ariths word_unat_eq_iff)

lemma checked_mul_Some: "checked_mul a b = Some c \<longleftrightarrow>
    unat a * unat b < 2 ^ LENGTH('a) \<and> unat c = unat a * unat b"
  for a b c :: "'a::len word"
  by (auto simp: checked_mul_def unat_word_ariths word_unat_eq_iff)

subsection \<open>Slices and writes\<close>

text \<open>
  \<open>buf[a..b]\<close> and \<open>dst[off..off + n].copy_from_slice(bs)\<close>. The read is used after a length
  check only; a write past the end panics, which is \<open>None\<close>.
\<close>

definition slice :: "bytes \<Rightarrow> nat \<Rightarrow> nat \<Rightarrow> bytes" where
  "slice buf a b = take (b - a) (drop a buf)"

definition put :: "nat \<Rightarrow> bytes \<Rightarrow> bytes \<Rightarrow> bytes option" where
  "put off bs dst =
     (if off + length bs \<le> length dst
      then Some (take off dst @ bs @ drop (off + length bs) dst) else None)"

text \<open>A body of consecutive writes, the shape of every \<open>encode_into\<close>.\<close>

fun write_all :: "(nat \<times> bytes) list \<Rightarrow> bytes \<Rightarrow> bytes option" where
  "write_all [] dst = Some dst"
| "write_all ((off, bs) # ws) dst = do { dst' \<leftarrow> put off bs dst; write_all ws dst' }"

definition on_slice :: "nat \<Rightarrow> nat \<Rightarrow> (bytes \<Rightarrow> bytes option) \<Rightarrow> bytes \<Rightarrow> bytes option" where
  "on_slice a b f buf =
     (if b \<le> length buf \<and> a \<le> b
      then do { s \<leftarrow> f (slice buf a b); Some (take a buf @ s @ drop b buf) } else None)"

fun contiguous :: "nat \<Rightarrow> (nat \<times> bytes) list \<Rightarrow> bool" where
  "contiguous n [] \<longleftrightarrow> True"
| "contiguous n ((off, bs) # ws) \<longleftrightarrow> off = n \<and> contiguous (n + length bs) ws"

abbreviation written :: "(nat \<times> bytes) list \<Rightarrow> bytes" where
  "written ws \<equiv> concat (map snd ws)"

text \<open>
  Consecutive writes from \<open>n\<close> on leave exactly the concatenation of what they wrote: no byte
  of the old buffer survives between them, and a buffer that is long enough never panics.
\<close>

lemma write_all_contiguous:
  "contiguous n ws \<Longrightarrow> n + length (written ws) \<le> length dst \<Longrightarrow>
   write_all ws dst = Some (take n dst @ written ws @ drop (n + length (written ws)) dst)"
proof (induction ws arbitrary: n dst)
  case Nil
  then show ?case by simp
next
  case (Cons w ws)
  obtain off bs where w: "w = (off, bs)" by (cases w)
  let ?dst = "take n dst @ bs @ drop (n + length bs) dst"
  have off: "off = n" and tail: "contiguous (n + length bs) ws"
    using Cons.prems(1) w by auto
  have len: "n + length bs \<le> length dst" "n \<le> length dst"
    using Cons.prems(2) w by auto
  have "write_all ws ?dst = Some (take (n + length bs) ?dst @ written ws @
      drop (n + length bs + length (written ws)) ?dst)"
    using Cons.prems(2) w len by (intro Cons.IH tail) auto
  moreover have "drop (n + length bs + length (written ws)) ?dst =
      drop (n + length bs + length (written ws)) dst"
    using len by (simp add: add.commute add.left_commute)
  ultimately show ?case
    using w off len by (simp add: put_def add.assoc)
qed

corollary write_all_exact:
  "contiguous 0 ws \<Longrightarrow> length dst = length (written ws) \<Longrightarrow> write_all ws dst = Some (written ws)"
  using write_all_contiguous [of 0 ws dst] by simp

declare write_all.simps [simp del]

lemma length_slice [simp]: "length (slice buf a b) = min (b - a) (length buf - a)"
  by (simp add: slice_def)

lemma take_append_exact: "length xs = n \<Longrightarrow> take n (xs @ ys) = xs"
  by simp

lemma drop_append_exact: "length xs = n \<Longrightarrow> drop n (xs @ ys) = ys"
  by simp

lemma put_Some_length: "put off bs dst = Some dst' \<Longrightarrow> length dst' = length dst"
  by (auto simp: put_def split: if_splits)

end
