(* ===== verification/Wire_Core.thy ===== *)
theory Wire_Core
  imports Edge_Prelude
begin

section \<open>The shared wire: constants, errors, header, feeds, messages\<close>

text \<open>
  The crate \<open>dz-edge-core\<close>: its constants, its two error types, port roles, the sequencing
  state of a channel instance, the 24-byte datagram header with its two readers, the \<open>Feed\<close>
  and \<open>AppMessage\<close> traits as dictionaries, and the interface (a locale) every application
  message of the family meets, with what follows from it for framing.
\<close>

subsection \<open>Constants (constants.rs)\<close>

definition SCHEMA_VERSION :: u8 where "SCHEMA_VERSION = 3"
definition SCHEMA_VERSION_V1 :: u8 where "SCHEMA_VERSION_V1 = 1"
definition SUPPORTED_SCHEMA_VERSIONS :: "u8 list" where
  "SUPPORTED_SCHEMA_VERSIONS = [SCHEMA_VERSION, SCHEMA_VERSION_V1]"
definition DATAGRAM_HEADER_SIZE :: nat where "DATAGRAM_HEADER_SIZE = 24"
definition MSG_HEADER_SIZE :: nat where "MSG_HEADER_SIZE = 4"
definition MAX_DATAGRAM_SIZE :: nat where "MAX_DATAGRAM_SIZE = 1232"
definition TYPE_HEARTBEAT :: u8 where "TYPE_HEARTBEAT = 1"
definition TYPE_END_OF_SESSION :: u8 where "TYPE_END_OF_SESSION = 6"
definition SIZE_HEARTBEAT :: nat where "SIZE_HEARTBEAT = 16"
definition SIZE_END_OF_SESSION :: nat where "SIZE_END_OF_SESSION = 12"
definition FLAG_SNAPSHOT :: u16 where "FLAG_SNAPSHOT = 1"

lemmas wire_constants =
  SCHEMA_VERSION_def SCHEMA_VERSION_V1_def SUPPORTED_SCHEMA_VERSIONS_def
  DATAGRAM_HEADER_SIZE_def MSG_HEADER_SIZE_def MAX_DATAGRAM_SIZE_def

subsection \<open>Port roles (port\_role.rs)\<close>

datatype port_role = Mktdata | Refdata | Snapshot

fun port_role_as_str :: "port_role \<Rightarrow> string" where
  "port_role_as_str Mktdata = ''mktdata''"
| "port_role_as_str Refdata = ''refdata''"
| "port_role_as_str Snapshot = ''snapshot''"

lemma port_role_as_str_inj: "inj port_role_as_str"
  by (rule injI) (case_tac x; case_tac y; simp)

subsection \<open>Errors (error.rs, encode\_error.rs)\<close>

datatype decode_error =
    ShortBuffer nat nat
  | UnsupportedSchema u8
  | LengthMismatch u8 u8 u8
  | BadTypeId u8
  | ReservedTypeId u8
  | EmptyDatagram
  | DeclaredLengthOutOfRange u16 nat nat
  | MagicMismatch u16 u16
  | MessageTooShort nat u8
  | MessageHeaderTruncated nat nat
  | MessageOverrunsDatagram nat u8 nat
  | MessageCountMismatch u8 nat
  | MalformedBody u8 string

datatype encode_error =
    DatagramFull nat nat
  | MessageCountExhausted u8
  | WrongPortRole string string
  | NotCarriedByFeed string u8
  | MalformedMessage string string

subsection \<open>Channel sequences (channel.rs)\<close>

datatype reset_count_t = ResetCount (reset_get: u8)

definition NEVER_RESET :: reset_count_t where "NEVER_RESET = ResetCount 0"

record channel_sequence =
  cs_channel_id :: u8
  cs_sequence_number :: u64
  cs_reset_count :: u8

definition channel_sequence_new :: "u8 \<Rightarrow> reset_count_t \<Rightarrow> channel_sequence" where
  "channel_sequence_new ch rc =
     \<lparr>cs_channel_id = ch, cs_sequence_number = 0, cs_reset_count = reset_get rc\<rparr>"

definition channel_sequence_resume :: "u8 \<Rightarrow> reset_count_t \<Rightarrow> u64 \<Rightarrow> channel_sequence" where
  "channel_sequence_resume ch rc n =
     \<lparr>cs_channel_id = ch, cs_sequence_number = n, cs_reset_count = reset_get rc\<rparr>"

definition channel_advance :: "channel_sequence \<Rightarrow> channel_sequence" where
  "channel_advance s = s\<lparr>cs_sequence_number := cs_sequence_number s + 1\<rparr>"

definition channel_begin_era :: "channel_sequence \<Rightarrow> channel_sequence" where
  "channel_begin_era s = s\<lparr>cs_reset_count := cs_reset_count s + 1, cs_sequence_number := 0\<rparr>"

lemma channel_advance_simps [simp]:
  "cs_channel_id (channel_advance s) = cs_channel_id s"
  "cs_sequence_number (channel_advance s) = cs_sequence_number s + 1"
  "cs_reset_count (channel_advance s) = cs_reset_count s"
  by (simp_all add: channel_advance_def)

lemma channel_advance_pow:
  "(channel_advance ^^ n) s = s\<lparr>cs_sequence_number := cs_sequence_number s + word_of_nat n\<rparr>"
  by (induction n) (simp_all add: channel_advance_def algebra_simps)

lemma channel_begin_era_pow_reset:
  "cs_reset_count ((channel_begin_era ^^ n) s) = cs_reset_count s + word_of_nat n"
  by (induction n) (simp_all add: channel_begin_era_def algebra_simps)

subsection \<open>The datagram header (datagram.rs)\<close>

record datagram_header =
  hdr_magic :: u16
  hdr_schema_version :: u8
  hdr_channel_id :: u8
  hdr_sequence_number :: u64
  hdr_send_timestamp_ns :: u64
  hdr_msg_count :: u8
  hdr_reset_count :: u8
  hdr_datagram_len :: u16

definition declared_len_at :: "bytes \<Rightarrow> nat" where
  "declared_len_at buf = unat (from_le [buf ! 22, buf ! 23] :: u16)"

definition header_decode :: "bytes \<Rightarrow> decode_error + datagram_header" where
  "header_decode buf =
    (if length buf < DATAGRAM_HEADER_SIZE
     then Inl (ShortBuffer DATAGRAM_HEADER_SIZE (length buf))
     else let schema_version = buf ! 2;
              datagram_len = declared_len_at buf in
     if schema_version \<notin> set SUPPORTED_SCHEMA_VERSIONS
     then Inl (UnsupportedSchema schema_version)
     else if \<not> (DATAGRAM_HEADER_SIZE \<le> datagram_len \<and> datagram_len \<le> MAX_DATAGRAM_SIZE)
     then Inl (DeclaredLengthOutOfRange (word_of_nat datagram_len)
                 DATAGRAM_HEADER_SIZE MAX_DATAGRAM_SIZE)
     else if datagram_len > length buf
     then Inl (ShortBuffer datagram_len (length buf))
     else Inr \<lparr>hdr_magic = from_le [buf ! 0, buf ! 1],
               hdr_schema_version = schema_version,
               hdr_channel_id = buf ! 3,
               hdr_sequence_number = from_le (slice buf 4 12),
               hdr_send_timestamp_ns = from_le (slice buf 12 20),
               hdr_msg_count = buf ! 20,
               hdr_reset_count = buf ! 21,
               hdr_datagram_len = word_of_nat datagram_len\<rparr>)"

definition header_peek :: "bytes \<Rightarrow> decode_error + datagram_header" where
  "header_peek buf =
    (if length buf < DATAGRAM_HEADER_SIZE
     then Inl (ShortBuffer DATAGRAM_HEADER_SIZE (length buf))
     else Inr \<lparr>hdr_magic = from_le [buf ! 0, buf ! 1],
               hdr_schema_version = buf ! 2,
               hdr_channel_id = buf ! 3,
               hdr_sequence_number = from_le (slice buf 4 12),
               hdr_send_timestamp_ns = from_le (slice buf 12 20),
               hdr_msg_count = buf ! 20,
               hdr_reset_count = buf ! 21,
               hdr_datagram_len = from_le [buf ! 22, buf ! 23]\<rparr>)"

definition schema_is_supported :: "datagram_header \<Rightarrow> bool" where
  "schema_is_supported h \<longleftrightarrow> hdr_schema_version h \<in> set SUPPORTED_SCHEMA_VERSIONS"

definition declared_len_is_in_range :: "datagram_header \<Rightarrow> bool" where
  "declared_len_is_in_range h \<longleftrightarrow>
     (let declared = unat (hdr_datagram_len h)
      in DATAGRAM_HEADER_SIZE \<le> declared \<and> declared \<le> MAX_DATAGRAM_SIZE)"

text \<open>The two readers agree: \<open>decode\<close> is \<open>peek\<close> plus the two judgements plus the length.\<close>

lemma declared_len_word: "word_of_nat (declared_len_at buf) = (from_le [buf ! 22, buf ! 23] :: u16)"
  by (simp add: declared_len_at_def)

lemma header_decode_peek:
  "header_decode buf = Inr h \<longleftrightarrow>
     header_peek buf = Inr h \<and> schema_is_supported h \<and> declared_len_is_in_range h \<and>
     unat (hdr_datagram_len h) \<le> length buf"
  by (auto simp: header_decode_def header_peek_def schema_is_supported_def
      declared_len_is_in_range_def Let_def declared_len_word declared_len_at_def)

lemma header_peek_total: "header_peek buf = Inl e \<longleftrightarrow>
    length buf < 24 \<and> e = ShortBuffer 24 (length buf)"
  by (auto simp: header_peek_def DATAGRAM_HEADER_SIZE_def)

subsection \<open>Feeds (feed.rs)\<close>

record feed =
  MAGIC :: u16
  FEED_NAME :: string
  CARRIES :: "u8 list"

definition carries :: "feed \<Rightarrow> u8 \<Rightarrow> bool" where
  "carries F type_id \<longleftrightarrow> type_id \<in> set (CARRIES F)"

subsection \<open>Application messages (message.rs)\<close>

text \<open>
  The trait as a dictionary over the message type. \<open>validate\<close> defaults to \<open>Ok\<close> in the source
  (\<open>validate_ok\<close>). \<open>encode_into\<close> and \<open>stamp_channel_id\<close> write into a slice and panic when
  it is too short, hence the options. \<open>MSG_NAME\<close> is \<open>core::any::type_name\<close> of the message.
\<close>

record 'm app_message =
  TYPE_ID :: u8
  SIZE :: nat
  PORT_ROLES :: "port_role list"
  MSG_NAME :: string
  validate :: "'m \<Rightarrow> encode_error + unit"
  encode_into :: "'m \<Rightarrow> bytes \<Rightarrow> bytes option"
  stamp_channel_id :: "bytes \<Rightarrow> u8 \<Rightarrow> bytes option"

definition validate_ok :: "'m \<Rightarrow> encode_error + unit" where
  "validate_ok m = Inr ()"

definition stamp_nothing :: "bytes \<Rightarrow> u8 \<Rightarrow> bytes option" where
  "stamp_nothing dst channel_id = Some dst"

text \<open>The three checks every \<open>decode\<close> makes before it reads a field.\<close>

definition check_header :: "'m app_message \<Rightarrow> bytes \<Rightarrow> decode_error + unit" where
  "check_header M buf =
    (if length buf < SIZE M then Inl (ShortBuffer (SIZE M) (length buf))
     else if buf ! 0 \<noteq> TYPE_ID M then Inl (BadTypeId (buf ! 0))
     else if unat (buf ! 1) \<noteq> SIZE M
     then Inl (LengthMismatch (TYPE_ID M) (buf ! 1) (word_of_nat (SIZE M)))
     else Inr ())"

lemma check_header_Inr: "check_header M buf = Inr () \<longleftrightarrow>
    SIZE M \<le> length buf \<and> buf ! 0 = TYPE_ID M \<and> unat (buf ! 1) = SIZE M"
  by (auto simp: check_header_def)

definition u16_at :: "bytes \<Rightarrow> nat \<Rightarrow> u16" where "u16_at buf at = from_le [buf ! at, buf ! (at + 1)]"
definition u32_at :: "bytes \<Rightarrow> nat \<Rightarrow> u32" where "u32_at buf at = from_le (slice buf at (at + 4))"
definition u64_at :: "bytes \<Rightarrow> nat \<Rightarrow> u64" where "u64_at buf at = from_le (slice buf at (at + 8))"
definition i64_at :: "bytes \<Rightarrow> nat \<Rightarrow> i64" where "i64_at buf at = from_le (slice buf at (at + 8))"

text \<open>The four-byte message header the builder owns.\<close>

definition message_header :: "'m app_message \<Rightarrow> u16 \<Rightarrow> bytes" where
  "message_header M flags = [TYPE_ID M, word_of_nat (SIZE M)] @ to_le flags"

lemma length_message_header [simp]: "length (message_header M flags) = 4"
  by (simp add: message_header_def)

text \<open>Reading a field out of a frame built by concatenation: skip what is before it.\<close>

lemma slice_append_skip [wire_simps]:
  "length xs \<le> a \<Longrightarrow> slice (xs @ ys) a b = slice ys (a - length xs) (b - length xs)"
  by (auto simp: slice_def)

lemma slice_Cons_skip [wire_simps]:
  "0 < a \<Longrightarrow> slice (x # ys) a b = slice ys (a - 1) (b - 1)"
  by (cases a; cases b) (auto simp: slice_def)

lemma slice_append_here [wire_simps]: "length xs = n \<Longrightarrow> slice (xs @ ys) 0 n = xs"
  by (simp add: slice_def)

lemma slice_here [wire_simps]: "length xs = n \<Longrightarrow> slice xs 0 n = xs"
  by (simp add: slice_def)

lemma slice_two: "at + 2 \<le> length buf \<Longrightarrow> slice buf at (at + 2) = [buf ! at, buf ! (at + 1)]"
  by (simp add: slice_def take_Suc_conv_app_nth numeral_2_eq_2)

lemma slice_append_skip_len:
  "length xs \<le> at \<Longrightarrow> slice (xs @ ys) at (at + n) = slice ys (at - length xs) (at - length xs + n)"
  by (auto simp: slice_def)

lemma u16_at_append_skip [wire_simps]:
  "length xs \<le> at \<Longrightarrow> u16_at (xs @ ys) at = u16_at ys (at - length xs)"
  by (simp add: u16_at_def nth_append Suc_diff_le)

lemma u32_at_append_skip [wire_simps]:
  "length xs \<le> at \<Longrightarrow> u32_at (xs @ ys) at = u32_at ys (at - length xs)"
  by (simp only: u32_at_def slice_append_skip_len)

lemma u64_at_append_skip [wire_simps]:
  "length xs \<le> at \<Longrightarrow> u64_at (xs @ ys) at = u64_at ys (at - length xs)"
  by (simp only: u64_at_def slice_append_skip_len)

lemma i64_at_append_skip [wire_simps]:
  "length xs \<le> at \<Longrightarrow> i64_at (xs @ ys) at = i64_at ys (at - length xs)"
  by (simp only: i64_at_def slice_append_skip_len)

lemma read_Cons_skip [wire_simps]:
  "0 < at \<Longrightarrow> u16_at (x # ys) at = u16_at ys (at - 1)"
  "0 < at \<Longrightarrow> u32_at (x # ys) at = u32_at ys (at - 1)"
  "0 < at \<Longrightarrow> u64_at (x # ys) at = u64_at ys (at - 1)"
  "0 < at \<Longrightarrow> i64_at (x # ys) at = i64_at ys (at - 1)"
  by (simp_all add: u16_at_def u32_at_def u64_at_def i64_at_def slice_Cons_skip)

lemma list_of_two: "length xs = 2 \<Longrightarrow> [xs ! 0, xs ! 1] = xs"
  by (auto simp: numeral_2_eq_2 length_Suc_conv)

lemma read_here [wire_simps]:
  "u16_at (to_le w @ ys) 0 = w"
  "u32_at (to_le x @ ys) 0 = x"
  "u64_at (to_le y @ ys) 0 = y"
  "i64_at (to_le z @ ys) 0 = z"
proof -
  have "u16_at (to_le w @ ys) 0 = from_le [to_le w ! 0, to_le w ! 1]"
    by (simp add: u16_at_def nth_append)
  also have "\<dots> = from_le (to_le w)"
    by (simp only: list_of_two length_to_le_widths)
  finally show "u16_at (to_le w @ ys) 0 = w" by simp
qed (simp_all add: u32_at_def u64_at_def i64_at_def slice_append_here)

lemma nth_append_skip [wire_simps]: "length xs \<le> i \<Longrightarrow> (xs @ ys) ! i = ys ! (i - length xs)"
  by (simp add: nth_append)

lemma nth_Cons_skip [wire_simps]: "0 < i \<Longrightarrow> (x # ys) ! i = ys ! (i - 1)"
  by (cases i) auto

lemma check_header_frame:
  assumes "4 \<le> SIZE M" "SIZE M \<le> 255" "length b = SIZE M - 4"
  shows "check_header M (message_header M flags @ b @ rest) = Inr ()"
  using assms by (simp add: check_header_Inr message_header_def unat_of_nat)

subsection \<open>The message interface\<close>

text \<open>
  What the builder and the walk rely on. \<open>body ch m\<close> is the message after its four-byte header
  once the channel id \<open>ch\<close> is stamped into it (a message that carries none ignores \<open>ch\<close>);
  \<open>own_channel\<close> is the value the message itself writes there; \<open>wf\<close> is what the Rust type
  guarantees of the fields (array lengths). The laws: the size fits the \<open>u8\<close> length field,
  \<open>encode_into\<close> writes every byte of its slice whatever was there, and stamping changes the
  redundant channel id and nothing else.
\<close>

locale wire_message =
  fixes M :: "'m app_message"
    and body :: "u8 \<Rightarrow> 'm \<Rightarrow> bytes"
    and own_channel :: "'m \<Rightarrow> u8"
    and wf :: "'m \<Rightarrow> bool"
  assumes size_lo: "4 \<le> SIZE M"
    and size_hi: "SIZE M \<le> 255"
    and length_body: "wf m \<Longrightarrow> length (body ch m) = SIZE M - 4"
    and encode_law: "wf m \<Longrightarrow> length dst = SIZE M \<Longrightarrow>
      encode_into M m dst = Some (message_header M 0 @ body (own_channel m) m)"
    and stamp_law: "wf m \<Longrightarrow> length h = 4 \<Longrightarrow>
      stamp_channel_id M (h @ body c m) ch = Some (h @ body ch m)"
begin

lemma length_frame: "wf m \<Longrightarrow> length (message_header M flags @ body ch m) = SIZE M"
  using size_lo by (simp add: length_body)

lemma frame_declares_its_length:
  "wf m \<Longrightarrow> unat ((message_header M flags @ body ch m) ! 1) = SIZE M"
  using size_hi by (simp add: message_header_def unat_of_nat)

end

locale decodable_message = wire_message M body own_channel wf
  for M :: "'m app_message" and body own_channel wf +
  fixes decode :: "bytes \<Rightarrow> decode_error + 'm"
    and rechannel :: "u8 \<Rightarrow> 'm \<Rightarrow> 'm"
  assumes decode_law: "wf m \<Longrightarrow> validate M m = Inr () \<Longrightarrow>
      decode (message_header M flags @ body ch m @ rest) = Inr (rechannel ch m)"
    and rechannel_own: "rechannel (own_channel m) m = m"
    and decode_short: "length buf < SIZE M \<Longrightarrow> decode buf = Inl (ShortBuffer (SIZE M) (length buf))"
    and decode_other_type: "SIZE M \<le> length buf \<Longrightarrow> buf ! 0 \<noteq> TYPE_ID M \<Longrightarrow>
      decode buf = Inl (BadTypeId (buf ! 0))"
begin

lemma encode_decode:
  assumes "wf m" "validate M m = Inr ()" "length dst = SIZE M"
  shows "\<exists>buf. encode_into M m dst = Some buf \<and> length buf = SIZE M \<and> decode buf = Inr m"
  using assms encode_law [of m dst] length_frame [of m 0 "own_channel m"]
    decode_law [of m 0 "own_channel m" "[]"]
  by (simp add: rechannel_own)

end

end
