(* ===== verification/Datagram_Builder.thy ===== *)
theory Datagram_Builder
  imports Wire_Core
begin

section \<open>Packing messages into one datagram\<close>

text \<open>
  \<open>DatagramBuilder\<close> of \<open>datagram.rs\<close>. The feed type parameter is an argument, a message type is
  its dictionary, \<open>None\<close> is a panic (an \<open>assert!\<close> or a slice out of range) and every refusal is
  an \<open>Inl\<close> next to the builder it leaves. The lemmas inside \<open>wire_message\<close> give each operation
  in closed form for every message type that meets the interface.
\<close>

record builder =
  b_buf :: bytes
  b_port_role :: port_role
  b_channel_id :: u8
  b_sequence_number :: u64
  b_reset_count :: u8
  b_capacity :: nat
  b_msg_count :: u8

definition clamp_capacity :: "u16 \<Rightarrow> nat" where
  "clamp_capacity mtu = max DATAGRAM_HEADER_SIZE (min MAX_DATAGRAM_SIZE (unat mtu))"

definition builder_new :: "channel_sequence \<Rightarrow> port_role \<Rightarrow> u16 \<Rightarrow> builder" where
  "builder_new sequence port_role mtu =
     \<lparr>b_buf = replicate DATAGRAM_HEADER_SIZE 0, b_port_role = port_role,
      b_channel_id = cs_channel_id sequence,
      b_sequence_number = cs_sequence_number sequence,
      b_reset_count = cs_reset_count sequence,
      b_capacity = clamp_capacity mtu, b_msg_count = 0\<rparr>"

definition remaining :: "builder \<Rightarrow> nat" where
  "remaining b = b_capacity b - length (b_buf b)"

definition is_empty :: "builder \<Rightarrow> bool" where
  "is_empty b \<longleftrightarrow> b_msg_count b = 0"

type_synonym push_result = "(encode_error + unit) \<times> builder"

definition push_with_flags ::
    "'m app_message \<Rightarrow> 'm \<Rightarrow> u16 \<Rightarrow> builder \<Rightarrow> push_result option" where
  "push_with_flags M msg flags b =
    (if \<not> MSG_HEADER_SIZE \<le> SIZE M \<or> \<not> SIZE M \<le> 255 then None
     else if b_port_role b \<notin> set (PORT_ROLES M)
     then Some (Inl (WrongPortRole (MSG_NAME M) (port_role_as_str (b_port_role b))), b)
     else if b_msg_count b = 255 then Some (Inl (MessageCountExhausted 255), b)
     else if SIZE M > remaining b
     then Some (Inl (DatagramFull (length (b_buf b) + SIZE M) (b_capacity b)), b)
     else do {
       let start = length (b_buf b);
       buf \<leftarrow> on_slice start (start + SIZE M) (encode_into M msg)
                (b_buf b @ replicate (SIZE M) 0);
       buf \<leftarrow> put (start + 2) (to_le flags) buf;
       buf \<leftarrow> put start [TYPE_ID M] buf;
       buf \<leftarrow> put (start + 1) [word_of_nat (SIZE M)] buf;
       buf \<leftarrow> on_slice start (start + SIZE M) (\<lambda>s. stamp_channel_id M s (b_channel_id b)) buf;
       Some (Inr (), b\<lparr>b_buf := buf, b_msg_count := b_msg_count b + 1\<rparr>)
     })"

definition flags_for :: "port_role \<Rightarrow> u16" where
  "flags_for role = (if role = Snapshot then FLAG_SNAPSHOT else 0)"

definition push :: "feed \<Rightarrow> 'm app_message \<Rightarrow> 'm \<Rightarrow> builder \<Rightarrow> push_result option" where
  "push F M msg b =
    (if \<not> carries F (TYPE_ID M) then Some (Inl (NotCarriedByFeed (FEED_NAME F) (TYPE_ID M)), b)
     else case validate M msg of
       Inl e \<Rightarrow> Some (Inl e, b)
     | Inr _ \<Rightarrow> push_with_flags M msg (flags_for (b_port_role b)) b)"

definition push_pair ::
    "feed \<Rightarrow> 'a app_message \<Rightarrow> 'a \<Rightarrow> 'b app_message \<Rightarrow> 'b \<Rightarrow> builder \<Rightarrow> push_result option" where
  "push_pair F A first B second b = do {
     let len = length (b_buf b);
     let msg_count = b_msg_count b;
     (r1, b1) \<leftarrow> push F A first b;
     case r1 of
       Inl e \<Rightarrow> Some (Inl e, b1)
     | Inr _ \<Rightarrow> do {
         (r2, b2) \<leftarrow> push F B second b1;
         case r2 of
           Inl refused \<Rightarrow>
             Some (Inl refused, b2\<lparr>b_buf := take len (b_buf b2), b_msg_count := msg_count\<rparr>)
         | Inr _ \<Rightarrow> Some (Inr (), b2)
       }
   }"

definition header_writes :: "feed \<Rightarrow> u64 \<Rightarrow> builder \<Rightarrow> (nat \<times> bytes) list" where
  "header_writes F send_timestamp_ns b =
     [(0, to_le (MAGIC F)),
      (2, [SCHEMA_VERSION]),
      (3, [b_channel_id b]),
      (4, to_le (b_sequence_number b)),
      (12, to_le send_timestamp_ns),
      (20, [b_msg_count b]),
      (21, [b_reset_count b]),
      (22, to_le (word_of_nat (length (b_buf b)) :: u16))]"

definition finish :: "feed \<Rightarrow> u64 \<Rightarrow> builder \<Rightarrow> bytes option option" where
  "finish F send_timestamp_ns b =
    (if b_msg_count b = 0 then Some None
     else map_option Some (write_all (header_writes F send_timestamp_ns b) (b_buf b)))"

subsection \<open>The builder's invariant\<close>

text \<open>
  A builder holds a blank header and a list of frames, each of which declares its own length;
  \<open>Message Count\<close> counts them and the capacity bounds the bytes.
\<close>

definition well_framed :: "bytes \<Rightarrow> bool" where
  "well_framed m \<longleftrightarrow> 4 \<le> length m \<and> unat (m ! 1) = length m"

definition builder_inv :: "builder \<Rightarrow> bytes list \<Rightarrow> bool" where
  "builder_inv b ms \<longleftrightarrow>
     b_buf b = replicate 24 0 @ concat ms \<and> list_all well_framed ms \<and>
     unat (b_msg_count b) = length ms \<and>
     length (b_buf b) \<le> b_capacity b \<and> b_capacity b \<le> 1232"

lemma builder_inv_fits: "builder_inv b ms \<Longrightarrow> length (b_buf b) \<le> b_capacity b"
  unfolding builder_inv_def by blast

definition append_frame :: "bytes \<Rightarrow> builder \<Rightarrow> builder" where
  "append_frame f b = b\<lparr>b_buf := b_buf b @ f, b_msg_count := b_msg_count b + 1\<rparr>"

lemma append_frame_simps [simp]:
  "b_buf (append_frame f b) = b_buf b @ f"
  "b_msg_count (append_frame f b) = b_msg_count b + 1"
  "b_port_role (append_frame f b) = b_port_role b"
  "b_channel_id (append_frame f b) = b_channel_id b"
  "b_sequence_number (append_frame f b) = b_sequence_number b"
  "b_reset_count (append_frame f b) = b_reset_count b"
  "b_capacity (append_frame f b) = b_capacity b"
  by (simp_all add: append_frame_def)

lemma clamp_capacity_bounds: "24 \<le> clamp_capacity mtu" "clamp_capacity mtu \<le> 1232"
  by (simp_all add: clamp_capacity_def DATAGRAM_HEADER_SIZE_def MAX_DATAGRAM_SIZE_def)

lemma builder_new_inv: "builder_inv (builder_new s role mtu) []"
  using clamp_capacity_bounds [of mtu]
  by (simp add: builder_inv_def builder_new_def DATAGRAM_HEADER_SIZE_def)

text \<open>The reason \<open>push\<close> refuses a message, if it does: the checks in the code's order.\<close>

definition push_refusal :: "feed \<Rightarrow> 'm app_message \<Rightarrow> 'm \<Rightarrow> builder \<Rightarrow> encode_error option" where
  "push_refusal F M msg b =
    (if \<not> carries F (TYPE_ID M) then Some (NotCarriedByFeed (FEED_NAME F) (TYPE_ID M))
     else case validate M msg of
       Inl e \<Rightarrow> Some e
     | Inr _ \<Rightarrow>
        (if b_port_role b \<notin> set (PORT_ROLES M)
         then Some (WrongPortRole (MSG_NAME M) (port_role_as_str (b_port_role b)))
         else if b_msg_count b = 255 then Some (MessageCountExhausted 255)
         else if length (b_buf b) + SIZE M > b_capacity b \<and> SIZE M > 0
         then Some (DatagramFull (length (b_buf b) + SIZE M) (b_capacity b))
         else None))"

lemma put_at: "put (length xs) bs (xs @ replicate (length bs) 0 @ ys) = Some (xs @ bs @ ys)"
  by (simp add: put_def)

lemma on_slice_tail:
  "length s = n \<Longrightarrow> on_slice (length xs) (length xs + n) f (xs @ s) = map_option ((@) xs) (f s)"
  by (cases "f s") (simp_all add: on_slice_def slice_def)

lemma put_tail: "put (length xs + k) bs (xs @ s) = map_option ((@) xs) (put k bs s)"
  by (auto simp: put_def)

lemma put_tail0: "put (length xs) bs (xs @ s) = map_option ((@) xs) (put 0 bs s)"
  using put_tail [of xs 0 bs s] by simp

context wire_message
begin

lemma push_with_flags_append:
  assumes "wf m" "b_port_role b \<in> set (PORT_ROLES M)" "b_msg_count b \<noteq> 255"
    and "length (b_buf b) + SIZE M \<le> b_capacity b"
  shows "push_with_flags M m flags b =
    Some (Inr (), append_frame (message_header M flags @ body (b_channel_id b) m) b)"
proof -
  let ?s = "length (b_buf b)" and ?body = "\<lambda>ch. body ch m"
  have enc: "on_slice ?s (?s + SIZE M) (encode_into M m) (b_buf b @ replicate (SIZE M) 0) =
      Some (b_buf b @ message_header M 0 @ ?body (own_channel m))"
    using encode_law [OF assms(1), of "replicate (SIZE M) 0"] by (simp add: on_slice_tail)
  have hdr: "put 2 (to_le flags) (message_header M 0 @ x) =
      Some ([TYPE_ID M, word_of_nat (SIZE M)] @ to_le flags @ x)" for x
    by (simp add: put_def message_header_def)
  have fixed: "put 0 [TYPE_ID M] ([TYPE_ID M, w] @ y) = Some ([TYPE_ID M, w] @ y)"
    "put 1 [w] ([TYPE_ID M, w] @ y) = Some ([TYPE_ID M, w] @ y)" for w y
    by (simp_all add: put_def)
  have stamp: "stamp_channel_id M ([TYPE_ID M, word_of_nat (SIZE M)] @ to_le flags @
      ?body (own_channel m)) (b_channel_id b) =
      Some (message_header M flags @ ?body (b_channel_id b))"
    using stamp_law [OF assms(1), of "message_header M flags"] by (simp add: message_header_def)
  have len: "length ([TYPE_ID M, word_of_nat (SIZE M)] @ to_le flags @ ?body (own_channel m)) =
      SIZE M"
    using size_lo length_body [OF assms(1)] by simp
  note steps = enc put_tail put_tail0 hdr fixed on_slice_tail [OF len] stamp
  have "\<not> SIZE M > remaining b" "MSG_HEADER_SIZE \<le> SIZE M"
    using assms(4) size_lo by (simp_all add: remaining_def MSG_HEADER_SIZE_def)
  then show ?thesis
    using assms(2,3) size_hi
    by (simp only: push_with_flags_def Let_def steps option.map bind.bind_lunit append_frame_def
        if_False if_True not_False_eq_True not_True_eq_False disj_not1 simp_thms)
qed

lemma push_closed:
  assumes "wf m"
  shows "push F M m b = Some (case push_refusal F M m b of
      Some e \<Rightarrow> (Inl e, b)
    | None \<Rightarrow> (Inr (), append_frame
        (message_header M (flags_for (b_port_role b)) @ body (b_channel_id b) m) b))"
proof (cases "push_refusal F M m b")
  case None
  then have "push F M m b = push_with_flags M m (flags_for (b_port_role b)) b"
    and "b_port_role b \<in> set (PORT_ROLES M)" "b_msg_count b \<noteq> 255"
      "length (b_buf b) + SIZE M \<le> b_capacity b"
    using size_lo by (auto simp: push_refusal_def push_def split: sum.splits if_splits)
  then show ?thesis using None push_with_flags_append [OF assms] by simp
next
  case (Some e)
  then show ?thesis
    using size_lo size_hi
    by (auto simp: push_refusal_def push_def push_with_flags_def remaining_def MSG_HEADER_SIZE_def
        split: sum.splits if_splits)
qed

lemma push_frame_well_framed: "wf m \<Longrightarrow> well_framed (message_header M flags @ body ch m)"
  using size_lo length_frame frame_declares_its_length by (simp add: well_framed_def)

lemma push_accept_inv:
  assumes "wf m" "builder_inv b ms" "push_refusal F M m b = None"
  shows "builder_inv (append_frame (message_header M flags @ body ch m) b)
           (ms @ [message_header M flags @ body ch m])"
proof -
  have n255: "b_msg_count b \<noteq> 255" and cap: "length (b_buf b) + SIZE M \<le> b_capacity b"
    using assms(3) size_lo by (auto simp: push_refusal_def split: sum.splits if_splits)
  have "unat (b_msg_count b + 1) = unat (b_msg_count b) + 1"
    using n255 unat_u8_bound [of "b_msg_count b"]
    by (auto simp: unat_word_ariths word_unat_eq_iff)
  then show ?thesis
    using assms(2) cap length_frame [OF assms(1)] push_frame_well_framed [OF assms(1)]
    by (simp add: builder_inv_def)
qed

end

subsection \<open>Finishing\<close>

lemma contiguous_header_writes: "contiguous 0 (header_writes F ts b)"
  by (simp add: header_writes_def)

lemma length_header_bytes: "length (written (header_writes F ts b)) = 24"
  by (simp add: header_writes_def)

lemma finish_closed:
  assumes "builder_inv b ms" "ms \<noteq> []"
  shows "finish F ts b = Some (Some (written (header_writes F ts b) @ concat ms))"
proof -
  have buf: "b_buf b = replicate 24 0 @ concat ms"
    and "unat (b_msg_count b) = length ms"
    using assms(1) by (simp_all add: builder_inv_def)
  then have "b_msg_count b \<noteq> 0"
    using assms(2) by auto
  then show ?thesis
    using write_all_contiguous [OF contiguous_header_writes, of F ts b "b_buf b"]
    by (simp add: finish_def buf length_header_bytes)
qed

lemma finish_empty: "b_msg_count b = 0 \<Longrightarrow> finish F ts b = Some None"
  by (simp add: finish_def)

lemma concat_frames_bound: "builder_inv b ms \<Longrightarrow> 24 + length (concat ms) \<le> 1232"
  by (auto simp: builder_inv_def)

subsection \<open>Pairs\<close>

text \<open>
  A pair is pushed whole or not at all: on a refusal of either message the builder is the one
  the call found.
\<close>

lemma restore_append_frame:
  "(append_frame f b)\<lparr>b_buf := take (length (b_buf b)) (b_buf (append_frame f b)),
     b_msg_count := b_msg_count b\<rparr> = b"
  by (simp add: append_frame_def)

lemma push_pair_closed:
  assumes "wire_message A bodyA ownA wfA" "wire_message B bodyB ownB wfB"
    and "wfA x" "wfB y"
    and fx: "fx = message_header A (flags_for (b_port_role b)) @ bodyA (b_channel_id b) x"
    and fy: "fy = message_header B (flags_for (b_port_role b)) @ bodyB (b_channel_id b) y"
  shows "push_pair F A x B y b = Some (case push_refusal F A x b of
      Some e \<Rightarrow> (Inl e, b)
    | None \<Rightarrow> (case push_refusal F B y (append_frame fx b) of
        Some e \<Rightarrow> (Inl e, b)
      | None \<Rightarrow> (Inr (), append_frame fy (append_frame fx b))))"
  using restore_append_frame [where f = fx and b = b]
  by (simp add: push_pair_def Let_def wire_message.push_closed [OF assms(1,3)]
      wire_message.push_closed [OF assms(2,4)] fx fy split: option.split)

end
