(* ===== verification/Datagram_Walk.thy ===== *)
theory Datagram_Walk
  imports Datagram_Builder "HOL-Library.Sublist"
begin

section \<open>Walking the messages of a received datagram\<close>

text \<open>
  \<open>walk.rs\<close>: the subscriber's side. \<open>validate_messages\<close> is the pre-walk, as the loop over what
  is left of Message Count; \<open>datagram_decode\<close> is \<open>Datagram::decode\<close>; \<open>messages_next\<close> is
  \<open>Messages::next\<close>, whose outer \<open>None\<close> is an index out of range (the panic the comments promise
  cannot happen, proved below) and whose inner \<open>None\<close> is the end of the iteration.
\<close>

fun validate_from :: "bytes \<Rightarrow> nat \<Rightarrow> nat \<Rightarrow> nat \<Rightarrow> decode_error + nat" where
  "validate_from messages 0 offset found = Inr found"
| "validate_from messages (Suc left) offset found =
    (let remaining = length messages - offset in
     if remaining = 0 then Inr found
     else if remaining < MSG_HEADER_SIZE
     then Inl (MessageHeaderTruncated (DATAGRAM_HEADER_SIZE + offset) remaining)
     else let declared = messages ! (offset + 1) in
     if unat declared < MSG_HEADER_SIZE
     then Inl (MessageTooShort (DATAGRAM_HEADER_SIZE + offset) declared)
     else if unat declared > remaining
     then Inl (MessageOverrunsDatagram (DATAGRAM_HEADER_SIZE + offset) declared remaining)
     else validate_from messages left (offset + unat declared) (found + 1))"

definition validate_messages :: "bytes \<Rightarrow> nat \<Rightarrow> decode_error + nat" where
  "validate_messages messages msg_count = validate_from messages msg_count 0 0"

record datagram =
  dg_header :: datagram_header
  dg_messages :: bytes

definition datagram_decode :: "bytes \<Rightarrow> u16 \<Rightarrow> decode_error + datagram" where
  "datagram_decode buf expected_magic =
     bind_ok (header_decode buf) (\<lambda>header.
     if hdr_magic header \<noteq> expected_magic
     then Inl (MagicMismatch expected_magic (hdr_magic header))
     else if hdr_msg_count header = 0 then Inl EmptyDatagram
     else let messages = slice buf DATAGRAM_HEADER_SIZE (unat (hdr_datagram_len header)) in
     bind_ok (validate_messages messages (unat (hdr_msg_count header))) (\<lambda>found.
     if found \<noteq> unat (hdr_msg_count header)
     then Inl (MessageCountMismatch (hdr_msg_count header) found)
     else Inr \<lparr>dg_header = header, dg_messages = messages\<rparr>))"

record message_ref =
  mr_type_id :: u8
  mr_flags :: u16
  mr_bytes :: bytes

record messages_iter =
  it_messages :: bytes
  it_offset :: nat
  it_remaining_count :: nat

definition messages :: "datagram \<Rightarrow> messages_iter" where
  "messages d = \<lparr>it_messages = dg_messages d, it_offset = 0,
     it_remaining_count = unat (hdr_msg_count (dg_header d))\<rparr>"

definition messages_next :: "messages_iter \<Rightarrow> (message_ref \<times> messages_iter) option option" where
  "messages_next it =
    (if it_remaining_count it = 0 then Some None
     else if length (it_messages it) \<le> it_offset it + 1 then None
     else let declared = unat (it_messages it ! (it_offset it + 1)) in
     if length (it_messages it) < it_offset it + declared then None
     else let bs = slice (it_messages it) (it_offset it) (it_offset it + declared) in
     if length bs \<le> 3 then None
     else Some (Some (\<lparr>mr_type_id = bs ! 0, mr_flags = from_le [bs ! 2, bs ! 3], mr_bytes = bs\<rparr>,
            it\<lparr>it_offset := it_offset it + declared,
               it_remaining_count := it_remaining_count it - 1\<rparr>)))"

text \<open>The caller's loop: every message in order, \<open>None\<close> when an access panics.\<close>

function collect :: "messages_iter \<Rightarrow> message_ref list option" where
  "collect it = (case messages_next it of
       None \<Rightarrow> None
     | Some None \<Rightarrow> Some []
     | Some (Some (m, it')) \<Rightarrow> map_option ((#) m) (collect it'))"
  by pat_completeness auto
termination
  by (relation "measure it_remaining_count")
    (auto simp: messages_next_def Let_def split: if_splits)

declare collect.simps [simp del]

definition message_ref_of :: "bytes \<Rightarrow> message_ref" where
  "message_ref_of f = \<lparr>mr_type_id = f ! 0, mr_flags = from_le [f ! 2, f ! 3], mr_bytes = f\<rparr>"

lemma mr_bytes_of [simp]: "mr_bytes (message_ref_of f) = f"
  by (simp add: message_ref_of_def)

subsection \<open>What the pre-walk accepts\<close>

text \<open>
  The pre-walk accepts a region from an offset on exactly when the region is, from there, a
  sequence of well-framed messages and then padding.
\<close>

lemma slice_drop: "slice buf a (a + n) = take n (drop a buf)"
  by (simp add: slice_def)

lemma slice_well_framed:
  assumes "4 \<le> unat (buf ! (a + 1))" "a + unat (buf ! (a + 1)) \<le> length buf"
  shows "well_framed (slice buf a (a + unat (buf ! (a + 1))))"
  using assms by (simp add: well_framed_def slice_drop)

lemma validate_from_frames:
  "validate_from msgs n off found = Inr (found + n) \<Longrightarrow> off \<le> length msgs \<Longrightarrow>
   \<exists>fs pad. drop off msgs = concat fs @ pad \<and> length fs = n \<and> list_all well_framed fs"
proof (induction msgs n off found rule: validate_from.induct)
  case (1 msgs off found)
  show ?case by (intro exI [of _ "[]"] exI [of _ "drop off msgs"]) simp
next
  case (2 msgs n off found)
  let ?d = "unat (msgs ! (off + 1))" and ?f = "slice msgs off (off + unat (msgs ! (off + 1)))"
  have steps: "4 \<le> length msgs - off" "4 \<le> ?d" "?d \<le> length msgs - off"
    "validate_from msgs n (off + ?d) (found + 1) = Inr (found + 1 + n)"
    using "2.prems"(1) by (auto simp: Let_def MSG_HEADER_SIZE_def split: if_splits)
  then obtain fs pad where fs: "drop (off + ?d) msgs = concat fs @ pad" "length fs = n"
      "list_all well_framed fs"
    using "2.IH" [OF refl _ _ refl] "2.prems"(2)
    by (auto simp: MSG_HEADER_SIZE_def le_diff_conv2 not_less add.commute)
  have "drop off msgs = ?f @ drop (off + ?d) msgs"
    by (metis add.commute append_take_drop_id drop_drop slice_drop)
  moreover have "well_framed ?f"
    using steps by (intro slice_well_framed) auto
  ultimately show ?case
    using fs by (intro exI [of _ "?f # fs"] exI [of _ pad]) auto
qed

lemma well_framedD:
  assumes "well_framed f"
  shows "4 \<le> length f" "(f @ ys) ! Suc 0 = f ! 1" "unat (f ! Suc 0) = length f"
  using assms by (auto simp: well_framed_def nth_append)

lemma validate_from_accepts:
  "list_all well_framed fs \<Longrightarrow>
   validate_from (pre @ concat fs @ pad) (length fs) (length pre) found = Inr (found + length fs)"
proof (induction fs arbitrary: pre found)
  case Nil
  then show ?case by simp
next
  case (Cons f fs)
  have f: "4 \<le> length f" "unat (f ! Suc 0) = length f"
    using Cons.prems by (auto dest: well_framedD)
  have at: "(pre @ concat (f # fs) @ pad) ! (length pre + 1) = f ! 1"
    using f(1) by (simp add: nth_append)
  have "validate_from ((pre @ f) @ concat fs @ pad) (length fs) (length (pre @ f)) (found + 1) =
      Inr (found + 1 + length fs)"
    using Cons.prems by (intro Cons.IH) simp
  then show ?case
    using f at f(1) by (auto simp: Let_def MSG_HEADER_SIZE_def)
qed

subsection \<open>The iterator never panics on what the pre-walk accepted\<close>

lemma collect_frames:
  "list_all well_framed fs \<Longrightarrow>
   collect \<lparr>it_messages = pre @ concat fs @ pad, it_offset = length pre,
     it_remaining_count = length fs\<rparr> = Some (map message_ref_of fs)"
proof (induction fs arbitrary: pre)
  case Nil
  then show ?case by (simp add: collect.simps messages_next_def)
next
  case (Cons f fs)
  let ?it = "\<lparr>it_messages = pre @ concat (f # fs) @ pad, it_offset = length pre,
     it_remaining_count = length (f # fs)\<rparr>"
  let ?it' = "\<lparr>it_messages = (pre @ f) @ concat fs @ pad, it_offset = length (pre @ f),
     it_remaining_count = length fs\<rparr>"
  have f: "4 \<le> length f" "unat (f ! Suc 0) = length f"
    using Cons.prems by (auto dest: well_framedD)
  have at: "(pre @ f @ concat fs @ pad) ! (length pre + 1) = f ! 1"
    using f(1) by (simp add: nth_append)
  have "messages_next ?it = Some (Some (message_ref_of f, ?it'))"
    using f at by (simp add: messages_next_def Let_def slice_drop message_ref_of_def)
  moreover have "collect ?it' = Some (map message_ref_of fs)"
    using Cons.prems by (intro Cons.IH) simp
  ultimately show ?case by (subst collect.simps) simp
qed

subsection \<open>Decoding as a whole\<close>

lemma datagram_decode_header:
  "datagram_decode buf magic = Inr d \<Longrightarrow> header_decode buf = Inr (dg_header d) \<and>
     hdr_magic (dg_header d) = magic \<and> hdr_msg_count (dg_header d) \<noteq> 0 \<and>
     dg_messages d = slice buf 24 (unat (hdr_datagram_len (dg_header d)))"
  by (auto simp: datagram_decode_def Let_def DATAGRAM_HEADER_SIZE_def split: if_splits)

lemma datagram_decode_frames:
  assumes "datagram_decode buf magic = Inr d"
  shows "\<exists>fs pad. dg_messages d = concat fs @ pad \<and> list_all well_framed fs \<and>
     length fs = unat (hdr_msg_count (dg_header d)) \<and>
     collect (messages d) = Some (map message_ref_of fs)"
proof -
  let ?n = "unat (hdr_msg_count (dg_header d))"
  have "validate_messages (dg_messages d) ?n = Inr ?n"
    using assms by (auto simp: datagram_decode_def Let_def split: if_splits)
  then obtain fs pad where "dg_messages d = concat fs @ pad" "length fs = ?n"
      "list_all well_framed fs"
    using validate_from_frames [of "dg_messages d" ?n 0 0] by (auto simp: validate_messages_def)
  then show ?thesis
    using collect_frames [of fs "[]" pad] by (auto simp: messages_def)
qed

lemma unat_word16_of_small: "n \<le> 1232 \<Longrightarrow> unat (word_of_nat n :: u16) = n"
  by (simp add: unat_of_nat)

lemma header_decode_written:
  assumes "length (b_buf b) = 24 + length rest" "24 + length rest \<le> 1232"
  shows "header_decode (written (header_writes F ts b) @ rest) =
    Inr \<lparr>hdr_magic = MAGIC F, hdr_schema_version = 3, hdr_channel_id = b_channel_id b,
         hdr_sequence_number = b_sequence_number b, hdr_send_timestamp_ns = ts,
         hdr_msg_count = b_msg_count b, hdr_reset_count = b_reset_count b,
         hdr_datagram_len = word_of_nat (24 + length rest)\<rparr>"
proof -
  let ?len = "to_le (word_of_nat (length (b_buf b)) :: u16)"
  let ?w = "written (header_writes F ts b) @ rest"
  have two: "to_le (w :: u16) = [to_le w ! 0, to_le w ! 1]" for w
    by (simp only: list_of_two length_to_le_widths)
  have flat: "?w = to_le (MAGIC F) @ [SCHEMA_VERSION, b_channel_id b] @
      to_le (b_sequence_number b) @ to_le ts @ [b_msg_count b, b_reset_count b] @ ?len @ rest"
    by (simp add: header_writes_def)
  have reads: "[?w ! 0, ?w ! 1] = to_le (MAGIC F)" "[?w ! 22, ?w ! 23] = ?len"
    "?w ! 2 = SCHEMA_VERSION" "?w ! 3 = b_channel_id b" "?w ! 20 = b_msg_count b"
    "?w ! 21 = b_reset_count b" "slice ?w 4 12 = to_le (b_sequence_number b)"
    "slice ?w 12 20 = to_le ts"
    unfolding flat using two by (simp_all add: wire_simps nth_append)
  have len: "declared_len_at ?w = 24 + length rest"
    using assms by (simp only: declared_len_at_def reads from_to_le_widths unat_word16_of_small)
  have "length ?w = 24 + length rest"
    by (simp add: length_header_bytes)
  then show ?thesis
    using assms(2) by (simp only: header_decode_def len reads Let_def from_to_le_widths)
      (simp add: wire_constants)
qed

text \<open>What a builder finishes, the subscriber decodes: the header fields and exactly the frames.\<close>

lemma finish_decodes:
  assumes "builder_inv b ms" "ms \<noteq> []"
  shows "\<exists>buf d. finish F ts b = Some (Some buf) \<and> length buf = length (b_buf b) \<and>
    datagram_decode buf (MAGIC F) = Inr d \<and> collect (messages d) = Some (map message_ref_of ms) \<and>
    dg_header d = \<lparr>hdr_magic = MAGIC F, hdr_schema_version = 3, hdr_channel_id = b_channel_id b,
         hdr_sequence_number = b_sequence_number b, hdr_send_timestamp_ns = ts,
         hdr_msg_count = b_msg_count b, hdr_reset_count = b_reset_count b,
         hdr_datagram_len = word_of_nat (length (b_buf b))\<rparr>"
proof -
  let ?buf = "written (header_writes F ts b) @ concat ms"
  have len: "length (b_buf b) = 24 + length (concat ms)" "24 + length (concat ms) \<le> 1232"
    and ms: "list_all well_framed ms" and n: "unat (b_msg_count b) = length ms"
    using assms(1) concat_frames_bound [OF assms(1)] by (simp_all add: builder_inv_def)
  define h where "h = \<lparr>hdr_magic = MAGIC F, hdr_schema_version = 3 :: u8,
      hdr_channel_id = b_channel_id b,
      hdr_sequence_number = b_sequence_number b, hdr_send_timestamp_ns = ts,
      hdr_msg_count = b_msg_count b, hdr_reset_count = b_reset_count b,
      hdr_datagram_len = (word_of_nat (24 + length (concat ms)) :: u16)\<rparr>"
  have header: "header_decode ?buf = Inr h"
    using header_decode_written [OF len] by (simp only: h_def)
  have region: "slice ?buf 24 (unat (hdr_datagram_len h)) = concat ms"
    using len(2) by (simp add: h_def unat_word16_of_small slice_def length_header_bytes
        del: of_nat_add)
  have "b_msg_count b \<noteq> 0"
    using n assms(2) by auto
  moreover have "validate_messages (concat ms) (unat (b_msg_count b)) = Inr (unat (b_msg_count b))"
    using validate_from_accepts [OF ms, of "[]" "[]" 0] by (simp add: validate_messages_def n)
  ultimately have dec: "datagram_decode ?buf (MAGIC F) =
      Inr \<lparr>dg_header = h, dg_messages = concat ms\<rparr>"
    by (simp add: datagram_decode_def header Let_def DATAGRAM_HEADER_SIZE_def region)
      (simp add: h_def)
  have "collect (messages \<lparr>dg_header = h, dg_messages = concat ms\<rparr>) = Some (map message_ref_of ms)"
    using collect_frames [OF ms, of "[]" "[]"] by (simp add: messages_def h_def n)
  then show ?thesis
    using finish_closed [OF assms, of F ts] dec
    by (intro exI [of _ ?buf] exI [of _ "\<lparr>dg_header = h, dg_messages = concat ms\<rparr>"])
      (simp add: h_def len length_header_bytes)
qed

text \<open>
  C17. A datagram that decodes is walked to the end without a panic: the iterator yields exactly
  Message Count messages, at least one, each declaring its own length, back to back from the end
  of the header and inside the declared length, and the magic is the expected one.
\<close>

theorem decoded_walk_total:
  "(case datagram_decode buf magic of
      Inl e \<Rightarrow> True
    | Inr d \<Rightarrow> (case collect (messages d) of
        None \<Rightarrow> False
      | Some ms \<Rightarrow>
          hdr_magic (dg_header d) = magic \<and>
          length ms = unat (hdr_msg_count (dg_header d)) \<and> ms \<noteq> [] \<and>
          list_all (\<lambda>m. well_framed (mr_bytes m)) ms \<and>
          unat (hdr_datagram_len (dg_header d)) \<le> length buf \<and>
          prefix (concat (map mr_bytes ms)) (slice buf 24 (unat (hdr_datagram_len (dg_header d))))))"
proof (cases "datagram_decode buf magic")
  case (Inr d)
  obtain fs pad where fs: "dg_messages d = concat fs @ pad" "list_all well_framed fs"
      "length fs = unat (hdr_msg_count (dg_header d))"
      "collect (messages d) = Some (map message_ref_of fs)"
    using datagram_decode_frames [OF Inr] by blast
  note h = datagram_decode_header [OF Inr]
  have "concat (map mr_bytes (map message_ref_of fs)) = concat fs"
    by (simp add: comp_def)
  moreover have "fs \<noteq> []"
    using fs(3) h by (auto simp: unat_eq_zero)
  moreover have "unat (hdr_datagram_len (dg_header d)) \<le> length buf"
    using h by (simp add: header_decode_peek)
  ultimately show ?thesis
    using fs h by (auto simp: Inr list_all_length)
qed simp

text \<open>
  C16. What \<open>decode\<close> accepts is exactly: a readable header of a supported version and a declared
  length in range, the expected magic, a non-zero Message Count, and a message region that is
  that many well-framed messages followed by any padding.
\<close>

theorem decode_accepts_exactly:
  "(\<exists>d. datagram_decode buf magic = Inr d) \<longleftrightarrow>
   (\<exists>h fs pad. header_decode buf = Inr h \<and> hdr_magic h = magic \<and> hdr_msg_count h \<noteq> 0 \<and>
      slice buf 24 (unat (hdr_datagram_len h)) = concat fs @ pad \<and>
      list_all well_framed fs \<and> length fs = unat (hdr_msg_count h))"
proof
  assume "\<exists>d. datagram_decode buf magic = Inr d"
  then obtain d where d: "datagram_decode buf magic = Inr d" ..
  from datagram_decode_frames [OF d] datagram_decode_header [OF d]
  show "\<exists>h fs pad. header_decode buf = Inr h \<and> hdr_magic h = magic \<and> hdr_msg_count h \<noteq> 0 \<and>
      slice buf 24 (unat (hdr_datagram_len h)) = concat fs @ pad \<and>
      list_all well_framed fs \<and> length fs = unat (hdr_msg_count h)"
    by metis
next
  assume "\<exists>h fs pad. header_decode buf = Inr h \<and> hdr_magic h = magic \<and> hdr_msg_count h \<noteq> 0 \<and>
      slice buf 24 (unat (hdr_datagram_len h)) = concat fs @ pad \<and>
      list_all well_framed fs \<and> length fs = unat (hdr_msg_count h)"
  then obtain h fs pad where h: "header_decode buf = Inr h" "hdr_magic h = magic"
      "hdr_msg_count h \<noteq> 0"
    and fs: "slice buf 24 (unat (hdr_datagram_len h)) = concat fs @ pad" "list_all well_framed fs"
      "length fs = unat (hdr_msg_count h)"
    by blast
  have "validate_messages (concat fs @ pad) (unat (hdr_msg_count h)) = Inr (unat (hdr_msg_count h))"
    using validate_from_accepts [OF fs(2), of "[]" pad 0] fs(3) by (simp add: validate_messages_def)
  then show "\<exists>d. datagram_decode buf magic = Inr d"
    using h fs(1) by (simp add: datagram_decode_def DATAGRAM_HEADER_SIZE_def)
qed

end
