(* ===== verification/Messages_Shared.thy ===== *)
theory Messages_Shared
  imports Datagram_Builder
begin

section \<open>Messages every feed shares: Heartbeat, EndOfSession\<close>

text \<open>
  \<open>heartbeat.rs\<close> and \<open>end_of_session.rs\<close> of \<open>dz-edge-core\<close>: the two messages every feed
  carries, each with its record, its encoder, its decoder and its proof that it meets the
  message interface of \<open>Wire_Core\<close>.
\<close>

subsection \<open>Heartbeat\<close>

record heartbeat =
  hb_channel_id :: u8
  hb_timestamp_ns :: u64

definition heartbeat_encode_into :: "heartbeat \<Rightarrow> bytes \<Rightarrow> bytes option" where
  "heartbeat_encode_into m dst = write_all
     [(0, [TYPE_HEARTBEAT]),
      (1, [word_of_nat SIZE_HEARTBEAT]),
      (2, to_le (0 :: u16)),
      (4, [hb_channel_id m]),
      (5, [0, 0, 0]),
      (8, to_le (hb_timestamp_ns m))] dst"

definition heartbeat_stamp_channel_id :: "bytes \<Rightarrow> u8 \<Rightarrow> bytes option" where
  "heartbeat_stamp_channel_id dst channel_id = put 4 [channel_id] dst"

definition heartbeat_message :: "heartbeat app_message" where
  "heartbeat_message =
     \<lparr>TYPE_ID = TYPE_HEARTBEAT, SIZE = SIZE_HEARTBEAT, PORT_ROLES = [Mktdata],
      MSG_NAME = ''dz_edge_core::heartbeat::Heartbeat'',
      validate = validate_ok, encode_into = heartbeat_encode_into,
      stamp_channel_id = heartbeat_stamp_channel_id\<rparr>"

definition heartbeat_decode :: "bytes \<Rightarrow> decode_error + heartbeat" where
  "heartbeat_decode buf = bind_ok (check_header heartbeat_message buf) (\<lambda>_.
     Inr \<lparr>hb_channel_id = buf ! 4,
          hb_timestamp_ns = u64_at buf 8\<rparr>)"

definition heartbeat_body :: "u8 \<Rightarrow> heartbeat \<Rightarrow> bytes" where
  "heartbeat_body ch m = [ch] @ [0, 0, 0] @ to_le (hb_timestamp_ns m)"

lemmas heartbeat_defs =
  heartbeat_message_def heartbeat_body_def TYPE_HEARTBEAT_def SIZE_HEARTBEAT_def

interpretation hb: decodable_message heartbeat_message heartbeat_body hb_channel_id "\<lambda>_. True"
    heartbeat_decode "\<lambda>ch m. m\<lparr>hb_channel_id := ch\<rparr>"
proof (unfold_locales, goal_cases)
  case (4 m dst)
  then show ?case
    by (simp add: heartbeat_defs heartbeat_encode_into_def write_all_exact message_header_def)
next
  case (5 m h c ch)
  then show ?case
    by (simp add: heartbeat_defs heartbeat_stamp_channel_id_def put_def)
next
  case (6 m flags ch rest)
  have "check_header heartbeat_message
      (message_header heartbeat_message flags @ heartbeat_body ch m @ rest) = Inr ()"
    by (rule check_header_frame) (simp_all add: heartbeat_defs)
  then show ?case
    by (simp add: heartbeat_decode_def heartbeat_body_def wire_simps)
qed (simp_all add: heartbeat_defs heartbeat_decode_def check_header_def)

subsection \<open>EndOfSession\<close>

record end_of_session =
  eos_timestamp_ns :: u64

definition end_of_session_encode_into :: "end_of_session \<Rightarrow> bytes \<Rightarrow> bytes option" where
  "end_of_session_encode_into m dst = write_all
     [(0, [TYPE_END_OF_SESSION]),
      (1, [word_of_nat SIZE_END_OF_SESSION]),
      (2, to_le (0 :: u16)),
      (4, to_le (eos_timestamp_ns m))] dst"

definition end_of_session_message :: "end_of_session app_message" where
  "end_of_session_message =
     \<lparr>TYPE_ID = TYPE_END_OF_SESSION, SIZE = SIZE_END_OF_SESSION, PORT_ROLES = [Mktdata],
      MSG_NAME = ''dz_edge_core::end_of_session::EndOfSession'',
      validate = validate_ok, encode_into = end_of_session_encode_into,
      stamp_channel_id = stamp_nothing\<rparr>"

definition end_of_session_decode :: "bytes \<Rightarrow> decode_error + end_of_session" where
  "end_of_session_decode buf = bind_ok (check_header end_of_session_message buf) (\<lambda>_.
     Inr \<lparr>eos_timestamp_ns = u64_at buf 4\<rparr>)"

definition end_of_session_body :: "u8 \<Rightarrow> end_of_session \<Rightarrow> bytes" where
  "end_of_session_body ch m = to_le (eos_timestamp_ns m)"

lemmas end_of_session_defs =
  end_of_session_message_def end_of_session_body_def TYPE_END_OF_SESSION_def
  SIZE_END_OF_SESSION_def

interpretation eos: decodable_message end_of_session_message end_of_session_body "\<lambda>_. 0"
    "\<lambda>_. True" end_of_session_decode "\<lambda>ch m. m"
proof (unfold_locales, goal_cases)
  case (4 m dst)
  then show ?case
    by (simp add: end_of_session_defs end_of_session_encode_into_def write_all_exact
        message_header_def)
next
  case (6 m flags ch rest)
  have "check_header end_of_session_message
      (message_header end_of_session_message flags @ end_of_session_body ch m @ rest) = Inr ()"
    by (rule check_header_frame) (simp_all add: end_of_session_defs)
  then show ?case
    by (simp add: end_of_session_decode_def end_of_session_body_def wire_simps)
qed (simp_all add: end_of_session_defs end_of_session_decode_def check_header_def
      stamp_nothing_def)

end
