(* ===== verification/Messages_Tob.thy ===== *)
theory Messages_Tob
  imports Datagram_Builder
begin

section \<open>The top-of-book feed: Quote, Trade\<close>

text \<open>
  The crate \<open>dz-edge-tob\<close>: the feed with the message table of its specification, the two
  messages of its own, and their proofs that they meet the message interface.
\<close>

definition MAGIC_TOB :: u16 where "MAGIC_TOB = 0x445A"

definition TopOfBook :: feed where
  "TopOfBook =
     \<lparr>MAGIC = MAGIC_TOB, FEED_NAME = ''top-of-book'',
      CARRIES = [0x01, 0x02, 0x03, 0x04, 0x06, 0x07, 0x08, 0x09]\<rparr>"

subsection \<open>Quote\<close>

definition QUOTE_BID_UPDATED :: u8 where "QUOTE_BID_UPDATED = 0x01"
definition QUOTE_ASK_UPDATED :: u8 where "QUOTE_ASK_UPDATED = 0x02"
definition QUOTE_BID_GONE :: u8 where "QUOTE_BID_GONE = 0x04"
definition QUOTE_ASK_GONE :: u8 where "QUOTE_ASK_GONE = 0x08"

record quote =
  q_instrument_id :: u32
  q_source_id :: u16
  q_update_flags :: u8
  q_source_timestamp_ns :: u64
  q_bid_price :: i64
  q_bid_qty :: u64
  q_ask_price :: i64
  q_ask_qty :: u64
  q_bid_source_count :: u16
  q_ask_source_count :: u16
  q_venue_update_id :: u32

definition quote_encode_into :: "quote \<Rightarrow> bytes \<Rightarrow> bytes option" where
  "quote_encode_into m dst = write_all
     [(0, [0x03]),
      (1, [60]),
      (2, to_le (0 :: u16)),
      (4, to_le (q_instrument_id m)),
      (8, to_le (q_source_id m)),
      (10, [q_update_flags m]),
      (11, [0]),
      (12, to_le (q_source_timestamp_ns m)),
      (20, to_le (q_bid_price m)),
      (28, to_le (q_bid_qty m)),
      (36, to_le (q_ask_price m)),
      (44, to_le (q_ask_qty m)),
      (52, to_le (q_bid_source_count m)),
      (54, to_le (q_ask_source_count m)),
      (56, to_le (q_venue_update_id m))] dst"

definition quote_message :: "quote app_message" where
  "quote_message =
     \<lparr>TYPE_ID = 0x03, SIZE = 60, PORT_ROLES = [Mktdata],
      MSG_NAME = ''dz_edge_tob::quote::Quote'',
      validate = validate_ok, encode_into = quote_encode_into,
      stamp_channel_id = stamp_nothing\<rparr>"

definition quote_decode :: "bytes \<Rightarrow> decode_error + quote" where
  "quote_decode buf = bind_ok (check_header quote_message buf) (\<lambda>_.
     Inr \<lparr>q_instrument_id = u32_at buf 4,
          q_source_id = u16_at buf 8,
          q_update_flags = buf ! 10,
          q_source_timestamp_ns = u64_at buf 12,
          q_bid_price = i64_at buf 20,
          q_bid_qty = u64_at buf 28,
          q_ask_price = i64_at buf 36,
          q_ask_qty = u64_at buf 44,
          q_bid_source_count = u16_at buf 52,
          q_ask_source_count = u16_at buf 54,
          q_venue_update_id = u32_at buf 56\<rparr>)"

definition quote_body :: "u8 \<Rightarrow> quote \<Rightarrow> bytes" where
  "quote_body ch m =
     to_le (q_instrument_id m) @
     to_le (q_source_id m) @
     [q_update_flags m] @
     [0] @
     to_le (q_source_timestamp_ns m) @
     to_le (q_bid_price m) @
     to_le (q_bid_qty m) @
     to_le (q_ask_price m) @
     to_le (q_ask_qty m) @
     to_le (q_bid_source_count m) @
     to_le (q_ask_source_count m) @
     to_le (q_venue_update_id m)"

interpretation q: decodable_message quote_message quote_body "\<lambda>_. 0" "\<lambda>_. True"
    quote_decode "\<lambda>ch m. m"
proof (unfold_locales, goal_cases)
  case (4 m dst)
  then show ?case
    by (simp add: quote_message_def quote_body_def quote_encode_into_def write_all_exact
        message_header_def)
next
  case (6 m flags ch rest)
  then have "check_header quote_message
      (message_header quote_message flags @ quote_body ch m @ rest) = Inr ()"
    by (intro check_header_frame) (simp_all add: quote_message_def quote_body_def)
  with 6 show ?case
    by (simp add: quote_decode_def quote_body_def wire_simps)
qed (simp_all add: quote_message_def quote_body_def quote_decode_def check_header_def
      stamp_nothing_def)

subsection \<open>Trade\<close>

definition AGGRESSOR_UNKNOWN :: u8 where "AGGRESSOR_UNKNOWN = 0"
definition AGGRESSOR_BUY :: u8 where "AGGRESSOR_BUY = 1"
definition AGGRESSOR_SELL :: u8 where "AGGRESSOR_SELL = 2"

record trade =
  t_instrument_id :: u32
  t_source_id :: u16
  t_aggressor_side :: u8
  t_trade_flags :: u8
  t_source_timestamp_ns :: u64
  t_trade_price :: i64
  t_trade_qty :: u64
  t_trade_id :: u64
  t_cumulative_volume :: u64

definition trade_encode_into :: "trade \<Rightarrow> bytes \<Rightarrow> bytes option" where
  "trade_encode_into m dst = write_all
     [(0, [0x04]),
      (1, [52]),
      (2, to_le (0 :: u16)),
      (4, to_le (t_instrument_id m)),
      (8, to_le (t_source_id m)),
      (10, [t_aggressor_side m]),
      (11, [t_trade_flags m]),
      (12, to_le (t_source_timestamp_ns m)),
      (20, to_le (t_trade_price m)),
      (28, to_le (t_trade_qty m)),
      (36, to_le (t_trade_id m)),
      (44, to_le (t_cumulative_volume m))] dst"

definition trade_message :: "trade app_message" where
  "trade_message =
     \<lparr>TYPE_ID = 0x04, SIZE = 52, PORT_ROLES = [Mktdata],
      MSG_NAME = ''dz_edge_tob::trade::Trade'',
      validate = validate_ok, encode_into = trade_encode_into,
      stamp_channel_id = stamp_nothing\<rparr>"

definition trade_decode :: "bytes \<Rightarrow> decode_error + trade" where
  "trade_decode buf = bind_ok (check_header trade_message buf) (\<lambda>_.
     Inr \<lparr>t_instrument_id = u32_at buf 4,
          t_source_id = u16_at buf 8,
          t_aggressor_side = buf ! 10,
          t_trade_flags = buf ! 11,
          t_source_timestamp_ns = u64_at buf 12,
          t_trade_price = i64_at buf 20,
          t_trade_qty = u64_at buf 28,
          t_trade_id = u64_at buf 36,
          t_cumulative_volume = u64_at buf 44\<rparr>)"

definition trade_body :: "u8 \<Rightarrow> trade \<Rightarrow> bytes" where
  "trade_body ch m =
     to_le (t_instrument_id m) @
     to_le (t_source_id m) @
     [t_aggressor_side m] @
     [t_trade_flags m] @
     to_le (t_source_timestamp_ns m) @
     to_le (t_trade_price m) @
     to_le (t_trade_qty m) @
     to_le (t_trade_id m) @
     to_le (t_cumulative_volume m)"

interpretation t: decodable_message trade_message trade_body "\<lambda>_. 0" "\<lambda>_. True"
    trade_decode "\<lambda>ch m. m"
proof (unfold_locales, goal_cases)
  case (4 m dst)
  then show ?case
    by (simp add: trade_message_def trade_body_def trade_encode_into_def write_all_exact
        message_header_def)
next
  case (6 m flags ch rest)
  then have "check_header trade_message
      (message_header trade_message flags @ trade_body ch m @ rest) = Inr ()"
    by (intro check_header_frame) (simp_all add: trade_message_def trade_body_def)
  with 6 show ?case
    by (simp add: trade_decode_def trade_body_def wire_simps)
qed (simp_all add: trade_message_def trade_body_def trade_decode_def check_header_def
      stamp_nothing_def)

end
