(* ===== verification/Messages_Mbp.thy ===== *)
theory Messages_Mbp
  imports Datagram_Builder
begin

section \<open>The market-by-price feed\<close>

text \<open>
  The crate \<open>dz-edge-mbp\<close>: the feed with its message table, \<open>LevelUpdate\<close>, \<open>BookClear\<close> (the
  one message of the feed that forbids a combination of its fields, refused by the encoder and
  by the decoder), \<open>InstrumentReset\<close> and the three snapshot messages.
\<close>

definition MAGIC_MBP :: u16 where "MAGIC_MBP = 0x4442"
definition SIDE_BID :: u8 where "SIDE_BID = 0"
definition SIDE_ASK :: u8 where "SIDE_ASK = 1"
definition U16_UNAVAILABLE :: u16 where "U16_UNAVAILABLE = 0xFFFF"

definition MarketByPrice :: feed where
  "MarketByPrice =
     \<lparr>MAGIC = MAGIC_MBP, FEED_NAME = ''market-by-price'',
      CARRIES = [0x01, 0x02, 0x04, 0x06, 0x07, 0x08, 0x09, 0x13, 0x14, 0x20, 0x22, 0x40, 0x41,
                 0x42]\<rparr>"

subsection \<open>LevelUpdate\<close>

definition ACTION_UNKNOWN :: u8 where "ACTION_UNKNOWN = 0"
definition ACTION_NEW :: u8 where "ACTION_NEW = 1"
definition ACTION_CHANGE :: u8 where "ACTION_CHANGE = 2"
definition ACTION_DELETE :: u8 where "ACTION_DELETE = 3"

record level_update =
  lu_instrument_id :: u32
  lu_source_id :: u16
  lu_side :: u8
  lu_action :: u8
  lu_per_instrument_seq :: u32
  lu_price_raw :: i64
  lu_qty_raw :: u64
  lu_timestamp_ns :: u64
  lu_order_count :: u16
  lu_level_index :: u16
  lu_update_reason :: u8
  lu_level_flags :: u8

definition level_update_encode_into :: "level_update \<Rightarrow> bytes \<Rightarrow> bytes option" where
  "level_update_encode_into m dst = write_all
     [(0, [0x40]),
      (1, [48]),
      (2, to_le (0 :: u16)),
      (4, to_le (lu_instrument_id m)),
      (8, to_le (lu_source_id m)),
      (10, [lu_side m]),
      (11, [lu_action m]),
      (12, to_le (lu_per_instrument_seq m)),
      (16, to_le (lu_price_raw m)),
      (24, to_le (lu_qty_raw m)),
      (32, to_le (lu_timestamp_ns m)),
      (40, to_le (lu_order_count m)),
      (42, to_le (lu_level_index m)),
      (44, [lu_update_reason m]),
      (45, [lu_level_flags m]),
      (46, [0, 0])] dst"

definition level_update_message :: "level_update app_message" where
  "level_update_message =
     \<lparr>TYPE_ID = 0x40, SIZE = 48, PORT_ROLES = [Mktdata],
      MSG_NAME = ''dz_edge_mbp::level_update::LevelUpdate'',
      validate = validate_ok, encode_into = level_update_encode_into,
      stamp_channel_id = stamp_nothing\<rparr>"

definition level_update_decode :: "bytes \<Rightarrow> decode_error + level_update" where
  "level_update_decode buf = bind_ok (check_header level_update_message buf) (\<lambda>_.
     Inr \<lparr>lu_instrument_id = u32_at buf 4,
          lu_source_id = u16_at buf 8,
          lu_side = buf ! 10,
          lu_action = buf ! 11,
          lu_per_instrument_seq = u32_at buf 12,
          lu_price_raw = i64_at buf 16,
          lu_qty_raw = u64_at buf 24,
          lu_timestamp_ns = u64_at buf 32,
          lu_order_count = u16_at buf 40,
          lu_level_index = u16_at buf 42,
          lu_update_reason = buf ! 44,
          lu_level_flags = buf ! 45\<rparr>)"

definition level_update_body :: "u8 \<Rightarrow> level_update \<Rightarrow> bytes" where
  "level_update_body ch m =
     to_le (lu_instrument_id m) @
     to_le (lu_source_id m) @
     [lu_side m] @
     [lu_action m] @
     to_le (lu_per_instrument_seq m) @
     to_le (lu_price_raw m) @
     to_le (lu_qty_raw m) @
     to_le (lu_timestamp_ns m) @
     to_le (lu_order_count m) @
     to_le (lu_level_index m) @
     [lu_update_reason m] @
     [lu_level_flags m] @
     [0, 0]"

interpretation lu: decodable_message level_update_message level_update_body "\<lambda>_. 0" "\<lambda>_. True"
    level_update_decode "\<lambda>ch m. m"
proof (unfold_locales, goal_cases)
  case (4 m dst)
  then show ?case
    by (simp add: level_update_message_def level_update_body_def level_update_encode_into_def write_all_exact
        message_header_def)
next
  case (6 m flags ch rest)
  then have "check_header level_update_message
      (message_header level_update_message flags @ level_update_body ch m @ rest) = Inr ()"
    by (intro check_header_frame) (simp_all add: level_update_message_def level_update_body_def)
  with 6 show ?case
    by (simp add: level_update_decode_def level_update_body_def wire_simps)
qed (simp_all add: level_update_message_def level_update_body_def level_update_decode_def check_header_def
      stamp_nothing_def)

subsection \<open>BookClear\<close>

definition CLEAR_BID :: u8 where "CLEAR_BID = 0"
definition CLEAR_ASK :: u8 where "CLEAR_ASK = 1"
definition CLEAR_BOTH :: u8 where "CLEAR_BOTH = 2"
definition SCOPE_ENTIRE_SIDE :: u8 where "SCOPE_ENTIRE_SIDE = 0"
definition SCOPE_FROM_PRICE :: u8 where "SCOPE_FROM_PRICE = 1"

record book_clear =
  bc_instrument_id :: u32
  bc_source_id :: u16
  bc_clear_side :: u8
  bc_scope :: u8
  bc_per_instrument_seq :: u32
  bc_from_price_raw :: i64
  bc_timestamp_ns :: u64
  bc_clear_reason :: u8

definition book_clear_validate :: "book_clear \<Rightarrow> encode_error + unit" where
  "book_clear_validate m =
     (if bc_scope m = SCOPE_FROM_PRICE \<and> bc_clear_side m = CLEAR_BOTH
      then Inl (MalformedMessage ''dz_edge_mbp::book_clear::BookClear''
                  ''a clear bounded by one price cannot apply to both sides'')
      else Inr ())"

definition book_clear_encode_into :: "book_clear \<Rightarrow> bytes \<Rightarrow> bytes option" where
  "book_clear_encode_into m dst = write_all
     [(0, [0x41]),
      (1, [36]),
      (2, to_le (0 :: u16)),
      (4, to_le (bc_instrument_id m)),
      (8, to_le (bc_source_id m)),
      (10, [bc_clear_side m]),
      (11, [bc_scope m]),
      (12, to_le (bc_per_instrument_seq m)),
      (16, to_le (bc_from_price_raw m)),
      (24, to_le (bc_timestamp_ns m)),
      (32, [bc_clear_reason m]),
      (33, [0, 0, 0])] dst"

definition book_clear_message :: "book_clear app_message" where
  "book_clear_message =
     \<lparr>TYPE_ID = 0x41, SIZE = 36, PORT_ROLES = [Mktdata],
      MSG_NAME = ''dz_edge_mbp::book_clear::BookClear'',
      validate = book_clear_validate, encode_into = book_clear_encode_into,
      stamp_channel_id = stamp_nothing\<rparr>"

definition book_clear_decode :: "bytes \<Rightarrow> decode_error + book_clear" where
  "book_clear_decode buf = bind_ok (check_header book_clear_message buf) (\<lambda>_.
     let clear = \<lparr>bc_instrument_id = u32_at buf 4,
                  bc_source_id = u16_at buf 8,
                  bc_clear_side = buf ! 10,
                  bc_scope = buf ! 11,
                  bc_per_instrument_seq = u32_at buf 12,
                  bc_from_price_raw = i64_at buf 16,
                  bc_timestamp_ns = u64_at buf 24,
                  bc_clear_reason = buf ! 32\<rparr>
     in if bc_scope clear = SCOPE_FROM_PRICE \<and> bc_clear_side clear = CLEAR_BOTH
        then Inl (MalformedBody 0x41
                    ''a clear bounded by one price cannot apply to both sides'')
        else Inr clear)"

definition book_clear_body :: "u8 \<Rightarrow> book_clear \<Rightarrow> bytes" where
  "book_clear_body ch m =
     to_le (bc_instrument_id m) @
     to_le (bc_source_id m) @
     [bc_clear_side m] @
     [bc_scope m] @
     to_le (bc_per_instrument_seq m) @
     to_le (bc_from_price_raw m) @
     to_le (bc_timestamp_ns m) @
     [bc_clear_reason m] @
     [0, 0, 0]"

interpretation bc: decodable_message book_clear_message book_clear_body "\<lambda>_. 0" "\<lambda>_. True"
    book_clear_decode "\<lambda>ch m. m"
proof (unfold_locales, goal_cases)
  case (4 m dst)
  then show ?case
    by (simp add: book_clear_message_def book_clear_body_def book_clear_encode_into_def write_all_exact
        message_header_def)
next
  case (6 m flags ch rest)
  then have "check_header book_clear_message
      (message_header book_clear_message flags @ book_clear_body ch m @ rest) = Inr ()"
    by (intro check_header_frame) (simp_all add: book_clear_message_def book_clear_body_def)
  with 6 show ?case
    by (simp add: book_clear_decode_def book_clear_body_def wire_simps book_clear_message_def book_clear_validate_def split: if_splits)
qed (simp_all add: book_clear_message_def book_clear_body_def book_clear_decode_def check_header_def
      stamp_nothing_def)

subsection \<open>InstrumentReset\<close>

definition RESET_UNSPECIFIED :: u8 where "RESET_UNSPECIFIED = 0"
definition RESET_PUBLISHER_INCONSISTENCY :: u8 where "RESET_PUBLISHER_INCONSISTENCY = 1"
definition RESET_VENUE_RESYNC :: u8 where "RESET_VENUE_RESYNC = 2"
definition RESET_UPSTREAM_GAP :: u8 where "RESET_UPSTREAM_GAP = 3"
definition RESET_OTHER :: u8 where "RESET_OTHER = 255"

record instrument_reset =
  ir_instrument_id :: u32
  ir_reason :: u8
  ir_new_anchor_seq :: u64
  ir_timestamp_ns :: u64

definition instrument_reset_encode_into :: "instrument_reset \<Rightarrow> bytes \<Rightarrow> bytes option" where
  "instrument_reset_encode_into m dst = write_all
     [(0, [0x14]),
      (1, [28]),
      (2, to_le (0 :: u16)),
      (4, to_le (ir_instrument_id m)),
      (8, [ir_reason m]),
      (9, [0, 0, 0]),
      (12, to_le (ir_new_anchor_seq m)),
      (20, to_le (ir_timestamp_ns m))] dst"

definition instrument_reset_message :: "instrument_reset app_message" where
  "instrument_reset_message =
     \<lparr>TYPE_ID = 0x14, SIZE = 28, PORT_ROLES = [Mktdata],
      MSG_NAME = ''dz_edge_mbp::instrument_reset::InstrumentReset'',
      validate = validate_ok, encode_into = instrument_reset_encode_into,
      stamp_channel_id = stamp_nothing\<rparr>"

definition instrument_reset_decode :: "bytes \<Rightarrow> decode_error + instrument_reset" where
  "instrument_reset_decode buf = bind_ok (check_header instrument_reset_message buf) (\<lambda>_.
     Inr \<lparr>ir_instrument_id = u32_at buf 4,
          ir_reason = buf ! 8,
          ir_new_anchor_seq = u64_at buf 12,
          ir_timestamp_ns = u64_at buf 20\<rparr>)"

definition instrument_reset_body :: "u8 \<Rightarrow> instrument_reset \<Rightarrow> bytes" where
  "instrument_reset_body ch m =
     to_le (ir_instrument_id m) @
     [ir_reason m] @
     [0, 0, 0] @
     to_le (ir_new_anchor_seq m) @
     to_le (ir_timestamp_ns m)"

interpretation ir: decodable_message instrument_reset_message instrument_reset_body "\<lambda>_. 0" "\<lambda>_. True"
    instrument_reset_decode "\<lambda>ch m. m"
proof (unfold_locales, goal_cases)
  case (4 m dst)
  then show ?case
    by (simp add: instrument_reset_message_def instrument_reset_body_def instrument_reset_encode_into_def write_all_exact
        message_header_def)
next
  case (6 m flags ch rest)
  then have "check_header instrument_reset_message
      (message_header instrument_reset_message flags @ instrument_reset_body ch m @ rest) = Inr ()"
    by (intro check_header_frame) (simp_all add: instrument_reset_message_def instrument_reset_body_def)
  with 6 show ?case
    by (simp add: instrument_reset_decode_def instrument_reset_body_def wire_simps)
qed (simp_all add: instrument_reset_message_def instrument_reset_body_def instrument_reset_decode_def check_header_def
      stamp_nothing_def)

definition instrument_reset_anchored_at :: "u32 \<Rightarrow> u8 \<Rightarrow> u64 \<Rightarrow> u64 \<Rightarrow> instrument_reset" where
  "instrument_reset_anchored_at instrument_id reason sequence_number timestamp_ns =
     \<lparr>ir_instrument_id = instrument_id, ir_reason = reason,
      ir_new_anchor_seq = sequence_number, ir_timestamp_ns = timestamp_ns\<rparr>"

subsection \<open>The three messages of a snapshot\<close>

record snapshot_begin =
  sb_instrument_id :: u32
  sb_anchor_seq :: u64
  sb_total_levels :: u32
  sb_snapshot_id :: u32
  sb_last_instrument_seq :: u32
  sb_timestamp_ns :: u64
  sb_depth_bound :: u32

definition snapshot_begin_encode_into :: "snapshot_begin \<Rightarrow> bytes \<Rightarrow> bytes option" where
  "snapshot_begin_encode_into m dst = write_all
     [(0, [0x20]),
      (1, [40]),
      (2, to_le (0 :: u16)),
      (4, to_le (sb_instrument_id m)),
      (8, to_le (sb_anchor_seq m)),
      (16, to_le (sb_total_levels m)),
      (20, to_le (sb_snapshot_id m)),
      (24, to_le (sb_last_instrument_seq m)),
      (28, to_le (sb_timestamp_ns m)),
      (36, to_le (sb_depth_bound m))] dst"

definition snapshot_begin_message :: "snapshot_begin app_message" where
  "snapshot_begin_message =
     \<lparr>TYPE_ID = 0x20, SIZE = 40, PORT_ROLES = [Snapshot],
      MSG_NAME = ''dz_edge_mbp::snapshot::SnapshotBegin'',
      validate = validate_ok, encode_into = snapshot_begin_encode_into,
      stamp_channel_id = stamp_nothing\<rparr>"

definition snapshot_begin_decode :: "bytes \<Rightarrow> decode_error + snapshot_begin" where
  "snapshot_begin_decode buf = bind_ok (check_header snapshot_begin_message buf) (\<lambda>_.
     Inr \<lparr>sb_instrument_id = u32_at buf 4,
          sb_anchor_seq = u64_at buf 8,
          sb_total_levels = u32_at buf 16,
          sb_snapshot_id = u32_at buf 20,
          sb_last_instrument_seq = u32_at buf 24,
          sb_timestamp_ns = u64_at buf 28,
          sb_depth_bound = u32_at buf 36\<rparr>)"

definition snapshot_begin_body :: "u8 \<Rightarrow> snapshot_begin \<Rightarrow> bytes" where
  "snapshot_begin_body ch m =
     to_le (sb_instrument_id m) @
     to_le (sb_anchor_seq m) @
     to_le (sb_total_levels m) @
     to_le (sb_snapshot_id m) @
     to_le (sb_last_instrument_seq m) @
     to_le (sb_timestamp_ns m) @
     to_le (sb_depth_bound m)"

interpretation sb: decodable_message snapshot_begin_message snapshot_begin_body "\<lambda>_. 0" "\<lambda>_. True"
    snapshot_begin_decode "\<lambda>ch m. m"
proof (unfold_locales, goal_cases)
  case (4 m dst)
  then show ?case
    by (simp add: snapshot_begin_message_def snapshot_begin_body_def snapshot_begin_encode_into_def write_all_exact
        message_header_def)
next
  case (6 m flags ch rest)
  then have "check_header snapshot_begin_message
      (message_header snapshot_begin_message flags @ snapshot_begin_body ch m @ rest) = Inr ()"
    by (intro check_header_frame) (simp_all add: snapshot_begin_message_def snapshot_begin_body_def)
  with 6 show ?case
    by (simp add: snapshot_begin_decode_def snapshot_begin_body_def wire_simps)
qed (simp_all add: snapshot_begin_message_def snapshot_begin_body_def snapshot_begin_decode_def check_header_def
      stamp_nothing_def)

record snapshot_level =
  sl_snapshot_id :: u32
  sl_price_raw :: i64
  sl_qty_raw :: u64
  sl_order_count :: u16
  sl_side :: u8
  sl_level_flags :: u8

definition snapshot_level_encode_into :: "snapshot_level \<Rightarrow> bytes \<Rightarrow> bytes option" where
  "snapshot_level_encode_into m dst = write_all
     [(0, [0x42]),
      (1, [32]),
      (2, to_le (0 :: u16)),
      (4, to_le (sl_snapshot_id m)),
      (8, to_le (sl_price_raw m)),
      (16, to_le (sl_qty_raw m)),
      (24, to_le (sl_order_count m)),
      (26, [sl_side m]),
      (27, [sl_level_flags m]),
      (28, [0, 0, 0, 0])] dst"

definition snapshot_level_message :: "snapshot_level app_message" where
  "snapshot_level_message =
     \<lparr>TYPE_ID = 0x42, SIZE = 32, PORT_ROLES = [Snapshot],
      MSG_NAME = ''dz_edge_mbp::snapshot::SnapshotLevel'',
      validate = validate_ok, encode_into = snapshot_level_encode_into,
      stamp_channel_id = stamp_nothing\<rparr>"

definition snapshot_level_decode :: "bytes \<Rightarrow> decode_error + snapshot_level" where
  "snapshot_level_decode buf = bind_ok (check_header snapshot_level_message buf) (\<lambda>_.
     Inr \<lparr>sl_snapshot_id = u32_at buf 4,
          sl_price_raw = i64_at buf 8,
          sl_qty_raw = u64_at buf 16,
          sl_order_count = u16_at buf 24,
          sl_side = buf ! 26,
          sl_level_flags = buf ! 27\<rparr>)"

definition snapshot_level_body :: "u8 \<Rightarrow> snapshot_level \<Rightarrow> bytes" where
  "snapshot_level_body ch m =
     to_le (sl_snapshot_id m) @
     to_le (sl_price_raw m) @
     to_le (sl_qty_raw m) @
     to_le (sl_order_count m) @
     [sl_side m] @
     [sl_level_flags m] @
     [0, 0, 0, 0]"

interpretation sl: decodable_message snapshot_level_message snapshot_level_body "\<lambda>_. 0" "\<lambda>_. True"
    snapshot_level_decode "\<lambda>ch m. m"
proof (unfold_locales, goal_cases)
  case (4 m dst)
  then show ?case
    by (simp add: snapshot_level_message_def snapshot_level_body_def snapshot_level_encode_into_def write_all_exact
        message_header_def)
next
  case (6 m flags ch rest)
  then have "check_header snapshot_level_message
      (message_header snapshot_level_message flags @ snapshot_level_body ch m @ rest) = Inr ()"
    by (intro check_header_frame) (simp_all add: snapshot_level_message_def snapshot_level_body_def)
  with 6 show ?case
    by (simp add: snapshot_level_decode_def snapshot_level_body_def wire_simps)
qed (simp_all add: snapshot_level_message_def snapshot_level_body_def snapshot_level_decode_def check_header_def
      stamp_nothing_def)

record snapshot_end =
  se_instrument_id :: u32
  se_anchor_seq :: u64
  se_snapshot_id :: u32

definition snapshot_end_encode_into :: "snapshot_end \<Rightarrow> bytes \<Rightarrow> bytes option" where
  "snapshot_end_encode_into m dst = write_all
     [(0, [0x22]),
      (1, [20]),
      (2, to_le (0 :: u16)),
      (4, to_le (se_instrument_id m)),
      (8, to_le (se_anchor_seq m)),
      (16, to_le (se_snapshot_id m))] dst"

definition snapshot_end_message :: "snapshot_end app_message" where
  "snapshot_end_message =
     \<lparr>TYPE_ID = 0x22, SIZE = 20, PORT_ROLES = [Snapshot],
      MSG_NAME = ''dz_edge_mbp::snapshot::SnapshotEnd'',
      validate = validate_ok, encode_into = snapshot_end_encode_into,
      stamp_channel_id = stamp_nothing\<rparr>"

definition snapshot_end_decode :: "bytes \<Rightarrow> decode_error + snapshot_end" where
  "snapshot_end_decode buf = bind_ok (check_header snapshot_end_message buf) (\<lambda>_.
     Inr \<lparr>se_instrument_id = u32_at buf 4,
          se_anchor_seq = u64_at buf 8,
          se_snapshot_id = u32_at buf 16\<rparr>)"

definition snapshot_end_body :: "u8 \<Rightarrow> snapshot_end \<Rightarrow> bytes" where
  "snapshot_end_body ch m =
     to_le (se_instrument_id m) @
     to_le (se_anchor_seq m) @
     to_le (se_snapshot_id m)"

interpretation se: decodable_message snapshot_end_message snapshot_end_body "\<lambda>_. 0" "\<lambda>_. True"
    snapshot_end_decode "\<lambda>ch m. m"
proof (unfold_locales, goal_cases)
  case (4 m dst)
  then show ?case
    by (simp add: snapshot_end_message_def snapshot_end_body_def snapshot_end_encode_into_def write_all_exact
        message_header_def)
next
  case (6 m flags ch rest)
  then have "check_header snapshot_end_message
      (message_header snapshot_end_message flags @ snapshot_end_body ch m @ rest) = Inr ()"
    by (intro check_header_frame) (simp_all add: snapshot_end_message_def snapshot_end_body_def)
  with 6 show ?case
    by (simp add: snapshot_end_decode_def snapshot_end_body_def wire_simps)
qed (simp_all add: snapshot_end_message_def snapshot_end_body_def snapshot_end_decode_def check_header_def
      stamp_nothing_def)

end
