(* ===== verification/Text_Field.thy ===== *)
theory Text_Field
  imports Edge_Prelude
begin

section \<open>Fixed-width text fields\<close>

text \<open>
  \<open>ascii.rs\<close> of \<open>dz-edge-core\<close>: a UTF-8 string written left-justified and NUL-padded into a
  \<open>char[N]\<close> field, cut at a character boundary when it is too long. A \<open>&str\<close> is its bytes;
  \<open>is_char_boundary\<close> is the standard library's test that the byte at the index does not
  continue a character.
\<close>

datatype fit = Fitted | Truncated | Unrepresentable

definition is_continuation :: "u8 \<Rightarrow> bool" where
  "is_continuation b \<longleftrightarrow> 0x80 \<le> b \<and> b < 0xC0"

definition is_char_boundary :: "bytes \<Rightarrow> nat \<Rightarrow> bool" where
  "is_char_boundary s i \<longleftrightarrow>
     i = 0 \<or> i = length s \<or> (i < length s \<and> \<not> is_continuation (s ! i))"

fun back_up :: "bytes \<Rightarrow> nat \<Rightarrow> nat" where
  "back_up str 0 = 0"
| "back_up str (Suc k) =
     (if is_char_boundary str (Suc k) then Suc k else back_up str k)"

definition pad_text :: "nat \<Rightarrow> bytes \<Rightarrow> bytes \<times> fit" where
  "pad_text N str =
    (let interior_nul = (0 \<in> set str);
         (field, truncated) =
           (if length str \<le> N
            then (str @ replicate (N - length str) 0, False)
            else let k = back_up str N
                 in (take k str @ replicate (N - k) 0, True))
     in (field, if interior_nul then Unrepresentable
                else if truncated then Truncated else Fitted))"

definition pad_ascii :: "nat \<Rightarrow> bytes \<Rightarrow> bytes \<times> fit" where
  "pad_ascii N str = pad_text N str"

text \<open>What a reader recovers: the bytes before the first NUL.\<close>

definition field_text :: "bytes \<Rightarrow> bytes" where
  "field_text field = takeWhile (\<lambda>b. b \<noteq> 0) field"

lemma back_up_le: "back_up str k \<le> k"
  by (induction k) (auto simp: le_SucI)

lemma back_up_boundary: "is_char_boundary str (back_up str k)"
  by (induction k) (auto simp: is_char_boundary_def)

lemma back_up_greatest:
  "j \<le> k \<Longrightarrow> is_char_boundary str j \<Longrightarrow> j \<le> back_up str k"
  by (induction k) (auto simp: le_Suc_eq)

lemma length_pad_text [simp]: "length (fst (pad_text N str)) = N"
  using back_up_le [of str N] by (auto simp: pad_text_def Let_def)

lemma field_text_padded: "0 \<notin> set v \<Longrightarrow> field_text (v @ replicate n 0) = v"
  by (auto simp: field_text_def takeWhile_append takeWhile_replicate)

end
