(* ===== verification/Messages_Refdata.thy ===== *)
theory Messages_Refdata
  imports Datagram_Builder Text_Field
begin

unbundle bit_operations_syntax

section \<open>Reference data: InstrumentDefinition, ManifestSummary, StrikeInterval\<close>

text \<open>
  The crate \<open>dz-edge-refdata\<close>. \<open>InstrumentDefinition\<close> is the one message with two layouts,
  decoded at schema 1 and 3 and encoded at 3. \<open>StrikeInterval\<close> carries the rules of its
  \<open>Bound Flags\<close> as \<open>defect\<close>, which the encoder refuses and the decoder lets through.
\<close>

subsection \<open>InstrumentDefinition\<close>

definition SYMBOL_LEN :: nat where "SYMBOL_LEN = 64"
definition SYMBOL_LEN_V1 :: nat where "SYMBOL_LEN_V1 = 16"
definition LEG_LEN :: nat where "LEG_LEN = 8"
definition SIZE_V1 :: nat where "SIZE_V1 = 80"

record instrument_definition =
  idef_instrument_id :: u32
  idef_source_id :: u16
  idef_symbol :: bytes
  idef_leg1 :: bytes
  idef_leg2 :: bytes
  idef_asset_class :: u8
  idef_price_exponent :: i8
  idef_qty_exponent :: i8
  idef_market_model :: u8
  idef_tick_size :: i64
  idef_lot_size :: u64
  idef_contract_value :: u64
  idef_expiry_ns :: u64
  idef_settle_type :: u8
  idef_price_bound :: u8
  idef_manifest_seq :: u16

text \<open>The array types \<open>[u8; SYMBOL_LEN]\<close> and \<open>[u8; LEG_LEN]\<close> of the fields.\<close>

definition instrument_definition_wf :: "instrument_definition \<Rightarrow> bool" where
  "instrument_definition_wf m \<longleftrightarrow>
     length (idef_symbol m) = 64 \<and> length (idef_leg1 m) = 8 \<and> length (idef_leg2 m) = 8"

definition instrument_definition_encode_into :: "instrument_definition \<Rightarrow> bytes \<Rightarrow> bytes option" where
  "instrument_definition_encode_into m dst = write_all
     [(0, [0x02]),
      (1, [130]),
      (2, to_le (0 :: u16)),
      (4, to_le (idef_instrument_id m)),
      (8, to_le (idef_source_id m)),
      (10, idef_symbol m),
      (74, idef_leg1 m),
      (82, idef_leg2 m),
      (90, [idef_asset_class m]),
      (91, [idef_price_exponent m]),
      (92, [idef_qty_exponent m]),
      (93, [idef_market_model m]),
      (94, to_le (idef_tick_size m)),
      (102, to_le (idef_lot_size m)),
      (110, to_le (idef_contract_value m)),
      (118, to_le (idef_expiry_ns m)),
      (126, [idef_settle_type m]),
      (127, [idef_price_bound m]),
      (128, to_le (idef_manifest_seq m))] dst"

definition instrument_definition_message :: "instrument_definition app_message" where
  "instrument_definition_message =
     \<lparr>TYPE_ID = 0x02, SIZE = 130, PORT_ROLES = [Refdata],
      MSG_NAME = ''dz_edge_refdata::instrument_definition::InstrumentDefinition'',
      validate = validate_ok, encode_into = instrument_definition_encode_into,
      stamp_channel_id = stamp_nothing\<rparr>"

definition instrument_definition_decode_v3 ::
    "bytes \<Rightarrow> decode_error + instrument_definition" where
  "instrument_definition_decode_v3 buf =
     bind_ok (check_header instrument_definition_message buf) (\<lambda>_.
     Inr \<lparr>idef_instrument_id = u32_at buf 4,
          idef_source_id = u16_at buf 8,
          idef_symbol = slice buf 10 74,
          idef_leg1 = slice buf 74 82,
          idef_leg2 = slice buf 82 90,
          idef_asset_class = buf ! 90,
          idef_price_exponent = buf ! 91,
          idef_qty_exponent = buf ! 92,
          idef_market_model = buf ! 93,
          idef_tick_size = i64_at buf 94,
          idef_lot_size = u64_at buf 102,
          idef_contract_value = u64_at buf 110,
          idef_expiry_ns = u64_at buf 118,
          idef_settle_type = buf ! 126,
          idef_price_bound = buf ! 127,
          idef_manifest_seq = u16_at buf 128\<rparr>)"

definition instrument_definition_body :: "u8 \<Rightarrow> instrument_definition \<Rightarrow> bytes" where
  "instrument_definition_body ch m =
     to_le (idef_instrument_id m) @
     to_le (idef_source_id m) @
     idef_symbol m @
     idef_leg1 m @
     idef_leg2 m @
     [idef_asset_class m] @
     [idef_price_exponent m] @
     [idef_qty_exponent m] @
     [idef_market_model m] @
     to_le (idef_tick_size m) @
     to_le (idef_lot_size m) @
     to_le (idef_contract_value m) @
     to_le (idef_expiry_ns m) @
     [idef_settle_type m] @
     [idef_price_bound m] @
     to_le (idef_manifest_seq m)"

interpretation idef: decodable_message instrument_definition_message instrument_definition_body "\<lambda>_. 0" instrument_definition_wf
    instrument_definition_decode_v3 "\<lambda>ch m. m"
proof (unfold_locales, goal_cases)
  case (4 m dst)
  then show ?case
    by (simp add: instrument_definition_message_def instrument_definition_body_def instrument_definition_encode_into_def write_all_exact
        message_header_def instrument_definition_wf_def)
next
  case (6 m flags ch rest)
  then have "check_header instrument_definition_message
      (message_header instrument_definition_message flags @ instrument_definition_body ch m @ rest) = Inr ()"
    by (intro check_header_frame) (simp_all add: instrument_definition_message_def instrument_definition_body_def instrument_definition_wf_def)
  with 6 show ?case
    by (simp add: instrument_definition_decode_v3_def instrument_definition_body_def wire_simps instrument_definition_wf_def)
qed (simp_all add: instrument_definition_message_def instrument_definition_body_def instrument_definition_decode_v3_def check_header_def
      stamp_nothing_def instrument_definition_wf_def)

definition instrument_definition_decode_v1 ::
    "bytes \<Rightarrow> decode_error + instrument_definition" where
  "instrument_definition_decode_v1 buf =
    (if length buf < SIZE_V1 then Inl (ShortBuffer SIZE_V1 (length buf))
     else if buf ! 0 \<noteq> TYPE_ID instrument_definition_message then Inl (BadTypeId (buf ! 0))
     else if unat (buf ! 1) \<noteq> SIZE_V1
     then Inl (LengthMismatch (TYPE_ID instrument_definition_message) (buf ! 1)
                 (word_of_nat SIZE_V1))
     else Inr \<lparr>idef_instrument_id = u32_at buf 4,
               idef_source_id = 0,
               idef_symbol = slice buf 8 24 @ replicate (SYMBOL_LEN - SYMBOL_LEN_V1) 0,
               idef_leg1 = slice buf 24 32,
               idef_leg2 = slice buf 32 40,
               idef_asset_class = buf ! 40,
               idef_price_exponent = buf ! 41,
               idef_qty_exponent = buf ! 42,
               idef_market_model = buf ! 43,
               idef_tick_size = i64_at buf 44,
               idef_lot_size = u64_at buf 52,
               idef_contract_value = u64_at buf 60,
               idef_expiry_ns = u64_at buf 68,
               idef_settle_type = buf ! 76,
               idef_price_bound = buf ! 77,
               idef_manifest_seq = u16_at buf 78\<rparr>)"

definition instrument_definition_decode ::
    "bytes \<Rightarrow> u8 \<Rightarrow> decode_error + instrument_definition" where
  "instrument_definition_decode buf schema_version =
    (if schema_version = SCHEMA_VERSION then instrument_definition_decode_v3 buf
     else if schema_version = SCHEMA_VERSION_V1 then instrument_definition_decode_v1 buf
     else Inl (UnsupportedSchema schema_version))"

definition set_symbol ::
    "instrument_definition \<Rightarrow> bytes \<Rightarrow> instrument_definition \<times> fit" where
  "set_symbol m str = (let (field, f) = pad_text SYMBOL_LEN str in (m\<lparr>idef_symbol := field\<rparr>, f))"

definition set_leg1 ::
    "instrument_definition \<Rightarrow> bytes \<Rightarrow> instrument_definition \<times> fit" where
  "set_leg1 m str = (let (field, f) = pad_text LEG_LEN str in (m\<lparr>idef_leg1 := field\<rparr>, f))"

definition set_leg2 ::
    "instrument_definition \<Rightarrow> bytes \<Rightarrow> instrument_definition \<times> fit" where
  "set_leg2 m str = (let (field, f) = pad_text LEG_LEN str in (m\<lparr>idef_leg2 := field\<rparr>, f))"

lemma set_text_wf [simp]:
  "instrument_definition_wf m \<Longrightarrow> instrument_definition_wf (fst (set_symbol m v))"
  "instrument_definition_wf m \<Longrightarrow> instrument_definition_wf (fst (set_leg1 m v))"
  "instrument_definition_wf m \<Longrightarrow> instrument_definition_wf (fst (set_leg2 m v))"
  by (simp_all add: instrument_definition_wf_def set_symbol_def set_leg1_def set_leg2_def
      split_beta SYMBOL_LEN_def LEG_LEN_def)

subsection \<open>ManifestSummary\<close>

record manifest_summary =
  ms_channel_id :: u8
  ms_valid :: u8
  ms_manifest_seq :: u16
  ms_instrument_count :: u32
  ms_timestamp_ns :: u64

definition manifest_summary_encode_into :: "manifest_summary \<Rightarrow> bytes \<Rightarrow> bytes option" where
  "manifest_summary_encode_into m dst = write_all
     [(0, [0x07]),
      (1, [24]),
      (2, to_le (0 :: u16)),
      (4, [ms_channel_id m]),
      (5, [ms_valid m]),
      (6, [0, 0]),
      (8, to_le (ms_manifest_seq m)),
      (10, [0, 0]),
      (12, to_le (ms_instrument_count m)),
      (16, to_le (ms_timestamp_ns m))] dst"

definition manifest_summary_stamp_channel_id :: "bytes \<Rightarrow> u8 \<Rightarrow> bytes option" where
  "manifest_summary_stamp_channel_id dst channel_id = put 4 [channel_id] dst"

definition manifest_summary_message :: "manifest_summary app_message" where
  "manifest_summary_message =
     \<lparr>TYPE_ID = 0x07, SIZE = 24, PORT_ROLES = [Refdata],
      MSG_NAME = ''dz_edge_refdata::manifest_summary::ManifestSummary'',
      validate = validate_ok, encode_into = manifest_summary_encode_into,
      stamp_channel_id = manifest_summary_stamp_channel_id\<rparr>"

definition manifest_summary_decode :: "bytes \<Rightarrow> decode_error + manifest_summary" where
  "manifest_summary_decode buf = bind_ok (check_header manifest_summary_message buf) (\<lambda>_.
     Inr \<lparr>ms_channel_id = buf ! 4,
          ms_valid = buf ! 5,
          ms_manifest_seq = u16_at buf 8,
          ms_instrument_count = u32_at buf 12,
          ms_timestamp_ns = u64_at buf 16\<rparr>)"

definition manifest_summary_body :: "u8 \<Rightarrow> manifest_summary \<Rightarrow> bytes" where
  "manifest_summary_body ch m =
     [ch] @
     [ms_valid m] @
     [0, 0] @
     to_le (ms_manifest_seq m) @
     [0, 0] @
     to_le (ms_instrument_count m) @
     to_le (ms_timestamp_ns m)"

interpretation ms: decodable_message manifest_summary_message manifest_summary_body ms_channel_id "\<lambda>_. True"
    manifest_summary_decode "\<lambda>ch m. m\<lparr>ms_channel_id := ch\<rparr>"
proof (unfold_locales, goal_cases)
  case (4 m dst)
  then show ?case
    by (simp add: manifest_summary_message_def manifest_summary_body_def manifest_summary_encode_into_def write_all_exact
        message_header_def)
next
  case (5 m h c ch)
  then show ?case
    by (simp add: manifest_summary_message_def manifest_summary_body_def manifest_summary_stamp_channel_id_def put_def)
next
  case (6 m flags ch rest)
  then have "check_header manifest_summary_message
      (message_header manifest_summary_message flags @ manifest_summary_body ch m @ rest) = Inr ()"
    by (intro check_header_frame) (simp_all add: manifest_summary_message_def manifest_summary_body_def)
  with 6 show ?case
    by (simp add: manifest_summary_decode_def manifest_summary_body_def wire_simps)
qed (simp_all add: manifest_summary_message_def manifest_summary_body_def manifest_summary_decode_def check_header_def
      stamp_nothing_def)

subsection \<open>StrikeInterval\<close>

definition BOUND_LOWER_PRESENT :: u8 where "BOUND_LOWER_PRESENT = 0b0001"
definition BOUND_LOWER_INCLUSIVE :: u8 where "BOUND_LOWER_INCLUSIVE = 0b0010"
definition BOUND_UPPER_PRESENT :: u8 where "BOUND_UPPER_PRESENT = 0b0100"
definition BOUND_UPPER_INCLUSIVE :: u8 where "BOUND_UPPER_INCLUSIVE = 0b1000"
definition BOUND_RESERVED :: u8 where "BOUND_RESERVED = 0b11110000"

record strike_interval =
  si_instrument_id :: u32
  si_source_id :: u16
  si_strike_exponent :: i8
  si_bound_flags :: u8
  si_lower_bound :: i64
  si_upper_bound :: i64
  si_fixing_time_ns :: u64

definition strike_interval_pending :: "u32 \<Rightarrow> u16 \<Rightarrow> i8 \<Rightarrow> strike_interval" where
  "strike_interval_pending instrument_id source_id strike_exponent =
     \<lparr>si_instrument_id = instrument_id, si_source_id = source_id,
      si_strike_exponent = strike_exponent, si_bound_flags = 0, si_lower_bound = 0,
      si_upper_bound = 0, si_fixing_time_ns = 0\<rparr>"

definition strike_interval_is_pending :: "strike_interval \<Rightarrow> bool" where
  "strike_interval_is_pending m \<longleftrightarrow>
     si_bound_flags m AND (BOUND_LOWER_PRESENT OR BOUND_UPPER_PRESENT) = 0"

definition strike_interval_defect :: "strike_interval \<Rightarrow> string option" where
  "strike_interval_defect m =
    (let flags = si_bound_flags m;
         has_lower = flags AND BOUND_LOWER_PRESENT \<noteq> 0;
         has_upper = flags AND BOUND_UPPER_PRESENT \<noteq> 0;
         lower_inclusive = flags AND BOUND_LOWER_INCLUSIVE \<noteq> 0;
         upper_inclusive = flags AND BOUND_UPPER_INCLUSIVE \<noteq> 0 in
     if flags AND BOUND_RESERVED \<noteq> 0
     then Some ''Bound Flags bits 4-7 are reserved and must be clear''
     else if \<not> has_lower \<and> lower_inclusive
     then Some ''a lower bound that is not present cannot be inclusive''
     else if \<not> has_upper \<and> upper_inclusive
     then Some ''an upper bound that is not present cannot be inclusive''
     else if \<not> has_lower \<and> si_lower_bound m \<noteq> 0
     then Some ''Lower Bound must be 0 when it is not present''
     else if \<not> has_upper \<and> si_upper_bound m \<noteq> 0
     then Some ''Upper Bound must be 0 when it is not present''
     else if \<not> has_lower \<and> \<not> has_upper \<and> si_fixing_time_ns m \<noteq> 0
     then Some ''Fixing Time must be 0 while the strike is pending''
     else if has_lower \<and> has_upper \<and> sint (si_lower_bound m) > sint (si_upper_bound m)
     then Some ''Lower Bound is greater than Upper Bound, so the interval is empty''
     else if has_lower \<and> has_upper \<and> si_lower_bound m = si_upper_bound m \<and>
       \<not> (lower_inclusive \<and> upper_inclusive)
     then Some ''equal bounds with an exclusive end make the interval empty''
     else None)"

definition strike_interval_validate :: "strike_interval \<Rightarrow> encode_error + unit" where
  "strike_interval_validate m =
    (case strike_interval_defect m of
       Some what \<Rightarrow> Inl (MalformedMessage ''dz_edge_refdata::strike_interval::StrikeInterval'' what)
     | None \<Rightarrow> Inr ())"

definition strike_interval_encode_into :: "strike_interval \<Rightarrow> bytes \<Rightarrow> bytes option" where
  "strike_interval_encode_into m dst = write_all
     [(0, [0x09]),
      (1, [40]),
      (2, to_le (0 :: u16)),
      (4, to_le (si_instrument_id m)),
      (8, to_le (si_source_id m)),
      (10, [si_strike_exponent m]),
      (11, [si_bound_flags m]),
      (12, to_le (si_lower_bound m)),
      (20, to_le (si_upper_bound m)),
      (28, to_le (si_fixing_time_ns m)),
      (36, [0, 0, 0, 0])] dst"

definition strike_interval_message :: "strike_interval app_message" where
  "strike_interval_message =
     \<lparr>TYPE_ID = 0x09, SIZE = 40, PORT_ROLES = [Refdata],
      MSG_NAME = ''dz_edge_refdata::strike_interval::StrikeInterval'',
      validate = strike_interval_validate, encode_into = strike_interval_encode_into,
      stamp_channel_id = stamp_nothing\<rparr>"

definition strike_interval_decode :: "bytes \<Rightarrow> decode_error + strike_interval" where
  "strike_interval_decode buf = bind_ok (check_header strike_interval_message buf) (\<lambda>_.
     Inr \<lparr>si_instrument_id = u32_at buf 4,
          si_source_id = u16_at buf 8,
          si_strike_exponent = buf ! 10,
          si_bound_flags = buf ! 11,
          si_lower_bound = i64_at buf 12,
          si_upper_bound = i64_at buf 20,
          si_fixing_time_ns = u64_at buf 28\<rparr>)"

definition strike_interval_body :: "u8 \<Rightarrow> strike_interval \<Rightarrow> bytes" where
  "strike_interval_body ch m =
     to_le (si_instrument_id m) @
     to_le (si_source_id m) @
     [si_strike_exponent m] @
     [si_bound_flags m] @
     to_le (si_lower_bound m) @
     to_le (si_upper_bound m) @
     to_le (si_fixing_time_ns m) @
     [0, 0, 0, 0]"

interpretation si: decodable_message strike_interval_message strike_interval_body "\<lambda>_. 0" "\<lambda>_. True"
    strike_interval_decode "\<lambda>ch m. m"
proof (unfold_locales, goal_cases)
  case (4 m dst)
  then show ?case
    by (simp add: strike_interval_message_def strike_interval_body_def strike_interval_encode_into_def write_all_exact
        message_header_def)
next
  case (6 m flags ch rest)
  then have "check_header strike_interval_message
      (message_header strike_interval_message flags @ strike_interval_body ch m @ rest) = Inr ()"
    by (intro check_header_frame) (simp_all add: strike_interval_message_def strike_interval_body_def)
  with 6 show ?case
    by (simp add: strike_interval_decode_def strike_interval_body_def wire_simps)
qed (simp_all add: strike_interval_message_def strike_interval_body_def strike_interval_decode_def check_header_def
      stamp_nothing_def)

end
