(* ===== verification/Any_Message.thy ===== *)
theory Any_Message
  imports Datagram_Walk Messages_Shared Messages_Tob Messages_Mbp Messages_Refdata
    "HOL-Library.Sublist"
begin

section \<open>Any message of the family, from a push to a decode\<close>

text \<open>
  The message types of the four codec crates as one sum, so that what holds of every message is
  one statement. \<open>any_push\<close> is \<open>DatagramBuilder::push\<close> at the message's own type, \<open>any_read\<close> the
  decoder of that type. The closed forms come from the interpretations of the message interface;
  the end of the theory follows a whole datagram from the first push to the last decoded message.
\<close>

datatype any_message =
    MsgHeartbeat heartbeat
  | MsgEndOfSession end_of_session
  | MsgQuote quote
  | MsgTrade trade
  | MsgLevelUpdate level_update
  | MsgBookClear book_clear
  | MsgInstrumentReset instrument_reset
  | MsgSnapshotBegin snapshot_begin
  | MsgSnapshotLevel snapshot_level
  | MsgSnapshotEnd snapshot_end
  | MsgInstrumentDefinition instrument_definition
  | MsgManifestSummary manifest_summary
  | MsgStrikeInterval strike_interval

fun any_push :: "feed \<Rightarrow> any_message \<Rightarrow> builder \<Rightarrow> push_result option" where
  "any_push F (MsgHeartbeat m) b = push F heartbeat_message m b"
| "any_push F (MsgEndOfSession m) b = push F end_of_session_message m b"
| "any_push F (MsgQuote m) b = push F quote_message m b"
| "any_push F (MsgTrade m) b = push F trade_message m b"
| "any_push F (MsgLevelUpdate m) b = push F level_update_message m b"
| "any_push F (MsgBookClear m) b = push F book_clear_message m b"
| "any_push F (MsgInstrumentReset m) b = push F instrument_reset_message m b"
| "any_push F (MsgSnapshotBegin m) b = push F snapshot_begin_message m b"
| "any_push F (MsgSnapshotLevel m) b = push F snapshot_level_message m b"
| "any_push F (MsgSnapshotEnd m) b = push F snapshot_end_message m b"
| "any_push F (MsgInstrumentDefinition m) b = push F instrument_definition_message m b"
| "any_push F (MsgManifestSummary m) b = push F manifest_summary_message m b"
| "any_push F (MsgStrikeInterval m) b = push F strike_interval_message m b"

fun any_wf :: "any_message \<Rightarrow> bool" where
  "any_wf (MsgHeartbeat m) = True"
| "any_wf (MsgEndOfSession m) = True"
| "any_wf (MsgQuote m) = True"
| "any_wf (MsgTrade m) = True"
| "any_wf (MsgLevelUpdate m) = True"
| "any_wf (MsgBookClear m) = True"
| "any_wf (MsgInstrumentReset m) = True"
| "any_wf (MsgSnapshotBegin m) = True"
| "any_wf (MsgSnapshotLevel m) = True"
| "any_wf (MsgSnapshotEnd m) = True"
| "any_wf (MsgInstrumentDefinition m) = instrument_definition_wf m"
| "any_wf (MsgManifestSummary m) = True"
| "any_wf (MsgStrikeInterval m) = True"

fun any_validate :: "any_message \<Rightarrow> encode_error + unit" where
  "any_validate (MsgHeartbeat m) = validate heartbeat_message m"
| "any_validate (MsgEndOfSession m) = validate end_of_session_message m"
| "any_validate (MsgQuote m) = validate quote_message m"
| "any_validate (MsgTrade m) = validate trade_message m"
| "any_validate (MsgLevelUpdate m) = validate level_update_message m"
| "any_validate (MsgBookClear m) = validate book_clear_message m"
| "any_validate (MsgInstrumentReset m) = validate instrument_reset_message m"
| "any_validate (MsgSnapshotBegin m) = validate snapshot_begin_message m"
| "any_validate (MsgSnapshotLevel m) = validate snapshot_level_message m"
| "any_validate (MsgSnapshotEnd m) = validate snapshot_end_message m"
| "any_validate (MsgInstrumentDefinition m) = validate instrument_definition_message m"
| "any_validate (MsgManifestSummary m) = validate manifest_summary_message m"
| "any_validate (MsgStrikeInterval m) = validate strike_interval_message m"

fun any_type_id :: "any_message \<Rightarrow> u8" where
  "any_type_id (MsgHeartbeat m) = TYPE_ID heartbeat_message"
| "any_type_id (MsgEndOfSession m) = TYPE_ID end_of_session_message"
| "any_type_id (MsgQuote m) = TYPE_ID quote_message"
| "any_type_id (MsgTrade m) = TYPE_ID trade_message"
| "any_type_id (MsgLevelUpdate m) = TYPE_ID level_update_message"
| "any_type_id (MsgBookClear m) = TYPE_ID book_clear_message"
| "any_type_id (MsgInstrumentReset m) = TYPE_ID instrument_reset_message"
| "any_type_id (MsgSnapshotBegin m) = TYPE_ID snapshot_begin_message"
| "any_type_id (MsgSnapshotLevel m) = TYPE_ID snapshot_level_message"
| "any_type_id (MsgSnapshotEnd m) = TYPE_ID snapshot_end_message"
| "any_type_id (MsgInstrumentDefinition m) = TYPE_ID instrument_definition_message"
| "any_type_id (MsgManifestSummary m) = TYPE_ID manifest_summary_message"
| "any_type_id (MsgStrikeInterval m) = TYPE_ID strike_interval_message"

fun any_roles :: "any_message \<Rightarrow> port_role list" where
  "any_roles (MsgHeartbeat m) = PORT_ROLES heartbeat_message"
| "any_roles (MsgEndOfSession m) = PORT_ROLES end_of_session_message"
| "any_roles (MsgQuote m) = PORT_ROLES quote_message"
| "any_roles (MsgTrade m) = PORT_ROLES trade_message"
| "any_roles (MsgLevelUpdate m) = PORT_ROLES level_update_message"
| "any_roles (MsgBookClear m) = PORT_ROLES book_clear_message"
| "any_roles (MsgInstrumentReset m) = PORT_ROLES instrument_reset_message"
| "any_roles (MsgSnapshotBegin m) = PORT_ROLES snapshot_begin_message"
| "any_roles (MsgSnapshotLevel m) = PORT_ROLES snapshot_level_message"
| "any_roles (MsgSnapshotEnd m) = PORT_ROLES snapshot_end_message"
| "any_roles (MsgInstrumentDefinition m) = PORT_ROLES instrument_definition_message"
| "any_roles (MsgManifestSummary m) = PORT_ROLES manifest_summary_message"
| "any_roles (MsgStrikeInterval m) = PORT_ROLES strike_interval_message"

fun any_size :: "any_message \<Rightarrow> nat" where
  "any_size (MsgHeartbeat m) = SIZE heartbeat_message"
| "any_size (MsgEndOfSession m) = SIZE end_of_session_message"
| "any_size (MsgQuote m) = SIZE quote_message"
| "any_size (MsgTrade m) = SIZE trade_message"
| "any_size (MsgLevelUpdate m) = SIZE level_update_message"
| "any_size (MsgBookClear m) = SIZE book_clear_message"
| "any_size (MsgInstrumentReset m) = SIZE instrument_reset_message"
| "any_size (MsgSnapshotBegin m) = SIZE snapshot_begin_message"
| "any_size (MsgSnapshotLevel m) = SIZE snapshot_level_message"
| "any_size (MsgSnapshotEnd m) = SIZE snapshot_end_message"
| "any_size (MsgInstrumentDefinition m) = SIZE instrument_definition_message"
| "any_size (MsgManifestSummary m) = SIZE manifest_summary_message"
| "any_size (MsgStrikeInterval m) = SIZE strike_interval_message"

fun any_refusal :: "feed \<Rightarrow> builder \<Rightarrow> any_message \<Rightarrow> encode_error option" where
  "any_refusal F b (MsgHeartbeat m) = push_refusal F heartbeat_message m b"
| "any_refusal F b (MsgEndOfSession m) = push_refusal F end_of_session_message m b"
| "any_refusal F b (MsgQuote m) = push_refusal F quote_message m b"
| "any_refusal F b (MsgTrade m) = push_refusal F trade_message m b"
| "any_refusal F b (MsgLevelUpdate m) = push_refusal F level_update_message m b"
| "any_refusal F b (MsgBookClear m) = push_refusal F book_clear_message m b"
| "any_refusal F b (MsgInstrumentReset m) = push_refusal F instrument_reset_message m b"
| "any_refusal F b (MsgSnapshotBegin m) = push_refusal F snapshot_begin_message m b"
| "any_refusal F b (MsgSnapshotLevel m) = push_refusal F snapshot_level_message m b"
| "any_refusal F b (MsgSnapshotEnd m) = push_refusal F snapshot_end_message m b"
| "any_refusal F b (MsgInstrumentDefinition m) = push_refusal F instrument_definition_message m b"
| "any_refusal F b (MsgManifestSummary m) = push_refusal F manifest_summary_message m b"
| "any_refusal F b (MsgStrikeInterval m) = push_refusal F strike_interval_message m b"

fun any_frame :: "u16 \<Rightarrow> u8 \<Rightarrow> any_message \<Rightarrow> bytes" where
  "any_frame flags ch (MsgHeartbeat m) = message_header heartbeat_message flags @ heartbeat_body ch m"
| "any_frame flags ch (MsgEndOfSession m) = message_header end_of_session_message flags @ end_of_session_body ch m"
| "any_frame flags ch (MsgQuote m) = message_header quote_message flags @ quote_body ch m"
| "any_frame flags ch (MsgTrade m) = message_header trade_message flags @ trade_body ch m"
| "any_frame flags ch (MsgLevelUpdate m) = message_header level_update_message flags @ level_update_body ch m"
| "any_frame flags ch (MsgBookClear m) = message_header book_clear_message flags @ book_clear_body ch m"
| "any_frame flags ch (MsgInstrumentReset m) = message_header instrument_reset_message flags @ instrument_reset_body ch m"
| "any_frame flags ch (MsgSnapshotBegin m) = message_header snapshot_begin_message flags @ snapshot_begin_body ch m"
| "any_frame flags ch (MsgSnapshotLevel m) = message_header snapshot_level_message flags @ snapshot_level_body ch m"
| "any_frame flags ch (MsgSnapshotEnd m) = message_header snapshot_end_message flags @ snapshot_end_body ch m"
| "any_frame flags ch (MsgInstrumentDefinition m) = message_header instrument_definition_message flags @ instrument_definition_body ch m"
| "any_frame flags ch (MsgManifestSummary m) = message_header manifest_summary_message flags @ manifest_summary_body ch m"
| "any_frame flags ch (MsgStrikeInterval m) = message_header strike_interval_message flags @ strike_interval_body ch m"

fun any_read :: "bytes \<Rightarrow> any_message \<Rightarrow> decode_error + any_message" where
  "any_read bs (MsgHeartbeat m) = map_sum id MsgHeartbeat (heartbeat_decode bs)"
| "any_read bs (MsgEndOfSession m) = map_sum id MsgEndOfSession (end_of_session_decode bs)"
| "any_read bs (MsgQuote m) = map_sum id MsgQuote (quote_decode bs)"
| "any_read bs (MsgTrade m) = map_sum id MsgTrade (trade_decode bs)"
| "any_read bs (MsgLevelUpdate m) = map_sum id MsgLevelUpdate (level_update_decode bs)"
| "any_read bs (MsgBookClear m) = map_sum id MsgBookClear (book_clear_decode bs)"
| "any_read bs (MsgInstrumentReset m) = map_sum id MsgInstrumentReset (instrument_reset_decode bs)"
| "any_read bs (MsgSnapshotBegin m) = map_sum id MsgSnapshotBegin (snapshot_begin_decode bs)"
| "any_read bs (MsgSnapshotLevel m) = map_sum id MsgSnapshotLevel (snapshot_level_decode bs)"
| "any_read bs (MsgSnapshotEnd m) = map_sum id MsgSnapshotEnd (snapshot_end_decode bs)"
| "any_read bs (MsgInstrumentDefinition m) = map_sum id MsgInstrumentDefinition (instrument_definition_decode_v3 bs)"
| "any_read bs (MsgManifestSummary m) = map_sum id MsgManifestSummary (manifest_summary_decode bs)"
| "any_read bs (MsgStrikeInterval m) = map_sum id MsgStrikeInterval (strike_interval_decode bs)"

fun any_stamped :: "u8 \<Rightarrow> any_message \<Rightarrow> any_message" where
  "any_stamped ch (MsgHeartbeat m) = MsgHeartbeat (m\<lparr>hb_channel_id := ch\<rparr>)"
| "any_stamped ch (MsgEndOfSession m) = MsgEndOfSession m"
| "any_stamped ch (MsgQuote m) = MsgQuote m"
| "any_stamped ch (MsgTrade m) = MsgTrade m"
| "any_stamped ch (MsgLevelUpdate m) = MsgLevelUpdate m"
| "any_stamped ch (MsgBookClear m) = MsgBookClear m"
| "any_stamped ch (MsgInstrumentReset m) = MsgInstrumentReset m"
| "any_stamped ch (MsgSnapshotBegin m) = MsgSnapshotBegin m"
| "any_stamped ch (MsgSnapshotLevel m) = MsgSnapshotLevel m"
| "any_stamped ch (MsgSnapshotEnd m) = MsgSnapshotEnd m"
| "any_stamped ch (MsgInstrumentDefinition m) = MsgInstrumentDefinition m"
| "any_stamped ch (MsgManifestSummary m) = MsgManifestSummary (m\<lparr>ms_channel_id := ch\<rparr>)"
| "any_stamped ch (MsgStrikeInterval m) = MsgStrikeInterval m"

lemmas push_closed_all =
  hb.push_closed
  eos.push_closed
  q.push_closed
  t.push_closed
  lu.push_closed
  bc.push_closed
  ir.push_closed
  sb.push_closed
  sl.push_closed
  se.push_closed
  idef.push_closed
  ms.push_closed
  si.push_closed

lemmas push_accept_inv_all =
  hb.push_accept_inv
  eos.push_accept_inv
  q.push_accept_inv
  t.push_accept_inv
  lu.push_accept_inv
  bc.push_accept_inv
  ir.push_accept_inv
  sb.push_accept_inv
  sl.push_accept_inv
  se.push_accept_inv
  idef.push_accept_inv
  ms.push_accept_inv
  si.push_accept_inv

lemmas well_framed_all =
  hb.push_frame_well_framed
  eos.push_frame_well_framed
  q.push_frame_well_framed
  t.push_frame_well_framed
  lu.push_frame_well_framed
  bc.push_frame_well_framed
  ir.push_frame_well_framed
  sb.push_frame_well_framed
  sl.push_frame_well_framed
  se.push_frame_well_framed
  idef.push_frame_well_framed
  ms.push_frame_well_framed
  si.push_frame_well_framed

lemmas decode_law_all =
  hb.decode_law
  eos.decode_law
  q.decode_law
  t.decode_law
  lu.decode_law
  bc.decode_law
  ir.decode_law
  sb.decode_law
  sl.decode_law
  se.decode_law
  idef.decode_law
  ms.decode_law
  si.decode_law

lemmas size_lo_all =
  hb.size_lo
  eos.size_lo
  q.size_lo
  t.size_lo
  lu.size_lo
  bc.size_lo
  ir.size_lo
  sb.size_lo
  sl.size_lo
  se.size_lo
  idef.size_lo
  ms.size_lo
  si.size_lo

lemma message_header_first: "(message_header M flags @ x) ! 0 = TYPE_ID M"
  by (simp add: message_header_def)

lemmas length_frame_all =
  hb.length_frame
  eos.length_frame
  q.length_frame
  t.length_frame
  lu.length_frame
  bc.length_frame
  ir.length_frame
  sb.length_frame
  sl.length_frame
  se.length_frame
  idef.length_frame
  ms.length_frame
  si.length_frame

subsection \<open>One push\<close>

lemma any_push_closed:
  "any_wf m \<Longrightarrow> any_push F m b = Some (case any_refusal F b m of
      Some e \<Rightarrow> (Inl e, b)
    | None \<Rightarrow> (Inr (), append_frame
        (any_frame (flags_for (b_port_role b)) (b_channel_id b) m) b))"
  by (cases m) (simp_all only: any_push.simps any_refusal.simps any_frame.simps any_wf.simps
      push_closed_all)

lemma any_accept_inv:
  "any_wf m \<Longrightarrow> builder_inv b ms \<Longrightarrow> any_refusal F b m = None \<Longrightarrow>
   builder_inv (append_frame (any_frame flags ch m) b) (ms @ [any_frame flags ch m])"
  by (cases m) (simp_all only: any_refusal.simps any_frame.simps any_wf.simps
      push_accept_inv_all)

lemma any_frame_well_framed: "any_wf m \<Longrightarrow> well_framed (any_frame flags ch m)"
  by (cases m) (simp_all only: any_frame.simps any_wf.simps well_framed_all)

lemma any_read_frame:
  "any_wf m \<Longrightarrow> any_validate m = Inr () \<Longrightarrow>
   any_read (any_frame flags ch m) m = Inr (any_stamped ch m)"
  using decode_law_all [where rest = "[]"]
  by (cases m) simp_all

lemma any_refusal_None:
  "any_refusal F b m = None \<longleftrightarrow> carries F (any_type_id m) \<and> any_validate m = Inr () \<and>
     b_port_role b \<in> set (any_roles m) \<and> b_msg_count b \<noteq> 255 \<and>
     length (b_buf b) + any_size m \<le> b_capacity b"
  using size_lo_all
  by (cases m) (auto simp: push_refusal_def split: sum.splits)

lemma any_frame_type:
  "any_wf m \<Longrightarrow> any_frame flags ch m ! 0 = any_type_id m \<and> length (any_frame flags ch m) = any_size m"
  by (cases m) (simp_all only: any_frame.simps any_wf.simps any_type_id.simps any_size.simps
      length_frame_all message_header_first)

subsection \<open>A whole datagram\<close>

text \<open>
  The caller's loop: push every message, keep what was accepted. The builder it ends with holds
  the accepted messages' frames, in order.
\<close>

fun push_all :: "feed \<Rightarrow> any_message list \<Rightarrow> builder \<Rightarrow> (any_message list \<times> builder) option" where
  "push_all F [] b = Some ([], b)"
| "push_all F (m # ms) b = do {
     (r, b') \<leftarrow> any_push F m b;
     (accepted, b'') \<leftarrow> push_all F ms b';
     Some (case r of Inl e \<Rightarrow> accepted | Inr _ \<Rightarrow> m # accepted, b'')
   }"

lemma push_all_inv:
  assumes "list_all any_wf ms" "builder_inv b fs"
  defines "flags \<equiv> flags_for (b_port_role b)" and "ch \<equiv> b_channel_id b"
  shows "\<exists>acc b'. push_all F ms b = Some (acc, b') \<and> subseq acc ms \<and>
    builder_inv b' (fs @ map (any_frame flags ch) acc) \<and>
    (\<forall>m\<in>set acc. carries F (any_type_id m) \<and> any_validate m = Inr () \<and>
       b_port_role b \<in> set (any_roles m)) \<and>
    (b_port_role b', b_channel_id b', b_sequence_number b', b_reset_count b', b_capacity b') =
    (b_port_role b, b_channel_id b, b_sequence_number b, b_reset_count b, b_capacity b)"
  using assms(1,2) unfolding flags_def ch_def
proof (induction ms arbitrary: b fs)
  case Nil
  then show ?case by auto
next
  case (Cons m ms)
  show ?case
  proof (cases "any_refusal F b m")
    case None
    let ?f = "any_frame (flags_for (b_port_role b)) (b_channel_id b) m"
    obtain acc b' where ih: "push_all F ms (append_frame ?f b) = Some (acc, b')" "subseq acc ms"
        "builder_inv b' ((fs @ [?f]) @ map (any_frame (flags_for (b_port_role b)) (b_channel_id b)) acc)"
        "\<forall>m\<in>set acc. carries F (any_type_id m) \<and> any_validate m = Inr () \<and>
          b_port_role b \<in> set (any_roles m)"
        "(b_port_role b', b_channel_id b', b_sequence_number b', b_reset_count b', b_capacity b') =
         (b_port_role b, b_channel_id b, b_sequence_number b, b_reset_count b, b_capacity b)"
      using Cons.IH [of "append_frame ?f b" "fs @ [?f]"] Cons.prems None
      by (auto simp: any_accept_inv)
    show ?thesis
      using ih Cons.prems None any_refusal_None [of F b m]
      by (intro exI [of _ "m # acc"] exI [of _ b']) (simp add: any_push_closed)
  next
    case (Some e)
    then show ?thesis
      using Cons.IH [OF _ Cons.prems(2)] Cons.prems(1)
      by (fastforce simp: any_push_closed)
  qed
qed

lemma any_frame_flags:
  "from_le [any_frame flags ch m ! 2, any_frame flags ch m ! 3] = flags"
proof -
  have hdr: "[(message_header M flags @ x) ! 2, (message_header M flags @ x) ! 3] = to_le flags"
    for M :: "'m app_message" and x
    using list_of_two [of "to_le flags"] by (simp add: message_header_def nth_append)
  show ?thesis
    by (cases m) (simp_all only: any_frame.simps hdr from_to_le_widths)
qed

lemma read_frames:
  "list_all any_wf acc \<Longrightarrow> list_all (\<lambda>m. any_validate m = Inr ()) acc \<Longrightarrow>
   map2 any_read (map (any_frame flags ch) acc) acc = map (\<lambda>m. Inr (any_stamped ch m)) acc"
  by (induction acc) (simp_all add: any_read_frame)

lemma list_all_subseq: "subseq xs ys \<Longrightarrow> list_all P ys \<Longrightarrow> list_all P xs"
  by (induction rule: list_emb.induct) auto

lemma frames_decode:
  assumes inv: "builder_inv b (map (any_frame flags ch) acc)" and acc: "acc \<noteq> []"
    and wf: "list_all any_wf acc" and valid: "list_all (\<lambda>m. any_validate m = Inr ()) acc"
  shows "\<exists>buf d refs. finish F ts b = Some (Some buf) \<and> length buf \<le> b_capacity b \<and>
    datagram_decode buf (MAGIC F) = Inr d \<and> hdr_channel_id (dg_header d) = b_channel_id b \<and>
    hdr_sequence_number (dg_header d) = b_sequence_number b \<and>
    hdr_reset_count (dg_header d) = b_reset_count b \<and> hdr_send_timestamp_ns (dg_header d) = ts \<and>
    collect (messages d) = Some refs \<and> map mr_type_id refs = map any_type_id acc \<and>
    list_all (\<lambda>r. mr_flags r = flags) refs \<and>
    map2 any_read (map mr_bytes refs) acc = map (\<lambda>m. Inr (any_stamped ch m)) acc"
proof -
  let ?refs = "map message_ref_of (map (any_frame flags ch) acc)"
  have refs: "map mr_type_id ?refs = map any_type_id acc" "list_all (\<lambda>r. mr_flags r = flags) ?refs"
      "map mr_bytes ?refs = map (any_frame flags ch) acc"
    using wf any_frame_type by (auto simp: message_ref_of_def list_all_iff any_frame_flags)
  obtain buf d where buf: "finish F ts b = Some (Some buf)" "length buf = length (b_buf b)"
      "datagram_decode buf (MAGIC F) = Inr d" "collect (messages d) = Some ?refs"
      "hdr_channel_id (dg_header d) = b_channel_id b" "hdr_sequence_number (dg_header d) = b_sequence_number b"
      "hdr_reset_count (dg_header d) = b_reset_count b" "hdr_send_timestamp_ns (dg_header d) = ts"
    using finish_decodes [OF inv, of F ts] acc by auto
  moreover have "length buf \<le> b_capacity b"
    using builder_inv_fits [OF inv] by (simp only: buf(2))
  ultimately show ?thesis
    using refs read_frames [OF wf valid, of flags ch]
    by (intro exI [of _ buf] exI [of _ d] exI [of _ ?refs] conjI) (simp_all only: simp_thms)
qed

text \<open>
  C1. Published is received: push any messages on a fresh builder of a feed, in any order and
  whatever is refused on the way. No push and no finish panics; what was accepted is a
  subsequence of what was offered, carried by the feed, valid and documented for the port role;
  nothing accepted finishes to nothing; otherwise the datagram fits the capacity, decodes under
  the feed's magic with the sequence state it was opened with, and its messages are, in order,
  the accepted ones read back by their own decoders, with the builder's flags and channel id.
\<close>

theorem publish_roundtrip:
  assumes "list_all any_wf ms"
  shows "\<exists>acc b. push_all F ms (builder_new s role mtu) = Some (acc, b) \<and> subseq acc ms \<and>
    list_all (\<lambda>m. carries F (any_type_id m) \<and> any_validate m = Inr () \<and> role \<in> set (any_roles m)) acc \<and>
    (if acc = [] then finish F ts b = Some None
     else \<exists>buf d refs. finish F ts b = Some (Some buf) \<and> length buf \<le> clamp_capacity mtu \<and>
       datagram_decode buf (MAGIC F) = Inr d \<and>
       hdr_channel_id (dg_header d) = cs_channel_id s \<and>
       hdr_sequence_number (dg_header d) = cs_sequence_number s \<and>
       hdr_reset_count (dg_header d) = cs_reset_count s \<and>
       hdr_send_timestamp_ns (dg_header d) = ts \<and>
       collect (messages d) = Some refs \<and>
       map mr_type_id refs = map any_type_id acc \<and>
       list_all (\<lambda>r. mr_flags r = flags_for role) refs \<and>
       map2 any_read (map mr_bytes refs) acc =
         map (\<lambda>m. Inr (any_stamped (cs_channel_id s) m)) acc)"
proof -
  let ?b0 = "builder_new s role mtu" and ?ch = "cs_channel_id s"
  let ?frame = "any_frame (flags_for role) ?ch"
  have b0: "b_port_role ?b0 = role" "b_channel_id ?b0 = ?ch" "b_capacity ?b0 = clamp_capacity mtu"
    "b_sequence_number ?b0 = cs_sequence_number s" "b_reset_count ?b0 = cs_reset_count s"
    by (simp_all add: builder_new_def)
  obtain acc b where run: "push_all F ms ?b0 = Some (acc, b)" "subseq acc ms"
      "builder_inv b (map ?frame acc)"
      "list_all (\<lambda>m. carries F (any_type_id m) \<and> any_validate m = Inr () \<and> role \<in> set (any_roles m)) acc"
      "b_channel_id b = ?ch" "b_sequence_number b = cs_sequence_number s"
      "b_reset_count b = cs_reset_count s" "b_capacity b = clamp_capacity mtu"
    using push_all_inv [OF assms builder_new_inv, of F s role mtu]
    by (auto simp: b0 list_all_iff)
  have wf: "list_all any_wf acc" and valid: "list_all (\<lambda>m. any_validate m = Inr ()) acc"
    using list_all_subseq [OF run(2) assms] run(4) by (auto simp: list_all_iff)
  show ?thesis
  proof (cases "acc = []")
    case True
    then have "finish F ts b = Some None"
      using run(3) by (intro finish_empty) (simp add: builder_inv_def unat_eq_zero)
    then show ?thesis
      using run True by (intro exI [of _ acc] exI [of _ b]) simp
  next
    case False
    show ?thesis
      using run(1,2,4) False frames_decode [OF run(3) False wf valid, of F ts]
      unfolding run(5-8) by (intro exI [of _ acc] exI [of _ b] conjI) simp_all
  qed
qed

definition sample_heartbeat :: any_message where
  "sample_heartbeat = MsgHeartbeat \<lparr>hb_channel_id = 0, hb_timestamp_ns = 5\<rparr>"

theorem publish_roundtrip_witness:
  "\<exists>acc b. push_all TopOfBook [sample_heartbeat]
      (builder_new \<lparr>cs_channel_id = 7, cs_sequence_number = 9, cs_reset_count = 1\<rparr> Mktdata 1200) =
      Some (acc, b) \<and> subseq acc [sample_heartbeat]"
  using publish_roundtrip [of "[sample_heartbeat]" TopOfBook
      "\<lparr>cs_channel_id = 7, cs_sequence_number = 9, cs_reset_count = 1\<rparr>" Mktdata 1200 0]
  by (simp add: sample_heartbeat_def) blast

text \<open>
  The definition of an instrument and its strike interval share a datagram or neither is in
  one: a refusal of either message leaves the builder as it was, an acceptance appends both
  frames, in order, and there is no panic and no third outcome.
\<close>

theorem pair_whole_or_nothing:
  assumes "instrument_definition_wf m"
  shows "\<exists>r b'. push_pair F instrument_definition_message m strike_interval_message k b = Some (r, b') \<and>
    (case r of
       Inl e \<Rightarrow> b' = b
     | Inr _ \<Rightarrow> b' = append_frame
         (message_header strike_interval_message (flags_for (b_port_role b)) @
          strike_interval_body (b_channel_id b) k)
         (append_frame (message_header instrument_definition_message (flags_for (b_port_role b)) @
          instrument_definition_body (b_channel_id b) m) b))"
  using push_pair_closed [OF idef.wire_message_axioms si.wire_message_axioms assms TrueI refl refl,
      where F = F and b = b]
  by (simp split: option.split)

definition sample_definition :: instrument_definition where
  "sample_definition =
     \<lparr>idef_instrument_id = 7, idef_source_id = 1, idef_symbol = replicate 64 65,
      idef_leg1 = replicate 8 66, idef_leg2 = replicate 8 67, idef_asset_class = 1,
      idef_price_exponent = 0, idef_qty_exponent = 0, idef_market_model = 1, idef_tick_size = 1,
      idef_lot_size = 1, idef_contract_value = 0, idef_expiry_ns = 0, idef_settle_type = 0,
      idef_price_bound = 0, idef_manifest_seq = 3\<rparr>"

theorem pair_whole_or_nothing_witness:
  "\<exists>r b'. push_pair TopOfBook instrument_definition_message sample_definition
      strike_interval_message (strike_interval_pending 7 1 0)
      (builder_new \<lparr>cs_channel_id = 7, cs_sequence_number = 9, cs_reset_count = 1\<rparr> Refdata 200) =
    Some (r, b')"
proof -
  have "instrument_definition_wf sample_definition"
    by (simp add: instrument_definition_wf_def sample_definition_def)
  from pair_whole_or_nothing [OF this] show ?thesis by blast
qed

end
