(* ===== verification/Ordered_Map.thy ===== *)
theory Ordered_Map
  imports Edge_Prelude
begin

section \<open>Ordered maps\<close>

text \<open>
  \<open>BTreeMap\<close> of the standard library, as the components use it: \<open>get\<close>, \<open>contains_key\<close>, \<open>insert\<close>,
  \<open>entry\<close>, \<open>len\<close> and iteration in key order. The interface is the locale \<open>keyed_store\<close>; its
  client lemmas follow a store through updates bounded by a size, which is how a table keyed by
  wire values is kept. The implementation is an association list sorted by key.
\<close>

locale keyed_store =
  fixes lookup :: "'m \<Rightarrow> 'k \<Rightarrow> 'v option"
    and update :: "'k \<Rightarrow> 'v \<Rightarrow> 'm \<Rightarrow> 'm"
    and entries :: "'m \<Rightarrow> nat"
    and ok :: "'m \<Rightarrow> bool"
    and empty_store :: "'m"
  assumes lookup_empty: "lookup empty_store k = None"
    and entries_empty: "entries empty_store = 0"
    and ok_empty: "ok empty_store"
    and lookup_update: "lookup (update k v m) k' = (if k' = k then Some v else lookup m k')"
    and ok_update: "ok m \<Longrightarrow> ok (update k v m)"
    and entries_update: "ok m \<Longrightarrow>
      entries (update k v m) = (if lookup m k = None then entries m + 1 else entries m)"
begin

text \<open>An update refused when it would grow the store past a bound.\<close>

definition admit :: "nat \<Rightarrow> 'k \<Rightarrow> ('v option \<Rightarrow> 'v) \<Rightarrow> 'm \<Rightarrow> 'm" where
  "admit bound k f m =
     (if lookup m k = None \<and> bound \<le> entries m then m else update k (f (lookup m k)) m)"

lemma ok_admit: "ok m \<Longrightarrow> ok (admit bound k f m)"
  by (simp add: admit_def ok_update)

lemma entries_admit: "ok m \<Longrightarrow> entries m \<le> bound \<Longrightarrow> entries (admit bound k f m) \<le> bound"
  by (auto simp: admit_def entries_update)

lemma lookup_admit_other: "k' \<noteq> k \<Longrightarrow> lookup (admit bound k f m) k' = lookup m k'"
  by (simp add: admit_def lookup_update)

lemma lookup_admit_same:
  "lookup m k \<noteq> None \<or> entries m < bound \<Longrightarrow> lookup (admit bound k f m) k = Some (f (lookup m k))"
  by (auto simp: admit_def lookup_update)

lemma admits_bounded:
  "ok m \<Longrightarrow> entries m \<le> bound \<Longrightarrow>
   ok (fold (\<lambda>d. admit bound (key d) (f d)) ds m) \<and>
   entries (fold (\<lambda>d. admit bound (key d) (f d)) ds m) \<le> bound"
  by (induction ds arbitrary: m) (simp_all add: ok_admit entries_admit)

text \<open>
  Once a key is in, its value is a function of its own updates alone: what arrives under other
  keys, how it interleaves and what is refused to them does not show.
\<close>

lemma admits_isolated:
  "lookup m k = Some v \<Longrightarrow>
   lookup (fold (\<lambda>d. admit bound (key d) (f d)) ds m) k =
   Some (fold (\<lambda>d w. f d (Some w)) (filter (\<lambda>d. key d = k) ds) v)"
proof (induction ds arbitrary: m v)
  case Nil
  then show ?case by simp
next
  case (Cons d ds)
  show ?case
  proof (cases "key d = k")
    case True
    then have "lookup (admit bound (key d) (f d) m) k = Some (f d (Some v))"
      using Cons.prems lookup_admit_same [of m k bound "f d"] by simp
    then show ?thesis
      using Cons.IH True by simp
  next
    case False
    then have "lookup (admit bound (key d) (f d) m) k = Some v"
      using Cons.prems lookup_admit_other [of k "key d"] by simp
    then show ?thesis
      using Cons.IH False by simp
  qed
qed

lemma admits_none:
  "ok m \<Longrightarrow> bound \<le> entries m \<Longrightarrow> lookup m k = None \<Longrightarrow>
   lookup (fold (\<lambda>d. admit bound (key d) (f d)) ds m) k = None"
proof (induction ds arbitrary: m)
  case Nil
  then show ?case by simp
next
  case (Cons d ds)
  have "lookup (admit bound (key d) (f d) m) k = None"
    using Cons.prems by (cases "key d = k") (auto simp: admit_def lookup_update)
  moreover have "bound \<le> entries (admit bound (key d) (f d) m)"
    using Cons.prems by (auto simp: admit_def entries_update)
  ultimately show ?case
    using Cons.IH Cons.prems ok_admit by simp
qed

text \<open>The same from any store: a key that is in at the end was never refused.\<close>

lemma admits_isolated_option:
  "ok m \<Longrightarrow> lookup (fold (\<lambda>d. admit bound (key d) (f d)) ds m) k \<noteq> None \<Longrightarrow>
   lookup (fold (\<lambda>d. admit bound (key d) (f d)) ds m) k =
   fold (\<lambda>d w. Some (f d w)) (filter (\<lambda>d. key d = k) ds) (lookup m k)"
proof (induction ds arbitrary: m)
  case Nil
  then show ?case by simp
next
  case (Cons d ds)
  let ?m = "admit bound (key d) (f d) m"
  have ih: "lookup (fold (\<lambda>d. admit bound (key d) (f d)) (d # ds) m) k =
      fold (\<lambda>d w. Some (f d w)) (filter (\<lambda>d. key d = k) ds) (lookup ?m k)"
    using Cons.IH [of ?m] Cons.prems ok_admit by simp
  show ?case
  proof (cases "key d = k")
    case True
    have "lookup m k \<noteq> None \<or> entries m < bound"
    proof (rule ccontr)
      assume "\<not> (lookup m k \<noteq> None \<or> entries m < bound)"
      then show False
        using Cons.prems admits_none [of m bound k key f "d # ds"] by simp
    qed
    then show ?thesis
      using ih True lookup_admit_same [of m k bound "f d"] by simp
  next
    case False
    then show ?thesis
      using ih lookup_admit_other [of k "key d"] by simp
  qed
qed

end

subsection \<open>Association lists sorted by key\<close>

type_synonym ('k, 'v) omap = "('k \<times> 'v) list"

definition om_empty :: "('k, 'v) omap" where "om_empty = []"

fun om_update :: "'k::linorder \<Rightarrow> 'v \<Rightarrow> ('k, 'v) omap \<Rightarrow> ('k, 'v) omap" where
  "om_update k v [] = [(k, v)]"
| "om_update k v ((k', v') # m) =
     (if k < k' then (k, v) # (k', v') # m
      else if k = k' then (k, v) # m
      else (k', v') # om_update k v m)"

definition om_remove :: "'k \<Rightarrow> ('k, 'v) omap \<Rightarrow> ('k, 'v) omap" where
  "om_remove k m = filter (\<lambda>(k', v). k' \<noteq> k) m"

definition om_lookup :: "('k, 'v) omap \<Rightarrow> 'k \<Rightarrow> 'v option" where
  "om_lookup m k = map_of m k"

definition om_ok :: "('k::linorder, 'v) omap \<Rightarrow> bool" where
  "om_ok m \<longleftrightarrow> sorted_wrt (<) (map fst m)"

lemma om_lookup_update: "om_lookup (om_update k v m) k' = (if k' = k then Some v else om_lookup m k')"
  by (induction m) (auto simp: om_lookup_def)

lemma om_lookup_remove: "om_lookup (om_remove k m) k' = (if k' = k then None else om_lookup m k')"
  by (induction m) (auto simp: om_lookup_def om_remove_def)

lemma set_keys_om_update: "fst ` set (om_update k v m) = insert k (fst ` set m)"
  by (induction k v m rule: om_update.induct) (simp_all add: insert_commute)

lemma om_ok_update: "om_ok m \<Longrightarrow> om_ok (om_update k v m)"
proof (induction m)
  case (Cons p m)
  obtain k' v' where p: "p = (k', v')" by (cases p)
  have keys: "set (map fst (om_update k v m)) = insert k (set (map fst m))"
    using set_keys_om_update [of k v m] by simp
  show ?case
    using Cons keys by (auto simp: p om_ok_def dest: less_trans simp del: set_map)
qed (simp add: om_ok_def)

lemma om_lookup_less:
  fixes m :: "('k::linorder, 'v) omap"
  assumes "\<forall>x\<in>set (map fst m). k < x"
  shows "om_lookup m k = None"
proof -
  have "k \<notin> set (map fst m)"
  proof
    assume "k \<in> set (map fst m)"
    then have "k < k" by (rule bspec [OF assms])
    then show False by simp
  qed
  then show ?thesis
    by (simp add: om_lookup_def map_of_eq_None_iff)
qed

lemma om_entries_update: "om_ok m \<Longrightarrow>
    length (om_update k v m) = (if om_lookup m k = None then length m + 1 else length m)"
proof (induction m)
  case Nil
  then show ?case by (simp add: om_lookup_def)
next
  case (Cons p m)
  obtain k' v' where p: "p = (k', v')" by (cases p)
  have "k < k' \<Longrightarrow> om_lookup m k = None"
    using Cons.prems by (intro om_lookup_less) (auto simp: om_ok_def p)
  then show ?case
    using Cons by (auto simp: om_ok_def om_lookup_def p)
qed

interpretation om: keyed_store om_lookup om_update length om_ok om_empty
proof (unfold_locales, goal_cases)
  case (4 k v m k')
  show ?case by (rule om_lookup_update)
qed (simp_all add: om_lookup_def om_empty_def om_ok_def om_ok_update [unfolded om_ok_def]
      om_entries_update [unfolded om_ok_def om_lookup_def])

text \<open>A sum over the values, across one update.\<close>

lemma om_sum_update:
  fixes f :: "'v \<Rightarrow> 'a::ab_group_add"
  assumes "om_ok m"
  shows "(\<Sum>p\<leftarrow>om_update k v m. f (snd p)) =
    (\<Sum>p\<leftarrow>m. f (snd p)) - (case om_lookup m k of None \<Rightarrow> 0 | Some w \<Rightarrow> f w) + f v"
  using assms
proof (induction m)
  case Nil
  then show ?case by (simp add: om_lookup_def)
next
  case (Cons p m)
  obtain k' v' where p: "p = (k', v')" by (cases p)
  have "om_lookup m k = None" if "k < k'"
    using Cons.prems that by (intro om_lookup_less) (auto simp: om_ok_def p)
  then show ?case
    using Cons by (auto simp: om_ok_def om_lookup_def p algebra_simps split: option.splits)
qed

end
