(* ===== verification/Recorded_Datagram.thy ===== *)
theory Recorded_Datagram
  imports Wire_Core Ordered_Map
begin

section \<open>One received datagram, and the identity it is tracked under\<close>

text \<open>
  \<open>datagram.rs\<close> of \<open>dz-recorder-core\<close>: the received datagram with its arrival facts, the channel
  instance every sequence space is keyed by (with the derived lexicographic order, which is the
  order a \<open>BTreeMap\<close> keeps), the scope a drop count may be subtracted at, the labels of a receive
  stamp and the loss owed to the next datagram. An IPv4 address is its 32 bits, whose order is
  the order of its octets.
\<close>

type_synonym ipv4_addr = u32

record socket_addr =
  sa_ip :: ipv4_addr
  sa_port :: u16

datatype recv_ts_kind = KernelSoftware | ApplicationFallback

fun label_as_byte :: "recv_ts_kind \<Rightarrow> u8" where
  "label_as_byte KernelSoftware = 0"
| "label_as_byte ApplicationFallback = 1"

definition label_from_byte :: "u8 \<Rightarrow> recv_ts_kind option" where
  "label_from_byte byte =
     (if byte = 0 then Some KernelSoftware else if byte = 1 then Some ApplicationFallback else None)"

lemma label_byte_roundtrip: "label_from_byte byte = Some k \<longleftrightarrow> byte = label_as_byte k"
  by (cases k) (auto simp: label_from_byte_def)

record recorded_datagram =
  rd_payload :: bytes
  rd_src :: socket_addr
  rd_dst :: socket_addr
  rd_role :: port_role
  rd_recv_ts_ns :: u64
  rd_recv_ts_kind :: recv_ts_kind
  rd_drop_delta :: u32
  rd_ttl :: "u8 option"
  rd_link_headers :: "bytes option"
  rd_wire_payload_len :: u32

datatype capture_drop_scope = ScopePortRole | ScopeCaptureHandle

datatype channel_instance =
  ChannelInstance (ci_source: ipv4_addr) (ci_channel_id: u8) (ci_dst_port: u16)

instantiation channel_instance :: linorder
begin

definition less_channel_instance :: "channel_instance \<Rightarrow> channel_instance \<Rightarrow> bool" where
  "less_channel_instance a b \<longleftrightarrow>
     ci_source a < ci_source b \<or> ci_source a = ci_source b \<and>
     (ci_channel_id a < ci_channel_id b \<or> ci_channel_id a = ci_channel_id b \<and>
      ci_dst_port a < ci_dst_port b)"

definition less_eq_channel_instance :: "channel_instance \<Rightarrow> channel_instance \<Rightarrow> bool" where
  "less_eq_channel_instance a b \<longleftrightarrow> a < b \<or> a = b"

instance
proof
  fix a b c :: channel_instance
  show "a < b \<longleftrightarrow> a \<le> b \<and> \<not> b \<le> a"
    by (auto simp: less_channel_instance_def less_eq_channel_instance_def)
  show "a \<le> a"
    by (simp add: less_eq_channel_instance_def)
  show "a \<le> b \<Longrightarrow> b \<le> c \<Longrightarrow> a \<le> c"
    by (auto simp: less_channel_instance_def less_eq_channel_instance_def)
  show "a \<le> b \<Longrightarrow> b \<le> a \<Longrightarrow> a = b"
    by (auto simp: less_channel_instance_def less_eq_channel_instance_def)
  show "a \<le> b \<or> b \<le> a"
    by (cases a; cases b)
      (auto simp: less_channel_instance_def less_eq_channel_instance_def)
qed

end

text \<open>\<open>PendingLoss\<close>: what the record loop owes the next datagram that reaches it.\<close>

datatype pending_loss = PendingLoss (owed: u32)

definition pending_loss_new :: pending_loss where
  "pending_loss_new = PendingLoss 0"

definition owe :: "u32 \<Rightarrow> pending_loss \<Rightarrow> pending_loss" where
  "owe lost p = PendingLoss (sat_add (owed p) lost)"

definition settled :: "pending_loss \<Rightarrow> pending_loss" where
  "settled p = PendingLoss 0"

definition undelivered :: "pending_loss \<Rightarrow> pending_loss" where
  "undelivered p = owe 1 p"

text \<open>Owing is addition that stops at the top of the counter and never wraps to a clean stretch.\<close>

lemma owe_all:
  "unat (owed (fold owe ls p)) = min (unat (owed p) + (\<Sum>l\<leftarrow>ls. unat l)) (2 ^ 32 - 1)"
proof -
  have "owed (fold owe ls p) = fold (\<lambda>l m. sat_add m l) ls (owed p)"
    by (induction ls arbitrary: p) (simp_all add: owe_def)
  then show ?thesis
    by (simp add: unat_fold_sat_add)
qed

end
