(* ===== verification/Seen_Window.thy ===== *)
theory Seen_Window
  imports Edge_Prelude
begin

unbundle bit_operations_syntax

section \<open>The reordering window: a bitmap and its slide\<close>

text \<open>
  \<open>SeenWindow\<close> of \<open>sequence.rs\<close> in \<open>dz-recorder-core\<close>: sixteen \<open>u64\<close> words, bit \<open>n\<close> of which
  says that \<open>highest - n\<close> has arrived. The slide is the code's loop, in place and from the last
  word down, with its carry between words. The lemmas read the bitmap as a predicate on \<open>n\<close>:
  a slide by \<open>delta\<close> moves bit \<open>n\<close> to \<open>n + delta\<close> and drops what leaves the window, with no
  bit lost between two words.
\<close>

definition REORDER_WINDOW :: u64 where "REORDER_WINDOW = 1024"
definition MAX_FORWARD_JUMP :: u64 where "MAX_FORWARD_JUMP = push_bit 32 1"
definition WINDOW_WORDS :: nat where "WINDOW_WORDS = unat REORDER_WINDOW div 64"

type_synonym seen_window = "u64 list"

definition window_new :: seen_window where
  "window_new = replicate WINDOW_WORDS 0"

definition window_clear :: "seen_window \<Rightarrow> seen_window" where
  "window_clear bits = replicate WINDOW_WORDS 0"

definition window_contains :: "seen_window \<Rightarrow> u64 \<Rightarrow> bool" where
  "window_contains bits behind =
     (let index = unat behind in
      (bits ! (index div 64)) AND (push_bit (index mod 64) 1) \<noteq> 0)"

definition window_insert :: "seen_window \<Rightarrow> u64 \<Rightarrow> seen_window" where
  "window_insert bits behind =
     (let index = unat behind in
      bits[index div 64 := bits ! (index div 64) OR push_bit (index mod 64) 1])"

text \<open>One iteration's value, and the loop over \<open>(0..WINDOW_WORDS).rev()\<close>.\<close>

definition slid_word :: "nat \<Rightarrow> nat \<Rightarrow> seen_window \<Rightarrow> nat \<Rightarrow> u64" where
  "slid_word words bits ws target =
     (if words \<le> target then
        let source = target - words;
            shifted = push_bit bits (ws ! source) in
        if bits > 0 \<and> source > 0 then shifted OR drop_bit (64 - bits) (ws ! (source - 1))
        else shifted
      else 0)"

fun slide_from :: "nat \<Rightarrow> nat \<Rightarrow> nat \<Rightarrow> seen_window \<Rightarrow> seen_window" where
  "slide_from words bits 0 ws = ws"
| "slide_from words bits (Suc target) ws =
     slide_from words bits target (ws[target := slid_word words bits ws target])"

definition window_slide :: "seen_window \<Rightarrow> u64 \<Rightarrow> seen_window" where
  "window_slide ws delta =
    (if delta \<ge> REORDER_WINDOW then window_clear ws
     else let words = unat (delta div 64);
              bits = unat (delta mod 64) in
          slide_from words bits WINDOW_WORDS ws)"

subsection \<open>The bitmap as a predicate\<close>

definition seen_at :: "seen_window \<Rightarrow> nat \<Rightarrow> bool" where
  "seen_at ws n \<longleftrightarrow> n < 1024 \<and> bit (ws ! (n div 64)) (n mod 64)"

definition window_ok :: "seen_window \<Rightarrow> bool" where
  "window_ok ws \<longleftrightarrow> length ws = 16"

lemma WINDOW_WORDS_16 [simp]: "WINDOW_WORDS = 16"
  by (simp add: WINDOW_WORDS_def REORDER_WINDOW_def)

lemma window_ok_preserved [simp]:
  "window_ok window_new" "window_ok (window_clear ws)"
  "window_ok (window_insert ws b) = window_ok ws"
  by (simp_all add: window_ok_def window_new_def window_clear_def window_insert_def Let_def)

lemma seen_at_clear [simp]: "\<not> seen_at (window_clear ws) n"
  by (simp add: seen_at_def window_clear_def)

lemma seen_at_new [simp]: "\<not> seen_at window_new n"
  by (simp add: seen_at_def window_new_def)

lemma window_contains_seen_at:
  "unat behind < 1024 \<Longrightarrow> window_contains ws behind \<longleftrightarrow> seen_at ws (unat behind)"
  by (simp add: window_contains_def seen_at_def bit_iff_and_push_bit_not_eq_0 Let_def)

lemma seen_at_insert:
  assumes "window_ok ws" "unat behind < 1024"
  shows "seen_at (window_insert ws behind) n \<longleftrightarrow> seen_at ws n \<or> n = unat behind"
proof -
  let ?k = "unat behind"
  have "n = ?k \<longleftrightarrow> n div 64 = ?k div 64 \<and> n mod 64 = ?k mod 64"
    by (metis div_mult_mod_eq)
  then show ?thesis
    using assms
    by (auto simp: seen_at_def window_insert_def Let_def window_ok_def nth_list_update
        bit_or_iff bit_exp_iff)
qed

subsection \<open>The slide\<close>

lemma length_slide_from [simp]: "length (slide_from words bits n ws) = length ws"
  by (induction n arbitrary: ws) simp_all

text \<open>Going down, the loop reads only words it has not yet overwritten.\<close>

lemma slid_word_update: "i < n \<Longrightarrow> slid_word words bits (ws[n := v]) i = slid_word words bits ws i"
  by (simp add: slid_word_def Let_def nth_list_update)

lemma slide_from_nth:
  "n \<le> length ws \<Longrightarrow> i < length ws \<Longrightarrow>
   slide_from words bits n ws ! i = (if i < n then slid_word words bits ws i else ws ! i)"
  by (induction n arbitrary: ws)
    (auto simp: slid_word_update nth_list_update less_Suc_eq)

lemma div_mod_64: "r < 64 \<Longrightarrow> (64 * q + r) div 64 = q \<and> (64 * q + r) mod 64 = r"
  for q r :: nat
  by simp

lemma bit_slid_word:
  assumes "k < 64" "b < 64"
  shows "bit (slid_word w b ws i) k \<longleftrightarrow> 64 * w + b \<le> 64 * i + k \<and>
    bit (ws ! ((64 * i + k - (64 * w + b)) div 64)) ((64 * i + k - (64 * w + b)) mod 64)"
proof (cases "b \<le> k")
  case True
  have no_carry: "\<not> bit (drop_bit (64 - b) v) k" if "0 < b" for v :: u64
    using True assms that bit_imp_le_length [of v "64 - b + k"]
    by (auto simp: bit_drop_bit_eq)
  show ?thesis
  proof (cases "w \<le> i")
    case le: True
    have "64 * i + k - (64 * w + b) = 64 * (i - w) + (k - b)"
      using True le by simp
    moreover have "(64 * (i - w) + (k - b)) div 64 = i - w"
      "(64 * (i - w) + (k - b)) mod 64 = k - b"
      using div_mod_64 [of "k - b" "i - w"] assms by linarith+
    ultimately show ?thesis
      using True le assms no_carry
      by (auto simp: slid_word_def Let_def bit_push_bit_iff bit_or_iff)
  next
    case False
    then have "\<not> 64 * w + b \<le> 64 * i + k"
      using assms by simp
    with False show ?thesis
      by (simp add: slid_word_def)
  qed
next
  case False
  show ?thesis
  proof (cases "w < i")
    case True
    have "64 * i + k - (64 * w + b) = 64 * (i - w - 1) + (k + 64 - b)"
      using True False assms by simp
    moreover have "(64 * (i - w - 1) + (k + 64 - b)) div 64 = i - w - 1"
      "(64 * (i - w - 1) + (k + 64 - b)) mod 64 = k + 64 - b"
      using div_mod_64 [of "k + 64 - b" "i - w - 1"] False assms by linarith+
    ultimately show ?thesis
      using True False assms
      by (auto simp: slid_word_def Let_def bit_push_bit_iff bit_or_iff bit_drop_bit_eq
          add.commute)
  next
    case le: False
    then have "\<not> 64 * w + b \<le> 64 * i + k"
      using False assms by simp
    with le False show ?thesis
      by (auto simp: slid_word_def bit_push_bit_iff)
  qed
qed

lemma window_ok_slideI: "window_ok ws \<Longrightarrow> window_ok (window_slide ws delta)"
  by (simp add: window_slide_def Let_def) (simp add: window_ok_def)

theorem seen_at_slide:
  assumes "window_ok ws"
  shows "seen_at (window_slide ws delta) n \<longleftrightarrow>
    n < 1024 \<and> unat delta \<le> n \<and> seen_at ws (n - unat delta)"
proof (cases "delta \<ge> REORDER_WINDOW")
  case True
  then show ?thesis
    by (auto simp: window_slide_def REORDER_WINDOW_def word_le_nat_alt)
next
  case False
  let ?w = "unat delta div 64" and ?b = "unat delta mod 64"
  have slid: "window_slide ws delta = slide_from ?w ?b 16 ws"
    using False by (simp add: window_slide_def Let_def unat_div unat_mod_distrib unat_mod)
  show ?thesis
  proof (cases "n < 1024")
    case True
    then have "n div 64 < 16"
      by simp
    then have "window_slide ws delta ! (n div 64) = slid_word ?w ?b ws (n div 64)"
      using assms by (simp only: slid slide_from_nth window_ok_def) simp
    moreover have "bit (slid_word ?w ?b ws (n div 64)) (n mod 64) \<longleftrightarrow> unat delta \<le> n \<and>
        bit (ws ! ((n - unat delta) div 64)) ((n - unat delta) mod 64)"
      by (subst bit_slid_word) simp_all
    ultimately show ?thesis
      using True by (auto simp: seen_at_def)
  qed (simp add: seen_at_def)
qed

end
