(* ===== verification/Sequence_Tracker.thy ===== *)
theory Sequence_Tracker
  imports Seen_Window
begin

section \<open>Sequence continuity of one channel instance\<close>

text \<open>
  \<open>SequenceTracker\<close> of \<open>sequence.rs\<close>: \<open>observe\<close> classifies a datagram by its sequence number and
  reset count and returns the tracker it leaves. The specification next to it remembers every
  number the era delivered, in a set with no bound; the bitmap is shown to make the same
  decisions. The accounting lemmas say what the credited gaps add up to.
\<close>

datatype sequence_outcome =
    Opened
  | InOrder
  | Gap (missing: u64)
  | Duplicate
  | Reordered (reordered_behind: u64)
  | Reset (new_era: u64)
  | Backward (backward_behind: u64)
  | ForwardJump (ahead: u64)

record sequence_tracker =
  st_opened :: bool
  st_highest :: u64
  st_reset_count :: u8
  st_era_ordinal :: u64
  st_seen :: seen_window

definition tracker_new :: sequence_tracker where
  "tracker_new = \<lparr>st_opened = False, st_highest = 0, st_reset_count = 0,
     st_era_ordinal = 0, st_seen = window_new\<rparr>"

definition resuming_from_era :: "u64 \<Rightarrow> sequence_tracker" where
  "resuming_from_era era_ordinal = tracker_new\<lparr>st_era_ordinal := era_ordinal\<rparr>"

definition tracker_open :: "u64 \<Rightarrow> u8 \<Rightarrow> sequence_tracker \<Rightarrow> sequence_tracker" where
  "tracker_open sequence_number reset_count t =
     t\<lparr>st_opened := True, st_highest := sequence_number, st_reset_count := reset_count,
       st_era_ordinal := st_era_ordinal t + 1,
       st_seen := window_insert (window_clear (st_seen t)) 0\<rparr>"

definition observe ::
    "u64 \<Rightarrow> u8 \<Rightarrow> sequence_tracker \<Rightarrow> sequence_outcome \<times> sequence_tracker" where
  "observe sequence_number reset_count t =
    (if \<not> st_opened t then (Opened, tracker_open sequence_number reset_count t)
     else if reset_count \<noteq> st_reset_count t then
       let t' = tracker_open sequence_number reset_count t in (Reset (st_era_ordinal t'), t')
     else if sequence_number > st_highest t then
       let delta = sequence_number - st_highest t in
       if delta > MAX_FORWARD_JUMP then (ForwardJump delta, t)
       else (if delta = 1 then InOrder else Gap (delta - 1),
             t\<lparr>st_highest := sequence_number,
               st_seen := window_insert (window_slide (st_seen t) delta) 0\<rparr>)
     else
       let behind = st_highest t - sequence_number in
       if behind \<ge> REORDER_WINDOW then (Backward behind, t)
       else if window_contains (st_seen t) behind then (Duplicate, t)
       else (Reordered behind, t\<lparr>st_seen := window_insert (st_seen t) behind\<rparr>))"

definition tracker_ok :: "sequence_tracker \<Rightarrow> bool" where
  "tracker_ok t \<longleftrightarrow> window_ok (st_seen t) \<and>
     (\<forall>n. seen_at (st_seen t) n \<longrightarrow> n \<le> unat (st_highest t))"

lemma MAX_FORWARD_JUMP_nat: "unat MAX_FORWARD_JUMP = 4294967296"
  by (simp add: MAX_FORWARD_JUMP_def)

lemma REORDER_WINDOW_nat: "unat REORDER_WINDOW = 1024"
  by (simp add: REORDER_WINDOW_def)

lemma word_gt_unat: "(a :: u64) > b \<longleftrightarrow> unat b < unat a"
  by (simp add: word_less_nat_alt)

lemma word_ge_unat: "(a :: u64) \<ge> b \<longleftrightarrow> unat b \<le> unat a"
  by (simp add: word_le_nat_alt)

lemma unat_minus: "unat b \<le> unat a \<Longrightarrow> unat ((a :: u64) - b) = unat a - unat b"
  by (simp add: unat_sub word_le_nat_alt)

subsection \<open>The invariant\<close>

lemma tracker_open_ok: "tracker_ok (tracker_open s r t)"
  by (simp add: tracker_ok_def tracker_open_def seen_at_insert)

lemma tracker_new_ok: "tracker_ok tracker_new" "tracker_ok (resuming_from_era e)"
  by (simp_all add: tracker_ok_def tracker_new_def resuming_from_era_def)

lemma seen_at_advance:
  assumes "window_ok ws"
  shows "seen_at (window_insert (window_slide ws delta) 0) n \<longleftrightarrow>
    n = 0 \<or> n < 1024 \<and> unat delta \<le> n \<and> seen_at ws (n - unat delta)"
  using assms by (auto simp: seen_at_insert window_ok_slideI seen_at_slide)

lemma advance_ok:
  assumes "tracker_ok t" "unat (st_highest t) < unat s"
  shows "tracker_ok (t\<lparr>st_highest := s,
     st_seen := window_insert (window_slide (st_seen t) (s - st_highest t)) 0\<rparr>)"
proof -
  have "n \<le> unat s" if "unat (s - st_highest t) \<le> n"
      "seen_at (st_seen t) (n - unat (s - st_highest t))" for n
    using assms that unat_minus [of "st_highest t" s] by (fastforce simp: tracker_ok_def)
  then show ?thesis
    using assms(1) by (auto simp: tracker_ok_def window_ok_slideI seen_at_advance)
qed

lemma reorder_ok:
  assumes "tracker_ok t" "unat s \<le> unat (st_highest t)" "unat (st_highest t - s) < 1024"
  shows "tracker_ok (t\<lparr>st_seen := window_insert (st_seen t) (st_highest t - s)\<rparr>)"
  using assms by (auto simp: tracker_ok_def seen_at_insert unat_minus)

lemma observe_ok:
  assumes "tracker_ok t"
  shows "tracker_ok (snd (observe s r t))"
  using assms advance_ok [of t s] reorder_ok [of t s] tracker_open_ok
  by (simp add: observe_def Let_def word_gt_unat word_ge_unat REORDER_WINDOW_nat not_less not_le)

subsection \<open>The era as a set with no bound\<close>

record era_view =
  ev_highest :: nat
  ev_delivered :: "nat set"

text \<open>The specification of one datagram of the running era.\<close>

datatype verdict = VInOrder | VGap nat | VDuplicate | VReordered nat | VBackward nat | VJump nat

definition classify :: "nat \<Rightarrow> era_view \<Rightarrow> verdict \<times> era_view" where
  "classify s e =
    (if s > ev_highest e then
       (if s - ev_highest e > 2 ^ 32 then (VJump (s - ev_highest e), e)
        else (if s = ev_highest e + 1 then VInOrder else VGap (s - ev_highest e - 1),
              \<lparr>ev_highest = s, ev_delivered = insert s (ev_delivered e)\<rparr>))
     else if ev_highest e - s \<ge> 1024 then (VBackward (ev_highest e - s), e)
     else if s \<in> ev_delivered e then (VDuplicate, e)
     else (VReordered (ev_highest e - s), e\<lparr>ev_delivered := insert s (ev_delivered e)\<rparr>))"

definition tracks :: "sequence_tracker \<Rightarrow> era_view \<Rightarrow> bool" where
  "tracks t e \<longleftrightarrow> st_opened t \<and> tracker_ok t \<and> ev_highest e = unat (st_highest t) \<and>
     ev_delivered e \<subseteq> {..ev_highest e} \<and>
     (\<forall>n<1024. n \<le> ev_highest e \<longrightarrow> (seen_at (st_seen t) n \<longleftrightarrow> ev_highest e - n \<in> ev_delivered e))"

fun matches :: "sequence_outcome \<Rightarrow> verdict \<Rightarrow> bool" where
  "matches InOrder v \<longleftrightarrow> v = VInOrder"
| "matches (Gap m) v \<longleftrightarrow> v = VGap (unat m)"
| "matches Duplicate v \<longleftrightarrow> v = VDuplicate"
| "matches (Reordered b) v \<longleftrightarrow> v = VReordered (unat b)"
| "matches (Backward b) v \<longleftrightarrow> v = VBackward (unat b)"
| "matches (ForwardJump a) v \<longleftrightarrow> v = VJump (unat a)"
| "matches Opened v \<longleftrightarrow> False"
| "matches (Reset n) v \<longleftrightarrow> False"

lemma tracks_open:
  "tracks (tracker_open s r t) \<lparr>ev_highest = unat s, ev_delivered = {unat s}\<rparr>"
  using tracker_open_ok [of s r t]
  by (auto simp: tracks_def tracker_open_def seen_at_insert)

lemma tracksD:
  assumes "tracks t e"
  shows "st_opened t" "tracker_ok t" "window_ok (st_seen t)" "ev_highest e = unat (st_highest t)"
    "ev_delivered e \<subseteq> {..unat (st_highest t)}"
    "n < 1024 \<Longrightarrow> n \<le> unat (st_highest t) \<Longrightarrow>
      seen_at (st_seen t) n \<longleftrightarrow> unat (st_highest t) - n \<in> ev_delivered e"
  using assms by (auto simp: tracks_def tracker_ok_def)

lemma tracks_advance:
  assumes "tracks t e" "unat (st_highest t) < unat s"
  defines "ws \<equiv> window_insert (window_slide (st_seen t) (s - st_highest t)) 0"
  shows "tracks (t\<lparr>st_highest := s, st_seen := ws\<rparr>)
    \<lparr>ev_highest = unat s, ev_delivered = insert (unat s) (ev_delivered e)\<rparr>"
proof -
  let ?h = "st_highest t" and ?d = "s - st_highest t"
  note t = tracksD [OF assms(1)]
  have d: "unat ?d = unat s - unat ?h"
    using assms(2) by (simp add: unat_minus)
  have "seen_at ws n \<longleftrightarrow> unat s - n \<in> insert (unat s) (ev_delivered e)"
    if "n < 1024" "n \<le> unat s" for n
  proof (cases "unat ?d \<le> n")
    case True
    then have "seen_at ws n \<longleftrightarrow> unat ?h - (n - unat ?d) \<in> ev_delivered e"
      using that d assms(2) t(3) t(6) [of "n - unat ?d"] by (auto simp: ws_def seen_at_advance)
    moreover have "unat ?h - (n - unat ?d) = unat s - n" "unat s - n \<noteq> unat s"
      using True d assms(2) that by linarith+
    ultimately show ?thesis by simp
  next
    case False
    then have "unat ?h < unat s - n"
      using d by linarith
    then have "unat s - n \<notin> ev_delivered e"
      using t(5) by auto
    then show ?thesis
      using False that t(3) by (auto simp: ws_def seen_at_advance)
  qed
  then show ?thesis
    using t advance_ok [OF t(2) assms(2)] assms(2) by (auto simp: tracks_def ws_def)
qed

lemma tracks_fill:
  assumes "tracks t e" "unat s \<le> unat (st_highest t)" "unat (st_highest t) - unat s < 1024"
  shows "tracks (t\<lparr>st_seen := window_insert (st_seen t) (st_highest t - s)\<rparr>)
    (e\<lparr>ev_delivered := insert (unat s) (ev_delivered e)\<rparr>)"
proof -
  let ?h = "st_highest t"
  note t = tracksD [OF assms(1)]
  have b: "unat (?h - s) = unat ?h - unat s"
    using assms(2) by (simp add: unat_minus)
  have "unat ?h - n = unat s \<longleftrightarrow> n = unat ?h - unat s" if "n \<le> unat ?h" for n
    using assms(2) that by linarith
  then have "seen_at (window_insert (st_seen t) (?h - s)) n \<longleftrightarrow>
      unat ?h - n \<in> insert (unat s) (ev_delivered e)" if "n < 1024" "n \<le> unat ?h" for n
    using that assms(3) b t(3) t(6) [of n] by (auto simp: seen_at_insert)
  then show ?thesis
    using t assms b reorder_ok [OF t(2) assms(2)] by (auto simp: tracks_def)
qed

lemma observe_ahead:
  assumes "st_opened t" "unat (st_highest t) < unat s"
  shows "observe s (st_reset_count t) t =
    (if unat s - unat (st_highest t) > 4294967296
     then (ForwardJump (s - st_highest t), t)
     else (if unat s = unat (st_highest t) + 1 then InOrder else Gap (s - st_highest t - 1),
       t\<lparr>st_highest := s,
         st_seen := window_insert (window_slide (st_seen t) (s - st_highest t)) 0\<rparr>))"
proof -
  have d: "unat (s - st_highest t) = unat s - unat (st_highest t)"
    using assms(2) by (simp add: unat_minus)
  then have "s - st_highest t = 1 \<longleftrightarrow> unat s = unat (st_highest t) + 1"
    using assms(2) by (simp add: word_unat_eq_iff) linarith
  then show ?thesis
    using assms by (simp add: observe_def Let_def word_gt_unat d MAX_FORWARD_JUMP_nat)
qed

lemma observe_behind:
  assumes "tracks t e" "unat s \<le> unat (st_highest t)"
  shows "observe s (st_reset_count t) t =
    (if unat (st_highest t) - unat s \<ge> 1024 then (Backward (st_highest t - s), t)
     else if unat s \<in> ev_delivered e then (Duplicate, t)
     else (Reordered (st_highest t - s),
       t\<lparr>st_seen := window_insert (st_seen t) (st_highest t - s)\<rparr>))"
proof -
  note t = tracksD [OF assms(1)]
  have b: "unat (st_highest t - s) = unat (st_highest t) - unat s"
    using assms(2) by (simp add: unat_minus)
  then have "window_contains (st_seen t) (st_highest t - s) \<longleftrightarrow> unat s \<in> ev_delivered e"
    if "unat (st_highest t) - unat s < 1024"
    using that assms(2) t(6) [of "unat (st_highest t - s)"] by (simp add: window_contains_seen_at)
  then show ?thesis
    using assms(2) t(1)
    by (auto simp: observe_def Let_def word_gt_unat word_ge_unat b REORDER_WINDOW_nat)
qed

text \<open>The simulation: one datagram of the era is classified as the unbounded set would.\<close>

lemma observe_tracks:
  assumes "tracks t e"
  shows "matches (fst (observe s (st_reset_count t) t)) (fst (classify (unat s) e)) \<and>
    tracks (snd (observe s (st_reset_count t) t)) (snd (classify (unat s) e))"
proof (cases "unat (st_highest t) < unat s")
  case True
  moreover have "unat (s - st_highest t) = unat s - unat (st_highest t)"
    using True by (simp add: unat_minus)
  moreover from this True have "unat (s - st_highest t - 1) = unat s - unat (st_highest t) - 1"
    by (subst unat_minus) simp_all
  ultimately show ?thesis
    using assms tracks_advance [OF assms True] tracksD(1,4) [OF assms]
    by (simp add: observe_ahead classify_def)
next
  case False
  then show ?thesis
    using assms tracks_fill [OF assms] tracksD(4) [OF assms]
    by (simp add: observe_behind [OF assms] classify_def unat_minus not_less not_le)
qed

subsection \<open>Runs of datagrams\<close>

text \<open>A stream of (sequence number, reset count) pairs, in receive order.\<close>

fun observe_all ::
    "(u64 \<times> u8) list \<Rightarrow> sequence_tracker \<Rightarrow> sequence_outcome list \<times> sequence_tracker" where
  "observe_all [] t = ([], t)"
| "observe_all ((s, r) # ds) t =
     (let (o1, t1) = observe s r t; (os, t2) = observe_all ds t1 in (o1 # os, t2))"

fun classify_all :: "nat list \<Rightarrow> era_view \<Rightarrow> verdict list \<times> era_view" where
  "classify_all [] e = ([], e)"
| "classify_all (s # ss) e =
     (let (v, e1) = classify s e; (vs, e2) = classify_all ss e1 in (v # vs, e2))"

definition one_era :: "u8 \<Rightarrow> u64 list \<Rightarrow> (u64 \<times> u8) list" where
  "one_era r ss = map (\<lambda>s. (s, r)) ss"

lemma observe_same_era: "st_opened t \<Longrightarrow> st_reset_count t = r \<Longrightarrow>
    st_reset_count (snd (observe s r t)) = r \<and> st_era_ordinal (snd (observe s r t)) = st_era_ordinal t
    \<and> st_opened (snd (observe s r t))"
  by (simp add: observe_def Let_def)

lemma observe_all_tracks:
  assumes "tracks t e" "st_reset_count t = r"
  shows "list_all2 matches (fst (observe_all (one_era r ss) t)) (fst (classify_all (map unat ss) e))
    \<and> tracks (snd (observe_all (one_era r ss) t)) (snd (classify_all (map unat ss) e))"
  using assms
proof (induction ss arbitrary: t e)
  case Nil
  then show ?case by (simp add: one_era_def)
next
  case (Cons s ss)
  have step: "matches (fst (observe s r t)) (fst (classify (unat s) e))"
    "tracks (snd (observe s r t)) (snd (classify (unat s) e))"
    using observe_tracks [OF Cons.prems(1), of s] Cons.prems(2) by simp_all
  moreover have "st_reset_count (snd (observe s r t)) = r"
    using observe_same_era tracksD(1) [OF Cons.prems(1)] Cons.prems(2) by blast
  ultimately show ?case
    using Cons.IH [of "snd (observe s r t)" "snd (classify (unat s) e)"]
    by (simp add: one_era_def split_beta Let_def)
qed

subsection \<open>What the credited gaps add up to\<close>

definition absent :: "nat \<Rightarrow> era_view \<Rightarrow> nat set" where
  "absent start e = {start..ev_highest e} - ev_delivered e"

fun gap_size :: "verdict \<Rightarrow> nat" where
  "gap_size (VGap m) = m"
| "gap_size _ = 0"

fun is_late :: "verdict \<Rightarrow> bool" where
  "is_late (VReordered b) = True"
| "is_late _ = False"

fun is_held :: "verdict \<Rightarrow> bool" where
  "is_held VInOrder = True"
| "is_held (VGap m) = True"
| "is_held (VReordered b) = True"
| "is_held _ = False"

definition refilled :: "nat \<Rightarrow> nat \<Rightarrow> verdict \<Rightarrow> nat" where
  "refilled start s v = (if is_late v \<and> start \<le> s then 1 else 0)"

lemma absent_ahead:
  assumes "start \<le> ev_highest e" "ev_highest e < s" "ev_delivered e \<subseteq> {..ev_highest e}"
  shows "card (absent start \<lparr>ev_highest = s, ev_delivered = insert s (ev_delivered e)\<rparr>) =
    card (absent start e) + (s - ev_highest e - 1)"
proof -
  have "absent start \<lparr>ev_highest = s, ev_delivered = insert s (ev_delivered e)\<rparr> =
      absent start e \<union> {ev_highest e<..<s}"
    using assms by (auto simp: absent_def)
  moreover have "absent start e \<inter> {ev_highest e<..<s} = {}"
    by (auto simp: absent_def)
  ultimately show ?thesis
    by (simp add: card_Un_disjoint absent_def)
qed

lemma absent_late:
  assumes "s \<notin> ev_delivered e" "s \<le> ev_highest e"
  shows "card (absent start (e\<lparr>ev_delivered := insert s (ev_delivered e)\<rparr>)) +
    (if start \<le> s then 1 else 0) = card (absent start e)"
proof (cases "start \<le> s")
  case True
  have fin: "finite (absent start e)" and "s \<in> absent start e"
    using assms True by (simp_all add: absent_def)
  then have "card (absent start e - {s}) + 1 = card (absent start e)"
    using card_gt_0_iff [of "absent start e"] by (fastforce simp: card_Diff_singleton)
  moreover have "absent start (e\<lparr>ev_delivered := insert s (ev_delivered e)\<rparr>) = absent start e - {s}"
    by (auto simp: absent_def)
  ultimately show ?thesis using True by simp
next
  case False
  then have "absent start (e\<lparr>ev_delivered := insert s (ev_delivered e)\<rparr>) = absent start e"
    by (auto simp: absent_def)
  then show ?thesis using False by simp
qed

lemma classify_balance:
  assumes "start \<le> ev_highest e" "ev_delivered e \<subseteq> {..ev_highest e}"
    and "classify s e = (v, e')"
  shows "card (absent start e) + gap_size v = card (absent start e') + refilled start s v"
    and "start \<le> ev_highest e'" "ev_delivered e' \<subseteq> {..ev_highest e'}"
    and "ev_delivered e' = ev_delivered e \<union> (if is_held v then {s} else {})"
  using assms absent_ahead [of start e s] absent_late [of s e start]
  by (auto simp: classify_def refilled_def Let_def split: if_splits)

lemma classify_all_balance:
  assumes "start \<le> ev_highest e" "ev_delivered e \<subseteq> {..ev_highest e}"
    and "classify_all ss e = (vs, e')"
  shows "card (absent start e) + sum_list (map gap_size vs) =
      card (absent start e') + (\<Sum>(s, v)\<leftarrow>zip ss vs. refilled start s v) \<and>
    ev_delivered e' = ev_delivered e \<union> set (map fst (filter (is_held \<circ> snd) (zip ss vs)))"
  using assms
proof (induction ss arbitrary: e vs)
  case Nil
  then show ?case by simp
next
  case (Cons s ss)
  obtain v e1 where cl: "classify s e = (v, e1)"
    by (cases "classify s e")
  obtain vs' where rest: "classify_all ss e1 = (vs', e')" and vs: "vs = v # vs'"
    using Cons.prems(3) by (auto simp: cl split: prod.splits)
  note step = classify_balance [OF Cons.prems(1,2) cl]
  show ?case
    using step Cons.IH [OF step(2,3) rest] by (auto simp: vs)
qed

fun credited :: "sequence_outcome \<Rightarrow> nat" where
  "credited (Gap m) = unat m"
| "credited _ = 0"

fun late_arrival :: "sequence_outcome \<Rightarrow> bool" where
  "late_arrival (Reordered b) = True"
| "late_arrival _ = False"

fun admitted :: "sequence_outcome \<Rightarrow> bool" where
  "admitted InOrder = True"
| "admitted (Gap m) = True"
| "admitted (Reordered b) = True"
| "admitted _ = False"

definition delivered_numbers :: "u64 \<Rightarrow> u64 list \<Rightarrow> sequence_outcome list \<Rightarrow> nat set" where
  "delivered_numbers s0 ss os =
     set (unat s0 # map (unat \<circ> fst) (filter (admitted \<circ> snd) (zip ss os)))"

lemma matches_readings:
  assumes "matches out v"
  shows "credited out = gap_size v" "late_arrival out = is_late v" "admitted out = is_held v"
  using assms by (cases out; simp)+

lemma observe_all_length [simp]: "length (fst (observe_all ds t)) = length ds"
  by (induction ds arbitrary: t) (auto simp: split_beta Let_def)

lemma matches_credited: "list_all2 matches os vs \<Longrightarrow> map credited os = map gap_size vs"
  by (induction rule: list_all2_induct) (simp_all add: matches_readings)

lemma matches_refilled:
  "list_all2 matches os vs \<Longrightarrow>
   (\<Sum>(s, v)\<leftarrow>zip (map unat ss) vs. refilled start s v) =
   (\<Sum>(s, out)\<leftarrow>zip ss os. if late_arrival out \<and> start \<le> unat s then 1 else 0)"
  by (induction arbitrary: ss rule: list_all2_induct)
    (case_tac ss; simp add: matches_readings refilled_def)+

lemma matches_admitted:
  "list_all2 matches os vs \<Longrightarrow>
   map fst (filter (is_held \<circ> snd) (zip (map unat ss) vs)) =
   map (unat \<circ> fst) (filter (admitted \<circ> snd) (zip ss os))"
  by (induction arbitrary: ss rule: list_all2_induct)
    (case_tac ss; simp add: matches_readings)+

subsection \<open>What the tracker promises\<close>

text \<open>
  C8. The bounded bitmap decides as an unbounded memory would: after the datagram that opens an
  era, every later datagram of that era gets the outcome (in order, gap and its size, duplicate,
  reordered and how far, backward, forward jump) that a specification remembering every
  sequence number the era delivered gives it, for every stream and whatever the tracker held
  before the era.
\<close>

theorem observe_like_unbounded:
  "list_all2 matches (fst (observe_all (one_era r ss) (tracker_open s0 r t)))
     (fst (classify_all (map unat ss) \<lparr>ev_highest = unat s0, ev_delivered = {unat s0}\<rparr>))"
proof -
  have "st_reset_count (tracker_open s0 r t) = r"
    by (simp add: tracker_open_def)
  then show ?thesis
    using observe_all_tracks [OF tracks_open [of s0 r t]] by blast
qed

text \<open>
  C10. Gap accounting: over an era, the missing counts credited by \<open>Gap\<close> outcomes add up to the
  sequence numbers between the opening one and the highest that nobody delivered, plus one for
  each late arrival that filled a hole above the opening number. Duplicates, backward motion
  and forged forward jumps contribute nothing.
\<close>

theorem gap_accounting:
  "(let (os, t') = observe_all (one_era r ss) (tracker_open s0 r t) in
    (\<Sum>out\<leftarrow>os. credited out) =
    card ({unat s0..unat (st_highest t')} - delivered_numbers s0 ss os) +
    (\<Sum>(s, out)\<leftarrow>zip ss os. if late_arrival out \<and> unat s0 \<le> unat s then 1 else 0))"
proof -
  let ?e = "\<lparr>ev_highest = unat s0, ev_delivered = {unat s0}\<rparr>"
  obtain os t' where run: "observe_all (one_era r ss) (tracker_open s0 r t) = (os, t')"
    by (cases "observe_all (one_era r ss) (tracker_open s0 r t)")
  obtain vs e' where spec: "classify_all (map unat ss) ?e = (vs, e')"
    by (cases "classify_all (map unat ss) ?e")
  have "st_reset_count (tracker_open s0 r t) = r"
    by (simp add: tracker_open_def)
  from observe_all_tracks [OF tracks_open this, of ss] have os: "list_all2 matches os vs"
    and t': "ev_highest e' = unat (st_highest t')"
    by (simp_all add: run spec tracks_def)
  have "card (absent (unat s0) ?e) = 0"
    by (simp add: absent_def)
  moreover have "ev_delivered e' = delivered_numbers s0 ss os"
    using classify_all_balance [OF _ _ spec, of "unat s0"]
    by (simp only: matches_admitted [OF os, of ss] delivered_numbers_def) simp
  ultimately show ?thesis
    using classify_all_balance [OF _ _ spec, of "unat s0"] t' os
    by (simp add: run matches_credited [OF os] matches_refilled [OF os] absent_def)
qed

text \<open>
  What no outage explains is inert: a duplicate, a backward step past the window and a
  forward jump past the bound leave the tracker exactly as it was, so no number of them moves a
  later outcome; a credited gap is at least 1 and below \<open>2 ^ 32\<close>, and a reordering stays inside
  the window.
\<close>

theorem refused_datagrams_inert:
  "(case fst (observe s r t) of
      Duplicate \<Rightarrow> snd (observe s r t) = t
    | Backward b \<Rightarrow> snd (observe s r t) = t \<and> 1024 \<le> unat b \<and> unat b = unat (st_highest t) - unat s
    | ForwardJump a \<Rightarrow> snd (observe s r t) = t \<and> 2 ^ 32 < unat a \<and> unat a = unat s - unat (st_highest t)
    | Gap m \<Rightarrow> 1 \<le> unat m \<and> unat m < 2 ^ 32 \<and> unat m = unat s - unat (st_highest t) - 1
    | Reordered b \<Rightarrow> unat b < 1024 \<and> unat b = unat (st_highest t) - unat s
    | InOrder \<Rightarrow> unat s = unat (st_highest t) + 1
    | Reset n \<Rightarrow> r \<noteq> st_reset_count t \<and> n = st_era_ordinal t + 1
    | Opened \<Rightarrow> \<not> st_opened t)"
proof -
  consider "\<not> st_opened t" | "st_opened t" "r \<noteq> st_reset_count t"
    | "st_opened t" "r = st_reset_count t" "unat (st_highest t) < unat s"
    | "st_opened t" "r = st_reset_count t" "unat s \<le> unat (st_highest t)"
    by linarith
  then show ?thesis
  proof cases
    case 3
    then have d: "unat (s - st_highest t) = unat s - unat (st_highest t)"
      by (simp add: unat_minus)
    moreover from d 3 have "unat (s - st_highest t - 1) = unat s - unat (st_highest t) - 1"
      by (subst unat_minus) simp_all
    ultimately show ?thesis
      using 3 by (simp add: observe_ahead) linarith
  next
    case 4
    then have "unat (st_highest t - s) = unat (st_highest t) - unat s"
      by (simp add: unat_minus)
    then show ?thesis
      using 4 by (simp add: observe_def Let_def word_gt_unat word_ge_unat REORDER_WINDOW_nat not_less)
  qed (simp_all add: observe_def Let_def tracker_open_def)
qed

text \<open>
  Eras are numbered as they happen: the ordinal of a new tracker counts the maximal runs of
  equal reset counts in the stream (modulo \<open>2 ^ 64\<close>), and the \<open>Reset\<close> outcomes carry the ordinals
  2, 3, 4 and on, in order, so two eras whose wrapped reset counts are equal are never merged.
\<close>

fun reset_ordinals :: "sequence_outcome list \<Rightarrow> u64 list" where
  "reset_ordinals [] = []"
| "reset_ordinals (Reset n # os) = n # reset_ordinals os"
| "reset_ordinals (_ # os) = reset_ordinals os"

lemma observe_era_step:
  assumes "st_opened t"
  shows "st_opened (snd (observe s r t))" "st_reset_count (snd (observe s r t)) = r"
    "r \<noteq> st_reset_count t \<Longrightarrow> fst (observe s r t) = Reset (st_era_ordinal t + 1) \<and>
      st_era_ordinal (snd (observe s r t)) = st_era_ordinal t + 1"
    "r = st_reset_count t \<Longrightarrow> (\<forall>n. fst (observe s r t) \<noteq> Reset n) \<and>
      st_era_ordinal (snd (observe s r t)) = st_era_ordinal t"
  using assms by (auto simp: observe_def tracker_open_def Let_def)

lemma reset_ordinals_other: "\<forall>n. out \<noteq> Reset n \<Longrightarrow> reset_ordinals (out # os) = reset_ordinals os"
  by (cases out) auto

lemma eras_after_open:
  assumes "st_opened t"
  shows "st_era_ordinal (snd (observe_all ds t)) =
      st_era_ordinal t + word_of_nat (length (remdups_adj (st_reset_count t # map snd ds)) - 1) \<and>
    reset_ordinals (fst (observe_all ds t)) =
      map (\<lambda>k. st_era_ordinal t + word_of_nat k)
        [1..<length (remdups_adj (st_reset_count t # map snd ds))]"
  using assms
proof (induction ds arbitrary: t)
  case Nil
  then show ?case by simp
next
  case (Cons d ds)
  obtain s r where d: "d = (s, r)" by (cases d)
  let ?n = "length (remdups_adj (r # map snd ds))"
  have n: "0 < ?n"
    using remdups_adj_length_ge1 [of "r # map snd ds"] by simp
  note step = observe_era_step [OF Cons.prems, where s = s and r = r]
  note ih = Cons.IH [OF step(1), unfolded step(2)]
  show ?case
  proof (cases "r = st_reset_count t")
    case True
    then show ?thesis
      using ih step(4) by (simp add: d split_beta Let_def reset_ordinals_other)
  next
    case False
    have "[1..<Suc ?n] = 1 # map Suc [1..<?n]"
      using n by (simp add: upt_conv_Cons map_Suc_upt del: upt_Suc)
    then show ?thesis
      using ih step(3) False n
      by (simp add: d split_beta Let_def comp_def add.assoc of_nat_diff del: upt_Suc)
  qed
qed

theorem eras_count_runs:
  "st_era_ordinal (snd (observe_all ds tracker_new)) =
     word_of_nat (length (remdups_adj (map snd ds))) \<and>
   reset_ordinals (fst (observe_all ds tracker_new)) =
     map word_of_nat [2..<Suc (length (remdups_adj (map snd ds)))]"
proof (cases ds)
  case Nil
  then show ?thesis by (simp add: tracker_new_def)
next
  case (Cons d rest)
  obtain s r where d: "d = (s, r)" by (cases d)
  let ?t = "tracker_open s r tracker_new" and ?n = "length (remdups_adj (r # map snd rest))"
  have n: "0 < ?n"
    using remdups_adj_length_ge1 [of "r # map snd rest"] by simp
  have t: "\<not> st_opened tracker_new" "st_opened ?t" "st_reset_count ?t = r" "st_era_ordinal ?t = 1"
    by (simp_all add: tracker_open_def tracker_new_def)
  have "[2..<Suc ?n] = map Suc [1..<?n]"
    by (simp only: map_Suc_upt) (simp only: Suc_1)
  moreover have "(1 :: u64) + word_of_nat (?n - 1) = word_of_nat ?n"
    using n by (simp add: of_nat_diff)
  ultimately show ?thesis
    using eras_after_open [OF t(2), of rest]
    by (simp add: Cons d observe_def t split_beta Let_def comp_def del: upt_Suc)
qed

text \<open>
  A number just below the one that opened the era is reported as a late arrival, though no gap
  was ever credited for it.
\<close>

theorem reordered_before_opening:
  assumes "s \<noteq> 0"
  shows "fst (observe (s - 1) r (tracker_open s r t)) = Reordered 1"
proof -
  have "unat (s - 1) = unat s - 1" "unat s \<noteq> 0"
    using assms by (simp_all add: unat_minus_one unat_eq_zero)
  then have "\<not> s - 1 > s"
    by (simp add: word_less_nat_alt)
  moreover have "s - (s - 1) = 1"
    by simp
  moreover have "\<not> REORDER_WINDOW \<le> 1"
    by (simp add: REORDER_WINDOW_def word_le_nat_alt)
  moreover have "\<not> window_contains (window_insert (window_clear (st_seen t)) 0) 1"
    by (simp add: window_contains_seen_at seen_at_insert)
  ultimately show ?thesis
    by (simp add: observe_def tracker_open_def)
qed

theorem reordered_before_opening_witness:
  "fst (observe (10 - 1) 0 (tracker_open 10 0 tracker_new)) = Reordered 1"
  using reordered_before_opening [of 10 0 tracker_new] by simp

end
