(* ===== verification/Delivered_Ranges.thy ===== *)
theory Delivered_Ranges
  imports Recorded_Datagram Sequence_Tracker
begin

section \<open>What an era delivered, as disjoint ranges\<close>

text \<open>
  \<open>Delivered\<close>, \<open>Era\<close> and \<open>EraCoverage\<close> of \<open>deriver.rs\<close> in \<open>dz-recorder-loss\<close>. An era's delivered
  numbers are kept as ascending ranges with a hole between any two, each with the receive stamp
  of the datagram at either end. The abstraction is the map from a delivered number to the stamp
  of its first arrival: recording a number is an insertion into that map when it is new, and
  nothing otherwise.
\<close>

record deriver_limits =
  max_instances :: nat
  max_eras_per_instance :: nat
  max_ranges_per_era :: nat

definition default_limits :: deriver_limits where
  "default_limits = \<lparr>max_instances = 4096, max_eras_per_instance = 256, max_ranges_per_era = 4096\<rparr>"

record delivered =
  dl_start :: u64
  dl_end :: u64
  dl_start_ts_ns :: u64
  dl_end_ts_ns :: u64

definition single :: "u64 \<Rightarrow> u64 \<Rightarrow> delivered" where
  "single seq ts_ns =
     \<lparr>dl_start = seq, dl_end = seq, dl_start_ts_ns = ts_ns, dl_end_ts_ns = ts_ns\<rparr>"

definition width :: "delivered \<Rightarrow> u64" where
  "width r = sat_add (sat_sub (dl_end r) (dl_start r)) 1"

datatype delivery = Recorded | TooManyRanges | TooDistant

record era =
  er_ordinal :: u64
  er_reset_count :: u8
  er_anchor_seq :: u64
  er_anchor_ts_ns :: u64
  er_delivered :: "delivered list"

definition era_opened :: "u64 \<Rightarrow> u8 \<Rightarrow> u64 \<Rightarrow> u64 \<Rightarrow> era" where
  "era_opened ordinal reset_count seq ts_ns =
     \<lparr>er_ordinal = ordinal, er_reset_count = reset_count, er_anchor_seq = seq,
      er_anchor_ts_ns = ts_ns, er_delivered = [single seq ts_ns]\<rparr>"

text \<open>
  \<open>partition_point\<close> of a slice that is partitioned by the predicate, which the invariant below
  gives: the number of leading ranges that end before \<open>seq - 1\<close>.
\<close>

definition slot :: "delivered list \<Rightarrow> u64 \<Rightarrow> nat" where
  "slot ranges seq = length (takeWhile (\<lambda>range. sat_add (dl_end range) 1 < seq) ranges)"

definition deliver_ranges ::
    "u64 \<Rightarrow> u64 \<Rightarrow> deriver_limits \<Rightarrow> delivered list \<Rightarrow> delivery \<times> delivered list" where
  "deliver_ranges seq ts_ns limits ds =
    (if ds \<noteq> [] \<and>
        sat_sub (max (dl_end (last ds)) seq) (min (dl_start (hd ds)) seq) > MAX_FORWARD_JUMP
     then (TooDistant, ds)
     else let index = slot ds seq in
     if index \<ge> length ds then
       (if length ds \<ge> max_ranges_per_era limits then (TooManyRanges, ds)
        else (Recorded, ds @ [single seq ts_ns]))
     else let range = ds ! index in
     if dl_start range \<le> seq \<and> seq \<le> dl_end range then (Recorded, ds)
     else if sat_add (dl_end range) 1 = seq then
       (let ds1 = ds[index := range\<lparr>dl_end := seq, dl_end_ts_ns := ts_ns\<rparr>] in
        if index + 1 < length ds1 \<and> dl_start (ds1 ! (index + 1)) = sat_add seq 1 then
          let next_range = ds1 ! (index + 1);
              ds2 = take (index + 1) ds1 @ drop (index + 2) ds1 in
          (Recorded, ds2[index := (ds2 ! index)
             \<lparr>dl_end := dl_end next_range, dl_end_ts_ns := dl_end_ts_ns next_range\<rparr>])
        else (Recorded, ds1))
     else if dl_start range = sat_add seq 1 then
       (Recorded, ds[index := range\<lparr>dl_start := seq, dl_start_ts_ns := ts_ns\<rparr>])
     else if length ds \<ge> max_ranges_per_era limits then (TooManyRanges, ds)
     else (Recorded, take index ds @ single seq ts_ns # drop index ds))"

definition era_deliver :: "u64 \<Rightarrow> u64 \<Rightarrow> deriver_limits \<Rightarrow> era \<Rightarrow> delivery \<times> era" where
  "era_deliver seq ts_ns limits e =
     (let (d, ds) = deliver_ranges seq ts_ns limits (er_delivered e)
      in (d, e\<lparr>er_delivered := ds\<rparr>))"

record era_coverage =
  ec_ordinal :: u64
  ec_reset_count :: u8
  ec_anchor_seq :: u64
  ec_anchor_ts_ns :: u64
  ec_first_seq :: u64
  ec_last_seq :: u64
  ec_delivered :: u64

text \<open>\<open>None\<close> is the panic of \<open>expect\<close> on an era with no range.\<close>

definition coverage :: "era \<Rightarrow> era_coverage option" where
  "coverage e = (if er_delivered e = [] then None else Some
     \<lparr>ec_ordinal = er_ordinal e, ec_reset_count = er_reset_count e,
      ec_anchor_seq = er_anchor_seq e, ec_anchor_ts_ns = er_anchor_ts_ns e,
      ec_first_seq = dl_start (hd (er_delivered e)), ec_last_seq = dl_end (last (er_delivered e)),
      ec_delivered = sum_list (map width (er_delivered e))\<rparr>)"

definition reference_seqs :: "era_coverage \<Rightarrow> u64" where
  "reference_seqs c = sat_add (sat_sub (ec_last_seq c) (ec_first_seq c)) 1"

definition coverage_missing :: "era_coverage \<Rightarrow> u64" where
  "coverage_missing c = sat_sub (reference_seqs c) (ec_delivered c)"

subsection \<open>The invariant and the abstraction\<close>

abbreviation lo :: "delivered \<Rightarrow> nat" where "lo r \<equiv> unat (dl_start r)"
abbreviation hi :: "delivered \<Rightarrow> nat" where "hi r \<equiv> unat (dl_end r)"

definition apart :: "delivered \<Rightarrow> delivered \<Rightarrow> bool" where
  "apart a b \<longleftrightarrow> hi a + 1 < lo b"

definition ranges_ok :: "delivered list \<Rightarrow> bool" where
  "ranges_ok ds \<longleftrightarrow> sorted_wrt apart ds \<and> (\<forall>r\<in>set ds. lo r \<le> hi r)"

definition covered :: "delivered list \<Rightarrow> nat set" where
  "covered ds = (\<Union>r\<in>set ds. {lo r..hi r})"

definition stamped_at :: "delivered list \<Rightarrow> (nat \<rightharpoonup> u64) \<Rightarrow> bool" where
  "stamped_at ds arrivals \<longleftrightarrow> dom arrivals = covered ds \<and>
     (\<forall>r\<in>set ds. arrivals (lo r) = Some (dl_start_ts_ns r) \<and> arrivals (hi r) = Some (dl_end_ts_ns r))"

definition arrive :: "nat \<Rightarrow> u64 \<Rightarrow> (nat \<rightharpoonup> u64) \<Rightarrow> (nat \<rightharpoonup> u64)" where
  "arrive s ts arrivals = (if s \<in> dom arrivals then arrivals else arrivals(s \<mapsto> ts))"

lemma covered_append [simp]: "covered (as @ bs) = covered as \<union> covered bs"
  by (auto simp: covered_def)

lemma covered_Cons [simp]: "covered (r # ds) = {lo r..hi r} \<union> covered ds"
  by (simp add: covered_def)

lemma covered_Nil [simp]: "covered [] = {}"
  by (simp add: covered_def)

lemma ranges_ok_append: "ranges_ok (as @ bs) \<longleftrightarrow>
    ranges_ok as \<and> ranges_ok bs \<and> (\<forall>a\<in>set as. \<forall>b\<in>set bs. apart a b)"
  by (auto simp: ranges_ok_def sorted_wrt_append)

lemma ranges_ok_Cons: "ranges_ok (r # ds) \<longleftrightarrow>
    lo r \<le> hi r \<and> (\<forall>b\<in>set ds. apart r b) \<and> ranges_ok ds"
  by (auto simp: ranges_ok_def)

lemma ranges_ok_Nil [simp]: "ranges_ok []"
  by (simp add: ranges_ok_def)

lemma single_simps [simp]:
  "dl_start (single s ts) = s" "dl_end (single s ts) = s"
  "dl_start_ts_ns (single s ts) = ts" "dl_end_ts_ns (single s ts) = ts"
  by (simp_all add: single_def)

subsection \<open>Saturating successors\<close>

lemma unat_sat_succ: "unat (sat_add x 1) = min (unat x + 1) (2 ^ 64 - 1)" for x :: u64
  by (simp add: unat_sat_add)

lemma sat_succ_less: "sat_add e 1 < s \<longleftrightarrow> unat e + 1 < unat s" for e s :: u64
  using unat_u64_bound [of s] by (auto simp: word_less_nat_alt unat_sat_succ min_def)

lemma sat_succ_eq: "unat e < unat s \<Longrightarrow> sat_add e 1 = s \<longleftrightarrow> unat e + 1 = unat s" for e s :: u64
  using unat_u64_bound [of s] by (auto simp: word_unat_eq_iff unat_sat_succ min_def)

text \<open>Where a number falls among the ranges: past the first group, at or before the second.\<close>

lemma slot_split:
  obtains as bs where "ds = as @ bs" "slot ds s = length as"
    "\<forall>a\<in>set as. hi a + 1 < unat s" "bs \<noteq> [] \<Longrightarrow> unat s \<le> hi (hd bs) + 1"
proof -
  let ?p = "\<lambda>r. sat_add (dl_end r) 1 < s"
  have "ds = takeWhile ?p ds @ dropWhile ?p ds" "slot ds s = length (takeWhile ?p ds)"
    by (simp_all add: slot_def)
  moreover have "\<forall>a\<in>set (takeWhile ?p ds). hi a + 1 < unat s"
    by (auto dest: set_takeWhileD simp: sat_succ_less)
  moreover have "unat s \<le> hi (hd (dropWhile ?p ds)) + 1" if "dropWhile ?p ds \<noteq> []"
    using hd_dropWhile [OF that] by (simp add: sat_succ_less)
  ultimately show thesis
    by (rule that)
qed

subsection \<open>The three ways a range set grows\<close>

definition too_distant :: "u64 \<Rightarrow> delivered list \<Rightarrow> bool" where
  "too_distant s ds \<longleftrightarrow> ds \<noteq> [] \<and>
     sat_sub (max (dl_end (last ds)) s) (min (dl_start (hd ds)) s) > MAX_FORWARD_JUMP"

definition stretch :: "u64 \<Rightarrow> u64 \<Rightarrow> delivered \<Rightarrow> delivered list \<Rightarrow> delivered list" where
  "stretch s ts r rest =
     (case rest of
        [] \<Rightarrow> [r\<lparr>dl_end := s, dl_end_ts_ns := ts\<rparr>]
      | n # rest' \<Rightarrow>
          if dl_start n = sat_add s 1
          then r\<lparr>dl_end := dl_end n, dl_end_ts_ns := dl_end_ts_ns n\<rparr> # rest'
          else r\<lparr>dl_end := s, dl_end_ts_ns := ts\<rparr> # rest)"

lemma deliver_ranges_closed:
  assumes "ds = as @ bs" "slot ds s = length as" "\<not> too_distant s ds"
    and "full \<longleftrightarrow> length ds \<ge> max_ranges_per_era limits"
  shows "deliver_ranges s ts limits ds = (case bs of
      [] \<Rightarrow> if full then (TooManyRanges, ds) else (Recorded, as @ [single s ts])
    | r # rest \<Rightarrow>
        if dl_start r \<le> s \<and> s \<le> dl_end r then (Recorded, ds)
        else if sat_add (dl_end r) 1 = s then (Recorded, as @ stretch s ts r rest)
        else if dl_start r = sat_add s 1
        then (Recorded, as @ r\<lparr>dl_start := s, dl_start_ts_ns := ts\<rparr> # rest)
        else if full then (TooManyRanges, ds)
        else (Recorded, as @ single s ts # r # rest))"
proof (cases bs)
  case Nil
  then show ?thesis
    using assms by (simp add: deliver_ranges_def too_distant_def Let_def)
next
  case (Cons r rest)
  have "(as @ n # rest)[length as := x] = as @ x # rest" for n x
    by simp
  then show ?thesis
    using assms unfolding Cons
    by (cases rest)
      (simp_all add: deliver_ranges_def too_distant_def Let_def stretch_def nth_append, auto)
qed

text \<open>Each way keeps the ranges apart and adds exactly the new number, with its stamp.\<close>

definition grown :: "u64 \<Rightarrow> u64 \<Rightarrow> delivered list \<Rightarrow> delivered list \<Rightarrow> bool" where
  "grown s ts ds ds' \<longleftrightarrow> ranges_ok ds' \<and> covered ds' = insert (unat s) (covered ds) \<and>
     (\<forall>arrivals. stamped_at ds arrivals \<longrightarrow> stamped_at ds' (arrive (unat s) ts arrivals))"

lemma stamped_append: "stamped_at (as @ bs) arrivals \<longleftrightarrow> dom arrivals = covered as \<union> covered bs \<and>
    (\<forall>r\<in>set as \<union> set bs.
       arrivals (lo r) = Some (dl_start_ts_ns r) \<and> arrivals (hi r) = Some (dl_end_ts_ns r))"
  by (auto simp: stamped_at_def)

lemma covered_bounds: "ranges_ok ds \<Longrightarrow> r \<in> set ds \<Longrightarrow> lo r \<in> covered ds \<and> hi r \<in> covered ds"
  by (auto simp: covered_def ranges_ok_def)

lemma stamped_fresh:
  assumes "stamped_at ds arrivals" "unat s \<notin> covered ds" "ranges_ok ds"
    "covered ds' = insert (unat s) (covered ds)"
    "\<forall>r\<in>set ds'. (lo r = unat s \<and> dl_start_ts_ns r = ts \<or>
         (\<exists>q\<in>set ds. lo r = lo q \<and> dl_start_ts_ns r = dl_start_ts_ns q)) \<and>
       (hi r = unat s \<and> dl_end_ts_ns r = ts \<or>
         (\<exists>q\<in>set ds. hi r = hi q \<and> dl_end_ts_ns r = dl_end_ts_ns q))"
  shows "stamped_at ds' (arrive (unat s) ts arrivals)"
proof -
  have m: "arrive (unat s) ts arrivals = arrivals(unat s \<mapsto> ts)"
    using assms(1,2) by (simp add: arrive_def stamped_at_def)
  have old: "(arrivals(unat s \<mapsto> ts)) (lo q) = Some (dl_start_ts_ns q)"
    "(arrivals(unat s \<mapsto> ts)) (hi q) = Some (dl_end_ts_ns q)" if "q \<in> set ds" for q
    using assms(1,2) covered_bounds [OF assms(3) that] that by (auto simp: stamped_at_def)
  have "(arrivals(unat s \<mapsto> ts)) (lo r) = Some (dl_start_ts_ns r) \<and>
      (arrivals(unat s \<mapsto> ts)) (hi r) = Some (dl_end_ts_ns r)" if "r \<in> set ds'" for r
    using bspec [OF assms(5) that] old by fastforce
  then show ?thesis
    using assms(1,4) by (simp add: stamped_at_def m)
qed

lemma below_not_covered:
  "\<forall>a\<in>set as. hi a + 1 < unat s \<Longrightarrow> unat s \<notin> covered as"
  by (auto simp: covered_def)

lemma above_not_covered:
  "ranges_ok (r # rest) \<Longrightarrow> n \<le> hi r + 1 \<Longrightarrow> n \<notin> covered rest"
  by (force simp: covered_def ranges_ok_Cons apart_def)

lemma grown_insert:
  assumes ok: "ranges_ok (as @ bs)" and below: "\<forall>a\<in>set as. hi a + 1 < unat s"
    and above: "bs \<noteq> [] \<Longrightarrow> unat s + 1 < lo (hd bs)"
  shows "grown s ts (as @ bs) (as @ single s ts # bs)"
proof -
  have bs: "unat s + 1 < lo b" if "b \<in> set bs" for b
    using ok above that by (cases bs) (force simp: ranges_ok_append ranges_ok_Cons apart_def)+
  then have "unat s \<notin> covered (as @ bs)"
    using below_not_covered [OF below] by (force simp: covered_def)
  moreover have "ranges_ok (as @ single s ts # bs)"
    using ok below bs by (auto simp: ranges_ok_append ranges_ok_Cons apart_def)
  moreover have "covered (as @ single s ts # bs) = insert (unat s) (covered (as @ bs))"
    by auto
  ultimately show ?thesis
    using ok by (auto simp: grown_def intro!: stamped_fresh)
qed

lemma grown_lower:
  assumes ok: "ranges_ok (as @ r # rest)" and below: "\<forall>a\<in>set as. hi a + 1 < unat s"
    and at: "lo r = unat s + 1"
  shows "grown s ts (as @ r # rest) (as @ r\<lparr>dl_start := s, dl_start_ts_ns := ts\<rparr> # rest)"
proof -
  let ?r = "r\<lparr>dl_start := s, dl_start_ts_ns := ts\<rparr>"
  have le: "lo r \<le> hi r" and "unat s \<notin> covered rest"
    using ok at above_not_covered [of r rest "unat s"]
    by (auto simp: ranges_ok_append ranges_ok_Cons)
  then have "unat s \<notin> covered (as @ r # rest)"
    using below_not_covered [OF below] at by simp
  moreover have "ranges_ok (as @ ?r # rest)"
    using ok below at le by (auto simp: ranges_ok_append ranges_ok_Cons apart_def)
  moreover have "covered (as @ ?r # rest) = insert (unat s) (covered (as @ r # rest))"
    using at le by auto
  ultimately show ?thesis
    using ok by (auto simp: grown_def intro!: stamped_fresh)
qed

lemma grown_stretch:
  assumes ok: "ranges_ok (as @ r # rest)" and at: "hi r + 1 = unat s"
  shows "grown s ts (as @ r # rest) (as @ stretch s ts r rest)"
proof -
  have le: "lo r \<le> hi r" and fresh: "unat s \<notin> covered rest"
    and rest: "\<forall>b\<in>set rest. hi r + 1 < lo b"
    using ok at above_not_covered [of r rest "unat s"]
    by (auto simp: ranges_ok_append ranges_ok_Cons apart_def)
  have "unat s \<notin> covered as"
    using ok at le by (force simp: ranges_ok_append ranges_ok_Cons apart_def covered_def)
  then have new: "unat s \<notin> covered (as @ r # rest)"
    using fresh at by simp
  have joins: "dl_start n = sat_add s 1 \<longleftrightarrow> lo n = unat s + 1" if "n \<in> set rest" for n
    using rest that at sat_succ_eq [of s "dl_start n"] by (metis eq_commute)
  have "ranges_ok (as @ stretch s ts r rest) \<and>
      covered (as @ stretch s ts r rest) = insert (unat s) (covered (as @ r # rest))"
  proof (cases rest)
    case Nil
    then show ?thesis
      using ok at le by (auto simp: stretch_def ranges_ok_append ranges_ok_Cons apart_def)
  next
    case (Cons n rest')
    show ?thesis
    proof (cases "lo n = unat s + 1")
      case True
      then show ?thesis
        using ok at le joins [of n]
        by (auto simp: Cons stretch_def ranges_ok_append ranges_ok_Cons apart_def)
    next
      case False
      then show ?thesis
        using ok at le rest joins [of n]
        by (auto simp: Cons stretch_def ranges_ok_append ranges_ok_Cons apart_def)
    qed
  qed
  moreover have "\<forall>q\<in>set (as @ stretch s ts r rest).
      (lo q = unat s \<and> dl_start_ts_ns q = ts \<or>
        (\<exists>p\<in>set (as @ r # rest). lo q = lo p \<and> dl_start_ts_ns q = dl_start_ts_ns p)) \<and>
      (hi q = unat s \<and> dl_end_ts_ns q = ts \<or>
        (\<exists>p\<in>set (as @ r # rest). hi q = hi p \<and> dl_end_ts_ns q = dl_end_ts_ns p))"
    by (auto simp: stretch_def split: list.splits if_splits)
  ultimately show ?thesis
    using stamped_fresh [OF _ new ok] by (auto simp: grown_def)
qed

subsection \<open>Recording one number\<close>

lemma length_stretch: "length (stretch s ts r rest) \<le> Suc (length rest)"
  by (auto simp: stretch_def split: list.splits)

lemma deliver_ranges_grown:
  assumes "ranges_ok ds" "deliver_ranges s ts limits ds = (d, ds')"
  shows "(d = Recorded \<longrightarrow> grown s ts ds ds') \<and> (d \<noteq> Recorded \<longrightarrow> ds' = ds) \<and>
    length ds' \<le> max (length ds) (max_ranges_per_era limits)"
proof (cases "too_distant s ds")
  case True
  then show ?thesis
    using assms(2) by (auto simp: deliver_ranges_def too_distant_def)
next
  case False
  obtain as bs where split: "ds = as @ bs" "slot ds s = length as"
      "\<forall>a\<in>set as. hi a + 1 < unat s" "bs \<noteq> [] \<Longrightarrow> unat s \<le> hi (hd bs) + 1"
    by (rule slot_split [of ds s]) (rule that)
  note closed = deliver_ranges_closed [OF split(1,2) False refl, of ts limits, unfolded assms(2)]
  have ok: "ranges_ok (as @ bs)"
    using assms(1) split(1) by simp
  show ?thesis
  proof (cases bs)
    case Nil
    then show ?thesis
      using closed grown_insert [OF ok split(3)] by (auto simp: split(1) split: if_splits)
  next
    case (Cons r rest)
    have near: "unat s \<le> hi r + 1" "lo r \<le> hi r"
      using split(4) ok by (simp_all add: Cons ranges_ok_append ranges_ok_Cons)
    have ok': "ranges_ok (as @ r # rest)"
      using ok Cons by simp
    consider "lo r \<le> unat s" "unat s \<le> hi r" | "hi r + 1 = unat s" | "lo r = unat s + 1"
      | "unat s + 1 < lo r"
      using near by linarith
    then show ?thesis
    proof cases
      case 1
      then have "grown s ts (as @ bs) (as @ bs)"
        using ok by (auto simp: grown_def arrive_def stamped_at_def Cons)
      then show ?thesis
        using closed 1 by (simp add: split(1) Cons word_le_nat_alt)
    next
      case 2
      then have "sat_add (dl_end r) 1 = s" "\<not> s \<le> dl_end r"
        using sat_succ_eq [of "dl_end r" s] by (simp_all add: word_le_nat_alt)
      then show ?thesis
        using closed grown_stretch [OF ok' 2] length_stretch [of s ts r rest]
        by (simp add: split(1) Cons le_max_iff_disj)
    next
      case 3
      then have "dl_start r = sat_add s 1" "\<not> dl_start r \<le> s" "sat_add (dl_end r) 1 \<noteq> s"
        using sat_succ_eq [of s "dl_start r"] near sat_succ_less [of "dl_end r" s]
          unat_u64_bound [of s] by (auto simp: word_le_nat_alt word_unat_eq_iff unat_sat_succ)
      then show ?thesis
        using closed grown_lower [OF ok' split(3) 3] by (simp add: split(1) Cons)
    next
      case 4
      then have "dl_start r \<noteq> sat_add s 1" "\<not> dl_start r \<le> s" "sat_add (dl_end r) 1 \<noteq> s"
        using near unat_u64_bound [of "dl_start r"]
        by (auto simp: word_le_nat_alt word_unat_eq_iff unat_sat_succ min_def)
      then show ?thesis
        using closed grown_insert [OF ok split(3), of ts] 4
        by (auto simp: split(1) Cons split: if_splits)
    qed
  qed
qed

lemma covered_span:
  assumes "ranges_ok ds" "ds \<noteq> []"
  shows "covered ds \<subseteq> {lo (hd ds)..hi (last ds)}" "lo (hd ds) \<in> covered ds" "hi (last ds) \<in> covered ds"
proof -
  show "lo (hd ds) \<in> covered ds" "hi (last ds) \<in> covered ds"
    using covered_bounds [OF assms(1)] assms(2) by simp_all
  show "covered ds \<subseteq> {lo (hd ds)..hi (last ds)}"
    using assms
  proof (induction ds)
    case (Cons r ds)
    show ?case
    proof (cases ds)
      case (Cons n ns)
      then have "lo r \<le> lo n" "lo n \<le> hi (last ds)" "hi r \<le> lo n"
        using Cons.prems Cons.IH covered_bounds [of ds n]
        by (auto simp: ranges_ok_Cons apart_def)
      then show ?thesis
        using Cons.prems Cons.IH Cons by (auto simp: ranges_ok_Cons)
    qed simp
  qed simp
qed

text \<open>The bound on an era's span, which keeps every width and every sum exact.\<close>

definition span_ok :: "delivered list \<Rightarrow> bool" where
  "span_ok ds \<longleftrightarrow> (\<forall>x\<in>covered ds. \<forall>y\<in>covered ds. y - x \<le> 2 ^ 32)"

lemma deliver_ranges_span:
  assumes "ranges_ok ds" "span_ok ds" "deliver_ranges s ts limits ds = (d, ds')"
  shows "span_ok ds'"
proof (cases "d = Recorded \<and> ds \<noteq> []")
  case True
  then have grown: "covered ds' = insert (unat s) (covered ds)"
    using deliver_ranges_grown [OF assms(1,3)] by (simp add: grown_def)
  have "\<not> too_distant s ds"
    using True assms(3) by (auto simp: deliver_ranges_def too_distant_def)
  then have "max (hi (last ds)) (unat s) - min (lo (hd ds)) (unat s) \<le> 2 ^ 32"
    using True by (simp add: too_distant_def word_less_nat_alt unat_sat_sub MAX_FORWARD_JUMP_nat
        max_def min_def word_le_nat_alt not_less split: if_splits)
  moreover have "covered ds' \<subseteq> {min (lo (hd ds)) (unat s)..max (hi (last ds)) (unat s)}"
    using covered_span(1) [OF assms(1)] True by (auto simp: grown min_le_iff_disj le_max_iff_disj)
  ultimately have "y - x \<le> 2 ^ 32" if "x \<in> covered ds'" "y \<in> covered ds'" for x y
    using that by (meson atLeastAtMost_iff diff_le_mono diff_le_mono2 le_trans subset_eq)
  then show ?thesis
    by (simp add: span_ok_def)
next
  case False
  then show ?thesis
    using assms deliver_ranges_grown [OF assms(1,3)]
    by (auto simp: grown_def span_ok_def)
qed

subsection \<open>Counting what is held and what is not\<close>

lemma finite_covered [simp]: "finite (covered ds)"
  by (simp add: covered_def)

lemma card_covered: "ranges_ok ds \<Longrightarrow> card (covered ds) = (\<Sum>r\<leftarrow>ds. hi r - lo r + 1)"
proof (induction ds)
  case (Cons r ds)
  then have "{lo r..hi r} \<inter> covered ds = {}"
    using above_not_covered [of r ds] by auto
  then have "card (covered (r # ds)) = card {lo r..hi r} + card (covered ds)"
    by (simp only: covered_Cons) (rule card_Un_disjoint; simp)
  moreover have "card {lo r..hi r} = hi r - lo r + 1"
    using Cons.prems by (simp add: ranges_ok_Cons Suc_diff_le)
  ultimately show ?case
    using Cons by (simp only: list.map sum_list.Cons) (simp add: ranges_ok_Cons)
qed simp

lemma covered_card_span: "ranges_ok ds \<Longrightarrow> span_ok ds \<Longrightarrow> card (covered ds) \<le> 2 ^ 32 + 1"
proof (cases "ds = []")
  case False
  assume ok: "ranges_ok ds" and span: "span_ok ds"
  have "card (covered ds) \<le> card {lo (hd ds)..hi (last ds)}"
    by (rule card_mono) (use covered_span(1) [OF ok False] in auto)
  moreover have "hi (last ds) - lo (hd ds) \<le> 2 ^ 32"
    using span covered_span(2,3) [OF ok False] by (simp only: span_ok_def)
  ultimately show ?thesis by simp
qed simp

lemma unat_sum_list_small:
  "(\<Sum>x\<leftarrow>xs. unat (f x)) < 2 ^ 64 \<Longrightarrow> unat (sum_list (map f xs) :: u64) = (\<Sum>x\<leftarrow>xs. unat (f x))"
  by (induction xs) (simp_all add: unat_word_ariths)

lemma unat_width: "lo r \<le> hi r \<Longrightarrow> hi r - lo r \<le> 2 ^ 32 \<Longrightarrow> unat (width r) = hi r - lo r + 1"
  by (simp add: width_def unat_sat_succ unat_sat_sub)

lemma unat_sum_width:
  assumes "ranges_ok ds" "span_ok ds"
  shows "unat (sum_list (map width ds)) = card (covered ds)"
proof -
  have "unat (width r) = hi r - lo r + 1" if "r \<in> set ds" for r
    using that assms covered_bounds [OF assms(1) that]
    by (intro unat_width) (auto simp: ranges_ok_def span_ok_def)
  then have "(\<Sum>r\<leftarrow>ds. unat (width r)) = card (covered ds)"
    using card_covered [OF assms(1)] by (simp cong: map_cong)
  then show ?thesis
    using covered_card_span [OF assms] by (simp add: unat_sum_list_small)
qed

text \<open>The space between two neighbouring ranges, and what all of them make up.\<close>

definition neighbours :: "delivered list \<Rightarrow> (delivered \<times> delivered) list" where
  "neighbours ds = zip ds (tl ds)"

definition holes :: "delivered list \<Rightarrow> nat set" where
  "holes ds = (if ds = [] then {} else {lo (hd ds)..hi (last ds)} - covered ds)"

lemma neighbours_Cons [simp]: "neighbours [] = []" "neighbours [r] = []"
  "neighbours (r # n # ds) = (r, n) # neighbours (n # ds)"
  by (simp_all add: neighbours_def)

lemma neighbours_apart:
  "ranges_ok ds \<Longrightarrow> (a, b) \<in> set (neighbours ds) \<Longrightarrow> hi a + 1 < lo b \<and> a \<in> set ds \<and> b \<in> set ds"
  by (induction ds rule: induct_list012) (auto simp: ranges_ok_Cons apart_def)

lemma hole_sets:
  fixes lr hr ln top :: nat
  assumes "lr \<le> hr" "hr + 1 < ln" "held \<subseteq> {ln..top}" "ln \<le> top"
  shows "{lr..top} - ({lr..hr} \<union> held) = {hr + 1..ln - 1} \<union> ({ln..top} - held)"
    and "{hr + 1..ln - 1} \<inter> ({ln..top} - held) = {}"
  using assms by (auto simp: subset_eq)

lemma holes_Cons:
  assumes "ranges_ok (r # n # ds)"
  shows "holes (r # n # ds) = {hi r + 1..lo n - 1} \<union> holes (n # ds)"
    and "{hi r + 1..lo n - 1} \<inter> holes (n # ds) = {}"
proof -
  let ?held = "covered (n # ds)" and ?top = "hi (last (n # ds))"
  have apart: "lo r \<le> hi r" "hi r + 1 < lo n" and ok: "ranges_ok (n # ds)"
    using assms by (auto simp: ranges_ok_Cons apart_def)
  have held: "?held \<subseteq> {lo n..?top}" "lo n \<in> ?held"
    using covered_span [OF ok] by simp_all
  then have "lo n \<le> ?top"
    by (metis atLeastAtMost_iff subset_eq)
  from hole_sets [OF apart held(1) this] show "holes (r # n # ds) = {hi r + 1..lo n - 1} \<union> holes (n # ds)"
    and "{hi r + 1..lo n - 1} \<inter> holes (n # ds) = {}"
    by (simp_all only: holes_def covered_Cons [of r] list.distinct if_False list.sel last.simps)
qed

lemma finite_holes [simp]: "finite (holes ds)"
  by (simp add: holes_def)

lemma holes_neighbours:
  "ranges_ok ds \<Longrightarrow>
   holes ds = (\<Union>(a, b)\<in>set (neighbours ds). {hi a + 1..lo b - 1}) \<and>
   card (holes ds) = (\<Sum>(a, b)\<leftarrow>neighbours ds. lo b - hi a - 1)"
proof (induction ds rule: induct_list012)
  case (3 r n ds)
  have ok: "ranges_ok (n # ds)"
    using "3.prems" by (simp add: ranges_ok_Cons)
  note ih = conjunct1 [OF "3.IH"(2) [OF ok]] conjunct2 [OF "3.IH"(2) [OF ok]]
  have "card (holes (r # n # ds)) = card {hi r + 1..lo n - 1} + card (holes (n # ds))"
    unfolding holes_Cons(1) [OF "3.prems"]
    by (rule card_Un_disjoint) (use holes_Cons(2) [OF "3.prems"] in auto)
  then have "card (holes (r # n # ds)) = lo n - hi r - 1 + card (holes (n # ds))"
    by simp
  then show ?case
    unfolding neighbours_Cons list.map sum_list.Cons list.set UN_insert prod.case
    using holes_Cons(1) [OF "3.prems"] ih by metis
qed (auto simp: holes_def)

lemma coverage_counts:
  assumes "ranges_ok (er_delivered e)" "span_ok (er_delivered e)" "er_delivered e \<noteq> []"
  obtains c where "coverage e = Some c" "unat (ec_delivered c) = card (covered (er_delivered e))"
    "unat (reference_seqs c) = card (covered (er_delivered e)) + card (holes (er_delivered e))"
    "unat (coverage_missing c) = card (holes (er_delivered e))"
proof -
  let ?ds = "er_delivered e"
  note span = covered_span [OF assms(1,3)]
  have w: "hi (last ?ds) - lo (hd ?ds) \<le> 2 ^ 32" and le: "lo (hd ?ds) \<le> hi (last ?ds)"
    using assms(2) span by (auto simp: span_ok_def)
  have "card {lo (hd ?ds)..hi (last ?ds)} = card (covered ?ds) + card (holes ?ds)"
    using span(1) card_mono [OF _ span(1)] assms(3) by (simp add: holes_def card_Diff_subset)
  moreover have "unat (sat_add (sat_sub (dl_end (last ?ds)) (dl_start (hd ?ds))) 1) =
      card {lo (hd ?ds)..hi (last ?ds)}"
    using w le by (simp add: unat_sat_succ unat_sat_sub)
  ultimately show thesis
    using that assms unat_sum_width [OF assms(1,2)]
    by (simp add: coverage_def reference_seqs_def coverage_missing_def unat_sat_sub)
qed

subsection \<open>A whole era\<close>

fun deliver_all ::
    "(u64 \<times> u64) list \<Rightarrow> deriver_limits \<Rightarrow> era \<Rightarrow> delivery list \<times> era" where
  "deliver_all [] limits e = ([], e)"
| "deliver_all ((s, ts) # rest) limits e =
     (let (d, e1) = era_deliver s ts limits e; (ds, e2) = deliver_all rest limits e1
      in (d # ds, e2))"

text \<open>The first-arrival map of the numbers that were recorded.\<close>

fun recorded_arrivals ::
    "(u64 \<times> u64) list \<Rightarrow> delivery list \<Rightarrow> (nat \<rightharpoonup> u64) \<Rightarrow> (nat \<rightharpoonup> u64)" where
  "recorded_arrivals ((s, ts) # rest) (d # ds) arrivals = recorded_arrivals rest ds
     (if d = Recorded then arrive (unat s) ts arrivals else arrivals)"
| "recorded_arrivals _ _ arrivals = arrivals"

lemma era_deliver_frame [simp]:
  "er_ordinal (snd (era_deliver s ts limits e)) = er_ordinal e"
  "er_reset_count (snd (era_deliver s ts limits e)) = er_reset_count e"
  "er_anchor_seq (snd (era_deliver s ts limits e)) = er_anchor_seq e"
  "er_anchor_ts_ns (snd (era_deliver s ts limits e)) = er_anchor_ts_ns e"
  by (simp_all add: era_deliver_def split_beta)

lemma deliver_all_invariant:
  assumes "ranges_ok (er_delivered e)" "span_ok (er_delivered e)" "stamped_at (er_delivered e) arrivals"
    and "deliver_all seqs limits e = (ds, e')"
  shows "ranges_ok (er_delivered e') \<and> span_ok (er_delivered e') \<and>
    stamped_at (er_delivered e') (recorded_arrivals seqs ds arrivals) \<and>
    (er_ordinal e', er_reset_count e', er_anchor_seq e', er_anchor_ts_ns e') =
    (er_ordinal e, er_reset_count e, er_anchor_seq e, er_anchor_ts_ns e)"
  using assms
proof (induction seqs arbitrary: e ds arrivals)
  case Nil
  then show ?case by simp
next
  case (Cons p seqs)
  obtain s ts where p: "p = (s, ts)" by (cases p)
  obtain d e1 where step: "era_deliver s ts limits e = (d, e1)"
    by (cases "era_deliver s ts limits e")
  then have run: "deliver_ranges s ts limits (er_delivered e) = (d, er_delivered e1)"
    by (auto simp: era_deliver_def split: prod.splits)
  have frame: "(er_ordinal e1, er_reset_count e1, er_anchor_seq e1, er_anchor_ts_ns e1) =
      (er_ordinal e, er_reset_count e, er_anchor_seq e, er_anchor_ts_ns e)"
    using era_deliver_frame [of s ts limits e] by (simp add: step)
  obtain rest where rest: "deliver_all seqs limits e1 = (rest, e')" "ds = d # rest"
    using Cons.prems(4) by (auto simp: p step split: prod.splits)
  have "ranges_ok (er_delivered e1)" "stamped_at (er_delivered e1)
      (if d = Recorded then arrive (unat s) ts arrivals else arrivals)"
    using deliver_ranges_grown [OF Cons.prems(1) run] Cons.prems(1,3)
    by (cases "d = Recorded"; simp add: grown_def)+
  then show ?case
    using Cons.IH [OF _ deliver_ranges_span [OF Cons.prems(1,2) run] _ rest(1)] frame
    by (simp add: p rest(2))
qed

text \<open>
  C19. An era's ranges are its arrivals: after any arrivals in any order, duplicates and late
  ones included, the ranges are disjoint with a hole between any two, cover exactly the numbers
  whose delivery was recorded and the opening one, carry at each end the stamp of the first
  arrival of that number, span at most \<open>2 ^ 32\<close>, and leave the era's anchor where it opened.
\<close>

theorem era_holds_arrivals:
  "(let (ds, e) = deliver_all seqs limits (era_opened ordinal rc s0 ts0) in
    ranges_ok (er_delivered e) \<and> span_ok (er_delivered e) \<and>
    stamped_at (er_delivered e) (recorded_arrivals seqs ds [unat s0 \<mapsto> ts0]) \<and>
    er_anchor_seq e = s0 \<and> er_anchor_ts_ns e = ts0 \<and> er_ordinal e = ordinal \<and>
    er_reset_count e = rc)"
proof -
  let ?e = "era_opened ordinal rc s0 ts0"
  have e: "ranges_ok (er_delivered ?e)" "span_ok (er_delivered ?e)"
    "stamped_at (er_delivered ?e) [unat s0 \<mapsto> ts0]"
    by (simp_all add: era_opened_def ranges_ok_Cons span_ok_def stamped_at_def)
  obtain ds e' where run: "deliver_all seqs limits ?e = (ds, e')"
    by (cases "deliver_all seqs limits ?e")
  show ?thesis
    using deliver_all_invariant [OF e run] by (simp add: run) (simp add: era_opened_def)
qed

end
