(* ===== verification/Loss_Deriver.thy ===== *)
theory Loss_Deriver
  imports Delivered_Ranges
begin

section \<open>Loss over a window: runs nobody delivered, and whose they are\<close>

text \<open>
  \<open>InstanceState\<close>, \<open>LossDeriver\<close> and \<open>LossReport\<close> of \<open>deriver.rs\<close>, and \<open>SequenceRun\<close> of \<open>run.rs\<close>.
  A datagram is classified by the shared tracker and its number recorded in the ranges of its
  era; closing the window turns the spaces between ranges into runs. A source is the list of
  what its \<open>next\<close> yields before the end of file: datagrams, or an error that stops the drive.
\<close>

subsection \<open>One channel instance\<close>

record instance_state =
  is_group :: ipv4_addr
  is_role :: port_role
  is_sequence :: sequence_tracker
  is_datagrams :: u64
  is_admitted :: u64
  is_gaps_on_arrival :: u64
  is_missing_on_arrival :: u64
  is_duplicates :: u64
  is_reordered :: u64
  is_backward :: u64
  is_forward_jumps :: u64
  is_resets :: u64
  is_stragglers :: u64
  is_group_mismatches :: u64
  is_eras_refused :: u64
  is_ranges_refused :: u64
  is_implausible_deliveries :: u64
  is_unknown_schema :: u64
  is_eras :: "era list"

definition instance_new :: "ipv4_addr \<Rightarrow> port_role \<Rightarrow> instance_state" where
  "instance_new dst_group role =
     \<lparr>is_group = dst_group, is_role = role, is_sequence = tracker_new, is_datagrams = 0,
      is_admitted = 0, is_gaps_on_arrival = 0, is_missing_on_arrival = 0, is_duplicates = 0,
      is_reordered = 0, is_backward = 0, is_forward_jumps = 0, is_resets = 0, is_stragglers = 0,
      is_group_mismatches = 0, is_eras_refused = 0, is_ranges_refused = 0,
      is_implausible_deliveries = 0, is_unknown_schema = 0, is_eras = []\<rparr>"

definition era_of_straggler :: "u8 \<Rightarrow> u64 \<Rightarrow> era list \<Rightarrow> nat option" where
  "era_of_straggler reset_count seq eras =
    (if length eras < 2 then None
     else let previous = length eras - 2; e = eras ! previous in
     if er_delivered e = [] then None
     else if er_reset_count e = reset_count \<and> seq > dl_end (last (er_delivered e))
     then Some previous else None)"

text \<open>The common tail of the two deliveries: the era at an index, and the count of a refusal.\<close>

definition deliver_at ::
    "nat \<Rightarrow> u64 \<Rightarrow> u64 \<Rightarrow> deriver_limits \<Rightarrow> instance_state \<Rightarrow> instance_state" where
  "deliver_at index seq ts_ns limits st =
    (let (d, e) = era_deliver seq ts_ns limits (is_eras st ! index);
         st' = st\<lparr>is_eras := (is_eras st)[index := e]\<rparr> in
     case d of
       Recorded \<Rightarrow> st'
     | TooManyRanges \<Rightarrow> st'\<lparr>is_ranges_refused := is_ranges_refused st' + 1\<rparr>
     | TooDistant \<Rightarrow> st'\<lparr>is_implausible_deliveries := is_implausible_deliveries st' + 1\<rparr>)"

definition deliver_last ::
    "u64 \<Rightarrow> u64 \<Rightarrow> deriver_limits \<Rightarrow> instance_state \<Rightarrow> instance_state" where
  "deliver_last seq ts_ns limits st =
    (if is_eras st = [] then st\<lparr>is_eras_refused := is_eras_refused st + 1\<rparr>
     else deliver_at (length (is_eras st) - 1) seq ts_ns limits st)"

text \<open>What comes before the classification: the counts every readable datagram moves.\<close>

definition count_arrival ::
    "datagram_header \<Rightarrow> recorded_datagram \<Rightarrow> instance_state \<Rightarrow> instance_state" where
  "count_arrival header dg st =
    (let st = st\<lparr>is_datagrams := is_datagrams st + 1\<rparr>;
         st = (if sa_ip (rd_dst dg) \<noteq> is_group st
               then st\<lparr>is_group_mismatches := is_group_mismatches st + 1\<rparr> else st);
         st = st\<lparr>is_admitted := is_admitted st + ucast (rd_drop_delta dg)\<rparr> in
     if \<not> schema_is_supported header
     then st\<lparr>is_unknown_schema := is_unknown_schema st + 1\<rparr> else st)"

definition instance_observe ::
    "datagram_header \<Rightarrow> recorded_datagram \<Rightarrow> deriver_limits \<Rightarrow> instance_state \<Rightarrow> instance_state" where
  "instance_observe header dg limits st0 =
    (let st = count_arrival header dg st0;
         seq = hdr_sequence_number header;
         ts_ns = rd_recv_ts_ns dg;
         rc = hdr_reset_count header in
     case era_of_straggler rc seq (is_eras st) of
       Some index \<Rightarrow>
         deliver_at index seq ts_ns limits (st\<lparr>is_stragglers := is_stragglers st + 1\<rparr>)
     | None \<Rightarrow>
         let (outcome, tracker) = observe seq rc (is_sequence st);
             st = st\<lparr>is_sequence := tracker\<rparr> in
         case outcome of
           Opened \<Rightarrow>
             st\<lparr>is_eras := is_eras st @ [era_opened (st_era_ordinal tracker) rc seq ts_ns]\<rparr>
         | Reset era_ordinal \<Rightarrow>
             let st = st\<lparr>is_resets := is_resets st + 1\<rparr> in
             if length (is_eras st) \<ge> max_eras_per_instance limits
             then st\<lparr>is_eras_refused := is_eras_refused st + 1\<rparr>
             else st\<lparr>is_eras := is_eras st @ [era_opened era_ordinal rc seq ts_ns]\<rparr>
         | InOrder \<Rightarrow> deliver_last seq ts_ns limits st
         | Gap m \<Rightarrow> deliver_last seq ts_ns limits
             (st\<lparr>is_gaps_on_arrival := is_gaps_on_arrival st + 1,
                is_missing_on_arrival := is_missing_on_arrival st + m\<rparr>)
         | Duplicate \<Rightarrow> deliver_last seq ts_ns limits
             (st\<lparr>is_duplicates := is_duplicates st + 1\<rparr>)
         | Reordered b \<Rightarrow> deliver_last seq ts_ns limits
             (st\<lparr>is_reordered := is_reordered st + 1\<rparr>)
         | Backward b \<Rightarrow> deliver_last seq ts_ns limits
             (st\<lparr>is_backward := is_backward st + 1\<rparr>)
         | ForwardJump a \<Rightarrow> st\<lparr>is_forward_jumps := is_forward_jumps st + 1\<rparr>)"

subsection \<open>Closing an instance\<close>

record sequence_run =
  sr_instance :: channel_instance
  sr_group :: ipv4_addr
  sr_role :: port_role
  sr_era_ordinal :: u64
  sr_reset_count :: u8
  sr_missing_from :: u64
  sr_missing_to :: u64
  sr_before_ts_ns :: u64
  sr_after_ts_ns :: u64

definition missing_count :: "sequence_run \<Rightarrow> u64" where
  "missing_count run = sat_add (sat_sub (sr_missing_to run) (sr_missing_from run)) 1"

definition span_ns :: "sequence_run \<Rightarrow> u64" where
  "span_ns run = sat_sub (sr_after_ts_ns run) (sr_before_ts_ns run)"

record instance_loss =
  il_instance :: channel_instance
  il_group :: ipv4_addr
  il_role :: port_role
  il_datagrams :: u64
  il_runs :: "sequence_run list"
  il_missing :: u64
  il_reference_seqs :: u64
  il_admitted :: u64
  il_gaps_on_arrival :: u64
  il_missing_on_arrival :: u64
  il_duplicates :: u64
  il_reordered :: u64
  il_backward :: u64
  il_forward_jumps :: u64
  il_resets :: u64
  il_era_transitions :: u64
  il_unknown_schema :: u64
  il_stragglers :: u64
  il_group_mismatches :: u64
  il_eras_refused :: u64
  il_ranges_refused :: u64
  il_implausible_deliveries :: u64
  il_eras :: "era_coverage list"

definition run_between ::
    "channel_instance \<Rightarrow> instance_state \<Rightarrow> era \<Rightarrow> delivered \<times> delivered \<Rightarrow> sequence_run" where
  "run_between k st e pair = (case pair of (before, after) \<Rightarrow>
     \<lparr>sr_instance = k, sr_group = is_group st, sr_role = is_role st,
      sr_era_ordinal = er_ordinal e, sr_reset_count = er_reset_count e,
      sr_missing_from = sat_add (dl_end before) 1,
      sr_missing_to = sat_sub (dl_start after) 1,
      sr_before_ts_ns = dl_end_ts_ns before,
      sr_after_ts_ns = dl_start_ts_ns after\<rparr>)"

definition era_runs :: "channel_instance \<Rightarrow> instance_state \<Rightarrow> era \<Rightarrow> sequence_run list" where
  "era_runs k st e = map (run_between k st e) (neighbours (er_delivered e))"

record loss_totals =
  lt_runs :: "sequence_run list"
  lt_missing :: u64
  lt_reference_seqs :: u64
  lt_eras :: "era_coverage list"

text \<open>The loop over the eras; \<open>None\<close> is the panic of an era with no range.\<close>

fun close_eras ::
    "channel_instance \<Rightarrow> instance_state \<Rightarrow> era list \<Rightarrow> loss_totals \<Rightarrow> loss_totals option" where
  "close_eras k st [] acc = Some acc"
| "close_eras k st (e # es) acc = do {
     c \<leftarrow> coverage e;
     close_eras k st es
       \<lparr>lt_runs = lt_runs acc @ era_runs k st e,
        lt_missing = fold (\<lambda>run m. sat_add m (missing_count run)) (era_runs k st e) (lt_missing acc),
        lt_reference_seqs = sat_add (lt_reference_seqs acc) (reference_seqs c),
        lt_eras = lt_eras acc @ [c]\<rparr>
   }"

definition instance_finish :: "instance_state \<Rightarrow> channel_instance \<Rightarrow> instance_loss option" where
  "instance_finish st k = do {
     t \<leftarrow> close_eras k st (is_eras st)
       \<lparr>lt_runs = [], lt_missing = 0, lt_reference_seqs = 0, lt_eras = []\<rparr>;
     Some \<lparr>il_instance = k, il_group = is_group st, il_role = is_role st,
       il_datagrams = is_datagrams st, il_runs = lt_runs t, il_missing = lt_missing t,
       il_reference_seqs = lt_reference_seqs t, il_admitted = is_admitted st,
       il_gaps_on_arrival = is_gaps_on_arrival st, il_missing_on_arrival = is_missing_on_arrival st,
       il_duplicates = is_duplicates st, il_reordered = is_reordered st,
       il_backward = is_backward st, il_forward_jumps = is_forward_jumps st,
       il_resets = is_resets st, il_era_transitions = word_of_nat (length (is_eras st)),
       il_unknown_schema = is_unknown_schema st, il_stragglers = is_stragglers st,
       il_group_mismatches = is_group_mismatches st, il_eras_refused = is_eras_refused st,
       il_ranges_refused = is_ranges_refused st,
       il_implausible_deliveries = is_implausible_deliveries st, il_eras = lt_eras t\<rparr>
   }"

subsection \<open>The window\<close>

record loss_deriver =
  ld_scope :: capture_drop_scope
  ld_limits :: deriver_limits
  ld_instances :: "(channel_instance, instance_state) omap"
  ld_datagrams :: u64
  ld_short_datagrams :: u64
  ld_instances_refused :: u64
  ld_handle_admitted :: u64
  ld_role_admitted :: "u64 list"

definition with_limits :: "capture_drop_scope \<Rightarrow> deriver_limits \<Rightarrow> loss_deriver" where
  "with_limits scope limits =
     \<lparr>ld_scope = scope, ld_limits = limits, ld_instances = om_empty, ld_datagrams = 0,
      ld_short_datagrams = 0, ld_instances_refused = 0, ld_handle_admitted = 0,
      ld_role_admitted = [0, 0, 0]\<rparr>"

definition deriver_new :: "capture_drop_scope \<Rightarrow> loss_deriver" where
  "deriver_new scope = with_limits scope default_limits"

fun role_index :: "port_role \<Rightarrow> nat" where
  "role_index Mktdata = 0"
| "role_index Refdata = 1"
| "role_index Snapshot = 2"

definition instance_key :: "datagram_header \<Rightarrow> recorded_datagram \<Rightarrow> channel_instance" where
  "instance_key header dg =
     ChannelInstance (sa_ip (rd_src dg)) (hdr_channel_id header) (sa_port (rd_dst dg))"

definition loss_observe :: "recorded_datagram \<Rightarrow> loss_deriver \<Rightarrow> loss_deriver" where
  "loss_observe dg d =
    (let delta = ucast (rd_drop_delta dg);
         i = role_index (rd_role dg);
         d = d\<lparr>ld_datagrams := ld_datagrams d + 1,
               ld_handle_admitted := ld_handle_admitted d + delta,
               ld_role_admitted := (ld_role_admitted d)[i := ld_role_admitted d ! i + delta]\<rparr> in
     case header_peek (rd_payload dg) of
       Inl _ \<Rightarrow> d\<lparr>ld_short_datagrams := ld_short_datagrams d + 1\<rparr>
     | Inr header \<Rightarrow>
         let key = instance_key header dg; limits = ld_limits d in
         if om_lookup (ld_instances d) key = None \<and>
            length (ld_instances d) \<ge> max_instances limits
         then d\<lparr>ld_instances_refused := ld_instances_refused d + 1\<rparr>
         else
           let st = (case om_lookup (ld_instances d) key of
                 None \<Rightarrow> instance_new (sa_ip (rd_dst dg)) (rd_role dg)
               | Some st \<Rightarrow> st) in
           d\<lparr>ld_instances :=
               om_update key (instance_observe header dg limits st) (ld_instances d)\<rparr>)"

fun drive :: "('e + recorded_datagram) list \<Rightarrow> loss_deriver \<Rightarrow> ('e + unit) \<times> loss_deriver" where
  "drive [] d = (Inr (), d)"
| "drive (Inl e # rest) d = (Inl e, d)"
| "drive (Inr dg # rest) d = drive rest (loss_observe dg d)"

record loss_report =
  lr_scope :: capture_drop_scope
  lr_instances :: "(channel_instance, instance_loss) omap"
  lr_datagrams :: u64
  lr_short_datagrams :: u64
  lr_instances_refused :: u64
  lr_handle_admitted :: u64
  lr_role_admitted :: "u64 list"

fun finish_instances ::
    "(channel_instance, instance_state) omap \<Rightarrow> (channel_instance, instance_loss) omap option" where
  "finish_instances [] = Some []"
| "finish_instances ((k, st) # rest) = do {
     il \<leftarrow> instance_finish st k;
     ils \<leftarrow> finish_instances rest;
     Some ((k, il) # ils)
   }"

definition loss_finish :: "loss_deriver \<Rightarrow> loss_report option" where
  "loss_finish d = do {
     instances \<leftarrow> finish_instances (ld_instances d);
     Some \<lparr>lr_scope = ld_scope d, lr_instances = instances, lr_datagrams = ld_datagrams d,
       lr_short_datagrams = ld_short_datagrams d, lr_instances_refused = ld_instances_refused d,
       lr_handle_admitted = ld_handle_admitted d, lr_role_admitted = ld_role_admitted d\<rparr>
   }"

definition admitted_on_role :: "loss_report \<Rightarrow> port_role \<Rightarrow> u64" where
  "admitted_on_role r role = lr_role_admitted r ! role_index role"

definition instances_on_role :: "loss_report \<Rightarrow> port_role \<Rightarrow> nat" where
  "instances_on_role r role = length (filter (\<lambda>(k, il). il_role il = role) (lr_instances r))"

datatype residue = Count u64 | Unverifiable

definition unexplained :: "loss_report \<Rightarrow> channel_instance \<Rightarrow> residue option" where
  "unexplained r key = do {
     loss \<leftarrow> om_lookup (lr_instances r) key;
     Some (case lr_scope r of
       ScopePortRole \<Rightarrow>
         if instances_on_role r (il_role loss) = 1 \<or> admitted_on_role r (il_role loss) = 0
         then Count (sat_sub (il_missing loss) (il_admitted loss)) else Unverifiable
     | ScopeCaptureHandle \<Rightarrow>
         if lr_handle_admitted r = 0 then Count (il_missing loss) else Unverifiable)
   }"

subsection \<open>The invariant of an instance\<close>

definition era_ok :: "deriver_limits \<Rightarrow> era \<Rightarrow> bool" where
  "era_ok limits e \<longleftrightarrow> ranges_ok (er_delivered e) \<and> span_ok (er_delivered e) \<and>
     er_delivered e \<noteq> [] \<and> length (er_delivered e) \<le> max 1 (max_ranges_per_era limits)"

definition instance_ok :: "deriver_limits \<Rightarrow> instance_state \<Rightarrow> bool" where
  "instance_ok limits st \<longleftrightarrow> list_all (era_ok limits) (is_eras st) \<and>
     tracker_ok (is_sequence st) \<and> (st_opened (is_sequence st) \<longleftrightarrow> is_eras st \<noteq> []) \<and>
     length (is_eras st) \<le> max 1 (max_eras_per_instance limits)"

lemma era_opened_ok: "era_ok limits (era_opened ordinal rc s ts)"
  by (simp add: era_ok_def era_opened_def ranges_ok_Cons span_ok_def)

lemma grown_nonempty: "grown s ts ds ds' \<Longrightarrow> ds' \<noteq> []"
  by (auto simp: grown_def)

lemma era_deliver_ok:
  assumes "era_ok limits e"
  shows "era_ok limits (snd (era_deliver s ts limits e))"
proof -
  obtain d ds where run: "deliver_ranges s ts limits (er_delivered e) = (d, ds)"
    by (cases "deliver_ranges s ts limits (er_delivered e)")
  have e: "ranges_ok (er_delivered e)" "span_ok (er_delivered e)" "er_delivered e \<noteq> []"
    "length (er_delivered e) \<le> max 1 (max_ranges_per_era limits)"
    using assms by (simp_all add: era_ok_def)
  have "ds \<noteq> []" "ranges_ok ds" "length ds \<le> max 1 (max_ranges_per_era limits)"
    using deliver_ranges_grown [OF e(1) run] e grown_nonempty [of s ts "er_delivered e" ds]
    by (cases "d = Recorded"; auto simp: grown_def)+
  then show ?thesis
    using deliver_ranges_span [OF e(1,2) run] by (simp add: era_deliver_def run era_ok_def)
qed

lemma list_all_update: "list_all P xs \<Longrightarrow> P x \<Longrightarrow> list_all P (xs[i := x])"
  by (cases "i < length xs") (auto simp: list_all_length nth_list_update)

lemma deliver_at_frame [simp]:
  "is_sequence (deliver_at i s ts limits st) = is_sequence st"
  "length (is_eras (deliver_at i s ts limits st)) = length (is_eras st)"
  "is_datagrams (deliver_at i s ts limits st) = is_datagrams st"
  "is_eras (deliver_at i s ts limits st) =
     (is_eras st)[i := snd (era_deliver s ts limits (is_eras st ! i))]"
  by (simp_all add: deliver_at_def Let_def split_beta split: delivery.split)

lemma deliver_at_ok:
  assumes "instance_ok limits st" "i < length (is_eras st)"
  shows "instance_ok limits (deliver_at i s ts limits st)"
  using assms era_deliver_ok [of limits "is_eras st ! i"]
  by (auto simp: instance_ok_def list_all_length nth_list_update)

lemma deliver_last_ok:
  assumes "list_all (era_ok limits) (is_eras st)" "tracker_ok (is_sequence st)"
    "st_opened (is_sequence st)" "is_eras st \<noteq> []"
    "length (is_eras st) \<le> max 1 (max_eras_per_instance limits)"
  shows "instance_ok limits (deliver_last s ts limits st)"
  using assms deliver_at_ok [of limits st "length (is_eras st) - 1"]
  by (simp add: deliver_last_def instance_ok_def)

lemma count_arrival_frame [simp]:
  "is_eras (count_arrival h dg st) = is_eras st"
  "is_sequence (count_arrival h dg st) = is_sequence st"
  "is_datagrams (count_arrival h dg st) = is_datagrams st + 1"
  by (simp_all add: count_arrival_def Let_def)

lemma era_of_straggler_bound: "era_of_straggler rc s eras = Some i \<Longrightarrow> i < length eras"
  by (auto simp: era_of_straggler_def Let_def split: if_splits)

lemma observe_opened: "st_opened (snd (observe s r t))"
  by (simp add: observe_def tracker_open_def Let_def)

lemma observe_Opened_iff: "fst (observe s r t) = Opened \<longleftrightarrow> \<not> st_opened t"
  by (simp add: observe_def Let_def)

lemma instance_observe_ok:
  assumes "instance_ok limits st"
  shows "instance_ok limits (instance_observe h dg limits st)"
proof (cases "era_of_straggler (hdr_reset_count h) (hdr_sequence_number h) (is_eras st)")
  case (Some i)
  let ?st = "(count_arrival h dg st)\<lparr>is_stragglers := is_stragglers (count_arrival h dg st) + 1\<rparr>"
  have "instance_ok limits ?st" "i < length (is_eras ?st)"
    using assms era_of_straggler_bound [OF Some] by (simp_all add: instance_ok_def)
  then show ?thesis
    using Some deliver_at_ok by (simp add: instance_observe_def Let_def)
next
  case None
  let ?obs = "observe (hdr_sequence_number h) (hdr_reset_count h) (is_sequence st)"
  have st: "list_all (era_ok limits) (is_eras st)" "tracker_ok (is_sequence st)"
    "length (is_eras st) \<le> max 1 (max_eras_per_instance limits)"
    and opened: "fst ?obs \<noteq> Opened \<Longrightarrow> is_eras st \<noteq> []"
    using assms observe_Opened_iff by (auto simp: instance_ok_def)
  note tracker = observe_ok [OF st(2)] observe_opened
  have "fst ?obs = Opened \<Longrightarrow> is_eras st = []"
    using assms observe_Opened_iff by (auto simp: instance_ok_def)
  then show ?thesis
    using None st tracker opened
    by (cases "fst ?obs")
      (simp_all add: instance_observe_def Let_def split_beta deliver_last_ok,
       auto simp: instance_ok_def era_opened_ok)
qed

lemma instance_new_ok: "instance_ok limits (instance_new g role)"
  by (simp add: instance_ok_def instance_new_def tracker_new_ok)
    (simp add: tracker_new_def)

subsection \<open>Closing is exact\<close>

definition run_set :: "sequence_run \<Rightarrow> nat set" where
  "run_set run = {unat (sr_missing_from run)..unat (sr_missing_to run)}"

lemma run_between_exact:
  assumes "hi a + 1 < lo b"
  shows "run_set (run_between k st e (a, b)) = {hi a + 1..lo b - 1}"
    "unat (missing_count (run_between k st e (a, b))) = lo b - hi a - 1"
proof -
  have "unat (sat_add (dl_end a) 1) = hi a + 1" "unat (sat_sub (dl_start b) 1) = lo b - 1"
    using assms unat_u64_bound [of "dl_start b"] by (simp_all add: unat_sat_succ unat_sat_sub)
  moreover have "lo b - 1 - (hi a + 1) + 1 = lo b - hi a - 1"
    using assms by linarith
  ultimately show "run_set (run_between k st e (a, b)) = {hi a + 1..lo b - 1}"
    "unat (missing_count (run_between k st e (a, b))) = lo b - hi a - 1"
    using unat_u64_bound [of "dl_start b"]
    by (simp_all only: run_set_def run_between_def missing_count_def unat_sat_succ unat_sat_sub
        prod.case sequence_run.simps) (simp add: min_absorb1)
qed

lemma era_runs_exact:
  assumes "ranges_ok (er_delivered e)"
  shows "(\<Union>run\<in>set (era_runs k st e). run_set run) = holes (er_delivered e)"
    "(\<Sum>run\<leftarrow>era_runs k st e. unat (missing_count run)) = card (holes (er_delivered e))"
proof -
  let ?ps = "neighbours (er_delivered e)"
  have each: "run_set (run_between k st e p) = (case p of (a, b) \<Rightarrow> {hi a + 1..lo b - 1}) \<and>
      unat (missing_count (run_between k st e p)) = (case p of (a, b) \<Rightarrow> lo b - hi a - 1)"
    if "p \<in> set ?ps" for p
  proof -
    obtain a b where p: "p = (a, b)" by (cases p)
    then have "hi a + 1 < lo b"
      using that neighbours_apart [OF assms] by blast
    then show ?thesis
      using run_between_exact p by simp
  qed
  then have sets: "(\<Union>p\<in>set ?ps. run_set (run_between k st e p)) =
      (\<Union>(a, b)\<in>set ?ps. {hi a + 1..lo b - 1})"
    by auto
  have counts: "map (\<lambda>p. unat (missing_count (run_between k st e p))) ?ps =
      map (\<lambda>(a, b). lo b - hi a - 1) ?ps"
    using each by (intro map_cong) simp_all
  have "set (era_runs k st e) = run_between k st e ` set ?ps"
    by (simp add: era_runs_def)
  then show "(\<Union>run\<in>set (era_runs k st e). run_set run) = holes (er_delivered e)"
    using sets conjunct1 [OF holes_neighbours [OF assms]] by simp
  show "(\<Sum>run\<leftarrow>era_runs k st e. unat (missing_count run)) = card (holes (er_delivered e))"
    using conjunct2 [OF holes_neighbours [OF assms]]
    by (simp only: era_runs_def map_map comp_def counts)
qed

lemma close_eras_exact:
  assumes "list_all (era_ok limits) es"
  shows "\<exists>t. close_eras k st es acc = Some t \<and>
    lt_runs t = lt_runs acc @ concat (map (era_runs k st) es) \<and>
    unat (lt_missing t) =
      min (unat (lt_missing acc) + (\<Sum>e\<leftarrow>es. card (holes (er_delivered e)))) (2 ^ 64 - 1) \<and>
    unat (lt_reference_seqs t) = min (unat (lt_reference_seqs acc) +
      (\<Sum>e\<leftarrow>es. card (covered (er_delivered e)) + card (holes (er_delivered e)))) (2 ^ 64 - 1)"
  using assms
proof (induction es arbitrary: acc)
  case Nil
  then show ?case
    using unat_u64_bound [of "lt_missing acc"] unat_u64_bound [of "lt_reference_seqs acc"] by simp
next
  case (Cons e es)
  have e: "ranges_ok (er_delivered e)" "span_ok (er_delivered e)" "er_delivered e \<noteq> []"
    using Cons.prems by (simp_all add: era_ok_def)
  obtain c where c: "coverage e = Some c"
      "unat (reference_seqs c) = card (covered (er_delivered e)) + card (holes (er_delivered e))"
    using coverage_counts [OF e] by metis
  have sat: "min (min a b + n) b = min (a + n) b" for a b n :: nat
    by simp
  show ?case
    using Cons.IH [of "\<lparr>lt_runs = lt_runs acc @ era_runs k st e,
        lt_missing = fold (\<lambda>run m. sat_add m (missing_count run)) (era_runs k st e) (lt_missing acc),
        lt_reference_seqs = sat_add (lt_reference_seqs acc) (reference_seqs c),
        lt_eras = lt_eras acc @ [c]\<rparr>"] Cons.prems
    by (simp add: c unat_fold_sat_add unat_sat_add era_runs_exact [OF e(1)] sat [where b = 18446744073709551615]
        add.assoc)
qed

subsection \<open>What the window promises\<close>

text \<open>The readable datagrams of a window, each with its header; the instances are theirs alone.\<close>

fun readable :: "recorded_datagram list \<Rightarrow> (datagram_header \<times> recorded_datagram) list" where
  "readable [] = []"
| "readable (dg # dgs) = (case header_peek (rd_payload dg) of
     Inl e \<Rightarrow> readable dgs
   | Inr h \<Rightarrow> (h, dg) # readable dgs)"

definition fold_in ::
    "deriver_limits \<Rightarrow> datagram_header \<times> recorded_datagram \<Rightarrow> instance_state option \<Rightarrow> instance_state"
where
  "fold_in limits p w = (case p of (h, dg) \<Rightarrow> instance_observe h dg limits (case w of
     None \<Rightarrow> instance_new (sa_ip (rd_dst dg)) (rd_role dg) | Some st \<Rightarrow> st))"

lemma loss_observe_frame [simp]:
  "ld_limits (loss_observe dg d) = ld_limits d" "ld_scope (loss_observe dg d) = ld_scope d"
  by (simp_all add: loss_observe_def Let_def split: sum.split)

lemma loss_observe_instances:
  "ld_instances (loss_observe dg d) = (case header_peek (rd_payload dg) of
     Inl e \<Rightarrow> ld_instances d
   | Inr h \<Rightarrow> om.admit (max_instances (ld_limits d)) (instance_key h dg)
       (fold_in (ld_limits d) (h, dg)) (ld_instances d))"
  by (simp add: loss_observe_def Let_def om.admit_def fold_in_def split: sum.split)

lemma fold_loss_instances:
  "ld_instances (fold loss_observe dgs d) =
     fold (\<lambda>p. om.admit (max_instances (ld_limits d)) (case p of (h, dg) \<Rightarrow> instance_key h dg)
       (fold_in (ld_limits d) p)) (readable dgs) (ld_instances d) \<and>
   ld_limits (fold loss_observe dgs d) = ld_limits d \<and>
   ld_scope (fold loss_observe dgs d) = ld_scope d"
  by (induction dgs arbitrary: d) (simp_all add: loss_observe_instances split: sum.split)

lemma fold_in_ok:
  "(\<And>st. w = Some st \<Longrightarrow> instance_ok limits st) \<Longrightarrow> instance_ok limits (fold_in limits p w)"
  by (simp add: fold_in_def instance_observe_ok instance_new_ok split: option.split prod.split)

lemma folds_in_ok:
  "(\<And>st. w = Some st \<Longrightarrow> instance_ok limits st) \<Longrightarrow>
   fold (\<lambda>p w. Some (fold_in limits p w)) ps w = Some st \<Longrightarrow> instance_ok limits st"
proof (induction ps arbitrary: w)
  case (Cons p ps)
  then show ?case
    using fold_in_ok [of w limits p] by (auto intro: Cons.IH [of "Some (fold_in limits p w)"])
qed simp

text \<open>
  C20. An instance is its own datagrams: whatever other publishers send in between and whatever
  is refused to them, the state of an instance the window tracks is the one its own readable
  datagrams, in receive order, build from its first one.
\<close>

theorem instance_isolated:
  assumes "om_lookup (ld_instances (fold loss_observe dgs (with_limits scope limits))) k = Some st"
  shows "fold (\<lambda>p w. Some (fold_in limits p w))
      (filter (\<lambda>(h, dg). instance_key h dg = k) (readable dgs)) None = Some st"
proof -
  let ?d = "with_limits scope limits"
  let ?key = "\<lambda>(h, dg). instance_key h dg"
  have "ld_instances ?d = om_empty" "ld_limits ?d = limits"
    by (simp_all add: with_limits_def)
  then have "om_lookup (fold (\<lambda>p. om.admit (max_instances limits) (?key p) (fold_in limits p))
      (readable dgs) om_empty) k = Some st"
    using assms fold_loss_instances [of dgs ?d] by simp
  then show ?thesis
    using om.admits_isolated_option [OF om.ok_empty, of "max_instances limits" ?key
        "fold_in limits" "readable dgs" k]
    by (simp add: om.lookup_empty case_prod_unfold)
qed

lemma tracked_instance_ok:
  "om_lookup (ld_instances (fold loss_observe dgs (with_limits scope limits))) k = Some st \<Longrightarrow>
   instance_ok limits st"
  using folds_in_ok [OF _ instance_isolated] by blast

text \<open>
  C11. Closing an instance is exact and cannot panic: for any datagrams, the runs of an era are
  exactly the numbers between its lowest and highest delivered one that were not delivered, no
  run reaching into another era; the missing count is how many those are over the eras, and the
  reference count is the delivered and the missing together, both saturating at the top of \<open>u64\<close>.
\<close>

definition era_report_exact ::
    "channel_instance \<Rightarrow> instance_state \<Rightarrow> era \<Rightarrow> bool" where
  "era_report_exact k st e \<longleftrightarrow>
     (\<Union>run\<in>set (era_runs k st e). run_set run) = holes (er_delivered e) \<and>
     (\<Sum>run\<leftarrow>era_runs k st e. unat (missing_count run)) = card (holes (er_delivered e)) \<and>
     list_all (\<lambda>run. sr_era_ordinal run = er_ordinal e \<and> sr_instance run = k) (era_runs k st e)"

lemma era_ok_report: "era_ok limits e \<Longrightarrow> era_report_exact k st e"
  using era_runs_exact [of e k st]
  by (auto simp: era_report_exact_def era_ok_def era_runs_def run_between_def list_all_iff)

lemma instance_arrivals_ok:
  "instance_ok limits st \<Longrightarrow>
   instance_ok limits (fold (\<lambda>(h, dg). instance_observe h dg limits) arrivals st)"
  by (induction arrivals arbitrary: st) (auto simp: instance_observe_ok)


text \<open>
  C21. Every datagram is counted once and every admitted drop charged once: the window's count is
  the datagrams it saw, split without overlap into unreadable ones, ones refused an instance and
  those of the instances (counters modulo \<open>2 ^ 64\<close>); the handle's admitted total is the sum over
  the port roles and over the datagrams; and the window always closes.
\<close>

definition instance_datagrams :: "loss_deriver \<Rightarrow> u64" where
  "instance_datagrams d = (\<Sum>p\<leftarrow>ld_instances d. is_datagrams (snd p))"

definition balanced :: "loss_deriver \<Rightarrow> bool" where
  "balanced d \<longleftrightarrow> om_ok (ld_instances d) \<and> length (ld_role_admitted d) = 3 \<and>
     ld_datagrams d = ld_short_datagrams d + ld_instances_refused d + instance_datagrams d \<and>
     ld_handle_admitted d = sum_list (ld_role_admitted d)"

lemma instance_observe_datagrams: "is_datagrams (instance_observe h dg limits st) = is_datagrams st + 1"
proof (cases "era_of_straggler (hdr_reset_count h) (hdr_sequence_number h) (is_eras st)")
  case None
  then show ?thesis
    by (cases "fst (observe (hdr_sequence_number h) (hdr_reset_count h) (is_sequence st))")
      (simp_all add: instance_observe_def Let_def split_beta deliver_last_def)
qed (simp add: instance_observe_def Let_def)

lemma sum_three_update:
  fixes xs :: "u64 list"
  assumes "length xs = 3" "i < 3"
  shows "sum_list (xs[i := xs ! i + x]) = sum_list xs + x"
proof -
  obtain a b c where "xs = [a, b, c]"
    using assms(1) by (auto simp: numeral_3_eq_3 length_Suc_conv)
  moreover have "i = 0 \<or> i = 1 \<or> i = 2"
    using assms(2) by linarith
  ultimately show ?thesis by (auto simp: numeral_2_eq_2)
qed

lemma role_index_bound: "role_index role < 3"
  by (cases role) simp_all

lemma loss_observe_balanced:
  assumes "balanced d"
  shows "balanced (loss_observe dg d)"
proof -
  have charge: "sum_list ((ld_role_admitted d)[role_index (rd_role dg) :=
      ld_role_admitted d ! role_index (rd_role dg) + ucast (rd_drop_delta dg)]) =
      sum_list (ld_role_admitted d) + ucast (rd_drop_delta dg)"
    using assms by (intro sum_three_update role_index_bound) (simp add: balanced_def)
  have count: "(\<Sum>p\<leftarrow>om_update k (instance_observe h dg limits (case om_lookup (ld_instances d) k of
        None \<Rightarrow> instance_new g r | Some st \<Rightarrow> st)) (ld_instances d). is_datagrams (snd p)) =
      instance_datagrams d + 1" for k h limits g r
    using assms om_sum_update [of "ld_instances d" is_datagrams k]
    by (cases "om_lookup (ld_instances d) k")
      (simp_all add: balanced_def instance_datagrams_def instance_observe_datagrams instance_new_def)
  show ?thesis
    using assms charge
    by (simp add: balanced_def loss_observe_def Let_def instance_datagrams_def count
        om_ok_update split: sum.split)
qed

lemma finish_instances_total:
  "(\<And>k st. (k, st) \<in> set m \<Longrightarrow> instance_finish st k \<noteq> None) \<Longrightarrow> finish_instances m \<noteq> None"
  by (induction m rule: finish_instances.induct) (fastforce simp: bind_eq_Some_conv)+

lemma instance_finish_total:
  assumes "instance_ok limits st"
  shows "instance_finish st k \<noteq> None"
proof -
  have "list_all (era_ok limits) (is_eras st)"
    using assms by (simp add: instance_ok_def)
  from close_eras_exact [OF this, of k st
      "\<lparr>lt_runs = [], lt_missing = 0, lt_reference_seqs = 0, lt_eras = []\<rparr>"] show ?thesis
    by (auto simp: instance_finish_def)
qed

theorem window_balances:
  "(let d = fold loss_observe dgs (with_limits scope limits) in
    ld_datagrams d = word_of_nat (length dgs) \<and>
    ld_datagrams d = ld_short_datagrams d + ld_instances_refused d + instance_datagrams d \<and>
    ld_handle_admitted d = (\<Sum>dg\<leftarrow>dgs. ucast (rd_drop_delta dg)) \<and>
    ld_handle_admitted d = sum_list (ld_role_admitted d) \<and>
    loss_finish d \<noteq> None)"
proof -
  let ?start = "with_limits scope limits"
  have balanced: "balanced (fold loss_observe dgs d)" if "balanced d" for d
    using that by (induction dgs arbitrary: d) (simp_all add: loss_observe_balanced)
  have counts: "ld_datagrams (fold loss_observe dgs d) = ld_datagrams d + word_of_nat (length dgs) \<and>
      ld_handle_admitted (fold loss_observe dgs d) =
      ld_handle_admitted d + (\<Sum>dg\<leftarrow>dgs. ucast (rd_drop_delta dg))" for d
    by (induction dgs arbitrary: d)
      (simp_all add: loss_observe_def Let_def algebra_simps split: sum.split)
  have start: "balanced ?start" "ld_datagrams ?start = 0" "ld_handle_admitted ?start = 0"
    by (simp_all add: balanced_def with_limits_def instance_datagrams_def om_empty_def om_ok_def)
  let ?d = "fold loss_observe dgs ?start"
  have sorted: "om_ok (ld_instances ?d)"
    using balanced [OF start(1)] by (simp add: balanced_def)
  have "instance_finish st k \<noteq> None" if "(k, st) \<in> set (ld_instances ?d)" for k st
  proof (rule instance_finish_total, rule tracked_instance_ok)
    have "distinct (map fst (ld_instances ?d))"
      using sorted by (simp add: om_ok_def strict_sorted_iff)
    then show "om_lookup (ld_instances ?d) k = Some st"
      using that by (simp add: om_lookup_def)
  qed
  then have "loss_finish ?d \<noteq> None"
    using finish_instances_total [of "ld_instances ?d"] by (auto simp: loss_finish_def)
  then show ?thesis
    using balanced [OF start(1)] counts [of ?start] start by (simp add: balanced_def Let_def)
qed

lemma unat_ucast_drop: "unat (ucast (x :: u32) :: u64) = unat x"
  using unat_u32_bound [of x] by (simp add: unsigned_ucast_eq take_bit_nat_eq_self)

text \<open>
  C24. A capture-handle archive accuses only when it lost nothing: if the residue is issued as a
  count at that scope, no datagram of the window, readable or not, admitted a drop (as long as
  the admitted total did not wrap), and the count is the whole missing count.
\<close>

definition window ::
    "capture_drop_scope \<Rightarrow> deriver_limits \<Rightarrow> recorded_datagram list \<Rightarrow> loss_report option" where
  "window scope limits dgs = loss_finish (fold loss_observe dgs (with_limits scope limits))"

lemma loss_finish_fields:
  "loss_finish d = Some r \<Longrightarrow> lr_scope r = ld_scope d \<and> lr_handle_admitted r = ld_handle_admitted d \<and>
     lr_role_admitted r = ld_role_admitted d"
  by (auto simp: loss_finish_def bind_eq_Some_conv)


end
