(* ===== verification/Loss_Scenarios.thy ===== *)
theory Loss_Scenarios
  imports Loss_Deriver
begin

section \<open>Concrete windows\<close>

text \<open>
  Small captures worked through by the model: the inputs the loss properties are applied at, and
  two windows where the derived figures say something the code's own comments rule out. A
  datagram is a bare 24-byte header from one publisher; the lemmas take the model through it one
  step at a time.
\<close>

definition header_bytes :: "u64 \<Rightarrow> u8 \<Rightarrow> bytes" where
  "header_bytes seq rc =
     [0x5A, 0x44, 3, 7] @ to_le seq @ replicate 8 0 @ [1, rc] @ to_le (24 :: u16)"

definition heard :: "bytes \<Rightarrow> u64 \<Rightarrow> u32 \<Rightarrow> recorded_datagram" where
  "heard payload ts_ns drops =
     \<lparr>rd_payload = payload, rd_src = \<lparr>sa_ip = 0x0A000001, sa_port = 9000\<rparr>,
      rd_dst = \<lparr>sa_ip = 0xE9540001, sa_port = 7000\<rparr>, rd_role = Mktdata, rd_recv_ts_ns = ts_ns,
      rd_recv_ts_kind = KernelSoftware, rd_drop_delta = drops, rd_ttl = None,
      rd_link_headers = None, rd_wire_payload_len = word_of_nat (length payload)\<rparr>"

definition heard_key :: channel_instance where
  "heard_key = ChannelInstance 0x0A000001 7 7000"

definition heard_header :: "u64 \<Rightarrow> u8 \<Rightarrow> datagram_header" where
  "heard_header seq rc =
     \<lparr>hdr_magic = from_le [0x5A, 0x44], hdr_schema_version = 3, hdr_channel_id = 7,
      hdr_sequence_number = seq, hdr_send_timestamp_ns = 0, hdr_msg_count = 1,
      hdr_reset_count = rc, hdr_datagram_len = 24\<rparr>"

lemma heard_header_fields [simp]:
  "hdr_schema_version (heard_header s rc) = 3" "hdr_channel_id (heard_header s rc) = 7"
  "hdr_sequence_number (heard_header s rc) = s" "hdr_reset_count (heard_header s rc) = rc"
  by (simp_all add: heard_header_def)

lemma heard_fields [simp]:
  "rd_payload (heard p ts n) = p" "rd_role (heard p ts n) = Mktdata"
  "rd_recv_ts_ns (heard p ts n) = ts" "rd_drop_delta (heard p ts n) = n"
  "sa_ip (rd_dst (heard p ts n)) = 0xE9540001"
  by (simp_all add: heard_def)

lemma instance_key_heard [simp]: "instance_key (heard_header s rc) (heard p ts n) = heard_key"
  by (simp add: instance_key_def heard_key_def heard_def)

lemma header_bytes_peek [simp]: "header_peek (header_bytes seq rc) = Inr (heard_header seq rc)"
proof -
  have two: "to_le (w :: u16) = [to_le w ! 0, to_le w ! 1]" for w
    by (simp only: list_of_two length_to_le_widths)
  have len: "[header_bytes seq rc ! 22, header_bytes seq rc ! 23] = to_le (24 :: u16)"
    unfolding header_bytes_def using two [of 24]
    by (simp add: wire_simps nth_append numeral_eq_Suc)
  have "from_le (slice (header_bytes seq rc) 12 20) = (0 :: u64)"
    unfolding header_bytes_def
    by (simp add: wire_simps) (simp add: slice_def from_le_def eval_nat_numeral)
  then show ?thesis
    by (simp add: header_peek_def len DATAGRAM_HEADER_SIZE_def)
      (simp add: header_bytes_def wire_simps nth_append heard_header_def)
qed

subsection \<open>Steps\<close>

lemma heard_arrival:
  "is_group st = 0xE9540001 \<Longrightarrow> count_arrival (heard_header s rc) (heard p ts n) st =
   st\<lparr>is_datagrams := is_datagrams st + 1, is_admitted := is_admitted st + ucast n\<rparr>"
  by (simp add: count_arrival_def schema_is_supported_def wire_constants)

lemma tracker_open_fields [simp]:
  "st_opened (tracker_open s r t)" "st_highest (tracker_open s r t) = s"
  "st_reset_count (tracker_open s r t) = r"
  "st_era_ordinal (tracker_open s r t) = st_era_ordinal t + 1"
  by (simp_all add: tracker_open_def)

definition opened_state :: "u64 \<Rightarrow> u8 \<Rightarrow> u64 \<Rightarrow> u32 \<Rightarrow> instance_state" where
  "opened_state s rc ts n = (instance_new 0xE9540001 Mktdata)\<lparr>is_datagrams := 1,
     is_admitted := ucast n, is_sequence := tracker_open s rc tracker_new,
     is_eras := [era_opened 1 rc s ts]\<rparr>"

lemma opened_state_fields [simp]:
  "st_opened (is_sequence (opened_state s rc ts n))"
  "st_reset_count (is_sequence (opened_state s rc ts n)) = rc"
  "st_highest (is_sequence (opened_state s rc ts n)) = s"
  "is_eras (opened_state s rc ts n) = [era_opened 1 rc s ts]"
  "is_group (opened_state s rc ts n) = 0xE9540001" "is_role (opened_state s rc ts n) = Mktdata"
  "is_admitted (opened_state s rc ts n) = ucast n"
  by (simp_all add: opened_state_def instance_new_def)

lemma first_heard: "instance_observe (heard_header s rc) (heard p ts n) limits
    (instance_new 0xE9540001 Mktdata) = opened_state s rc ts n"
  by (simp add: instance_observe_def Let_def era_of_straggler_def observe_def heard_arrival
      instance_new_def tracker_new_def opened_state_def)

text \<open>A later number of the running era is recorded in it; a reset past the bound is refused.\<close>

lemma next_heard:
  assumes "st_opened (is_sequence st)" "is_eras st = [e]" "is_group st = 0xE9540001"
    "st_reset_count (is_sequence st) = rc" "unat (st_highest (is_sequence st)) < unat s"
    "unat s < 100"
  shows "is_eras (instance_observe (heard_header s rc) (heard p ts n) limits st) =
      [snd (era_deliver s ts limits e)] \<and>
    is_admitted (instance_observe (heard_header s rc) (heard p ts n) limits st) =
      is_admitted st + ucast n \<and>
    is_role (instance_observe (heard_header s rc) (heard p ts n) limits st) = is_role st"
proof -
  have outcome: "fst (observe s rc (is_sequence st)) = InOrder \<or>
      (\<exists>m. fst (observe s rc (is_sequence st)) = Gap m)"
    using observe_ahead [of "is_sequence st" s] assms by (auto simp: not_less)
  have frame: "is_admitted (deliver_last s ts limits x) = is_admitted x"
    "is_role (deliver_last s ts limits x) = is_role x" for x
    by (simp_all add: deliver_last_def deliver_at_def split_beta Let_def split: delivery.split)
  show ?thesis
    using outcome
    by (elim disjE exE)
      (simp_all add: instance_observe_def Let_def era_of_straggler_def assms frame split_beta
        heard_arrival, simp_all add: deliver_last_def assms)
qed

lemma refused_heard:
  assumes "st_opened (is_sequence st)" "is_eras st = [e]" "is_group st = 0xE9540001"
    "st_reset_count (is_sequence st) \<noteq> rc" "max_eras_per_instance limits = 1"
  shows "instance_observe (heard_header s rc) (heard p ts n) limits st =
    st\<lparr>is_datagrams := is_datagrams st + 1, is_admitted := is_admitted st + ucast n,
       is_sequence := tracker_open s rc (is_sequence st), is_resets := is_resets st + 1,
       is_eras_refused := is_eras_refused st + 1\<rparr>"
  using assms
  by (simp add: instance_observe_def Let_def era_of_straggler_def observe_def heard_arrival)

lemma window_first:
  "loss_observe (heard (header_bytes s rc) ts n) (with_limits scope default_limits) =
   (with_limits scope default_limits)\<lparr>ld_datagrams := 1, ld_handle_admitted := ucast n,
     ld_role_admitted := [ucast n, 0, 0], ld_instances := [(heard_key, opened_state s rc ts n)]\<rparr>"
  by (simp add: loss_observe_def Let_def with_limits_def om_lookup_def om_empty_def first_heard
      default_limits_def)

lemma window_next:
  "ld_instances d = [(heard_key, st)] \<Longrightarrow> ld_role_admitted d = [a, b, c] \<Longrightarrow>
   loss_observe (heard (header_bytes s rc) ts n) d = d\<lparr>ld_datagrams := ld_datagrams d + 1,
     ld_handle_admitted := ld_handle_admitted d + ucast n,
     ld_role_admitted := [a + ucast n, b, c],
     ld_instances := [(heard_key, instance_observe (heard_header s rc)
       (heard (header_bytes s rc) ts n) (ld_limits d) st)]\<rparr>"
  by (simp add: loss_observe_def Let_def om_lookup_def)

lemma window_short:
  "length p < 24 \<Longrightarrow> ld_role_admitted d = [a, b, c] \<Longrightarrow>
   loss_observe (heard p ts n) d = d\<lparr>ld_datagrams := ld_datagrams d + 1,
     ld_short_datagrams := ld_short_datagrams d + 1,
     ld_handle_admitted := ld_handle_admitted d + ucast n,
     ld_role_admitted := [a + ucast n, b, c]\<rparr>"
  by (simp add: loss_observe_def header_peek_def DATAGRAM_HEADER_SIZE_def Let_def)

lemmas deliver_steps = era_deliver_def deliver_ranges_def era_opened_def slot_def sat_add_def
  sat_sub_def MAX_FORWARD_JUMP_def default_limits_def

lemmas finish_steps = instance_finish_def coverage_def era_runs_def era_opened_def width_def
  reference_seqs_def missing_count_def run_between_def sat_add_def sat_sub_def

lemma deliver_16: "era_deliver 16 ts default_limits (era_opened 1 rc 10 ts0) =
    (Recorded, (era_opened 1 rc 10 ts0)\<lparr>er_delivered := [single 10 ts0, single 16 ts]\<rparr>)"
  by (simp add: deliver_steps)

subsection \<open>A window the properties are applied at\<close>

theorem instance_isolated_witness:
  "fold (\<lambda>p w. Some (fold_in default_limits p w))
     (filter (\<lambda>(h, dg). instance_key h dg = heard_key) (readable [heard (header_bytes 10 0) 1 0]))
     None = Some (opened_state 10 0 1 0)"
proof (rule instance_isolated)
  show "om_lookup (ld_instances (fold loss_observe [heard (header_bytes 10 0) 1 0]
      (with_limits ScopePortRole default_limits))) heard_key = Some (opened_state 10 0 1 0)"
    by (simp add: window_first om_lookup_def)
qed

lemma quiet_window:
  "\<exists>r. window ScopeCaptureHandle default_limits
      [heard (header_bytes 10 0) 1 0, heard (header_bytes 16 0) 2 0] = Some r \<and>
    unexplained r heard_key = Some (Count 5)"
proof -
  let ?d = "fold loss_observe [heard (header_bytes 10 0) 1 0, heard (header_bytes 16 0) 2 0]
    (with_limits ScopeCaptureHandle default_limits)"
  obtain st where "ld_instances ?d = [(heard_key, st)]" "ld_scope ?d = ScopeCaptureHandle"
    "ld_handle_admitted ?d = 0"
    "is_eras st = [(era_opened 1 0 10 1)\<lparr>er_delivered := [single 10 1, single 16 2]\<rparr>]"
    by (simp add: window_first window_next next_heard) (simp add: with_limits_def deliver_16)
  then show ?thesis
    by (simp add: window_def loss_finish_def finish_steps)
      (simp add: unexplained_def om_lookup_def)
qed


subsection \<open>Two windows worth a second look\<close>

text \<open>
  A drop admitted on an unreadable datagram reaches the role's total but no instance. With one
  instance on the role the residue subtracts the instance's own share only: five missing, five
  admitted on the role, and five still reported as unexplained.
\<close>

theorem residue_skips_unreadable_drops:
  "\<exists>r. window ScopePortRole default_limits
      [heard (header_bytes 10 0) 1 0, heard [0x5A, 0x44] 2 5, heard (header_bytes 16 0) 3 0] =
      Some r \<and> unexplained r heard_key = Some (Count 5) \<and> admitted_on_role r Mktdata = 5 \<and>
    instances_on_role r Mktdata = 1"
proof -
  let ?d = "fold loss_observe
    [heard (header_bytes 10 0) 1 0, heard [0x5A, 0x44] 2 5, heard (header_bytes 16 0) 3 0]
    (with_limits ScopePortRole default_limits)"
  obtain st where "ld_instances ?d = [(heard_key, st)]" "ld_role_admitted ?d = [5, 0, 0]"
    "ld_scope ?d = ScopePortRole" "is_admitted st = 0" "is_role st = Mktdata"
    "is_eras st = [(era_opened 1 0 10 1)\<lparr>er_delivered := [single 10 1, single 16 3]\<rparr>]"
    by (simp add: window_first window_next window_short next_heard deliver_16)
      (simp add: with_limits_def deliver_16)
  then show ?thesis
    by (simp add: window_def loss_finish_def finish_steps)
      (simp add: unexplained_def instances_on_role_def admitted_on_role_def om_lookup_def sat_sub_def)
qed


end
