(* ===== verification/Egress_Sink.thy ===== *)
theory Egress_Sink
  imports Recorded_Datagram
begin

section \<open>Sinks: the errors, the transmitter and the fan-out\<close>

text \<open>
  \<open>error.rs\<close>, \<open>instance.rs\<close>, \<open>sink.rs\<close> and \<open>transmitter.rs\<close> of \<open>dz-publisher-egress\<close>. The trait
  \<open>DatagramSink\<close> is a dictionary over the sink's own state; a sink's \<open>send\<close> returns its result and
  the state it leaves. The kernel socket and the clock are parameters: the socket is an operation
  over a state, and the transmitter's \<open>Instant::now()\<close> the time its \<open>send\<close> is given, in
  nanoseconds. A fan-out's metric calls are the list of reasons it counted.
\<close>

subsection \<open>Errors and labels\<close>

datatype io_error =
    IoWouldBlock | NetworkUnreachable | NetworkDown | HostUnreachable | AddrNotAvailable
  | IoOther string

datatype sink_error =
    WouldBlock
  | RouteDown io_error
  | Socket io_error
  | ConsumerAbsent io_error
  | TooLarge nat
  | SinkNotRegistered

datatype egress_error_reason =
    SendWouldBlock | SocketError | MtuExceeded | ReasonWrongPortRole | ReasonNotCarriedByFeed
  | ReasonMalformedMessage | ReasonNotRegistered

fun sink_reason :: "sink_error \<Rightarrow> egress_error_reason" where
  "sink_reason WouldBlock = SendWouldBlock"
| "sink_reason (Socket e) = SocketError"
| "sink_reason (RouteDown e) = SocketError"
| "sink_reason (ConsumerAbsent e) = SocketError"
| "sink_reason (TooLarge len) = MtuExceeded"
| "sink_reason SinkNotRegistered = ReasonNotRegistered"

fun is_transient :: "sink_error \<Rightarrow> bool" where
  "is_transient WouldBlock = True"
| "is_transient (RouteDown e) = True"
| "is_transient (ConsumerAbsent e) = True"
| "is_transient _ = False"

fun is_route_down :: "sink_error \<Rightarrow> bool" where
  "is_route_down (RouteDown e) = True"
| "is_route_down _ = False"

datatype egress_error =
    Refused encode_error
  | NotRegistered channel_instance
  | SinkFailed sink_error

fun egress_reason :: "egress_error \<Rightarrow> egress_error_reason" where
  "egress_reason (Refused (DatagramFull attempted capacity)) = MtuExceeded"
| "egress_reason (Refused (MessageCountExhausted n)) = MtuExceeded"
| "egress_reason (Refused (WrongPortRole message role)) = ReasonWrongPortRole"
| "egress_reason (Refused (NotCarriedByFeed f type_id)) = ReasonNotCarriedByFeed"
| "egress_reason (Refused (MalformedMessage message what)) = ReasonMalformedMessage"
| "egress_reason (NotRegistered k) = ReasonNotRegistered"
| "egress_reason (SinkFailed e) = sink_reason e"

subsection \<open>Endpoints and sinks\<close>

text \<open>The crate's own \<open>ChannelInstance\<close> has the fields and the order of the recorder's.\<close>

type_synonym egress_instance = channel_instance

record egress_endpoint =
  ep_port_role :: port_role
  ep_source :: ipv4_addr
  ep_dst_port :: u16

definition endpoint_instance :: "egress_endpoint \<Rightarrow> u8 \<Rightarrow> egress_instance" where
  "endpoint_instance ep channel_id = ChannelInstance (ep_source ep) channel_id (ep_dst_port ep)"

lemma endpoint_instance_inj [simp]:
  "endpoint_instance ep a = endpoint_instance ep b \<longleftrightarrow> a = b"
  by (simp add: endpoint_instance_def)

datatype failure_scope = ScopeProcess | ScopeChannel

record 's sink =
  sk_name :: "'s \<Rightarrow> string"
  sk_send :: "bytes \<Rightarrow> 's \<Rightarrow> (sink_error + unit) \<times> 's"
  sk_reached_wire :: "'s \<Rightarrow> bool"
  sk_delivered :: "'s \<Rightarrow> bool"
  sk_failure_scope :: "'s \<Rightarrow> failure_scope"

subsection \<open>One transmitter\<close>

definition MAX_ROUTE_DOWN :: nat where "MAX_ROUTE_DOWN = 60 * 10 ^ 9"

fun classify_io :: "io_error \<Rightarrow> sink_error" where
  "classify_io IoWouldBlock = WouldBlock"
| "classify_io NetworkUnreachable = RouteDown NetworkUnreachable"
| "classify_io NetworkDown = RouteDown NetworkDown"
| "classify_io HostUnreachable = RouteDown HostUnreachable"
| "classify_io AddrNotAvailable = RouteDown AddrNotAvailable"
| "classify_io (IoOther e) = Socket (IoOther e)"

record 's transmitter =
  tx_name :: string
  tx_socket :: 's
  tx_endpoint :: egress_endpoint
  tx_scope :: failure_scope
  tx_max_route_down :: nat
  tx_route_down :: "(nat \<times> nat) option"

definition transmitter_new ::
    "string \<Rightarrow> 's \<Rightarrow> egress_endpoint \<Rightarrow> failure_scope \<Rightarrow> 's transmitter" where
  "transmitter_new name socket endpoint failure =
     \<lparr>tx_name = name, tx_socket = socket, tx_endpoint = endpoint, tx_scope = failure,
      tx_max_route_down = MAX_ROUTE_DOWN, tx_route_down = None\<rparr>"

definition transmitter_send ::
    "(bytes \<Rightarrow> 's \<Rightarrow> (sink_error + unit) \<times> 's) \<Rightarrow> nat \<Rightarrow> bytes \<Rightarrow> 's transmitter \<Rightarrow>
     (sink_error + unit) \<times> 's transmitter" where
  "transmitter_send socket_send now datagram t =
    (if length datagram > MAX_DATAGRAM_SIZE then (Inl (TooLarge (length datagram)), t)
     else
       let (r, s) = socket_send datagram (tx_socket t);
           t = t\<lparr>tx_socket := s\<rparr> in
       case r of
         Inr _ \<Rightarrow> (Inr (), t\<lparr>tx_route_down := None\<rparr>)
       | Inl (RouteDown e) \<Rightarrow>
           let since = (case tx_route_down t of
                 Some (since, previous) \<Rightarrow>
                   if now - previous < tx_max_route_down t then since else now
               | None \<Rightarrow> now);
               t = t\<lparr>tx_route_down := Some (since, now)\<rparr> in
           if now - since \<ge> tx_max_route_down t then (Inl (Socket e), t) else (Inl (RouteDown e), t)
       | Inl e \<Rightarrow> (Inl e, t))"

subsection \<open>The fan-out\<close>

record 's member =
  mb_sink :: "'s sink"
  mb_state :: 's
  mb_live :: bool
  mb_failures :: u64
  mb_route_down :: bool
  mb_gave_up :: bool

record 's tee =
  te_port_role :: port_role
  te_metrics :: "egress_error_reason list"
  te_members :: "'s member list"
  te_process_failure :: "string option"
  te_delivered :: bool

definition tee_new :: "port_role \<Rightarrow> 's tee" where
  "tee_new role = \<lparr>te_port_role = role, te_metrics = [], te_members = [],
     te_process_failure = None, te_delivered = False\<rparr>"

definition tee_add :: "'s sink \<Rightarrow> 's \<Rightarrow> 's tee \<Rightarrow> 's tee" where
  "tee_add K s t = t\<lparr>te_members := te_members t @ [\<lparr>mb_sink = K, mb_state = s, mb_live = True,
     mb_failures = 0, mb_route_down = False, mb_gave_up = False\<rparr>]\<rparr>"

definition tee_live :: "'s tee \<Rightarrow> nat" where
  "tee_live t = length (filter mb_live (te_members t))"

definition member_essential :: "'s member \<Rightarrow> bool" where
  "member_essential m \<longleftrightarrow> sk_failure_scope (mb_sink m) (mb_state m) = ScopeProcess"

definition essential_route_down :: "'s tee \<Rightarrow> bool" where
  "essential_route_down t \<longleftrightarrow>
     list_ex (\<lambda>m. mb_live m \<and> mb_route_down m \<and> member_essential m) (te_members t)"

datatype route_state = RouteUp | RouteStateDown | GaveUp

definition member_route :: "'s member \<Rightarrow> route_state" where
  "member_route m =
     (if mb_gave_up m then GaveUp else if mb_live m \<and> mb_route_down m then RouteStateDown else RouteUp)"

text \<open>
  One turn of the loop in \<open>send\<close>: what it carries besides the members is the essential count, the
  essential accepted count, whether any member accepted, the reasons counted and the first
  essential member lost.
\<close>

record offer =
  of_essential :: nat
  of_essential_accepted :: nat
  of_any_accepted :: bool
  of_metrics :: "egress_error_reason list"
  of_process_failure :: "string option"

definition tee_offer :: "bytes \<Rightarrow> 's member \<Rightarrow> offer \<Rightarrow> 's member \<times> offer" where
  "tee_offer datagram m acc =
    (let is_essential = member_essential m;
         acc = acc\<lparr>of_essential := of_essential acc + (if is_essential then 1 else 0)\<rparr> in
     if \<not> mb_live m then (m, acc)
     else
       let (r, s) = sk_send (mb_sink m) datagram (mb_state m);
           m = m\<lparr>mb_state := s\<rparr> in
       case r of
         Inr _ \<Rightarrow>
           let m = m\<lparr>mb_route_down := False\<rparr> in
           if sk_delivered (mb_sink m) (mb_state m)
           then (m, acc\<lparr>of_any_accepted := True,
                        of_essential_accepted :=
                          of_essential_accepted acc + (if is_essential then 1 else 0)\<rparr>)
           else (m, acc)
       | Inl e \<Rightarrow>
           let m = (if is_route_down e then m\<lparr>mb_route_down := True\<rparr> else m);
               m = m\<lparr>mb_failures := mb_failures m + 1\<rparr>;
               acc = acc\<lparr>of_metrics := of_metrics acc @ [sink_reason e]\<rparr> in
           if is_transient e then (m, acc)
           else
             let m = m\<lparr>mb_live := False, mb_gave_up := mb_route_down m, mb_route_down := False\<rparr>;
                 acc = (if member_essential m \<and> of_process_failure acc = None
                        then acc\<lparr>of_process_failure := Some (sk_name (mb_sink m) (mb_state m))\<rparr>
                        else acc) in
             (m, acc))"

fun tee_offers :: "bytes \<Rightarrow> 's member list \<Rightarrow> offer \<Rightarrow> 's member list \<times> offer" where
  "tee_offers datagram [] acc = ([], acc)"
| "tee_offers datagram (m # ms) acc =
     (let (m', acc) = tee_offer datagram m acc; (ms', acc) = tee_offers datagram ms acc
      in (m' # ms', acc))"

definition tee_send :: "bytes \<Rightarrow> 's tee \<Rightarrow> (sink_error + unit) \<times> 's tee" where
  "tee_send datagram t =
    (if tee_live t = 0 then (Inl SinkNotRegistered, t)
     else
       let (ms, acc) = tee_offers datagram (te_members t)
             \<lparr>of_essential = 0, of_essential_accepted = 0, of_any_accepted = False,
              of_metrics = te_metrics t, of_process_failure = te_process_failure t\<rparr> in
       (Inr (), t\<lparr>te_members := ms, te_metrics := of_metrics acc,
          te_process_failure := of_process_failure acc,
          te_delivered := (if of_essential acc > 0
             then of_essential_accepted acc = of_essential acc else of_any_accepted acc)\<rparr>))"

definition tee_reached_wire :: "'s tee \<Rightarrow> bool" where
  "tee_reached_wire t \<longleftrightarrow> \<not> essential_route_down t \<and>
     list_all (\<lambda>m. mb_live m \<or> \<not> member_essential m) (te_members t)"

definition tee_failure_scope :: "'s tee \<Rightarrow> failure_scope" where
  "tee_failure_scope t =
     (if list_ex member_essential (te_members t) then ScopeProcess else ScopeChannel)"

text \<open>A fan-out is itself a sink.\<close>

definition tee_sink :: "'s tee sink" where
  "tee_sink = \<lparr>sk_name = (\<lambda>t. port_role_as_str (te_port_role t)), sk_send = tee_send,
     sk_reached_wire = tee_reached_wire, sk_delivered = te_delivered,
     sk_failure_scope = tee_failure_scope\<rparr>"

subsection \<open>What an outage of the route reports\<close>

fun transmitter_sends ::
    "(bytes \<Rightarrow> 's \<Rightarrow> (sink_error + unit) \<times> 's) \<Rightarrow> bytes \<Rightarrow> nat list \<Rightarrow> 's transmitter \<Rightarrow>
     (sink_error + unit) list" where
  "transmitter_sends socket_send datagram [] t = []"
| "transmitter_sends socket_send datagram (now # later) t =
     (let (r, t') = transmitter_send socket_send now datagram t
      in r # transmitter_sends socket_send datagram later t')"

fun close_together :: "nat \<Rightarrow> nat list \<Rightarrow> bool" where
  "close_together bound (a # b # ts) \<longleftrightarrow> a \<le> b \<and> b - a < bound \<and> close_together bound (b # ts)"
| "close_together bound ts \<longleftrightarrow> True"

definition outage_result :: "nat \<Rightarrow> io_error \<Rightarrow> nat \<Rightarrow> nat \<Rightarrow> sink_error + unit" where
  "outage_result bound e begun now = Inl (if now - begun \<ge> bound then Socket e else RouteDown e)"

lemma transmitter_send_down:
  assumes "fst (socket_send d (tx_socket t)) = Inl (RouteDown e)" "length d \<le> MAX_DATAGRAM_SIZE"
    and "since = (case tx_route_down t of
      Some (since, previous) \<Rightarrow> if now - previous < tx_max_route_down t then since else now
    | None \<Rightarrow> now)"
  shows "transmitter_send socket_send now d t =
    (outage_result (tx_max_route_down t) e since now,
     t\<lparr>tx_socket := snd (socket_send d (tx_socket t)), tx_route_down := Some (since, now)\<rparr>)"
  using assms
  by (cases "tx_route_down t")
    (simp_all add: transmitter_send_def outage_result_def Let_def split_beta)

lemma outage_continues:
  assumes "\<And>s. fst (socket_send d s) = Inl (RouteDown e)" "length d \<le> MAX_DATAGRAM_SIZE"
    and "tx_route_down t = Some (begun, previous)"
    and "close_together (tx_max_route_down t) (previous # later)"
  shows "transmitter_sends socket_send d later t =
    map (outage_result (tx_max_route_down t) e begun) later"
  using assms(3,4)
proof (induction later arbitrary: t previous)
  case Nil
  then show ?case by simp
next
  case (Cons now later)
  have send: "transmitter_send socket_send now d t = (outage_result (tx_max_route_down t) e begun now,
      t\<lparr>tx_socket := snd (socket_send d (tx_socket t)), tx_route_down := Some (begun, now)\<rparr>)"
    using Cons.prems assms(1,2) by (intro transmitter_send_down) simp_all
  show ?case
    using Cons.prems by (simp add: send Cons.IH)
qed



subsection \<open>What a fan-out does to its members\<close>

text \<open>One member, by itself: whether it accepted, and what the offer makes of it.\<close>

definition member_took :: "bytes \<Rightarrow> 's member \<Rightarrow> bool" where
  "member_took d m \<longleftrightarrow> mb_live m \<and> fst (sk_send (mb_sink m) d (mb_state m)) = Inr () \<and>
     sk_delivered (mb_sink m) (snd (sk_send (mb_sink m) d (mb_state m)))"

definition counted :: "bytes \<Rightarrow> 's member \<Rightarrow> egress_error_reason list" where
  "counted d m = (if \<not> mb_live m then [] else case fst (sk_send (mb_sink m) d (mb_state m)) of
     Inl e \<Rightarrow> [sink_reason e] | Inr _ \<Rightarrow> [])"

definition offered :: "bytes \<Rightarrow> 's member \<Rightarrow> 's member" where
  "offered d m = (if \<not> mb_live m then m
     else let m' = m\<lparr>mb_state := snd (sk_send (mb_sink m) d (mb_state m))\<rparr> in
     case fst (sk_send (mb_sink m) d (mb_state m)) of
       Inr _ \<Rightarrow> m'\<lparr>mb_route_down := False\<rparr>
     | Inl e \<Rightarrow>
         let down = mb_route_down m \<or> is_route_down e in
         if is_transient e
         then m'\<lparr>mb_failures := mb_failures m + 1, mb_route_down := down\<rparr>
         else m'\<lparr>mb_failures := mb_failures m + 1, mb_live := False, mb_gave_up := down,
                mb_route_down := False\<rparr>)"

lemma tee_offer_closed:
  "fst (tee_offer d m acc) = offered d m"
  "of_essential (snd (tee_offer d m acc)) = of_essential acc + (if member_essential m then 1 else 0)"
  "of_essential_accepted (snd (tee_offer d m acc)) =
     of_essential_accepted acc + (if member_essential m \<and> member_took d m then 1 else 0)"
  "of_any_accepted (snd (tee_offer d m acc)) \<longleftrightarrow> of_any_accepted acc \<or> member_took d m"
  "of_metrics (snd (tee_offer d m acc)) = of_metrics acc @ counted d m"
  by (cases "fst (sk_send (mb_sink m) d (mb_state m))";
      auto simp: tee_offer_def offered_def member_took_def counted_def Let_def split_beta)+

lemma tee_offers_closed:
  "fst (tee_offers d ms acc) = map (offered d) ms \<and>
   of_essential (snd (tee_offers d ms acc)) = of_essential acc + length (filter member_essential ms) \<and>
   of_essential_accepted (snd (tee_offers d ms acc)) =
     of_essential_accepted acc + length (filter (\<lambda>m. member_essential m \<and> member_took d m) ms) \<and>
   (of_any_accepted (snd (tee_offers d ms acc)) \<longleftrightarrow> of_any_accepted acc \<or> list_ex (member_took d) ms) \<and>
   of_metrics (snd (tee_offers d ms acc)) = of_metrics acc @ concat (map (counted d) ms)"
  by (induction ms arbitrary: acc) (simp_all add: split_beta Let_def tee_offer_closed)

lemma filter_both: "length (filter (\<lambda>x. P x \<and> Q x) xs) = length (filter P xs) \<longleftrightarrow>
    list_all (\<lambda>x. P x \<longrightarrow> Q x) xs"
proof (induction xs)
  case (Cons x xs)
  have "length (filter (\<lambda>x. P x \<and> Q x) xs) \<le> length (filter P xs)"
    by (induction xs) auto
  then show ?case
    using Cons by auto
qed simp

text \<open>
  C33. A member's failure never ends a send: a fan-out refuses a datagram only when no member is
  live, and otherwise each member is offered it on its own, what becomes of one depending on
  nothing but that member. The datagram counts as delivered exactly when every essential member,
  dropped ones included, accepted it, or, with no essential member, when some member did; and
  each live member that failed is counted once under its own reason.
\<close>

theorem fan_out_isolates_members:
  "(let (r, t') = tee_send d t in
    if tee_live t = 0 then r = Inl SinkNotRegistered \<and> t' = t
    else r = Inr () \<and> te_members t' = map (offered d) (te_members t) \<and>
      te_metrics t' = te_metrics t @ concat (map (counted d) (te_members t)) \<and>
      (te_delivered t' \<longleftrightarrow>
         (if list_ex member_essential (te_members t)
          then list_all (member_took d) (filter member_essential (te_members t))
          else list_ex (member_took d) (te_members t))))"
proof -
  define acc where "acc = \<lparr>of_essential = 0, of_essential_accepted = 0, of_any_accepted = False,
      of_metrics = te_metrics t, of_process_failure = te_process_failure t\<rparr>"
  have "0 < length (filter member_essential (te_members t)) \<longleftrightarrow>
      list_ex member_essential (te_members t)"
    by (auto simp: list_ex_iff filter_empty_conv)
  moreover have "list_all (\<lambda>m. member_essential m \<longrightarrow> member_took d m) (te_members t) \<longleftrightarrow>
      list_all (member_took d) (filter member_essential (te_members t))"
    by (auto simp: list_all_iff)
  ultimately show ?thesis
    using tee_offers_closed [of d "te_members t" acc]
      filter_both [of member_essential "member_took d" "te_members t"]
    by (simp add: tee_send_def split_beta Let_def flip: acc_def) (simp add: acc_def)
qed

end
