(* ===== verification/Egress.thy ===== *)
theory Egress
  imports Any_Message Egress_Sink
begin

section \<open>Composing datagrams for one port role\<close>

text \<open>
  \<open>sequencer.rs\<close> and \<open>egress.rs\<close> of \<open>dz-publisher-egress\<close>: the sequence series of every channel
  instance, and \<open>ChannelEgress\<close>, which packs messages into one open datagram per Channel ID,
  flushes it when it is full and hands it, numbered, to a sink. A \<open>HashMap\<close> is an ordered map
  here: only \<open>flush_all\<close> iterates one, and it takes the keys in whatever order they come as an
  argument. The metric calls are the list of what was recorded, in order; a heartbeat's time
  stays in nanoseconds. \<open>None\<close> is a panic of the builder.
\<close>

subsection \<open>The sequencer\<close>

record sequencer =
  sq_era :: reset_count_t
  sq_instances :: "(egress_instance, channel_sequence) omap"

definition sequencer_new :: "reset_count_t \<Rightarrow> sequencer" where
  "sequencer_new era = \<lparr>sq_era = era, sq_instances = om_empty\<rparr>"

definition is_registered :: "egress_instance \<Rightarrow> sequencer \<Rightarrow> bool" where
  "is_registered k s \<longleftrightarrow> om_lookup (sq_instances s) k \<noteq> None"

definition sequencer_register :: "egress_instance \<Rightarrow> sequencer \<Rightarrow> bool \<times> sequencer" where
  "sequencer_register k s =
    (if is_registered k s then (False, s)
     else (True, s\<lparr>sq_instances :=
       om_update k (channel_sequence_new (ci_channel_id k) (sq_era s)) (sq_instances s)\<rparr>))"

definition current :: "egress_instance \<Rightarrow> sequencer \<Rightarrow> channel_sequence option" where
  "current k s = om_lookup (sq_instances s) k"

definition advance :: "egress_instance \<Rightarrow> sequencer \<Rightarrow> sequencer" where
  "advance k s = (case om_lookup (sq_instances s) k of
     None \<Rightarrow> s
   | Some q \<Rightarrow> s\<lparr>sq_instances := om_update k (channel_advance q) (sq_instances s)\<rparr>)"

subsection \<open>Open datagrams\<close>

datatype egress_message_type =
    TypeHeartbeat | TypeEndOfSession | TypeQuote | TypeTrade | TypeInstrumentDefinition
  | TypeManifestSummary | TypeStrikeInterval | TypeLevelUpdate | TypeBookClear
  | TypeSnapshotBegin | TypeSnapshotLevel | TypeSnapshotEnd | TypeInstrumentReset

datatype egress_metric =
    MetricError egress_error_reason
  | MetricDatagram
  | MetricMessagesInDatagram u64
  | MetricBytes u64
  | MetricMessage egress_message_type
  | MetricHeartbeatSent string u8 u64
  | MetricSequence string u8 u64

record open_datagram =
  op_builder :: builder
  op_tally :: "(egress_message_type \<times> u64) list"

fun tally_count ::
    "egress_message_type \<Rightarrow> (egress_message_type \<times> u64) list \<Rightarrow> (egress_message_type \<times> u64) list"
where
  "tally_count ty [] = [(ty, 1)]"
| "tally_count ty ((seen, n) # rest) =
     (if seen = ty then (seen, n + 1) # rest else (seen, n) # tally_count ty rest)"

text \<open>\<open>Open::push\<close> and \<open>Open::push_pair\<close>: the builder's operation, and what it packed counted.\<close>

definition open_pack ::
    "(builder \<Rightarrow> push_result option) \<Rightarrow> egress_message_type list \<Rightarrow> open_datagram \<Rightarrow>
     ((encode_error + unit) \<times> open_datagram) option" where
  "open_pack pack labels op = do {
     (r, b) \<leftarrow> pack (op_builder op);
     let op = op\<lparr>op_builder := b\<rparr>;
     case r of
       Inl e \<Rightarrow> Some (Inl e, op)
     | Inr _ \<Rightarrow> Some (Inr (), op\<lparr>op_tally := fold tally_count labels (op_tally op)\<rparr>)
   }"

record 's egress =
  eg_endpoint :: egress_endpoint
  eg_sink :: 's
  eg_metrics :: "egress_metric list"
  eg_sequencer :: sequencer
  eg_mtu :: u16
  eg_open :: "(u8, open_datagram) omap"

definition egress_new :: "egress_endpoint \<Rightarrow> 's \<Rightarrow> reset_count_t \<Rightarrow> u16 \<Rightarrow> 's egress" where
  "egress_new endpoint s era mtu =
     \<lparr>eg_endpoint = endpoint, eg_sink = s, eg_metrics = [], eg_sequencer = sequencer_new era,
      eg_mtu = mtu, eg_open = om_empty\<rparr>"

definition egress_register :: "u8 \<Rightarrow> 's egress \<Rightarrow> bool \<times> 's egress" where
  "egress_register channel_id e =
     (let (created, s) = sequencer_register (endpoint_instance (eg_endpoint e) channel_id)
            (eg_sequencer e)
      in (created, e\<lparr>eg_sequencer := s\<rparr>))"

definition egress_record :: "egress_error \<Rightarrow> 's egress \<Rightarrow> 's egress" where
  "egress_record err e = e\<lparr>eg_metrics := eg_metrics e @ [MetricError (egress_reason err)]\<rparr>"

definition record_result :: "egress_error + unit \<Rightarrow> 's egress \<Rightarrow> 's egress" where
  "record_result r e = (case r of Inl err \<Rightarrow> egress_record err e | Inr _ \<Rightarrow> e)"

definition open_for ::
    "egress_instance \<Rightarrow> 's egress \<Rightarrow> (egress_error + open_datagram) \<times> 's egress" where
  "open_for k e = (case current k (eg_sequencer e) of
     None \<Rightarrow> (Inl (NotRegistered k), e)
   | Some sequence \<Rightarrow> (case om_lookup (eg_open e) (ci_channel_id k) of
       Some op \<Rightarrow> (Inr op, e)
     | None \<Rightarrow>
         let op = \<lparr>op_builder = builder_new sequence (ep_port_role (eg_endpoint e)) (eg_mtu e),
                   op_tally = []\<rparr> in
         (Inr op, e\<lparr>eg_open := om_update (ci_channel_id k) op (eg_open e)\<rparr>)))"

text \<open>\<open>self.open_for(instance)?.push(..)\<close>, the entry written back.\<close>

definition try_pack ::
    "(builder \<Rightarrow> push_result option) \<Rightarrow> egress_message_type list \<Rightarrow> u8 \<Rightarrow> 's egress \<Rightarrow>
     ((egress_error + unit) \<times> 's egress) option" where
  "try_pack pack labels channel_id e =
    (case open_for (endpoint_instance (eg_endpoint e) channel_id) e of
       (Inl err, e) \<Rightarrow> Some (Inl err, e)
     | (Inr op, e) \<Rightarrow> do {
         (r, op) \<leftarrow> open_pack pack labels op;
         let e = e\<lparr>eg_open := om_update channel_id op (eg_open e)\<rparr>;
         case r of
           Inl refused \<Rightarrow> Some (Inl (Refused refused), e)
         | Inr _ \<Rightarrow> Some (Inr (), e)
       })"

subsection \<open>Flushing\<close>

definition sent_metrics ::
    "feed \<Rightarrow> 's sink \<Rightarrow> 's \<Rightarrow> u8 \<Rightarrow> u64 \<Rightarrow> bytes \<Rightarrow> (egress_message_type \<times> u64) list \<Rightarrow> u64 option \<Rightarrow>
     egress_metric list" where
  "sent_metrics F K s channel_id ts datagram tally number =
     [MetricDatagram] @
     (if sk_reached_wire K s \<and> sk_delivered K s
      then [MetricMessagesInDatagram (sum_list (map snd tally))] else []) @
     [MetricBytes (word_of_nat (length datagram))] @
     concat (map (\<lambda>(ty, n). replicate (unat n) (MetricMessage ty) @
       (if ty = TypeHeartbeat \<and> sk_reached_wire K s
        then [MetricHeartbeatSent (FEED_NAME F) channel_id ts] else [])) tally) @
     (case number of None \<Rightarrow> [] | Some n \<Rightarrow> [MetricSequence (FEED_NAME F) channel_id n])"

definition flush_inner ::
    "feed \<Rightarrow> 's sink \<Rightarrow> u8 \<Rightarrow> u64 \<Rightarrow> 's egress \<Rightarrow> ((egress_error + unit) \<times> 's egress) option" where
  "flush_inner F K channel_id ts e = (case om_lookup (eg_open e) channel_id of
     None \<Rightarrow> Some (Inr (), e)
   | Some op \<Rightarrow> do {
       let e = e\<lparr>eg_open := om_remove channel_id (eg_open e)\<rparr>;
       let k = endpoint_instance (eg_endpoint e) channel_id;
       let number = map_option cs_sequence_number (current k (eg_sequencer e));
       finished \<leftarrow> finish F ts (op_builder op);
       case finished of
         None \<Rightarrow> Some (Inr (), e)
       | Some datagram \<Rightarrow>
           let e = e\<lparr>eg_sequencer := advance k (eg_sequencer e)\<rparr>;
               (r, s) = sk_send K datagram (eg_sink e);
               e = e\<lparr>eg_sink := s\<rparr> in
           case r of
             Inl err \<Rightarrow> Some (Inl (SinkFailed err), e)
           | Inr _ \<Rightarrow> Some (Inr (), e\<lparr>eg_metrics := eg_metrics e @
               sent_metrics F K s channel_id ts datagram (op_tally op) number\<rparr>)
     })"

definition egress_flush ::
    "feed \<Rightarrow> 's sink \<Rightarrow> u8 \<Rightarrow> u64 \<Rightarrow> 's egress \<Rightarrow> ((egress_error + unit) \<times> 's egress) option" where
  "egress_flush F K channel_id ts e = do {
     (r, e) \<leftarrow> flush_inner F K channel_id ts e;
     Some (r, record_result r e)
   }"

fun flush_each ::
    "feed \<Rightarrow> 's sink \<Rightarrow> u8 list \<Rightarrow> u64 \<Rightarrow> egress_error option \<Rightarrow> 's egress \<Rightarrow>
     ((egress_error + unit) \<times> 's egress) option" where
  "flush_each F K [] ts first e =
     Some (case first of Some err \<Rightarrow> Inl err | None \<Rightarrow> Inr (), e)"
| "flush_each F K (channel_id # rest) ts first e = do {
     (r, e) \<leftarrow> egress_flush F K channel_id ts e;
     flush_each F K rest ts
       (case r of Inl err \<Rightarrow> (if first = None then Some err else first) | Inr _ \<Rightarrow> first) e
   }"

definition egress_flush_all ::
    "feed \<Rightarrow> 's sink \<Rightarrow> u8 list \<Rightarrow> u64 \<Rightarrow> 's egress \<Rightarrow> ((egress_error + unit) \<times> 's egress) option"
where
  "egress_flush_all F K channel_ids ts e = flush_each F K channel_ids ts None e"

subsection \<open>Pushing\<close>

fun datagram_is_full :: "egress_error \<Rightarrow> bool" where
  "datagram_is_full (Refused (DatagramFull attempted capacity)) = True"
| "datagram_is_full (Refused (MessageCountExhausted n)) = True"
| "datagram_is_full _ = False"

text \<open>\<open>push_inner\<close> and \<open>push_pair_inner\<close>: one body over what they pack.\<close>

definition pack_inner ::
    "feed \<Rightarrow> 's sink \<Rightarrow> (builder \<Rightarrow> push_result option) \<Rightarrow> egress_message_type list \<Rightarrow> u8 \<Rightarrow> u64 \<Rightarrow>
     's egress \<Rightarrow> ((egress_error + unit) \<times> 's egress) option" where
  "pack_inner F K pack labels channel_id ts e = do {
     (r, e) \<leftarrow> try_pack pack labels channel_id e;
     case r of
       Inr _ \<Rightarrow> Some (Inr (), e)
     | Inl err \<Rightarrow>
         if \<not> datagram_is_full err then Some (Inl err, e)
         else do {
           (r, e) \<leftarrow> flush_inner F K channel_id ts e;
           case r of
             Inl err \<Rightarrow> Some (Inl err, e)
           | Inr _ \<Rightarrow> try_pack pack labels channel_id e
         }
   }"

definition egress_push ::
    "feed \<Rightarrow> 's sink \<Rightarrow> 'm app_message \<Rightarrow> u8 \<Rightarrow> 'm \<Rightarrow> egress_message_type \<Rightarrow> u64 \<Rightarrow> 's egress \<Rightarrow>
     ((egress_error + unit) \<times> 's egress) option" where
  "egress_push F K M channel_id msg message_type ts e = do {
     (r, e) \<leftarrow> pack_inner F K (push F M msg) [message_type] channel_id ts e;
     Some (r, record_result r e)
   }"

definition egress_push_pair ::
    "feed \<Rightarrow> 's sink \<Rightarrow> 'a app_message \<Rightarrow> 'b app_message \<Rightarrow> u8 \<Rightarrow> 'a \<times> egress_message_type \<Rightarrow>
     'b \<times> egress_message_type \<Rightarrow> u64 \<Rightarrow> 's egress \<Rightarrow> ((egress_error + unit) \<times> 's egress) option" where
  "egress_push_pair F K A B channel_id first second ts e = do {
     (r, e) \<leftarrow> pack_inner F K (push_pair F A (fst first) B (fst second)) [snd first, snd second]
       channel_id ts e;
     Some (r, record_result r e)
   }"

end
