(* ===== verification/Egress_Stream.thy ===== *)
theory Egress_Stream
  imports Egress
begin

section \<open>What a composer hands its sink\<close>

text \<open>
  The contract of \<open>ChannelEgress\<close>, over any sink. The sink is wrapped in one that also keeps the
  datagrams it was handed, so that the numbering and the content of what a receiver can be sent
  are statements about a list. The two ways messages enter a datagram meet one interface,
  \<open>packing\<close>; the composer's operations are followed once, inside it.
\<close>

subsection \<open>The datagrams of one channel\<close>

definition logged :: "'s sink \<Rightarrow> ('s \<times> bytes list) sink" where
  "logged K =
     \<lparr>sk_name = (\<lambda>(s, l). sk_name K s),
      sk_send = (\<lambda>d (s, l). let (r, s') = sk_send K d s in (r, (s', l @ [d]))),
      sk_reached_wire = (\<lambda>(s, l). sk_reached_wire K s),
      sk_delivered = (\<lambda>(s, l). sk_delivered K s),
      sk_failure_scope = (\<lambda>(s, l). sk_failure_scope K s)\<rparr>"

lemma logged_send: "\<exists>r s'. sk_send (logged K) d (s, l) = (r, (s', l @ [d]))"
  by (cases "sk_send K d s") (simp add: logged_def)

definition header_of :: "feed \<Rightarrow> bytes \<Rightarrow> datagram_header option" where
  "header_of F d = (case datagram_decode d (MAGIC F) of Inl e \<Rightarrow> None | Inr g \<Rightarrow> Some (dg_header g))"

definition frames_of :: "feed \<Rightarrow> bytes \<Rightarrow> bytes list" where
  "frames_of F d = (case datagram_decode d (MAGIC F) of
     Inl e \<Rightarrow> []
   | Inr g \<Rightarrow> (case collect (messages g) of None \<Rightarrow> [] | Some refs \<Rightarrow> map mr_bytes refs))"

text \<open>The datagrams of one Channel ID among those handed over, in order.\<close>

definition on_channel :: "feed \<Rightarrow> u8 \<Rightarrow> bytes list \<Rightarrow> bytes list" where
  "on_channel F ch log = filter (\<lambda>d. map_option hdr_channel_id (header_of F d) = Some ch) log"

definition numbers :: "feed \<Rightarrow> bytes list \<Rightarrow> u64 list" where
  "numbers F ds = map (\<lambda>d. hdr_sequence_number (the (header_of F d))) ds"

text \<open>A datagram a receiver of the feed accepts, of the given era and within the MTU.\<close>

definition acceptable :: "feed \<Rightarrow> reset_count_t \<Rightarrow> bytes \<Rightarrow> bool" where
  "acceptable F era d \<longleftrightarrow> length d \<le> MAX_DATAGRAM_SIZE \<and>
     (case header_of F d of None \<Rightarrow> False | Some h \<Rightarrow> hdr_reset_count h = reset_get era)"

lemma on_channel_append [simp]: "on_channel F ch (l @ l') = on_channel F ch l @ on_channel F ch l'"
  by (simp add: on_channel_def)

lemma on_channel_Nil [simp]: "on_channel F ch [] = []"
  by (simp add: on_channel_def)

lemma numbers_append [simp]: "numbers F (l @ l') = numbers F l @ numbers F l'"
  by (simp add: numbers_def)

lemma finish_handed:
  assumes "builder_inv b fs" "fs \<noteq> []"
  obtains d h where "finish F ts b = Some (Some d)" "length d \<le> MAX_DATAGRAM_SIZE"
    "header_of F d = Some h" "hdr_channel_id h = b_channel_id b"
    "hdr_sequence_number h = b_sequence_number b" "hdr_reset_count h = b_reset_count b"
    "frames_of F d = fs"
proof -
  obtain d g where *: "finish F ts b = Some (Some d)" "length d = length (b_buf b)"
      "datagram_decode d (MAGIC F) = Inr g" "collect (messages g) = Some (map message_ref_of fs)"
      "hdr_channel_id (dg_header g) = b_channel_id b"
      "hdr_sequence_number (dg_header g) = b_sequence_number b"
      "hdr_reset_count (dg_header g) = b_reset_count b"
    using finish_decodes [OF assms, of F ts] by auto
  moreover have "length d \<le> MAX_DATAGRAM_SIZE"
    using concat_frames_bound [OF assms(1)] assms(1) *(2)
    by (auto simp: builder_inv_def MAX_DATAGRAM_SIZE_def)
  moreover have "frames_of F d = fs"
    using *(3,4) by (simp add: frames_of_def message_ref_of_def comp_def)
  ultimately show ?thesis
    using that [of d "dg_header g"] by (simp add: header_of_def)
qed

subsection \<open>The invariant of a composer\<close>

text \<open>
  Per channel: the series counts the datagrams handed over, these carry 0, 1, 2 and so on, the
  open datagram is stamped with the next number, and what was handed over followed by what is
  open is what was accepted.
\<close>

definition open_inv :: "port_role \<Rightarrow> channel_sequence \<Rightarrow> open_datagram option \<Rightarrow> bytes list \<Rightarrow> bool"
where
  "open_inv role q op fs = (case op of
     None \<Rightarrow> fs = []
   | Some op \<Rightarrow> builder_inv (op_builder op) fs \<and> b_port_role (op_builder op) = role \<and>
       b_channel_id (op_builder op) = cs_channel_id q \<and>
       b_sequence_number (op_builder op) = cs_sequence_number q \<and>
       b_reset_count (op_builder op) = cs_reset_count q)"

definition channel_inv ::
    "feed \<Rightarrow> port_role \<Rightarrow> reset_count_t \<Rightarrow> u8 \<Rightarrow> channel_sequence option \<Rightarrow> open_datagram option \<Rightarrow>
     bytes list \<Rightarrow> bytes list \<Rightarrow> bool" where
  "channel_inv F role era ch cur op ds acc = (case cur of
     None \<Rightarrow> op = None \<and> ds = [] \<and> acc = []
   | Some q \<Rightarrow> cs_channel_id q = ch \<and> cs_reset_count q = reset_get era \<and>
       cs_sequence_number q = word_of_nat (length ds) \<and>
       numbers F ds = map word_of_nat [0..<length ds] \<and>
       (\<exists>fs. open_inv role q op fs \<and> concat (map (frames_of F) ds) @ fs = acc))"

abbreviation eg_log :: "('s \<times> bytes list) egress \<Rightarrow> bytes list" where
  "eg_log e \<equiv> snd (eg_sink e)"

definition egress_current :: "'s egress \<Rightarrow> u8 \<Rightarrow> channel_sequence option" where
  "egress_current e ch = current (endpoint_instance (eg_endpoint e) ch) (eg_sequencer e)"

definition egress_inv ::
    "feed \<Rightarrow> reset_count_t \<Rightarrow> (u8 \<Rightarrow> bytes list) \<Rightarrow> ('s \<times> bytes list) egress \<Rightarrow> bool" where
  "egress_inv F era acc e \<longleftrightarrow> sq_era (eg_sequencer e) = era \<and>
     list_all (acceptable F era) (eg_log e) \<and>
     (\<forall>ch. channel_inv F (ep_port_role (eg_endpoint e)) era ch (egress_current e ch)
        (om_lookup (eg_open e) ch) (on_channel F ch (eg_log e)) (acc ch))"

lemma egress_inv_channel: "egress_inv F era acc e \<Longrightarrow>
    channel_inv F (ep_port_role (eg_endpoint e)) era ch (egress_current e ch)
      (om_lookup (eg_open e) ch) (on_channel F ch (eg_log e)) (acc ch)"
  unfolding egress_inv_def by blast

text \<open>An operation that changes what belongs to one channel has that channel to answer for.\<close>

lemma egress_inv_step:
  assumes "egress_inv F era acc e"
    and "sq_era (eg_sequencer e') = era" "eg_endpoint e' = eg_endpoint e"
    and "list_all (acceptable F era) (eg_log e')"
    and "\<And>c. c \<noteq> ch \<Longrightarrow> egress_current e' c = egress_current e c \<and>
      om_lookup (eg_open e') c = om_lookup (eg_open e) c \<and>
      on_channel F c (eg_log e') = on_channel F c (eg_log e) \<and> acc' c = acc c"
    and "channel_inv F (ep_port_role (eg_endpoint e)) era ch (egress_current e' ch)
      (om_lookup (eg_open e') ch) (on_channel F ch (eg_log e')) (acc' ch)"
  shows "egress_inv F era acc' e'"
  unfolding egress_inv_def
proof (intro conjI allI)
  fix c
  show "channel_inv F (ep_port_role (eg_endpoint e')) era c (egress_current e' c)
      (om_lookup (eg_open e') c) (on_channel F c (eg_log e')) (acc' c)"
    using egress_inv_channel [OF assms(1), of c] assms(3,5,6) by (cases "c = ch") auto
qed (use assms in auto)

lemma egress_inv_metrics [simp]: "egress_inv F era acc (e\<lparr>eg_metrics := x\<rparr>) = egress_inv F era acc e"
  by (simp add: egress_inv_def egress_current_def)

lemma egress_inv_record [simp]: "egress_inv F era acc (record_result r e) = egress_inv F era acc e"
  by (simp add: record_result_def egress_record_def split: sum.split)

lemma egress_new_inv: "egress_inv F era (\<lambda>ch. []) (egress_new ep (s, []) era mtu)"
  by (simp add: egress_inv_def egress_new_def sequencer_new_def channel_inv_def egress_current_def
      current_def om_lookup_def om_empty_def)

subsection \<open>Registering\<close>

lemma egress_register_inv:
  assumes "egress_inv F era acc e"
  shows "egress_inv F era acc (snd (egress_register ch e))"
proof (cases "egress_current e ch")
  case None
  then have e': "snd (egress_register ch e) = e\<lparr>eg_sequencer := (eg_sequencer e)\<lparr>sq_instances :=
      om_update (endpoint_instance (eg_endpoint e) ch)
        (channel_sequence_new ch (sq_era (eg_sequencer e))) (sq_instances (eg_sequencer e))\<rparr>\<rparr>"
    by (simp add: egress_register_def sequencer_register_def is_registered_def egress_current_def
        current_def endpoint_instance_def)
  have era: "sq_era (eg_sequencer e) = era" and ok: "list_all (acceptable F era) (eg_log e)"
    using assms unfolding egress_inv_def by blast+
  have empty: "om_lookup (eg_open e) ch = None" "on_channel F ch (eg_log e) = []" "acc ch = []"
    using egress_inv_channel [OF assms, of ch] None by (simp_all add: channel_inv_def)
  show ?thesis
    unfolding e'
    by (rule egress_inv_step [OF assms, where ch = ch])
      (simp_all add: era ok empty egress_current_def current_def om_lookup_update channel_inv_def
        open_inv_def channel_sequence_new_def numbers_def)
next
  case (Some q)
  then show ?thesis
    using assms by (simp add: egress_register_def sequencer_register_def is_registered_def
        egress_current_def current_def)
qed

subsection \<open>Flushing\<close>

lemma numbers_snoc:
  assumes "numbers F ds = map word_of_nat [0..<length ds]" "header_of F d = Some h"
    and "hdr_sequence_number h = word_of_nat (length ds)"
  shows "numbers F (ds @ [d]) = map word_of_nat [0..<length (ds @ [d])]"
  using assms by (simp add: numbers_def)

text \<open>
  A datagram handed over is one number spent, whatever the sink answers: the series moves before
  the send.
\<close>

lemma flush_inner_inv:
  assumes "egress_inv F era acc e"
  shows "\<exists>r e'. flush_inner F (logged K) ch ts e = Some (r, e') \<and>
    eg_endpoint e' = eg_endpoint e \<and> egress_inv F era acc e' \<and> om_lookup (eg_open e') ch = None"
proof (cases "om_lookup (eg_open e) ch")
  case None
  then show ?thesis using assms by (simp add: flush_inner_def)
next
  case (Some op)
  let ?k = "endpoint_instance (eg_endpoint e) ch" and ?role = "ep_port_role (eg_endpoint e)"
  have era: "sq_era (eg_sequencer e) = era" and ok: "list_all (acceptable F era) (eg_log e)"
    using assms unfolding egress_inv_def by blast+
  note chan = egress_inv_channel [OF assms, of ch]
  obtain q where q: "egress_current e ch = Some q"
    using chan Some by (cases "egress_current e ch") (auto simp: channel_inv_def)
  obtain fs where fs: "open_inv ?role q (Some op) fs"
      "concat (map (frames_of F) (on_channel F ch (eg_log e))) @ fs = acc ch"
    and qs: "cs_channel_id q = ch" "cs_reset_count q = reset_get era"
      "cs_sequence_number q = word_of_nat (length (on_channel F ch (eg_log e)))"
      "numbers F (on_channel F ch (eg_log e)) =
        map word_of_nat [0..<length (on_channel F ch (eg_log e))]"
    using chan q Some by (auto simp: channel_inv_def)
  have inv: "builder_inv (op_builder op) fs"
    and env: "b_channel_id (op_builder op) = ch" "b_reset_count (op_builder op) = reset_get era"
      "b_sequence_number (op_builder op) = cs_sequence_number q"
    using fs(1) qs by (simp_all add: open_inv_def)
  let ?e1 = "e\<lparr>eg_open := om_remove ch (eg_open e)\<rparr>"
  show ?thesis
  proof (cases "fs = []")
    case True
    have "b_msg_count (op_builder op) = 0"
      using inv True by (simp add: builder_inv_def unat_eq_zero)
    then have run: "flush_inner F (logged K) ch ts e = Some (Inr (), ?e1)"
      using Some by (simp add: flush_inner_def finish_empty Let_def)
    have "egress_inv F era acc ?e1"
      by (rule egress_inv_step [OF assms, where ch = ch])
        (use q qs fs True era ok in \<open>simp_all add: egress_current_def om_lookup_remove
          channel_inv_def open_inv_def\<close>)
    then show ?thesis
      by (simp add: run om_lookup_remove)
  next
    case False
    obtain d h where d: "finish F ts (op_builder op) = Some (Some d)"
        "length d \<le> MAX_DATAGRAM_SIZE" "header_of F d = Some h" "hdr_channel_id h = ch"
        "hdr_sequence_number h = cs_sequence_number q" "hdr_reset_count h = reset_get era"
        "frames_of F d = fs"
      by (rule finish_handed [OF inv False, of F ts, unfolded env]) (rule that, assumption+)
    obtain s l where sl: "eg_sink e = (s, l)" by (cases "eg_sink e")
    obtain r s' where sent: "sk_send (logged K) d (s, l) = (r, (s', l @ [d]))"
      using logged_send [of K d s l] by blast
    define e2 where "e2 = ?e1\<lparr>eg_sequencer := advance ?k (eg_sequencer e), eg_sink := (s', l @ [d])\<rparr>"
    have e2: "eg_endpoint e2 = eg_endpoint e" "eg_sink e2 = (s', l @ [d])"
      "eg_open e2 = om_remove ch (eg_open e)" "eg_sequencer e2 = advance ?k (eg_sequencer e)"
      by (simp_all add: e2_def)
    have series: "egress_current e2 ch = Some (channel_advance q)"
      "c \<noteq> ch \<Longrightarrow> egress_current e2 c = egress_current e c" for c
      using q by (simp_all add: e2 egress_current_def advance_def current_def om_lookup_update)
    have views: "on_channel F ch [d] = [d]" "c \<noteq> ch \<Longrightarrow> on_channel F c [d] = []" for c
      using d(3,4) by (simp_all add: on_channel_def)
    have "acceptable F era d"
      using d by (simp add: acceptable_def)
    moreover have "channel_inv F ?role era ch (Some (channel_advance q)) None
        (on_channel F ch l @ [d]) (acc ch)"
      using qs fs d numbers_snoc [OF qs(4) d(3)]
      by (simp add: channel_inv_def open_inv_def sl d(5))
    moreover have "sq_era (eg_sequencer e2) = era"
      using q era by (simp add: e2 advance_def egress_current_def current_def)
    ultimately have inv2: "egress_inv F era acc e2"
      using ok by (intro egress_inv_step [OF assms, where ch = ch])
        (simp_all add: e2 series views sl om_lookup_remove)
    have "\<exists>r e' m. flush_inner F (logged K) ch ts e = Some (r, e') \<and> (e' = e2 \<or> e' = e2\<lparr>eg_metrics := m\<rparr>)"
      using Some d(1) sent by (auto simp: flush_inner_def Let_def e2_def sl split: sum.split)
    then show ?thesis
      using inv2 by (auto simp: e2 om_lookup_remove)
  qed
qed

subsection \<open>Packing\<close>

text \<open>
  What the composer needs of a way to pack: no panic, a builder left alone by a refusal, and on
  success the builder's envelope with some frames more.
\<close>

definition same_envelope :: "builder \<Rightarrow> builder \<Rightarrow> bool" where
  "same_envelope b b' \<longleftrightarrow> b_port_role b' = b_port_role b \<and> b_channel_id b' = b_channel_id b \<and>
     b_sequence_number b' = b_sequence_number b \<and> b_reset_count b' = b_reset_count b"

lemma same_envelope_append [simp]: "same_envelope b b" "same_envelope b (append_frame f b)"
  "same_envelope b b' \<Longrightarrow> same_envelope b (append_frame f b')"
  by (simp_all add: same_envelope_def)

lemma egress_inv_open_for:
  assumes "egress_inv F era acc e" "open_for (endpoint_instance (eg_endpoint e) ch) e = (Inr op, e')"
  obtains q fs where "egress_current e ch = Some q" "egress_current e' = egress_current e"
    "eg_endpoint e' = eg_endpoint e" "eg_sink e' = eg_sink e" "eg_sequencer e' = eg_sequencer e"
    "\<And>c. c \<noteq> ch \<Longrightarrow> om_lookup (eg_open e') c = om_lookup (eg_open e) c"
    "open_inv (ep_port_role (eg_endpoint e)) q (Some op) fs"
    "concat (map (frames_of F) (on_channel F ch (eg_log e))) @ fs = acc ch"
proof (cases "egress_current e ch")
  case None
  then show ?thesis using assms(2) by (simp add: open_for_def egress_current_def)
next
  case (Some q)
  have cid: "cs_channel_id q = ch"
    using egress_inv_channel [OF assms(1), of ch] Some by (simp add: channel_inv_def)
  obtain fs where fs: "open_inv (ep_port_role (eg_endpoint e)) q (om_lookup (eg_open e) ch) fs"
      "concat (map (frames_of F) (on_channel F ch (eg_log e))) @ fs = acc ch"
    using egress_inv_channel [OF assms(1), of ch] Some by (auto simp: channel_inv_def)
  have q: "current (endpoint_instance (eg_endpoint e) ch) (eg_sequencer e) = Some q"
    using Some by (simp add: egress_current_def)
  have ci: "ci_channel_id (endpoint_instance (eg_endpoint e) ch) = ch"
    by (simp add: endpoint_instance_def)
  show ?thesis
  proof (cases "om_lookup (eg_open e) ch")
    case None
    have "op = \<lparr>op_builder = builder_new q (ep_port_role (eg_endpoint e)) (eg_mtu e), op_tally = []\<rparr>"
      and e': "e' = e\<lparr>eg_open := om_update ch op (eg_open e)\<rparr>"
      using assms(2) None by (auto simp: open_for_def q ci Let_def)
    then have "open_inv (ep_port_role (eg_endpoint e)) q (Some op) fs"
      using fs(1) None builder_new_inv [of q "ep_port_role (eg_endpoint e)" "eg_mtu e"]
      by (simp add: open_inv_def builder_new_def cid)
    then show ?thesis
      using that [OF Some _ _ _ _ _ _ fs(2)] by (simp add: e' egress_current_def om_lookup_update fun_eq_iff)
  next
    case (Some op0)
    then show ?thesis
      using that [OF \<open>egress_current e ch = _\<close> _ _ _ _ _ _ fs(2)] assms(2) fs(1)
      by (auto simp: open_for_def q ci)
  qed
qed

lemma open_for_cases:
  "open_for (endpoint_instance (eg_endpoint e) ch) e =
     (Inl (NotRegistered (endpoint_instance (eg_endpoint e) ch)), e) \<or>
   (\<exists>op e'. open_for (endpoint_instance (eg_endpoint e) ch) e = (Inr op, e'))"
  by (auto simp: open_for_def Let_def split: option.split)

locale packing =
  fixes pack :: "'m \<Rightarrow> builder \<Rightarrow> push_result option"
    and frames :: "u16 \<Rightarrow> u8 \<Rightarrow> 'm \<Rightarrow> bytes list"
    and wf :: "'m \<Rightarrow> bool"
  assumes pack_law: "wf m \<Longrightarrow> builder_inv b fs \<Longrightarrow> \<exists>r b'. pack m b = Some (r, b') \<and>
    (case r of
       Inl e \<Rightarrow> b' = b
     | Inr _ \<Rightarrow> builder_inv b' (fs @ frames (flags_for (b_port_role b)) (b_channel_id b) m) \<and>
         same_envelope b b')"
begin

definition gained :: "'s egress \<Rightarrow> u8 \<Rightarrow> 'm \<Rightarrow> bytes list" where
  "gained e ch m = frames (flags_for (ep_port_role (eg_endpoint e))) ch m"

definition took :: "(u8 \<Rightarrow> bytes list) \<Rightarrow> u8 \<Rightarrow> bytes list \<Rightarrow> 'x + unit \<Rightarrow> u8 \<Rightarrow> bytes list" where
  "took acc ch fs r = (case r of Inl e \<Rightarrow> acc | Inr _ \<Rightarrow> acc(ch := acc ch @ fs))"

lemma open_pack_inv:
  assumes "wf m" "open_inv role q (Some op) fs"
  shows "\<exists>r op'. open_pack (pack m) labels op = Some (r, op') \<and>
    open_inv role q (Some op') (case r of
       Inl e \<Rightarrow> fs
     | Inr _ \<Rightarrow> fs @ frames (flags_for role) (cs_channel_id q) m)"
proof -
  obtain r b' where "pack m (op_builder op) = Some (r, b')"
    "case r of
       Inl e \<Rightarrow> b' = op_builder op
     | Inr _ \<Rightarrow> builder_inv b' (fs @ frames (flags_for (b_port_role (op_builder op)))
           (b_channel_id (op_builder op)) m) \<and> same_envelope (op_builder op) b'"
    using pack_law [OF assms(1), of "op_builder op" fs] assms(2) by (auto simp: open_inv_def)
  then show ?thesis
    using assms(2) by (auto simp: open_pack_def open_inv_def same_envelope_def split: sum.splits)
qed

lemma try_pack_inv:
  assumes "wf m" "egress_inv F era acc e"
  shows "\<exists>r e'. try_pack (pack m) labels ch e = Some (r, e') \<and> eg_endpoint e' = eg_endpoint e \<and>
    egress_inv F era (took acc ch (gained e ch m) r) e'"
proof (cases "\<exists>op e1. open_for (endpoint_instance (eg_endpoint e) ch) e = (Inr op, e1)")
  case False
  then have "open_for (endpoint_instance (eg_endpoint e) ch) e =
      (Inl (NotRegistered (endpoint_instance (eg_endpoint e) ch)), e)"
    using open_for_cases [of e ch] by blast
  then show ?thesis
    using assms(2) by (simp add: try_pack_def took_def)
next
  case True
  then obtain op e1 where opened: "open_for (endpoint_instance (eg_endpoint e) ch) e = (Inr op, e1)"
    by blast
  obtain q fs where e1: "egress_current e ch = Some q" "egress_current e1 = egress_current e"
      "eg_endpoint e1 = eg_endpoint e" "eg_sink e1 = eg_sink e" "eg_sequencer e1 = eg_sequencer e"
      "\<And>c. c \<noteq> ch \<Longrightarrow> om_lookup (eg_open e1) c = om_lookup (eg_open e) c"
      "open_inv (ep_port_role (eg_endpoint e)) q (Some op) fs"
      "concat (map (frames_of F) (on_channel F ch (eg_log e))) @ fs = acc ch"
    by (rule egress_inv_open_for [OF assms(2) opened]) (rule that, assumption+)
  obtain r op' where packed: "open_pack (pack m) labels op = Some (r, op')"
      "open_inv (ep_port_role (eg_endpoint e)) q (Some op') (case r of
         Inl e \<Rightarrow> fs
       | Inr _ \<Rightarrow> fs @ frames (flags_for (ep_port_role (eg_endpoint e))) (cs_channel_id q) m)"
    using open_pack_inv [OF assms(1) e1(7)] by blast
  define e2 where "e2 = e1\<lparr>eg_open := om_update ch op' (eg_open e1)\<rparr>"
  define res where "res = (case r of Inl refused \<Rightarrow> Inl (Refused refused) | Inr _ \<Rightarrow> Inr ())"
  have run: "try_pack (pack m) labels ch e = Some (res, e2)"
    using opened packed(1) by (simp add: try_pack_def e2_def res_def split: sum.split)
  have cur: "egress_current e2 = egress_current e"
    using e1(2) by (simp add: egress_current_def e2_def fun_eq_iff)
  have chan: "channel_inv F (ep_port_role (eg_endpoint e)) era ch (Some q)
      (om_lookup (eg_open e) ch) (on_channel F ch (eg_log e)) (acc ch)"
    using egress_inv_channel [OF assms(2), of ch] e1(1) by simp
  have "channel_inv F (ep_port_role (eg_endpoint e)) era ch (Some q) (Some op')
      (on_channel F ch (eg_log e)) (took acc ch (gained e ch m) res ch)"
    using chan packed(2) e1(8)
    by (cases r) (auto simp: channel_inv_def took_def res_def gained_def)
  then have "egress_inv F era (took acc ch (gained e ch m) res) e2"
    using assms(2) e1 cur
    by (intro egress_inv_step [OF assms(2), where ch = ch])
      (auto simp: e2_def om_lookup_update took_def egress_inv_def split: sum.splits)
  then show ?thesis
    using run e1(3) by (auto simp: e2_def)
qed

lemma pack_inner_inv:
  assumes "wf m" "egress_inv F era acc e"
  shows "\<exists>r e'. pack_inner F (logged K) (pack m) labels ch ts e = Some (r, e') \<and>
    eg_endpoint e' = eg_endpoint e \<and> egress_inv F era (took acc ch (gained e ch m) r) e'"
proof -
  obtain r1 e1 where first: "try_pack (pack m) labels ch e = Some (r1, e1)"
      "eg_endpoint e1 = eg_endpoint e" "egress_inv F era (took acc ch (gained e ch m) r1) e1"
    using try_pack_inv [OF assms] by blast
  show ?thesis
  proof (cases "\<exists>err. r1 = Inl err \<and> datagram_is_full err")
    case False
    then have "pack_inner F (logged K) (pack m) labels ch ts e = Some (r1, e1)"
      using first(1) by (cases r1) (auto simp: pack_inner_def)
    then show ?thesis using first by blast
  next
    case True
    then have inv1: "egress_inv F era acc e1"
      using first(3) by (auto simp: took_def)
    obtain r2 e2 where flushed: "flush_inner F (logged K) ch ts e1 = Some (r2, e2)"
        "eg_endpoint e2 = eg_endpoint e" "egress_inv F era acc e2"
      using flush_inner_inv [OF inv1, of K ch ts] first(2) by auto
    have retry: "pack_inner F (logged K) (pack m) labels ch ts e =
        (case r2 of Inl err \<Rightarrow> Some (Inl err, e2) | Inr _ \<Rightarrow> try_pack (pack m) labels ch e2)"
      using True first(1) flushed(1) by (auto simp: pack_inner_def)
    show ?thesis
    proof (cases r2)
      case (Inl err)
      then show ?thesis using retry flushed by (simp add: took_def)
    next
      case (Inr u)
      then show ?thesis
        using retry flushed try_pack_inv [OF assms(1) flushed(3), of labels ch]
        by (auto simp: gained_def)
    qed
  qed
qed

end

subsection \<open>The two ways to pack\<close>

interpretation one: packing "any_push F" "\<lambda>flags ch m. [any_frame flags ch m]" any_wf for F
  by unfold_locales (auto simp: any_push_closed any_accept_inv split: option.split)

definition pair_frames :: "u16 \<Rightarrow> u8 \<Rightarrow> instrument_definition \<times> strike_interval \<Rightarrow> bytes list" where
  "pair_frames flags ch p =
     [any_frame flags ch (MsgInstrumentDefinition (fst p)),
      any_frame flags ch (MsgStrikeInterval (snd p))]"

lemma builder_inv_pair:
  assumes "instrument_definition_wf d" "builder_inv b fs"
    and "push_refusal F instrument_definition_message d b = None"
    and "fd = any_frame (flags_for (b_port_role b)) (b_channel_id b) (MsgInstrumentDefinition d)"
    and "push_refusal F strike_interval_message k (append_frame fd b) = None"
  shows "builder_inv (append_frame (any_frame (flags_for (b_port_role b)) (b_channel_id b)
      (MsgStrikeInterval k)) (append_frame fd b))
    (fs @ pair_frames (flags_for (b_port_role b)) (b_channel_id b) (d, k))"
proof -
  have "builder_inv (append_frame fd b) (fs @ [fd])"
    using assms by (simp only: any_accept_inv any_wf.simps any_refusal.simps)
  then have "builder_inv (append_frame (any_frame (flags_for (b_port_role b)) (b_channel_id b)
      (MsgStrikeInterval k)) (append_frame fd b)) ((fs @ [fd]) @
      [any_frame (flags_for (b_port_role b)) (b_channel_id b) (MsgStrikeInterval k)])"
    by (intro any_accept_inv [where F = F]) (simp_all add: assms(5))
  then show ?thesis
    by (simp add: pair_frames_def assms(4))
qed

interpretation two: packing
  "\<lambda>p. push_pair F instrument_definition_message (fst p) strike_interval_message (snd p)"
  pair_frames "\<lambda>p. instrument_definition_wf (fst p)" for F
proof unfold_locales
  fix p :: "instrument_definition \<times> strike_interval" and b fs
  assume wf: "instrument_definition_wf (fst p)" and inv: "builder_inv b fs"
  note closed = push_pair_closed [OF idef.wire_message_axioms si.wire_message_axioms wf TrueI refl refl,
      where F = F and b = b and y = "snd p"]
  show "\<exists>r b'. push_pair F instrument_definition_message (fst p) strike_interval_message (snd p) b =
      Some (r, b') \<and> (case r of
        Inl e \<Rightarrow> b' = b
      | Inr _ \<Rightarrow> builder_inv b' (fs @ pair_frames (flags_for (b_port_role b)) (b_channel_id b) p) \<and>
          same_envelope b b')"
    using builder_inv_pair [OF wf inv, of F _ "snd p"]
    by (auto simp: closed split: option.split)
qed

subsection \<open>Any sequence of calls\<close>

text \<open>\<open>ChannelEgress::push\<close> at the message's own type.\<close>

fun any_egress_push ::
    "feed \<Rightarrow> 's sink \<Rightarrow> u8 \<Rightarrow> any_message \<Rightarrow> egress_message_type \<Rightarrow> u64 \<Rightarrow> 's egress \<Rightarrow>
     ((egress_error + unit) \<times> 's egress) option" where
  "any_egress_push F K ch (MsgHeartbeat m) ty ts e = egress_push F K heartbeat_message ch m ty ts e"
| "any_egress_push F K ch (MsgEndOfSession m) ty ts e = egress_push F K end_of_session_message ch m ty ts e"
| "any_egress_push F K ch (MsgQuote m) ty ts e = egress_push F K quote_message ch m ty ts e"
| "any_egress_push F K ch (MsgTrade m) ty ts e = egress_push F K trade_message ch m ty ts e"
| "any_egress_push F K ch (MsgLevelUpdate m) ty ts e = egress_push F K level_update_message ch m ty ts e"
| "any_egress_push F K ch (MsgBookClear m) ty ts e = egress_push F K book_clear_message ch m ty ts e"
| "any_egress_push F K ch (MsgInstrumentReset m) ty ts e = egress_push F K instrument_reset_message ch m ty ts e"
| "any_egress_push F K ch (MsgSnapshotBegin m) ty ts e = egress_push F K snapshot_begin_message ch m ty ts e"
| "any_egress_push F K ch (MsgSnapshotLevel m) ty ts e = egress_push F K snapshot_level_message ch m ty ts e"
| "any_egress_push F K ch (MsgSnapshotEnd m) ty ts e = egress_push F K snapshot_end_message ch m ty ts e"
| "any_egress_push F K ch (MsgInstrumentDefinition m) ty ts e = egress_push F K instrument_definition_message ch m ty ts e"
| "any_egress_push F K ch (MsgManifestSummary m) ty ts e = egress_push F K manifest_summary_message ch m ty ts e"
| "any_egress_push F K ch (MsgStrikeInterval m) ty ts e = egress_push F K strike_interval_message ch m ty ts e"

lemma any_egress_push_closed:
  "any_egress_push F K ch m ty ts e = do {
     (r, e) \<leftarrow> pack_inner F K (any_push F m) [ty] ch ts e;
     Some (r, record_result r e)
   }"
proof -
  have eta: "any_push F m = f" if "\<And>b. any_push F m b = f b" for f
    using that by blast
  show ?thesis
    by (cases m) (simp_all only: any_egress_push.simps egress_push_def ext [OF any_push.simps(1)]
      ext [OF any_push.simps(2)] ext [OF any_push.simps(3)] ext [OF any_push.simps(4)]
      ext [OF any_push.simps(5)] ext [OF any_push.simps(6)] ext [OF any_push.simps(7)]
      ext [OF any_push.simps(8)] ext [OF any_push.simps(9)] ext [OF any_push.simps(10)]
      ext [OF any_push.simps(11)] ext [OF any_push.simps(12)] ext [OF any_push.simps(13)])
qed

datatype egress_op =
    OpRegister u8
  | OpPush u8 any_message egress_message_type u64
  | OpPair u8 "instrument_definition \<times> egress_message_type" "strike_interval \<times> egress_message_type" u64
  | OpFlush u8 u64
  | OpFlushAll "u8 list" u64

fun apply_op ::
    "feed \<Rightarrow> 's sink \<Rightarrow> egress_op \<Rightarrow> 's egress \<Rightarrow> ((egress_error + unit) \<times> 's egress) option"
where
  "apply_op F K (OpRegister ch) e = Some (Inr (), snd (egress_register ch e))"
| "apply_op F K (OpPush ch m ty ts) e = any_egress_push F K ch m ty ts e"
| "apply_op F K (OpPair ch x y ts) e =
     egress_push_pair F K instrument_definition_message strike_interval_message ch x y ts e"
| "apply_op F K (OpFlush ch ts) e = egress_flush F K ch ts e"
| "apply_op F K (OpFlushAll chs ts) e = egress_flush_all F K chs ts e"

fun run_ops ::
    "feed \<Rightarrow> 's sink \<Rightarrow> egress_op list \<Rightarrow> 's egress \<Rightarrow>
     ((egress_error + unit) list \<times> 's egress) option" where
  "run_ops F K [] e = Some ([], e)"
| "run_ops F K (op # ops) e = do {
     (r, e) \<leftarrow> apply_op F K op e;
     (rs, e) \<leftarrow> run_ops F K ops e;
     Some (r # rs, e)
   }"

fun op_wf :: "egress_op \<Rightarrow> bool" where
  "op_wf (OpPush ch m ty ts) = any_wf m"
| "op_wf (OpPair ch x y ts) = instrument_definition_wf (fst x)"
| "op_wf _ = True"

text \<open>The frames an accepted call adds to a channel, and what a run's calls add in all.\<close>

fun op_frames :: "port_role \<Rightarrow> egress_op \<Rightarrow> u8 \<Rightarrow> bytes list" where
  "op_frames role (OpPush c m ty ts) ch = (if ch = c then [any_frame (flags_for role) ch m] else [])"
| "op_frames role (OpPair c x y ts) ch =
     (if ch = c then pair_frames (flags_for role) ch (fst x, fst y) else [])"
| "op_frames role _ ch = []"

definition accepted :: "port_role \<Rightarrow> egress_op list \<Rightarrow> (egress_error + unit) list \<Rightarrow> u8 \<Rightarrow> bytes list"
where
  "accepted role ops rs ch =
     concat (map (\<lambda>(op, r). case r of Inl err \<Rightarrow> [] | Inr _ \<Rightarrow> op_frames role op ch) (zip ops rs))"

lemma flush_each_inv:
  "egress_inv F era acc e \<Longrightarrow>
   \<exists>r e'. flush_each F (logged K) chs ts first e = Some (r, e') \<and>
     eg_endpoint e' = eg_endpoint e \<and> egress_inv F era acc e'"
proof (induction chs arbitrary: e first)
  case (Cons ch chs)
  obtain r e1 where "flush_inner F (logged K) ch ts e = Some (r, e1)"
      "eg_endpoint e1 = eg_endpoint e" "egress_inv F era acc e1"
    using flush_inner_inv [OF Cons.prems, of K ch ts] by blast
  then show ?case
    using Cons.IH [of "record_result r e1"]
    by (auto simp: egress_flush_def record_result_def egress_record_def split: sum.splits)
qed simp

lemma record_result_endpoint [simp]:
  "eg_endpoint (record_result r e) = eg_endpoint e" "eg_open (record_result r e) = eg_open e"
  "eg_sink (record_result r e) = eg_sink e"
  by (simp_all add: record_result_def egress_record_def split: sum.split)

lemma no_frames:
  "(\<And>ch. op_frames role op ch = []) \<Longrightarrow>
   (\<lambda>ch. acc ch @ (case r of Inl err \<Rightarrow> [] | Inr _ \<Rightarrow> op_frames role op ch)) = acc"
  by (simp add: fun_eq_iff split: sum.split)

lemma apply_op_inv:
  assumes "op_wf op" "egress_inv F era acc e"
  shows "\<exists>r e'. apply_op F (logged K) op e = Some (r, e') \<and> eg_endpoint e' = eg_endpoint e \<and>
    egress_inv F era (\<lambda>ch. acc ch @ (case r of
        Inl err \<Rightarrow> [] | Inr _ \<Rightarrow> op_frames (ep_port_role (eg_endpoint e)) op ch)) e'"
proof (cases op)
  case (OpRegister ch)
  have "eg_endpoint (snd (egress_register ch e)) = eg_endpoint e"
    by (simp add: egress_register_def split: prod.split)
  then show ?thesis
    using egress_register_inv [OF assms(2), of ch] OpRegister by simp
next
  case (OpPush ch m ty ts)
  obtain r e' where "pack_inner F (logged K) (any_push F m) [ty] ch ts e = Some (r, e')"
      "eg_endpoint e' = eg_endpoint e" "egress_inv F era (one.took acc ch (one.gained e ch m) r) e'"
    using one.pack_inner_inv [OF _ assms(2)] assms(1) OpPush by (metis op_wf.simps(1))
  moreover have "one.took acc ch (one.gained e ch m) r = (\<lambda>c. acc c @ (case r of
      Inl err \<Rightarrow> [] | Inr _ \<Rightarrow> op_frames (ep_port_role (eg_endpoint e)) op c))"
    by (simp add: OpPush one.took_def one.gained_def fun_eq_iff split: sum.split)
  ultimately show ?thesis
    by (simp add: OpPush any_egress_push_closed)
next
  case (OpPair ch x y ts)
  have wf: "instrument_definition_wf (fst (fst x, fst y))"
    using assms(1) OpPair by simp
  obtain r e' where *: "pack_inner F (logged K) (push_pair F instrument_definition_message (fst x)
        strike_interval_message (fst y)) [snd x, snd y] ch ts e = Some (r, e')"
      "eg_endpoint e' = eg_endpoint e"
      "egress_inv F era (two.took acc ch (two.gained e ch (fst x, fst y)) r) e'"
    using two.pack_inner_inv [where labels = "[snd x, snd y]" and ch = ch and ts = ts and F = F
        and K = K, OF wf assms(2)] unfolding fst_conv snd_conv by blast
  moreover have "two.took acc ch (two.gained e ch (fst x, fst y)) r = (\<lambda>c. acc c @ (case r of
      Inl err \<Rightarrow> [] | Inr _ \<Rightarrow> op_frames (ep_port_role (eg_endpoint e)) op c))"
    by (simp add: OpPair two.took_def two.gained_def fun_eq_iff split: sum.split)
  ultimately show ?thesis
    by (simp add: OpPair egress_push_pair_def)
next
  case (OpFlush ch ts)
  then show ?thesis
    using flush_inner_inv [OF assms(2), of K ch ts]
    by (auto simp: egress_flush_def no_frames)
next
  case (OpFlushAll chs ts)
  then show ?thesis
    using flush_each_inv [OF assms(2), of K chs ts None]
    by (auto simp: egress_flush_all_def no_frames)
qed

lemma run_ops_inv:
  "list_all op_wf ops \<Longrightarrow> egress_inv F era acc e \<Longrightarrow>
   \<exists>rs e'. run_ops F (logged K) ops e = Some (rs, e') \<and> length rs = length ops \<and>
     eg_endpoint e' = eg_endpoint e \<and>
     egress_inv F era (\<lambda>ch. acc ch @ accepted (ep_port_role (eg_endpoint e)) ops rs ch) e'"
proof (induction ops arbitrary: acc e)
  case Nil
  then show ?case by (simp add: accepted_def)
next
  case (Cons op ops)
  obtain r e1 where step: "apply_op F (logged K) op e = Some (r, e1)" "eg_endpoint e1 = eg_endpoint e"
      "egress_inv F era (\<lambda>ch. acc ch @ (case r of
          Inl err \<Rightarrow> [] | Inr _ \<Rightarrow> op_frames (ep_port_role (eg_endpoint e)) op ch)) e1"
    using apply_op_inv [OF _ Cons.prems(2), of op K] Cons.prems(1) unfolding list_all_iff list.set by blast
  then show ?case
    using Cons.IH [OF _ step(3)] Cons.prems(1) by (auto simp: accepted_def)
qed

lemma run_ops_fresh:
  assumes "list_all op_wf ops"
  shows "\<exists>rs e. run_ops F (logged K) ops (egress_new ep (s, []) era mtu) = Some (rs, e) \<and>
    length rs = length ops \<and> egress_inv F era (accepted (ep_port_role ep) ops rs) e"
proof -
  have ep: "eg_endpoint (egress_new ep (s, []) era mtu) = ep"
    by (simp add: egress_new_def)
  show ?thesis
    using run_ops_inv [OF assms egress_new_inv [where ep = ep and s = s and mtu = mtu],
        where F = F and K = K and era = era]
    unfolding ep append_Nil by blast
qed

lemma run_ops_append:
  "run_ops F K (ops @ ops') e = do {
     (rs, e) \<leftarrow> run_ops F K ops e;
     (rs', e) \<leftarrow> run_ops F K ops' e;
     Some (rs @ rs', e)
   }"
  by (induction ops arbitrary: e) (auto simp: bind_eq_Some_conv split: Option.bind_split)

lemma egress_inv_numbers:
  assumes "egress_inv F era acc e"
  shows "numbers F (on_channel F ch (eg_log e)) = map word_of_nat [0..<length (on_channel F ch (eg_log e))]"
  using egress_inv_channel [OF assms, of ch]
  by (auto simp: channel_inv_def numbers_def split: option.splits)

lemma egress_inv_content:
  assumes "egress_inv F era acc e"
  shows "\<exists>fs. concat (map (frames_of F) (on_channel F ch (eg_log e))) @ fs = acc ch \<and>
    (om_lookup (eg_open e) ch = None \<longrightarrow> fs = [])"
  using egress_inv_channel [OF assms, of ch]
  by (auto simp: channel_inv_def open_inv_def split: option.splits)

lemma apply_flush:
  assumes "egress_inv F era acc e"
  shows "\<exists>r e'. run_ops F (logged K) [OpFlush ch ts] e = Some ([r], e') \<and>
    egress_inv F era acc e' \<and> om_lookup (eg_open e') ch = None"
  using flush_inner_inv [OF assms, of K ch ts] by (auto simp: egress_flush_def)

text \<open>
  C2. Whatever is registered, pushed, paired and flushed, in whatever order, and whatever the sink
  answers to each send: no call panics, every datagram handed to the sink is one a receiver of the
  feed accepts, within the MTU and stamped with the era's reset count, and on every Channel ID the
  datagrams are numbered 0, 1, 2 and so on (mod 2^64), with no number skipped or used twice.
\<close>

theorem composed_datagrams_dense:
  assumes "list_all op_wf ops"
  shows "\<exists>rs e. run_ops F (logged K) ops (egress_new ep (s, []) era mtu) = Some (rs, e) \<and>
    length rs = length ops \<and> list_all (acceptable F era) (eg_log e) \<and>
    (\<forall>ch. numbers F (on_channel F ch (eg_log e)) =
       map word_of_nat [0..<length (on_channel F ch (eg_log e))])"
proof -
  obtain rs e where run: "run_ops F (logged K) ops (egress_new ep (s, []) era mtu) = Some (rs, e)"
      "length rs = length ops"
    and inv: "\<exists>acc. egress_inv F era acc e"
    using run_ops_fresh [OF assms, of F K ep s era mtu] by blast
  then show ?thesis
    using egress_inv_numbers by (auto simp: egress_inv_def)
qed

text \<open>
  C4. Nothing accepted is lost, repeated or moved: after any calls and a flush of a channel, the
  messages a receiver reads from that channel's datagrams, one datagram after another, are the
  messages the composer accepted for it, in the order of the calls, a refused call adding none.
\<close>

theorem accepted_is_handed_over:
  assumes "list_all op_wf ops"
  shows "\<exists>rs r e. run_ops F (logged K) (ops @ [OpFlush ch ts]) (egress_new ep (s, []) era mtu) =
      Some (rs @ [r], e) \<and> length rs = length ops \<and>
    concat (map (frames_of F) (on_channel F ch (eg_log e))) = accepted (ep_port_role ep) ops rs ch"
proof -
  obtain rs e where run: "run_ops F (logged K) ops (egress_new ep (s, []) era mtu) = Some (rs, e)"
      "length rs = length ops"
      "egress_inv F era (accepted (ep_port_role ep) ops rs) e"
    using run_ops_fresh [OF assms, of F K ep s era mtu] by blast
  obtain r e' where flush: "run_ops F (logged K) [OpFlush ch ts] e = Some ([r], e')"
      "egress_inv F era (accepted (ep_port_role ep) ops rs) e'" "om_lookup (eg_open e') ch = None"
    using apply_flush [OF run(3)] by blast
  have "concat (map (frames_of F) (on_channel F ch (eg_log e'))) = accepted (ep_port_role ep) ops rs ch"
    using egress_inv_content [OF flush(2), of ch] flush(3) by simp
  then show ?thesis
    using run(1,2) flush(1)
    by (intro exI [of _ rs] exI [of _ r] exI [of _ e']) (simp add: run_ops_append del: run_ops.simps)
qed

subsection \<open>A concrete run\<close>

definition refusing_sink :: "nat sink" where
  "refusing_sink =
     \<lparr>sk_name = (\<lambda>s. ''refusing''),
      sk_send = (\<lambda>d s. (if even s then Inl WouldBlock else Inr (), s + 1)),
      sk_reached_wire = (\<lambda>s. True), sk_delivered = (\<lambda>s. True),
      sk_failure_scope = (\<lambda>s. ScopeProcess)\<rparr>"

definition sample_endpoint :: egress_endpoint where
  "sample_endpoint = \<lparr>ep_port_role = Mktdata, ep_source = 0x0A000001, ep_dst_port = 7000\<rparr>"

definition sample_ops :: "egress_op list" where
  "sample_ops = [OpRegister 7, OpPush 7 sample_heartbeat TypeHeartbeat 1, OpFlush 7 2,
     OpPush 7 sample_heartbeat TypeHeartbeat 3, OpPush 9 sample_heartbeat TypeHeartbeat 3,
     OpFlushAll [9, 7] 4]"

lemma sample_ops_wf: "list_all op_wf sample_ops"
  by (simp add: sample_ops_def sample_heartbeat_def)

theorem composed_datagrams_dense_witness:
  "\<exists>rs e. run_ops TopOfBook (logged refusing_sink) sample_ops
      (egress_new sample_endpoint (0, []) (ResetCount 1) 1200) = Some (rs, e) \<and> length rs = 6 \<and>
    list_all (acceptable TopOfBook (ResetCount 1)) (eg_log e)"
  using composed_datagrams_dense [OF sample_ops_wf, of TopOfBook refusing_sink sample_endpoint 0
      "ResetCount 1" 1200]
  by (auto simp: sample_ops_def)

theorem accepted_is_handed_over_witness:
  "\<exists>rs r e. run_ops TopOfBook (logged refusing_sink) (sample_ops @ [OpFlush 7 5])
      (egress_new sample_endpoint (0, []) (ResetCount 1) 1200) = Some (rs @ [r], e) \<and>
    concat (map (frames_of TopOfBook) (on_channel TopOfBook 7 (eg_log e))) =
      accepted Mktdata sample_ops rs 7"
  using accepted_is_handed_over [OF sample_ops_wf, of TopOfBook refusing_sink 7 5 sample_endpoint 0
      "ResetCount 1" 1200]
  by (auto simp: sample_endpoint_def)

end
