(* ===== verification/Text_Codec.thy ===== *)
theory Text_Codec
  imports Edge_Prelude
begin

section \<open>Text as the standard library reads it\<close>

text \<open>
  What the publisher uses of Rust's text handling: \<open>str::from_utf8\<close>, \<open>split_whitespace\<close>,
  \<open>u8::from_str\<close> and the decimal formatting of an integer. A decoded text is the list of its
  code points.
\<close>

subsection \<open>UTF-8\<close>

definition continuation :: "u8 \<Rightarrow> nat \<Rightarrow> nat \<Rightarrow> bool" where
  "continuation b lo hi \<longleftrightarrow> lo \<le> unat b \<and> unat b \<le> hi"

definition second_of_three :: "nat \<Rightarrow> nat \<times> nat" where
  "second_of_three b = (if b = 0xE0 then (0xA0, 0xBF) else if b = 0xED then (0x80, 0x9F) else (0x80, 0xBF))"

definition second_of_four :: "nat \<Rightarrow> nat \<times> nat" where
  "second_of_four b = (if b = 0xF0 then (0x90, 0xBF) else if b = 0xF4 then (0x80, 0x8F) else (0x80, 0xBF))"

fun utf8_decode :: "bytes \<Rightarrow> nat list option" where
  "utf8_decode [] = Some []"
| "utf8_decode (b0 # r0) =
    (let n = unat b0 in
     if n < 0x80 then map_option ((#) n) (utf8_decode r0)
     else case r0 of [] \<Rightarrow> None | b1 # r1 \<Rightarrow>
       if 0xC2 \<le> n \<and> n \<le> 0xDF then
         if continuation b1 0x80 0xBF
         then map_option ((#) ((n - 0xC0) * 64 + (unat b1 - 0x80))) (utf8_decode r1)
         else None
       else case r1 of [] \<Rightarrow> None | b2 # r2 \<Rightarrow>
         if 0xE0 \<le> n \<and> n \<le> 0xEF then
           if continuation b1 (fst (second_of_three n)) (snd (second_of_three n)) \<and>
              continuation b2 0x80 0xBF
           then map_option ((#) ((n - 0xE0) * 4096 + (unat b1 - 0x80) * 64 + (unat b2 - 0x80)))
                  (utf8_decode r2)
           else None
         else case r2 of [] \<Rightarrow> None | b3 # r3 \<Rightarrow>
           if 0xF0 \<le> n \<and> n \<le> 0xF4 \<and>
              continuation b1 (fst (second_of_four n)) (snd (second_of_four n)) \<and>
              continuation b2 0x80 0xBF \<and> continuation b3 0x80 0xBF
           then map_option ((#) ((n - 0xF0) * 262144 + (unat b1 - 0x80) * 4096 +
                  (unat b2 - 0x80) * 64 + (unat b3 - 0x80))) (utf8_decode r3)
           else None)"

lemma utf8_decode_ascii:
  "list_all (\<lambda>b. unat b < 0x80) bs \<Longrightarrow> utf8_decode bs = Some (map unat bs)"
  by (induction bs) (simp_all add: Let_def)

definition ascii_bytes :: "string \<Rightarrow> bytes" where
  "ascii_bytes s = map of_char s"

subsection \<open>Splitting on white space\<close>

definition is_whitespace :: "nat \<Rightarrow> bool" where
  "is_whitespace c \<longleftrightarrow> (9 \<le> c \<and> c \<le> 13) \<or> c = 32 \<or> c = 0x85 \<or> c = 0xA0 \<or> c = 0x1680 \<or>
     (0x2000 \<le> c \<and> c \<le> 0x200A) \<or> c = 0x2028 \<or> c = 0x2029 \<or> c = 0x202F \<or> c = 0x205F \<or> c = 0x3000"

fun split_from :: "nat list \<Rightarrow> nat list \<Rightarrow> nat list list" where
  "split_from cur [] = (if cur = [] then [] else [cur])"
| "split_from cur (c # cs) =
    (if is_whitespace c then (if cur = [] then split_from [] cs else cur # split_from [] cs)
     else split_from (cur @ [c]) cs)"

definition split_whitespace :: "nat list \<Rightarrow> nat list list" where
  "split_whitespace cs = split_from [] cs"

lemma split_from_word:
  "list_all (\<lambda>c. \<not> is_whitespace c) w \<Longrightarrow> split_from cur (w @ cs) = split_from (cur @ w) cs"
  by (induction w arbitrary: cur) simp_all

lemma split_whitespace_word:
  "list_all (\<lambda>c. \<not> is_whitespace c) w \<Longrightarrow> w \<noteq> [] \<Longrightarrow> is_whitespace s \<Longrightarrow>
   split_whitespace (w @ s # cs) = w # split_whitespace cs"
  by (simp add: split_whitespace_def split_from_word)

lemma split_whitespace_Nil: "split_whitespace [] = []"
  by (simp add: split_whitespace_def)

subsection \<open>Decimal integers\<close>

fun decimal_text :: "nat \<Rightarrow> nat list" where
  "decimal_text n = (if n < 10 then [48 + n] else decimal_text (n div 10) @ [48 + n mod 10])"

declare decimal_text.simps [simp del]

text \<open>\<open>u8::from_str\<close>: one optional \<open>+\<close>, then digits, with every step checked against 255.\<close>

fun u8_digits :: "nat \<Rightarrow> nat list \<Rightarrow> u8 option" where
  "u8_digits acc [] = Some (word_of_nat acc)"
| "u8_digits acc (c # cs) =
     (if 48 \<le> c \<and> c \<le> 57 \<and> acc * 10 + (c - 48) \<le> 255 then u8_digits (acc * 10 + (c - 48)) cs else None)"

definition parse_u8 :: "nat list \<Rightarrow> u8 option" where
  "parse_u8 cs = (if cs = [] \<or> cs = [43] \<or> cs = [45] then None
     else if hd cs = 43 then u8_digits 0 (tl cs) else u8_digits 0 cs)"

lemma decimal_text_digits: "list_all (\<lambda>c. 48 \<le> c \<and> c \<le> 57) (decimal_text n)"
proof (induction n rule: decimal_text.induct)
  case (1 n)
  have "n mod 10 < 10" by simp
  with 1 show ?case by (subst decimal_text.simps) auto
qed

lemma decimal_text_not_Nil [simp]: "decimal_text n \<noteq> []"
  by (subst decimal_text.simps) simp

lemma u8_digits_append:
  "u8_digits acc (xs @ [c]) = (case u8_digits acc xs of
     None \<Rightarrow> None | Some w \<Rightarrow> u8_digits (unat w) [c])" if "acc \<le> 255"
  using that
proof (induction xs arbitrary: acc)
  case Nil
  then show ?case by (simp add: unat_of_nat)
next
  case (Cons a xs)
  show ?case
  proof (cases "48 \<le> a \<and> a \<le> 57 \<and> acc * 10 + (a - 48) \<le> 255")
    case True
    then show ?thesis using Cons.IH [of "acc * 10 + (a - 48)"] by simp
  next
    case False
    then show ?thesis by (simp only: append_Cons u8_digits.simps if_False option.case)
  qed
qed

lemma u8_digits_decimal: "n \<le> 255 \<Longrightarrow> u8_digits 0 (decimal_text n) = Some (word_of_nat n)"
proof (induction n rule: decimal_text.induct)
  case (1 n)
  show ?case
  proof (cases "n < 10")
    case True
    then show ?thesis by (subst decimal_text.simps) simp
  next
    case False
    have "unat (word_of_nat (n div 10) :: u8) = n div 10"
      using 1(2) by (simp add: unat_of_nat)
    moreover have "n div 10 * 10 + n mod 10 = n" by (rule div_mult_mod_eq)
    moreover have "n div 10 \<le> 255" "n mod 10 \<le> 9" using 1(2) by auto
    ultimately show ?thesis
      using 1 False by (subst decimal_text.simps) (simp add: u8_digits_append)
  qed
qed

lemma parse_u8_decimal: "parse_u8 (decimal_text (unat w)) = Some w"
proof -
  have "hd (decimal_text (unat w)) \<noteq> 43"
    using decimal_text_digits [of "unat w"] by (cases "decimal_text (unat w)") auto
  moreover have "decimal_text (unat w) \<noteq> [43]" "decimal_text (unat w) \<noteq> [45]"
    using decimal_text_digits [of "unat w"] by auto
  ultimately show ?thesis
    using u8_digits_decimal [of "unat w"] unat_u8_bound [of w] by (simp add: parse_u8_def)
qed

lemma decimal_text_not_whitespace: "list_all (\<lambda>c. \<not> is_whitespace c) (decimal_text n)"
  using decimal_text_digits [of n] by (auto simp: list_all_iff is_whitespace_def)

lemma decimal_text_ascii: "list_all (\<lambda>c. c < 128) (decimal_text n)"
  using decimal_text_digits [of n] by (auto simp: list_all_iff)

end
