(* ===== verification/Era_Store.thy ===== *)
theory Era_Store
  imports Text_Codec Messages_Tob Egress_Sink
begin

section \<open>The reset count across restarts\<close>

text \<open>
  \<open>era.rs\<close> of \<open>dz-publisher-egress\<close>: one small file per feed and shard, advanced once per start.
  The state directory is a map from file names to contents. The system calls are the steps of the
  standard library with the failures of the host as an argument: one outcome per call, where a
  failed write leaves any prefix of its bytes. A process that stops at a call leaves the files a
  failure of that call leaves, so what holds of every failure holds of every crash.
\<close>

subsection \<open>Files\<close>

type_synonym files = "string \<Rightarrow> bytes option"

datatype store_path = StoreDir | StoreFile string

datatype era_error =
    UnsafeFeedName string
  | UnsafeShardName string
  | Corrupt store_path string
  | EraIo store_path io_error

datatype file_op =
    CreateFile string
  | WriteAll string bytes
  | SyncFile string
  | RenameFile string string
  | SyncDir

datatype io_outcome = Works | Fails io_error nat

fun perform :: "io_outcome \<Rightarrow> file_op \<Rightarrow> files \<Rightarrow> (io_error + unit) \<times> files" where
  "perform (Fails e n) (WriteAll p bs) fs = (Inl e, fs(p := map_option (\<lambda>old. old @ take n bs) (fs p)))"
| "perform (Fails e n) op fs = (Inl e, fs)"
| "perform Works (CreateFile p) fs = (Inr (), fs(p \<mapsto> []))"
| "perform Works (WriteAll p bs) fs = (Inr (), fs(p := map_option (\<lambda>old. old @ bs) (fs p)))"
| "perform Works (SyncFile p) fs = (Inr (), fs)"
| "perform Works (RenameFile p q) fs = (Inr (), (fs(p := None))(q := fs p))"
| "perform Works SyncDir fs = (Inr (), fs)"

fun next_outcome :: "io_outcome list \<Rightarrow> io_outcome" where
  "next_outcome [] = Works"
| "next_outcome (o1 # os) = o1"

text \<open>A sequence of calls joined by \<open>?\<close>, each with the path its error names.\<close>

fun run_calls ::
    "(store_path \<times> file_op) list \<Rightarrow> io_outcome list \<Rightarrow> files \<Rightarrow> (era_error + unit) \<times> files" where
  "run_calls [] os fs = (Inr (), fs)"
| "run_calls ((path, op) # ops) os fs = (case perform (next_outcome os) op fs of
     (Inl e, fs) \<Rightarrow> (Inl (EraIo path e), fs)
   | (Inr _, fs) \<Rightarrow> run_calls ops (tl os) fs)"

subsection \<open>The store\<close>

definition FIRST_ERA :: u8 where "FIRST_ERA = 1"

definition FORMAT_TAG :: string where "FORMAT_TAG = ''era-v1''"

datatype shard = Shard (shard_name: "string option")

definition DEFAULT_SHARD :: shard where "DEFAULT_SHARD = Shard None"

definition shard_named :: "string \<Rightarrow> shard" where "shard_named name = Shard (Some name)"

definition shard_resolve :: "string \<Rightarrow> string \<Rightarrow> shard" where
  "shard_resolve name default_token =
     (if name = default_token then DEFAULT_SHARD else shard_named name)"

definition is_name_char :: "char \<Rightarrow> bool" where
  "is_name_char c \<longleftrightarrow> (let b = (of_char c :: nat) in (97 \<le> b \<and> b \<le> 122) \<or> (48 \<le> b \<and> b \<le> 57) \<or> b = 45)"

definition is_one_path_component :: "string \<Rightarrow> bool" where
  "is_one_path_component name \<longleftrightarrow> name \<noteq> [] \<and> length name \<le> 64 \<and> list_all is_name_char name"

definition path_for :: "string \<Rightarrow> shard \<Rightarrow> era_error + string" where
  "path_for name shard =
    (if \<not> is_one_path_component name then Inl (UnsafeFeedName name)
     else case shard_name shard of
       None \<Rightarrow> Inr (name @ ''.era'')
     | Some sh \<Rightarrow>
         if is_one_path_component sh then Inr (name @ ''.'' @ sh @ ''.era'')
         else Inl (UnsafeShardName sh))"

text \<open>\<open>Path::with_extension\<close> on a file name.\<close>

definition file_stem :: "string \<Rightarrow> string" where
  "file_stem f = (let r = dropWhile (\<lambda>c. c \<noteq> CHR ''.'') (rev f) in
     if length r \<le> 1 then f else rev (tl r))"

definition with_extension :: "string \<Rightarrow> string \<Rightarrow> string" where
  "with_extension f ext = file_stem f @ ''.'' @ ext"

definition era_text :: "u8 \<Rightarrow> bytes" where
  "era_text era = ascii_bytes (FORMAT_TAG @ '' '') @ map word_of_nat (decimal_text (unat era)) @ [10]"

definition write_era :: "string \<Rightarrow> u8 \<Rightarrow> io_outcome list \<Rightarrow> files \<Rightarrow> (era_error + unit) \<times> files" where
  "write_era path era os fs =
    (let tmp = with_extension path ''era.tmp'' in
     run_calls
       [(StoreFile tmp, CreateFile tmp), (StoreFile tmp, WriteAll tmp (era_text era)),
        (StoreFile tmp, SyncFile tmp), (StoreFile path, RenameFile tmp path), (StoreDir, SyncDir)]
       os fs)"

definition read_era :: "string \<Rightarrow> io_error option \<Rightarrow> files \<Rightarrow> era_error + u8 option" where
  "read_era path failing fs = (case failing of
     Some e \<Rightarrow> Inl (EraIo (StoreFile path) e)
   | None \<Rightarrow> (case fs path of
       None \<Rightarrow> Inr None
     | Some bs \<Rightarrow>
         let corrupt = (\<lambda>what. Inl (Corrupt (StoreFile path) what)) in
         (case utf8_decode bs of
            None \<Rightarrow> corrupt ''not UTF-8''
          | Some txt \<Rightarrow>
              let fields = split_whitespace txt in
              if fields = [] \<or> hd fields \<noteq> map of_char FORMAT_TAG
              then corrupt ''does not begin with the format tag''
              else case tl fields of
                [] \<Rightarrow> corrupt ''holds no era''
              | field # extra \<Rightarrow> (case parse_u8 field of
                  None \<Rightarrow> corrupt ''holds an era that is not a number in 0..=255''
                | Some era \<Rightarrow>
                    if extra \<noteq> [] then corrupt ''holds more than the format tag and an era''
                    else Inr (Some era)))))"

definition begin_era ::
    "feed \<Rightarrow> shard \<Rightarrow> io_error option \<Rightarrow> io_outcome list \<Rightarrow> files \<Rightarrow>
     (era_error + reset_count_t) \<times> files" where
  "begin_era F sh failing os fs = (case path_for (FEED_NAME F) sh of
     Inl e \<Rightarrow> (Inl e, fs)
   | Inr path \<Rightarrow> (case read_era path failing fs of
       Inl e \<Rightarrow> (Inl e, fs)
     | Inr previous \<Rightarrow>
         let era = (case previous of None \<Rightarrow> FIRST_ERA | Some previous \<Rightarrow> previous + 1) in
         case write_era path era os fs of
           (Inl e, fs) \<Rightarrow> (Inl e, fs)
         | (Inr _, fs) \<Rightarrow> (Inr (ResetCount era), fs)))"

definition persisted_era ::
    "feed \<Rightarrow> shard \<Rightarrow> io_error option \<Rightarrow> files \<Rightarrow> era_error + reset_count_t option" where
  "persisted_era F sh failing fs = (case path_for (FEED_NAME F) sh of
     Inl e \<Rightarrow> Inl e
   | Inr path \<Rightarrow> bind_ok (read_era path failing fs) (\<lambda>era. Inr (map_option ResetCount era)))"

subsection \<open>Which file is whose\<close>

lemma name_no_dot: "is_one_path_component n \<Longrightarrow> CHR ''.'' \<notin> set n"
  by (auto simp: is_one_path_component_def list_all_iff is_name_char_def Let_def)

lemma takeWhile_component:
  "is_one_path_component n \<Longrightarrow> takeWhile (\<lambda>c. c \<noteq> CHR ''.'') (n @ CHR ''.'' # r) = n"
  using name_no_dot [of n] by (auto simp: takeWhile_append)

lemma path_for_head:
  "path_for n sh = Inr p \<Longrightarrow> takeWhile (\<lambda>c. c \<noteq> CHR ''.'') p = n"
  using takeWhile_component [of n] by (auto simp: path_for_def split: if_splits option.splits)

lemma path_for_inj:
  assumes "path_for n sh = Inr p" "path_for n' sh' = Inr p"
  shows "n = n' \<and> sh = sh'"
proof -
  have "n = n'" using path_for_head [OF assms(1)] path_for_head [OF assms(2)] by simp
  moreover have "shard_name sh = shard_name sh'"
    using assms \<open>n = n'\<close> by (auto simp: path_for_def split: if_splits option.splits)
  ultimately show ?thesis by (cases sh; cases sh') simp
qed

lemma path_for_last: "path_for n sh = Inr p \<Longrightarrow> \<exists>q. p = q @ ''.era'' \<and> q \<noteq> []"
  by (auto simp: path_for_def is_one_path_component_def split: if_splits option.splits)

lemma with_extension_era: "q \<noteq> [] \<Longrightarrow> with_extension (q @ ''.era'') ''era.tmp'' = q @ ''.era.tmp''"
  by (simp add: with_extension_def file_stem_def Let_def)

lemma tmp_not_path:
  assumes "path_for n sh = Inr p" "path_for n' sh' = Inr p'"
  shows "with_extension p ''era.tmp'' \<noteq> p'"
proof
  assume eq: "with_extension p ''era.tmp'' = p'"
  obtain q q' where "p = q @ ''.era''" "q \<noteq> []" "p' = q' @ ''.era''"
    using path_for_last [OF assms(1)] path_for_last [OF assms(2)] by blast
  then have "last (q @ ''.era.tmp'') = last (q' @ ''.era'')"
    using eq with_extension_era by simp
  then show False by simp
qed

subsection \<open>Reading back what was written\<close>

lemma era_text_decoded:
  "utf8_decode (era_text era) = Some (map of_char FORMAT_TAG @ 32 # decimal_text (unat era) @ [10])"
proof -
  have tag: "list_all (\<lambda>b. unat b < 128) (ascii_bytes (FORMAT_TAG @ '' ''))"
    "map unat (ascii_bytes (FORMAT_TAG @ '' '')) = map of_char FORMAT_TAG @ [32]"
    by (simp_all add: ascii_bytes_def FORMAT_TAG_def)
  have ascii: "list_all (\<lambda>c. c < 128) (decimal_text (unat era))" by (rule decimal_text_ascii)
  have digits: "map unat (map word_of_nat (decimal_text (unat era)) :: bytes) = decimal_text (unat era)"
    unfolding map_map by (rule map_idI) (use ascii in \<open>auto simp: list_all_iff unat_of_nat\<close>)
  have digits_ascii: "list_all (\<lambda>b. unat b < 128) (map word_of_nat (decimal_text (unat era)) :: bytes)"
    using ascii by (auto simp: list_all_iff unat_of_nat)
  have "list_all (\<lambda>b. unat b < 128) (era_text era)"
    using tag(1) digits_ascii by (simp add: era_text_def)
  then show ?thesis
    using tag(2) digits by (simp add: utf8_decode_ascii era_text_def)
qed

lemma read_back:
  assumes "fs p = Some (era_text era)"
  shows "read_era p None fs = Inr (Some era)"
proof -
  have tag: "list_all (\<lambda>c. \<not> is_whitespace c) (map of_char FORMAT_TAG)" "FORMAT_TAG \<noteq> []"
    by (simp_all add: FORMAT_TAG_def is_whitespace_def)
  have ws: "is_whitespace 32" "is_whitespace 10"
    by (simp_all add: is_whitespace_def)
  have "split_whitespace (map of_char FORMAT_TAG @ 32 # decimal_text (unat era) @ [10]) =
      [map of_char FORMAT_TAG, decimal_text (unat era)]"
    using tag ws decimal_text_not_whitespace [of "unat era"]
    by (simp add: split_whitespace_word split_whitespace_Nil)
  then show ?thesis
    using assms by (simp add: read_era_def era_text_decoded Let_def parse_u8_decimal)
qed

subsection \<open>One start\<close>

text \<open>
  Whatever fails among the five calls, only the era file and its temporary file can change, and
  the era file is the old one or the new one, whole.
\<close>

lemma write_era_cases:
  assumes "with_extension path ''era.tmp'' \<noteq> path"
  shows "case write_era path era os fs of
      (Inr _, fs') \<Rightarrow> fs' path = Some (era_text era) \<and>
        (\<forall>q. q \<noteq> path \<longrightarrow> q \<noteq> with_extension path ''era.tmp'' \<longrightarrow> fs' q = fs q)
    | (Inl e, fs') \<Rightarrow> (\<exists>p x. e = EraIo p x) \<and> (fs' path = fs path \<or> fs' path = Some (era_text era)) \<and>
        (\<forall>q. q \<noteq> path \<longrightarrow> q \<noteq> with_extension path ''era.tmp'' \<longrightarrow> fs' q = fs q)"
proof -
  define os1 os2 os3 os4 where "os1 = tl os" "os2 = tl os1" "os3 = tl os2" "os4 = tl os3"
  note defs = os1_os2_os3_os4_def [symmetric]
  show ?thesis
    unfolding write_era_def Let_def
    using assms
    by (cases "next_outcome os"; cases "next_outcome os1"; cases "next_outcome os2";
        cases "next_outcome os3"; cases "next_outcome os4") (simp_all add: defs)
qed

definition next_era :: "reset_count_t option \<Rightarrow> reset_count_t" where
  "next_era previous = (case previous of None \<Rightarrow> ResetCount FIRST_ERA | Some r \<Rightarrow> ResetCount (reset_get r + 1))"

lemma next_era_simps [simp]:
  "next_era None = ResetCount FIRST_ERA"
  "next_era (Some r) = ResetCount (reset_get r + 1)"
  by (simp_all add: next_era_def)

lemma persisted_back:
  "path_for (FEED_NAME F) sh = Inr p \<Longrightarrow> fs p = Some (era_text e) \<Longrightarrow>
   persisted_era F sh None fs = Inr (Some (ResetCount e))"
  by (simp add: persisted_era_def read_back)

lemma tmp_differs: "path_for n sh = Inr p \<Longrightarrow> with_extension p ''era.tmp'' \<noteq> p"
  using tmp_not_path by blast

lemma persisted_era_path:
  "path_for (FEED_NAME F) sh = Inr p \<Longrightarrow> fs p = fs' p \<Longrightarrow>
   persisted_era F sh None fs = persisted_era F sh None fs'"
  by (simp add: persisted_era_def read_era_def)

lemma begin_era_persisted:
  "begin_era F sh failing os fs = (case persisted_era F sh failing fs of
     Inl e \<Rightarrow> (Inl e, fs)
   | Inr previous \<Rightarrow>
       (case write_era (projr (path_for (FEED_NAME F) sh)) (reset_get (next_era previous)) os fs of
          (Inl e, fs) \<Rightarrow> (Inl e, fs)
        | (Inr _, fs) \<Rightarrow> (Inr (next_era previous), fs)))"
  by (auto simp: begin_era_def persisted_era_def Let_def split: sum.splits option.splits prod.splits)

text \<open>
  C14. A start of one feed and shard: a state directory it cannot read or that holds something
  else is refused and left as it is; otherwise either a system call's failure is what it returns,
  or the era it hands out is the successor of the persisted one (1 for an instance with no
  history, 0 after 255) and is on disk before it is returned.
\<close>

theorem begin_era_outcome:
  "case persisted_era F sh failing fs of
     Inl e \<Rightarrow> begin_era F sh failing os fs = (Inl e, fs)
   | Inr previous \<Rightarrow> (case begin_era F sh failing os fs of
       (Inl e, fs') \<Rightarrow> \<exists>path x. e = EraIo path x
     | (Inr era, fs') \<Rightarrow> era = next_era previous \<and> persisted_era F sh None fs' = Inr (Some era))"
proof (cases "persisted_era F sh failing fs")
  case (Inr previous)
  then obtain p where p: "path_for (FEED_NAME F) sh = Inr p"
    by (cases "path_for (FEED_NAME F) sh") (auto simp: persisted_era_def)
  obtain r fs' where w: "write_era p (reset_get (next_era previous)) os fs = (r, fs')"
    by fastforce
  have run: "begin_era F sh failing os fs =
      (case r of Inl e \<Rightarrow> (Inl e, fs') | Inr _ \<Rightarrow> (Inr (next_era previous), fs'))"
    by (simp add: begin_era_persisted Inr p w split: sum.split)
  show ?thesis
    using write_era_cases [OF tmp_differs [OF p], of fs "reset_get (next_era previous)" os] w
    by (cases r) (auto simp: run Inr persisted_back [OF p])
qed (simp add: begin_era_persisted)

text \<open>
  C15. A start that fails or stops anywhere corrupts nothing: afterwards its own instance's file
  says what it said before or the next era, never anything else, and the era of every other feed
  and shard is what it was.
\<close>

theorem crash_leaves_old_or_new:
  assumes "persisted_era F sh None fs = Inr previous"
  shows "persisted_era F sh None (snd (begin_era F sh None os fs)) \<in> {Inr previous, Inr (Some (next_era previous))} \<and>
    ((FEED_NAME G, sh') \<noteq> (FEED_NAME F, sh) \<longrightarrow>
       persisted_era G sh' None (snd (begin_era F sh None os fs)) = persisted_era G sh' None fs)"
proof -
  obtain p where p: "path_for (FEED_NAME F) sh = Inr p"
    using assms by (cases "path_for (FEED_NAME F) sh") (auto simp: persisted_era_def)
  define fs' where "fs' = snd (begin_era F sh None os fs)"
  have step: "(fs' p = fs p \<or> fs' p = Some (era_text (reset_get (next_era previous)))) \<and>
      (\<forall>q. q \<noteq> p \<longrightarrow> q \<noteq> with_extension p ''era.tmp'' \<longrightarrow> fs' q = fs q)"
    using write_era_cases [OF tmp_differs [OF p], of fs "reset_get (next_era previous)" os]
    by (auto simp: fs'_def begin_era_persisted assms p split: sum.splits prod.splits)
  have "persisted_era F sh None fs' = Inr previous \<or>
      persisted_era F sh None fs' = Inr (Some (next_era previous))"
    using step assms persisted_era_path [OF p, of fs' fs] persisted_back [OF p, of fs'] by auto
  moreover have "persisted_era G sh' None fs' = persisted_era G sh' None fs"
    if other: "(FEED_NAME G, sh') \<noteq> (FEED_NAME F, sh)"
  proof (cases "path_for (FEED_NAME G) sh'")
    case (Inr q)
    have "q \<noteq> p" "q \<noteq> with_extension p ''era.tmp''"
      using path_for_inj [OF Inr] p other tmp_not_path [OF p Inr] by blast+
    then show ?thesis
      using step persisted_era_path [OF Inr] by blast
  qed (simp add: persisted_era_def)
  ultimately show ?thesis
    by (simp add: fs'_def)
qed

subsection \<open>Every instance keeps its own history\<close>

fun start_each ::
    "(feed \<times> shard) list \<Rightarrow> files \<Rightarrow> (era_error + reset_count_t) list \<times> files" where
  "start_each [] fs = ([], fs)"
| "start_each ((F, sh) # starts) fs =
     (let (r, fs) = begin_era F sh None [] fs; (rs, fs) = start_each starts fs in (r # rs, fs))"

definition era_key :: "feed \<times> shard \<Rightarrow> string \<times> shard" where
  "era_key i = (FEED_NAME (fst i), snd i)"

definition key_named :: "string \<times> shard \<Rightarrow> bool" where
  "key_named k \<longleftrightarrow> (\<exists>p. path_for (fst k) (snd k) = Inr p)"

definition era_at :: "files \<Rightarrow> string \<times> shard \<Rightarrow> u8 option" where
  "era_at fs k = (case path_for (fst k) (snd k) of
     Inl e \<Rightarrow> None
   | Inr p \<Rightarrow> (case read_era p None fs of Inr (Some era) \<Rightarrow> Some era | _ \<Rightarrow> None))"

text \<open>The directory of a history: each instance absent, or at a legible era.\<close>

definition legible :: "files \<Rightarrow> bool" where
  "legible fs \<longleftrightarrow> (\<forall>k p. path_for (fst k) (snd k) = Inr p \<longrightarrow> (\<exists>x. read_era p None fs = Inr x))"

lemma legible_empty: "legible (\<lambda>_. None)"
  by (simp add: legible_def read_era_def)

lemma era_at_empty: "era_at (\<lambda>_. None) k = None"
  by (simp add: era_at_def read_era_def split: sum.split)

lemma write_era_works:
  assumes "with_extension path ''era.tmp'' \<noteq> path"
  obtains fs' where "write_era path era [] fs = (Inr (), fs')" "fs' path = Some (era_text era)"
    "\<And>q. q \<noteq> path \<Longrightarrow> q \<noteq> with_extension path ''era.tmp'' \<Longrightarrow> fs' q = fs q"
  using assms by (simp add: write_era_def Let_def)

lemma begin_era_step:
  assumes "legible fs" "key_named (era_key (F, sh))"
  obtains fs' era where "begin_era F sh None [] fs = (Inr (ResetCount era), fs')" "legible fs'"
    "era = (case era_at fs (era_key (F, sh)) of None \<Rightarrow> 1 | Some previous \<Rightarrow> previous + 1)"
    "era_at fs' = (era_at fs)(era_key (F, sh) \<mapsto> era)"
proof -
  obtain p where p: "path_for (FEED_NAME F) sh = Inr p"
    using assms(2) by (auto simp: key_named_def era_key_def)
  obtain x where x: "read_era p None fs = Inr x"
    using assms(1) p by (fastforce simp: legible_def)
  define era where "era = (case x of None \<Rightarrow> FIRST_ERA | Some previous \<Rightarrow> previous + 1)"
  obtain fs' where w: "write_era p era [] fs = (Inr (), fs')" "fs' p = Some (era_text era)"
      "\<And>q. q \<noteq> p \<Longrightarrow> q \<noteq> with_extension p ''era.tmp'' \<Longrightarrow> fs' q = fs q"
    by (rule write_era_works [OF tmp_differs [OF p], of era fs]) (rule that)
  have others: "read_era q None fs' = (if q = p then Inr (Some era) else read_era q None fs)"
    if "path_for n s = Inr q" for n s q
    using w(3) [of q] tmp_not_path [OF p that] read_back [of fs' p era] w(2)
    by (auto simp: read_era_def)
  have "begin_era F sh None [] fs = (Inr (ResetCount era), fs')"
    using w(1) by (simp add: begin_era_def p x era_def)
  moreover have "legible fs'"
    using assms(1) others by (auto simp: legible_def)
  moreover have "era = (case era_at fs (era_key (F, sh)) of None \<Rightarrow> 1 | Some previous \<Rightarrow> previous + 1)"
    by (simp add: era_at_def era_key_def p x era_def FIRST_ERA_def split: option.split)
  moreover have "era_at fs' = (era_at fs)(era_key (F, sh) \<mapsto> era)"
  proof
    fix k
    show "era_at fs' k = ((era_at fs)(era_key (F, sh) \<mapsto> era)) k"
    proof (cases "path_for (fst k) (snd k)")
      case (Inr q)
      have there: "q = p \<Longrightarrow> fst k = FEED_NAME F \<and> snd k = sh"
        using path_for_inj [OF Inr, of "FEED_NAME F" sh] p by blast
      have same: "k = era_key (F, sh) \<longleftrightarrow> q = p"
        using there Inr p unfolding era_key_def fst_conv snd_conv by (metis prod.collapse sum.sel(2) fst_conv snd_conv)
      show ?thesis
        unfolding fun_upd_apply same era_at_def Inr sum.case others [OF Inr] by simp
    qed (use p in \<open>auto simp: era_at_def era_key_def\<close>)
  qed
  ultimately show thesis by (rule that)
qed

lemma start_each_eras:
  assumes "legible fs" "list_all (\<lambda>i. key_named (era_key i)) starts"
  shows "map snd (filter (\<lambda>(i, r). era_key i = k) (zip starts (fst (start_each starts fs)))) =
    map (\<lambda>n. Inr (ResetCount ((case era_at fs k of None \<Rightarrow> 0 | Some e \<Rightarrow> e) + word_of_nat n)))
      [1..<Suc (length (filter (\<lambda>i. era_key i = k) starts))]"
  using assms
proof (induction starts arbitrary: fs)
  case (Cons i starts)
  obtain F sh where i: "i = (F, sh)" by (cases i)
  obtain fs' era where step: "begin_era F sh None [] fs = (Inr (ResetCount era), fs')" "legible fs'"
      "era = (case era_at fs (era_key (F, sh)) of None \<Rightarrow> 1 | Some previous \<Rightarrow> previous + 1)"
      "era_at fs' = (era_at fs)(era_key (F, sh) \<mapsto> era)"
    using Cons.prems i by (auto elim: begin_era_step)
  have ih: "map snd (filter (\<lambda>(i, r). era_key i = k) (zip starts (fst (start_each starts fs')))) =
    map (\<lambda>n. Inr (ResetCount ((case era_at fs' k of None \<Rightarrow> 0 | Some e \<Rightarrow> e) + word_of_nat n)))
      [1..<Suc (length (filter (\<lambda>i. era_key i = k) starts))]"
    using Cons.IH [OF step(2)] Cons.prems(2) by simp
  define m where "m = length (filter (\<lambda>i. era_key i = k) starts)"
  have range: "[1..<Suc (Suc m)] = 1 # map Suc [1..<Suc m]"
    by (simp add: upt_conv_Cons map_Suc_upt del: upt_Suc)
  show ?case
    using ih step range
    by (auto simp: i m_def [symmetric] Let_def add_ac split: prod.split option.split simp del: upt_Suc)
qed simp

text \<open>
  C18. From an empty state directory, however the starts of different feeds and shards interleave:
  every start succeeds, and each feed and shard is handed its own eras 1, 2, 3 and so on (mod 256),
  no matter which others start and in what order.
\<close>

theorem each_instance_counts_its_own_starts:
  assumes "list_all (\<lambda>i. key_named (era_key i)) starts"
  shows "map snd (filter (\<lambda>(i, r). era_key i = k) (zip starts (fst (start_each starts (\<lambda>_. None))))) =
    map (\<lambda>n. Inr (ResetCount (word_of_nat n))) [1..<Suc (length (filter (\<lambda>i. era_key i = k) starts))]"
  using start_each_eras [OF legible_empty assms, of k] by (simp add: era_at_empty)

subsection \<open>A concrete history\<close>

definition shard_b :: shard where
  "shard_b = shard_resolve ''b'' ''default''"

lemma sample_names:
  "path_for (FEED_NAME TopOfBook) DEFAULT_SHARD = Inr ''top-of-book.era''"
  "path_for (FEED_NAME TopOfBook) shard_b = Inr ''top-of-book.b.era''"
  by (simp_all add: path_for_def shard_b_def shard_resolve_def shard_named_def DEFAULT_SHARD_def
      TopOfBook_def is_one_path_component_def is_name_char_def)

theorem crash_leaves_old_or_new_witness:
  "persisted_era TopOfBook shard_b None
     (snd (begin_era TopOfBook DEFAULT_SHARD None [Works, Fails (IoOther ''disk full'') 3] (\<lambda>_. None))) =
     Inr None"
proof -
  have "persisted_era TopOfBook DEFAULT_SHARD None (\<lambda>_. None) = Inr None"
    "persisted_era TopOfBook shard_b None (\<lambda>_. None) = Inr None"
    by (simp_all add: persisted_era_def sample_names read_era_def)
  then show ?thesis
    using crash_leaves_old_or_new [of TopOfBook DEFAULT_SHARD "\<lambda>_. None" None
        "[Works, Fails (IoOther ''disk full'') 3]" TopOfBook shard_b]
    by (simp add: DEFAULT_SHARD_def shard_b_def shard_resolve_def shard_named_def)
qed

theorem each_instance_counts_its_own_starts_witness:
  "map snd (filter (\<lambda>(i, r). era_key i = era_key (TopOfBook, shard_b))
     (zip [(TopOfBook, DEFAULT_SHARD), (TopOfBook, shard_b), (TopOfBook, shard_b)]
       (fst (start_each [(TopOfBook, DEFAULT_SHARD), (TopOfBook, shard_b), (TopOfBook, shard_b)]
         (\<lambda>_. None))))) = [Inr (ResetCount 1), Inr (ResetCount 2)]"
proof -
  have named: "list_all (\<lambda>i. key_named (era_key i))
      [(TopOfBook, DEFAULT_SHARD), (TopOfBook, shard_b), (TopOfBook, shard_b)]"
    by (simp add: key_named_def era_key_def sample_names)
  have keys: "era_key (TopOfBook, DEFAULT_SHARD) \<noteq> era_key (TopOfBook, shard_b)"
    by (simp add: era_key_def DEFAULT_SHARD_def shard_b_def shard_resolve_def shard_named_def)
  show ?thesis
    using each_instance_counts_its_own_starts [OF named, of "era_key (TopOfBook, shard_b)"]
    by (simp only: keys filter.simps if_False if_True list.size) (simp add: upt_rec)
qed

end
