(* ===== verification/Fixed_Point.thy ===== *)
theory Fixed_Point
  imports Edge_Prelude
begin

section \<open>Exact decimal to fixed-point conversion\<close>

text \<open>
  \<open>fixed_point.rs\<close> of \<open>dz-edge-core\<close>: a decimal string is scaled to the integer the wire carries
  at an instrument's exponent, with integer arithmetic only. The definitions follow the code
  (scan, split, accumulate with checked steps, look right to left for lost precision). The
  reference is \<open>digits_value\<close>, the number a digit string denotes, and the lemmas say that the
  scan computes the accepted grammar and the scaling computes the exact quotient or product, or
  names what prevents it.
\<close>

datatype scale_error = TooPrecise u32 | Malformed | Overflow

definition is_digit :: "u8 \<Rightarrow> bool" where
  "is_digit b \<longleftrightarrow> 48 \<le> b \<and> b \<le> 57"

fun scan_dot :: "bytes \<Rightarrow> nat \<Rightarrow> nat option \<Rightarrow> scale_error + nat option" where
  "scan_dot [] i dot_pos = Inr dot_pos"
| "scan_dot (b # bs) i dot_pos =
    (if is_digit b then scan_dot bs (i + 1) dot_pos
     else if b = 46 \<and> dot_pos = None then scan_dot bs (i + 1) (Some i)
     else Inl Malformed)"

definition split_digits :: "bytes \<Rightarrow> scale_error + (bytes \<times> bytes)" where
  "split_digits s =
    (if s = [] then Inl Malformed
     else bind_ok (scan_dot s 0 None) (\<lambda>dot_pos. case dot_pos of
       None \<Rightarrow> Inr (s, [])
     | Some pos \<Rightarrow>
         (if pos = 0 \<or> pos = length s - 1 then Inl Malformed
          else Inr (take pos s, drop (pos + 1) s))))"

fun accumulate_from :: "u64 \<Rightarrow> bytes \<Rightarrow> scale_error + u64" where
  "accumulate_from v [] = Inr v"
| "accumulate_from v (b # bs) =
    (let digit = ucast (b - 48) in
     case checked_mul v 10 of None \<Rightarrow> Inl Overflow
     | Some v1 \<Rightarrow> (case checked_add v1 digit of None \<Rightarrow> Inl Overflow
                   | Some v2 \<Rightarrow> accumulate_from v2 bs))"

definition accumulate :: "bytes \<Rightarrow> scale_error + u64" where
  "accumulate bs = accumulate_from 0 bs"

fun position :: "('a \<Rightarrow> bool) \<Rightarrow> 'a list \<Rightarrow> nat option" where
  "position P [] = None"
| "position P (x # xs) = (if P x then Some 0 else map_option Suc (position P xs))"

definition precision_beyond :: "bytes \<Rightarrow> int \<Rightarrow> u32 option" where
  "precision_beyond tail shift =
     map_option (\<lambda>j. word_of_int (shift - int j)) (position (\<lambda>b. b \<noteq> 48) tail)"

definition scale_digits :: "bytes \<Rightarrow> bytes \<Rightarrow> i8 \<Rightarrow> scale_error + u64" where
  "scale_digits int_part frac_part exponent =
    (let len = length int_part + length frac_part;
         frac_len = length frac_part;
         shift = int frac_len + sint exponent in
     if shift \<le> 0
     then accumulate (int_part @ frac_part @ replicate (nat (- shift)) 48)
     else let dropped = nat shift;
              at_risk = min dropped len;
              tail = rev frac_part @ rev int_part in
       case precision_beyond (take at_risk tail) shift of
         Some beyond \<Rightarrow> Inl (TooPrecise beyond)
       | None \<Rightarrow>
          (if dropped \<ge> len then Inr 0
           else let keep = len - dropped in
             if keep \<le> length int_part then accumulate (take keep int_part)
             else accumulate (int_part @ take (keep - length int_part) frac_part)))"

definition to_signed :: "u64 \<Rightarrow> bool \<Rightarrow> scale_error + i64" where
  "to_signed magnitude negative =
    (let min_magnitude = push_bit 63 1; i64_max = push_bit 63 1 - 1 in
     if negative
     then (if magnitude = min_magnitude then Inr min_magnitude
           else if magnitude \<le> i64_max then Inr (- magnitude)
           else Inl Overflow)
     else if magnitude \<le> i64_max then Inr magnitude
     else Inl Overflow)"

fun strip_minus :: "bytes \<Rightarrow> bool \<times> bytes" where
  "strip_minus [] = (False, [])"
| "strip_minus (b # bs) = (if b = 45 then (True, bs) else (False, b # bs))"

definition parse_signed :: "bytes \<Rightarrow> i8 \<Rightarrow> scale_error + i64" where
  "parse_signed str exponent =
    (let (negative, rest) = strip_minus str in
     bind_ok (split_digits rest) (\<lambda>(int_part, frac_part).
     bind_ok (scale_digits int_part frac_part exponent) (\<lambda>magnitude.
     to_signed magnitude negative)))"

definition parse_unsigned :: "bytes \<Rightarrow> i8 \<Rightarrow> scale_error + u64" where
  "parse_unsigned str exponent =
    (if fst (strip_minus str) then Inl Malformed
     else bind_ok (split_digits str) (\<lambda>(int_part, frac_part).
          scale_digits int_part frac_part exponent))"

subsection \<open>The grammar\<close>

definition digits :: "bytes \<Rightarrow> bool" where
  "digits ds \<longleftrightarrow> (\<forall>b \<in> set ds. is_digit b)"

lemma digits_simps [simp]:
  "digits []" "digits (b # bs) \<longleftrightarrow> is_digit b \<and> digits bs"
  "digits (xs @ ys) \<longleftrightarrow> digits xs \<and> digits ys" "digits (replicate n 48)"
  by (auto simp: digits_def is_digit_def)

lemma digits_take [simp]: "digits ds \<Longrightarrow> digits (take n ds)"
  by (auto simp: digits_def dest: in_set_takeD)

lemma digits_drop [simp]: "digits ds \<Longrightarrow> digits (drop n ds)"
  by (auto simp: digits_def dest: in_set_dropD)

text \<open>One or more digits, then nothing or a dot and one or more digits.\<close>

definition decimal :: "bytes \<Rightarrow> bytes \<Rightarrow> bytes \<Rightarrow> bool" where
  "decimal s i f \<longleftrightarrow> i \<noteq> [] \<and> digits i \<and> digits f \<and> s = (if f = [] then i else i @ [46] @ f)"

lemma dot_no_digit: "\<not> is_digit 46"
  by (simp add: is_digit_def)

lemma scan_dot_after: "scan_dot s i (Some p) = (if digits s then Inr (Some p) else Inl Malformed)"
  by (induction s arbitrary: i) auto

lemma scan_dot_first:
  "scan_dot s i None =
    (if digits s then Inr None
     else let n = length (takeWhile is_digit s) in
       if s ! n = 46 \<and> digits (drop (Suc n) s) then Inr (Some (i + n)) else Inl Malformed)"
  by (induction s arbitrary: i) (auto simp: Let_def scan_dot_after)

lemma digits_takeWhile [simp]: "digits (takeWhile is_digit s)"
  by (auto simp: digits_def dest: set_takeWhileD)

lemma not_digits_split:
  "\<not> digits s \<Longrightarrow> length (takeWhile is_digit s) < length s"
  by (induction s) auto

lemma split_digits_Inr: "split_digits s = Inr (i, f) \<longleftrightarrow> decimal s i f"
proof
  assume L: "split_digits s = Inr (i, f)"
  let ?n = "length (takeWhile is_digit s)"
  show "decimal s i f"
  proof (cases "digits s")
    case True
    with L show ?thesis by (auto simp: split_digits_def scan_dot_first decimal_def split: if_splits)
  next
    case False
    then have n: "?n < length s" by (rule not_digits_split)
    from L False have dot: "s ! ?n = 46" and ds: "digits (drop (Suc ?n) s)"
      and ends: "?n \<noteq> 0" "?n \<noteq> length s - 1"
      and i: "i = take ?n s" and f: "f = drop (Suc ?n) s"
      by (auto simp: split_digits_def scan_dot_first Let_def split: if_splits)
    have "i = takeWhile is_digit s" by (simp add: i takeWhile_eq_take [symmetric])
    moreover have "s = take ?n s @ s ! ?n # drop (Suc ?n) s"
      using n by (rule id_take_nth_drop)
    moreover have "f \<noteq> []" "i \<noteq> []" using n ends by (auto simp: f i)
    ultimately show ?thesis using dot ds by (auto simp: decimal_def f i)
  qed
next
  assume R: "decimal s i f"
  show "split_digits s = Inr (i, f)"
  proof (cases "f = []")
    case True
    with R show ?thesis by (auto simp: decimal_def split_digits_def scan_dot_first)
  next
    case False
    then have s: "s = i @ 46 # f" and i: "i \<noteq> []" "digits i" "digits f"
      using R by (auto simp: decimal_def)
    have "takeWhile is_digit s = i"
      using i dot_no_digit by (auto simp: s digits_def takeWhile_append)
    then show ?thesis
      using s i False dot_no_digit by (auto simp: split_digits_def scan_dot_first Let_def)
  qed
qed

lemma split_digits_Inl: "split_digits s = Inl e \<Longrightarrow> e = Malformed"
  by (auto simp: split_digits_def scan_dot_first Let_def split: if_splits option.splits)

lemma decimal_unique: "decimal s i f \<Longrightarrow> decimal s i' f' \<Longrightarrow> i' = i \<and> f' = f"
  by (simp add: split_digits_Inr [symmetric])


subsection \<open>What a digit string denotes\<close>

definition digits_value :: "bytes \<Rightarrow> nat" where
  "digits_value ds = foldl (\<lambda>v b. v * 10 + unat (b - 48)) 0 ds"

lemma digits_value_snoc: "digits_value (ds @ [d]) = digits_value ds * 10 + unat (d - 48)"
  by (simp add: digits_value_def)

lemma foldl_digits:
  "foldl (\<lambda>v b. v * 10 + unat (b - 48)) v ds = v * 10 ^ length ds + digits_value ds"
  for ds :: bytes
proof (induction ds arbitrary: v rule: rev_induct)
  case Nil
  then show ?case by (simp add: digits_value_def)
next
  case (snoc d ds)
  have "foldl (\<lambda>v b. v * 10 + unat (b - 48)) v (ds @ [d]) =
      (v * 10 ^ length ds + digits_value ds) * 10 + unat (d - 48)"
    by (simp only: foldl_append foldl_Cons foldl_Nil snoc)
  then show ?case by (simp only: digits_value_snoc) (simp add: algebra_simps)
qed

lemma digits_value_Nil [simp]: "digits_value [] = 0"
  by (simp add: digits_value_def)

lemma digits_value_append:
  "digits_value (xs @ ys) = digits_value xs * 10 ^ length ys + digits_value ys"
proof -
  have "digits_value (xs @ ys) = foldl (\<lambda>v b. v * 10 + unat (b - 48)) (digits_value xs) ys"
    by (simp add: digits_value_def)
  then show ?thesis by (simp only: foldl_digits)
qed

lemma digits_value_Cons:
  "digits_value (b # bs) = unat (b - 48) * 10 ^ length bs + digits_value bs"
  using digits_value_append [of "[b]" bs] by (simp add: digits_value_def)

lemma digits_value_zeros [simp]: "digits_value (replicate n 48) = 0"
  by (induction n) (simp_all add: digits_value_Cons)

lemma unat_digit: "is_digit b \<Longrightarrow> unat (b - 48) \<le> 9"
  by (auto simp: is_digit_def unat_sub word_le_nat_alt)

lemma digits_value_bound: "digits ds \<Longrightarrow> digits_value ds < 10 ^ length ds"
proof (induction ds)
  case Nil
  then show ?case by simp
next
  case (Cons d ds)
  then have "unat (d - 48) * 10 ^ length ds + digits_value ds < 9 * 10 ^ length ds + 10 ^ length ds"
    using unat_digit [of d] by (intro add_le_less_mono mult_le_mono1) auto
  then show ?case by (simp add: digits_value_Cons)
qed

lemma accumulate_from_eq:
  "digits ds \<Longrightarrow> accumulate_from v ds =
    (let r = unat v * 10 ^ length ds + digits_value ds in
     if r < 2 ^ 64 then Inr (word_of_nat r) else Inl Overflow)"
proof (induction ds arbitrary: v)
  case Nil
  then show ?case using unat_u64_bound [of v] by simp
next
  case (Cons d ds)
  let ?r = "unat v * 10 ^ length (d # ds) + digits_value (d # ds)"
  let ?d = "ucast (d - 48) :: u64"
  have d: "unat ?d = unat (d - 48)"
    using unat_u8_bound [of "d - 48"] by (simp add: unsigned_ucast_eq take_bit_nat_eq_self)
  have r: "?r = (unat v * 10 + unat (d - 48)) * 10 ^ length ds + digits_value ds"
    by (simp add: digits_value_Cons algebra_simps)
  have low: "unat v * 10 + unat (d - 48) \<le> ?r"
  proof -
    have "x * 1 \<le> x * 10 ^ length ds" for x :: nat
      by (rule mult_le_mono2) simp
    then show ?thesis unfolding r by (simp only: mult_1_right trans_le_add1)
  qed
  show ?case
  proof (cases "unat v * 10 + unat (d - 48) < 2 ^ 64")
    case True
    then have steps: "checked_mul v 10 = Some (v * 10)" "unat (v * 10) = unat v * 10"
      by (simp_all add: checked_mul_def unat_word_ariths)
    have add: "checked_add (v * 10) ?d = Some (v * 10 + ?d)"
      using True steps(2) d by (simp add: checked_add_def)
    then have "unat (v * 10 + ?d) = unat v * 10 + unat (d - 48)"
      using checked_add_Some [of "v * 10" ?d "v * 10 + ?d"] steps(2) d by simp
    moreover have "accumulate_from v (d # ds) = accumulate_from (v * 10 + ?d) ds"
      using steps(1) add by (simp add: Let_def)
    ultimately show ?thesis
      using Cons by (simp only: Cons.IH digits_simps r)
  next
    case False
    then have "accumulate_from v (d # ds) = Inl Overflow"
      using d by (auto simp: checked_mul_def checked_add_def unat_word_ariths Let_def)
    with False low show ?thesis by (simp add: Let_def)
  qed
qed

text \<open>What the checked steps amount to: the number itself, or \<open>Overflow\<close>.\<close>

definition as_u64 :: "nat \<Rightarrow> scale_error + u64" where
  "as_u64 r = (if r < 2 ^ 64 then Inr (word_of_nat r) else Inl Overflow)"

lemma as_u64_Inr: "as_u64 r = Inr w \<longleftrightarrow> r = unat w"
  using unat_u64_bound [of w] by (auto simp: as_u64_def unat_of_nat)

lemma accumulate_eq: "digits ds \<Longrightarrow> accumulate ds = as_u64 (digits_value ds)"
  by (simp add: accumulate_def accumulate_from_eq as_u64_def)

subsection \<open>The scaling\<close>

lemma position_None: "position P xs = None \<longleftrightarrow> (\<forall>x \<in> set xs. \<not> P x)"
  by (induction xs) auto

lemma position_Some: "position P xs = Some j \<Longrightarrow>
    j < length xs \<and> P (xs ! j) \<and> (\<forall>x \<in> set (take j xs). \<not> P x)"
  by (induction xs arbitrary: j) (auto split: if_splits)

lemma digits_value_zero_iff: "digits ds \<Longrightarrow> digits_value ds = 0 \<longleftrightarrow> (\<forall>b \<in> set ds. b = 48)"
proof (induction ds)
  case Nil
  then show ?case by simp
next
  case (Cons d ds)
  have "unat (d - 48) = 0 \<longleftrightarrow> d = 48"
    by (metis eq_iff_diff_eq_0 unat_0 unat_eq_zero)
  with Cons show ?case by (auto simp: digits_value_Cons)
qed

text \<open>Dropping the last \<open>n\<close> digits is division by \<open>10 ^ n\<close>; they are the remainder.\<close>

lemma digits_value_take_drop:
  assumes "digits ds" "n \<le> length ds"
  shows "digits_value (take (length ds - n) ds) = digits_value ds div 10 ^ n"
    and "digits_value (drop (length ds - n) ds) = digits_value ds mod 10 ^ n"
proof -
  let ?a = "take (length ds - n) ds" and ?b = "drop (length ds - n) ds"
  have b: "digits ?b" using assms(1) by simp
  have split: "digits_value ds = digits_value ?a * 10 ^ n + digits_value ?b"
    using digits_value_append [of ?a ?b] assms(2) by simp
  have lt: "digits_value ?b < 10 ^ n"
    using digits_value_bound [OF b] assms(2) by simp
  show "digits_value ?a = digits_value ds div 10 ^ n"
    using lt by (simp add: split)
  show "digits_value ?b = digits_value ds mod 10 ^ n"
    using lt by (simp add: split)
qed

text \<open>
  \<open>decimal_shift\<close> is how many digits of the value lie beyond the exponent (negative: how many
  are missing). The whole of \<open>scale_digits\<close> is then a statement about the number
  \<open>digits_value (i @ f)\<close>: multiply by the missing power, or divide by the power beyond.
\<close>

definition decimal_shift :: "bytes \<Rightarrow> i8 \<Rightarrow> int" where
  "decimal_shift f e = int (length f) + sint e"

lemma scale_digits_multiply:
  assumes "digits i" "digits f" "decimal_shift f e \<le> 0"
  shows "scale_digits i f e = as_u64 (digits_value (i @ f) * 10 ^ nat (- decimal_shift f e))"
proof -
  let ?z = "replicate (nat (- decimal_shift f e)) 48"
  have "scale_digits i f e = accumulate ((i @ f) @ ?z)"
    using assms(3) by (simp add: scale_digits_def decimal_shift_def Let_def)
  moreover have "digits_value ((i @ f) @ ?z) = digits_value (i @ f) * 10 ^ nat (- decimal_shift f e)"
    by (simp only: digits_value_append [of "i @ f"]) simp
  moreover have "digits ((i @ f) @ ?z)" using assms by simp
  ultimately show ?thesis by (simp only: accumulate_eq)
qed

text \<open>The last \<open>k\<close> digits are all zero exactly when \<open>10 ^ k\<close> divides the value.\<close>

lemma zeros_dvd:
  assumes "digits ds" "k \<le> length ds"
  shows "(\<forall>b \<in> set (take k (rev ds)). b = 48) \<longleftrightarrow> 10 ^ k dvd digits_value ds"
proof -
  let ?t = "drop (length ds - k) ds"
  have "digits ?t" using assms(1) by simp
  then have "digits_value ?t = 0 \<longleftrightarrow> (\<forall>b \<in> set ?t. b = 48)" by (rule digits_value_zero_iff)
  moreover have "set (take k (rev ds)) = set ?t" by (simp add: take_rev)
  moreover have "digits_value ?t = digits_value ds mod 10 ^ k"
    using assms by (rule digits_value_take_drop)
  ultimately show ?thesis by (simp add: dvd_eq_mod_eq_0)
qed

lemma zeros_dvd_min:
  assumes "digits ds"
  shows "(\<forall>b \<in> set (take (min n (length ds)) (rev ds)). b = 48) \<longleftrightarrow> 10 ^ n dvd digits_value ds"
proof (cases "n \<le> length ds")
  case True
  then show ?thesis using zeros_dvd [OF assms] by simp
next
  case False
  then have lt: "digits_value ds < 10 ^ n"
    by (intro less_le_trans [OF digits_value_bound [OF assms]] power_increasing) auto
  have "10 ^ n dvd digits_value ds \<longleftrightarrow> digits_value ds = 0"
    using lt by (auto simp: dvd_eq_mod_eq_0)
  with False show ?thesis by (simp add: digits_value_zero_iff [OF assms])
qed

lemma scale_digits_beyond:
  fixes i f :: bytes
  assumes "0 < decimal_shift f e" "n = nat (decimal_shift f e)" "ds = i @ f"
  shows "scale_digits i f e =
    (case precision_beyond (take (min n (length ds)) (rev ds)) (int n) of
       Some beyond \<Rightarrow> Inl (TooPrecise beyond)
     | None \<Rightarrow> (if n \<ge> length ds then Inr 0 else accumulate (take (length ds - n) ds)))"
proof -
  have n: "decimal_shift f e = int n" "0 < n" using assms by auto
  have kept: "(if length ds - n \<le> length i then accumulate (take (length ds - n) i)
      else accumulate (i @ take (length ds - n - length i) f)) = accumulate (take (length ds - n) ds)"
    by (simp add: assms(3))
  have "rev f @ rev i = rev ds" "length i + length f = length ds" by (simp_all add: assms(3))
  then show ?thesis
    using n kept by (simp only: scale_digits_def Let_def decimal_shift_def [symmetric] nat_int
        of_nat_le_0_iff if_False)
      (simp split: option.split)
qed

lemma scale_digits_divide:
  assumes "digits i" "digits f" "0 < decimal_shift f e"
    and dvd: "10 ^ nat (decimal_shift f e) dvd digits_value (i @ f)"
  shows "scale_digits i f e = as_u64 (digits_value (i @ f) div 10 ^ nat (decimal_shift f e))"
proof -
  let ?n = "nat (decimal_shift f e)" and ?ds = "i @ f"
  have ds: "digits ?ds" using assms by simp
  have "precision_beyond (take (min ?n (length ?ds)) (rev ?ds)) (int ?n) = None"
    using dvd zeros_dvd_min [OF ds, of ?n] by (auto simp: precision_beyond_def position_None)
  then have eq: "scale_digits i f e =
      (if ?n \<ge> length ?ds then Inr 0 else accumulate (take (length ?ds - ?n) ?ds))"
    by (simp only: scale_digits_beyond [OF assms(3) refl refl] option.case)
  show ?thesis
  proof (cases "length ?ds \<le> ?n")
    case True
    have "digits_value ?ds < 10 ^ length ?ds" using ds by (rule digits_value_bound)
    also have "\<dots> \<le> 10 ^ ?n" using True by (intro power_increasing) auto
    finally show ?thesis using eq True by (simp add: as_u64_def)
  next
    case False
    have "digits (take (length ?ds - ?n) ?ds)" using ds by (rule digits_take)
    then show ?thesis
      using eq False digits_value_take_drop(1) [OF ds, of ?n]
      by (simp only: accumulate_eq if_False linear not_le less_imp_le)
  qed
qed

lemma position_in_tail:
  assumes "position P (take (min n (length ds)) (rev ds)) = Some j"
  shows "j < n" "j < length ds" "P (rev ds ! j)" "\<forall>b \<in> set (take j (rev ds)). \<not> P b"
  using position_Some [OF assms] by (auto simp: min_def split: if_splits)

lemma scale_digits_too_precise:
  assumes "digits i" "digits f" "0 < decimal_shift f e"
    and dvd: "\<not> 10 ^ nat (decimal_shift f e) dvd digits_value (i @ f)"
  shows "\<exists>j < nat (decimal_shift f e).
     scale_digits i f e = Inl (TooPrecise (word_of_nat (nat (decimal_shift f e) - j))) \<and>
     10 ^ j dvd digits_value (i @ f) \<and> \<not> 10 ^ Suc j dvd digits_value (i @ f)"
proof -
  let ?n = "nat (decimal_shift f e)" and ?ds = "i @ f"
  let ?risk = "take (min ?n (length ?ds)) (rev ?ds)"
  have ds: "digits ?ds" using assms by simp
  obtain j where j: "position (\<lambda>b. b \<noteq> 48) ?risk = Some j"
    using dvd zeros_dvd_min [OF ds, of ?n] position_None [of "\<lambda>b. b \<noteq> 48" ?risk] by fastforce
  note found = position_in_tail [OF j]
  have lt: "j < ?n" "j < length ?ds" and nz: "rev ?ds ! j \<noteq> 48"
    and z: "\<forall>b \<in> set (take j (rev ?ds)). b = 48"
    using found(1) found(2) found(3) found(4) by blast+
  have "precision_beyond ?risk (int ?n) = Some (word_of_int (int ?n - int j))"
    by (simp only: precision_beyond_def j option.map)
  also have "int ?n - int j = int (?n - j)" using lt by simp
  finally have "precision_beyond ?risk (int ?n) = Some (word_of_nat (?n - j))"
    by (simp only: of_int_of_nat_eq)
  then have "scale_digits i f e = Inl (TooPrecise (word_of_nat (?n - j)))"
    by (simp only: scale_digits_beyond [OF assms(3) refl refl] option.case)
  moreover have "10 ^ j dvd digits_value ?ds"
    using zeros_dvd [OF ds, of j] z lt by simp
  moreover have "\<not> 10 ^ Suc j dvd digits_value ?ds"
  proof -
    have "rev ?ds ! j \<in> set (take (Suc j) (rev ?ds))"
      using lt by (simp add: take_Suc_conv_app_nth del: rev_append)
    then show ?thesis
      using zeros_dvd [OF ds, of "Suc j"] nz lt by (auto simp del: set_rev)
  qed
  ultimately show ?thesis using lt by blast
qed

text \<open>All of it in one statement: a raw value is returned exactly when it is the exact one.\<close>

abbreviation exact_at :: "nat \<Rightarrow> int \<Rightarrow> nat \<Rightarrow> bool" where
  "exact_at D shift r \<equiv> r * 10 ^ nat shift = D * 10 ^ nat (- shift)"

lemma scale_digits_exact:
  assumes "digits i" "digits f"
  shows "scale_digits i f e = Inr w \<longleftrightarrow>
    exact_at (digits_value (i @ f)) (decimal_shift f e) (unat w)"
proof (cases "decimal_shift f e \<le> 0")
  case True
  then show ?thesis
    using scale_digits_multiply [OF assms True] by (auto simp: as_u64_Inr)
next
  case False
  let ?D = "digits_value (i @ f)" and ?p = "10 ^ nat (decimal_shift f e) :: nat"
  from False have pos: "0 < decimal_shift f e" and z: "nat (- decimal_shift f e) = 0" by auto
  show ?thesis
  proof (cases "?p dvd ?D")
    case True
    then have "?D div ?p = unat w \<longleftrightarrow> unat w * ?p = ?D" by auto
    then show ?thesis
      using scale_digits_divide [OF assms pos True] z by (simp add: as_u64_Inr)
  next
    case False
    then have "unat w * ?p \<noteq> ?D" by (metis dvd_triv_right)
    then show ?thesis
      using scale_digits_too_precise [OF assms pos False] z by auto
  qed
qed

lemma sint_u64:
  "sint (w :: u64) = (if unat w < 2 ^ 63 then int (unat w) else int (unat w) - 2 ^ 64)"
proof -
  have bounds: "0 \<le> uint w" "uint w < 2 ^ 64" using uint_lt2p [of w] by simp_all
  have eq: "sint w = (uint w + 2 ^ 63) mod 2 ^ 64 - 2 ^ 63"
    by (simp add: sint_uint signed_take_bit_eq_take_bit_shift take_bit_eq_mod)
  have high: "(uint w + 2 ^ 63) mod 2 ^ 64 = uint w - 2 ^ 63" if "2 ^ 63 \<le> uint w"
  proof -
    have "uint w + 2 ^ 63 = (uint w - 2 ^ 63) + 2 ^ 64" by simp
    also have "\<dots> mod 2 ^ 64 = (uint w - 2 ^ 63) mod 2 ^ 64" by (rule mod_add_self2)
    also have "\<dots> = uint w - 2 ^ 63" using that bounds by (intro mod_pos_pos_trivial) auto
    finally show ?thesis .
  qed
  have low: "(uint w + 2 ^ 63) mod 2 ^ 64 = uint w + 2 ^ 63" if "uint w < 2 ^ 63"
    using that bounds by (intro mod_pos_pos_trivial) auto
  have u: "int (unat w) = uint w" by simp
  show ?thesis
  proof (cases "uint w < 2 ^ 63")
    case True
    then have "unat w < 2 ^ 63" using u by (metis of_nat_less_iff of_nat_numeral of_nat_power)
    with True low eq u show ?thesis by simp
  next
    case False
    then have "\<not> unat w < 2 ^ 63" using u by (metis of_nat_less_iff of_nat_numeral of_nat_power)
    with False high eq u show ?thesis by simp
  qed
qed

lemma sint_u64_inj: "sint (v :: u64) = sint w \<Longrightarrow> v = w"
  by (rule signed_word_eqI)

lemma sint_u64_neg: "unat (m :: u64) < 2 ^ 63 \<Longrightarrow> sint (- m) = - int (unat m)"
proof -
  assume small: "unat m < 2 ^ 63"
  then have m: "sint m = int (unat m)" by (simp add: sint_u64)
  have "sint (- m) = signed_take_bit 63 (- sint m)"
    by (simp add: sint_word_ariths)
  also have "\<dots> = - sint m"
    using small m by (intro signed_take_bit_int_eq_self) (auto simp del: of_nat_unat)
  finally show ?thesis by (simp add: m)
qed

lemma i64_limits: "unat (push_bit 63 1 :: u64) = 2 ^ 63" "unat (push_bit 63 1 - 1 :: u64) = 2 ^ 63 - 1"
  by simp_all

lemma to_signed_exact:
  "to_signed m negative = Inr w \<longleftrightarrow> sint w = (if negative then - int (unat m) else int (unat m))"
proof (cases "unat m < 2 ^ 63")
  case True
  then have le: "m \<le> push_bit 63 1 - 1" and ne: "m \<noteq> push_bit 63 1"
    using i64_limits by (auto simp: word_le_nat_alt)
  show ?thesis
  proof (cases negative)
    case True
    then have "to_signed m negative = Inr (- m)"
      using le ne by (simp add: to_signed_def Let_def)
    then show ?thesis
      using True sint_u64_neg [OF \<open>unat m < 2 ^ 63\<close>] sint_u64_inj [of w "- m"] by auto
  next
    case False
    then have "to_signed m negative = Inr m"
      using le by (simp add: to_signed_def Let_def)
    moreover have "sint m = int (unat m)" using \<open>unat m < 2 ^ 63\<close> by (simp add: sint_u64)
    ultimately show ?thesis using False sint_u64_inj [of w m] by auto
  qed
next
  case False
  then have le: "\<not> m \<le> push_bit 63 1 - 1"
    by (simp add: word_le_nat_alt)
  have range: "sint w < 2 ^ 63" "- (2 ^ 63) \<le> sint w"
    using sint_lt [of w] sint_ge [of w] by simp_all
  have top: "m = push_bit 63 1 \<longleftrightarrow> unat m = 2 ^ 63"
    using i64_limits(1) by (simp add: word_unat_eq_iff)
  have min: "sint (push_bit 63 1 :: u64) = - (2 ^ 63)"
    using i64_limits(1) by (simp only: sint_u64) simp
  show ?thesis
  proof (cases "negative \<and> m = push_bit 63 1")
    case True
    then have "to_signed m negative = Inr (push_bit 63 1)" by (simp add: to_signed_def Let_def)
    with True min top show ?thesis using sint_u64_inj [of w "push_bit 63 1"] by auto
  next
    case False
    then have "to_signed m negative = Inl Overflow"
      using le by (auto simp: to_signed_def Let_def)
    moreover have "sint w \<noteq> (if negative then - int (unat m) else int (unat m))"
      using False \<open>\<not> unat m < 2 ^ 63\<close> range top by (auto simp del: of_nat_unat)
    ultimately show ?thesis by simp
  qed
qed

subsection \<open>Parsing\<close>

lemma strip_minus_digits: "is_digit b \<Longrightarrow> strip_minus (b # bs) = (False, b # bs)"
  by (auto simp: is_digit_def)

lemma decimal_no_minus: "decimal s i f \<Longrightarrow> strip_minus s = (False, s)"
  by (cases i) (auto simp: decimal_def is_digit_def split: if_splits)

lemma parse_unsigned_decimal:
  "decimal s i f \<Longrightarrow> parse_unsigned s e = scale_digits i f e"
  using decimal_no_minus [of s i f] by (simp add: parse_unsigned_def split_digits_Inr [symmetric])

lemma ex_u64: "(\<exists>m :: u64. P (unat m)) \<longleftrightarrow> (\<exists>m. P m \<and> m < 2 ^ 64)"
proof
  assume "\<exists>m :: u64. P (unat m)"
  then obtain m :: u64 where "P (unat m)" ..
  then show "\<exists>m. P m \<and> m < 2 ^ 64"
    using unat_u64_bound [of m] by (intro exI [of _ "unat m"]) simp
next
  assume "\<exists>m. P m \<and> m < 2 ^ 64"
  then obtain m where m: "P m" "m < 2 ^ 64" by blast
  then have "unat (word_of_nat m :: u64) = m" by (simp add: unat_of_nat)
  then show "\<exists>m :: u64. P (unat m)" using m(1) by (intro exI [of _ "word_of_nat m"]) simp
qed

lemma not_decimal: "(\<nexists>i f. decimal s i f) \<Longrightarrow> split_digits s = Inl Malformed"
  using split_digits_Inl [of s] split_digits_Inr [of s] by (cases "split_digits s") fastforce+

lemma parse_unsigned_malformed:
  "(\<nexists>i f. decimal s i f) \<Longrightarrow> parse_unsigned s e = Inl Malformed"
  by (simp add: parse_unsigned_def not_decimal)

text \<open>
  Parsing an unsigned quantity is exact in both directions. \<open>parse_unsigned\<close> returns a raw
  value exactly when the text is in the accepted grammar (digits, optionally a dot and digits)
  and the raw value at the exponent is the very number the text denotes: never a rounded one,
  never one that wrapped.
\<close>

theorem parse_unsigned_exact:
  "parse_unsigned s e = Inr w \<longleftrightarrow>
     (\<exists>i f. decimal s i f \<and> exact_at (digits_value (i @ f)) (decimal_shift f e) (unat w))"
proof (cases "\<exists>i f. decimal s i f")
  case True
  then obtain i f where d: "decimal s i f" by blast
  then have "digits i" "digits f" by (auto simp: decimal_def)
  then have "parse_unsigned s e = Inr w \<longleftrightarrow>
      exact_at (digits_value (i @ f)) (decimal_shift f e) (unat w)"
    by (simp only: parse_unsigned_decimal [OF d] scale_digits_exact)
  then show ?thesis using d decimal_unique [OF d] by blast
next
  case False
  then show ?thesis by (auto simp: parse_unsigned_malformed)
qed

text \<open>
  Parsing a signed price is exact in both directions: \<open>parse_signed\<close> returns a raw value
  exactly when the text is an optional minus and a number of the grammar, and the two's
  complement value of the result at the exponent is the number the text denotes. \<open>i64::MIN\<close>,
  whose magnitude no positive \<open>i64\<close> has, is included.
\<close>

theorem parse_signed_exact:
  "parse_signed s e = Inr w \<longleftrightarrow>
     (\<exists>i f m. decimal (snd (strip_minus s)) i f \<and>
        exact_at (digits_value (i @ f)) (decimal_shift f e) m \<and>
        m < 2 ^ 64 \<and> sint w = (if fst (strip_minus s) then - int m else int m))"
proof -
  let ?r = "snd (strip_minus s)" and ?neg = "fst (strip_minus s)"
  have eq: "parse_signed s e = Inr w \<longleftrightarrow>
      (\<exists>i f m. decimal ?r i f \<and> scale_digits i f e = Inr m \<and> to_signed m ?neg = Inr w)"
    by (auto simp: parse_signed_def split_beta split_digits_Inr)
  have "scale_digits i f e = Inr m \<longleftrightarrow>
      exact_at (digits_value (i @ f)) (decimal_shift f e) (unat m)" if "decimal ?r i f" for i f m
    using that by (intro scale_digits_exact) (auto simp: decimal_def)
  then have "parse_signed s e = Inr w \<longleftrightarrow>
      (\<exists>i f. decimal ?r i f \<and> (\<exists>m :: u64. exact_at (digits_value (i @ f)) (decimal_shift f e) (unat m) \<and>
         sint w = (if ?neg then - int (unat m) else int (unat m))))"
    unfolding eq to_signed_exact by metis
  then show ?thesis
    unfolding ex_u64 [where P = "\<lambda>m. exact_at d x m \<and> sint w = (if b then - int m else int m)" for d x b]
    by (simp only: conj_assoc ex_simps conj_commute conj_left_commute)
qed

end
