(* ===== verification/Scaling.thy ===== *)
theory Scaling
  imports Fixed_Point "HOL-Library.Signed_Division"
begin

section \<open>Venue units to wire units\<close>

text \<open>
  \<open>scale.rs\<close>, \<open>contract.rs\<close>, \<open>source.rs\<close> and \<open>error.rs\<close> of \<open>dz-publisher-lowering\<close>, with
  \<open>Scalar\<close> of \<open>dz-adapter-core\<close>. A number arrives as text or as a mantissa and an exponent and
  leaves as an integer at the instrument's exponent, exactly or not at all. The machine integers
  are words at the interface; inside, a checked operation is the operation on \<open>int\<close> followed by
  the range test, and Rust's truncating division is \<open>sdiv\<close> and \<open>smod\<close>. The reference is the
  equation between two scaled integers, \<open>same_amount\<close>.
\<close>

subsection \<open>Numbers of a venue\<close>

datatype scalar = ScalarText bytes | ScalarFixed i64 i8

datatype lowering_error =
    UnknownInstrument
  | InexactContract string
  | Scale string scale_error

fun lowering_reason :: "lowering_error \<Rightarrow> string" where
  "lowering_reason UnknownInstrument = ''unknown_instrument''"
| "lowering_reason (InexactContract field) = ''inexact_contract''"
| "lowering_reason (Scale field (TooPrecise beyond)) = ''too_precise''"
| "lowering_reason (Scale field Malformed) = ''malformed''"
| "lowering_reason (Scale field Overflow) = ''overflow''"

fun lowering_field :: "lowering_error \<Rightarrow> string option" where
  "lowering_field UnknownInstrument = None"
| "lowering_field (InexactContract field) = Some field"
| "lowering_field (Scale field e) = Some field"

definition scale_err :: "string \<Rightarrow> scale_error + 'a \<Rightarrow> lowering_error + 'a" where
  "scale_err field = map_sum (Scale field) id"

definition source_id_new :: "u16 \<Rightarrow> u16 option" where
  "source_id_new w = (if (1 \<le> w \<and> w \<le> 1023) \<or> 32768 \<le> w then Some w else None)"

subsection \<open>Rescaling\<close>

definition i64_of :: "int \<Rightarrow> i64 option" where
  "i64_of x = (if - (2 ^ 63) \<le> x \<and> x < 2 ^ 63 then Some (word_of_int x) else None)"

definition u64_of :: "int \<Rightarrow> u64 option" where
  "u64_of x = (if 0 \<le> x \<and> x < 2 ^ 64 then Some (word_of_int x) else None)"

definition i128_of :: "int \<Rightarrow> int option" where
  "i128_of x = (if - (2 ^ 127) \<le> x \<and> x < 2 ^ 127 then Some x else None)"

definition power_of_ten :: "int \<Rightarrow> scale_error + int" where
  "power_of_ten ds = (if 0 \<le> ds \<and> 10 ^ nat ds < (2 :: int) ^ 63 then Inr (10 ^ nat ds) else Inl Overflow)"

text \<open>
  The loop that strips the trailing zeros of a remainder. The code's loop would not end at zero;
  its only caller passes a non-zero remainder.
\<close>

function trailing_zeros :: "int \<Rightarrow> nat" where
  "trailing_zeros rest =
    (if rest \<noteq> 0 \<and> rest smod 10 = 0 then Suc (trailing_zeros (rest sdiv 10)) else 0)"
  by auto
termination
  by (relation "measure (\<lambda>r. nat \<bar>r\<bar>)")
    (auto simp: signed_divide_int_def abs_mult abs_sgn_eq nat_less_iff split: if_splits)

definition remainder_beyond :: "int \<Rightarrow> int \<Rightarrow> u32" where
  "remainder_beyond rest ds = word_of_int ds - word_of_nat (trailing_zeros rest)"

definition rescale_signed :: "i64 \<Rightarrow> i8 \<Rightarrow> i8 \<Rightarrow> scale_error + i64" where
  "rescale_signed mantissa from_exp to_exp =
    (if mantissa = 0 then Inr 0
     else let shift = sint from_exp - sint to_exp in
       if shift = 0 then Inr mantissa
       else if shift > 0
       then bind_ok (power_of_ten shift) (\<lambda>factor. ok_or Overflow (i64_of (sint mantissa * factor)))
       else bind_ok (power_of_ten (- shift)) (\<lambda>divisor.
         let rest = sint mantissa smod divisor in
         if rest = 0 then Inr (word_of_int (sint mantissa sdiv divisor))
         else Inl (TooPrecise (remainder_beyond rest (- shift)))))"

definition price_at :: "scalar \<Rightarrow> i8 \<Rightarrow> scale_error + i64" where
  "price_at v exponent = (case v of
     ScalarText txt' \<Rightarrow> parse_signed txt' exponent
   | ScalarFixed mantissa from_exp \<Rightarrow> rescale_signed mantissa from_exp exponent)"

definition qty_at :: "scalar \<Rightarrow> i8 \<Rightarrow> scale_error + u64" where
  "qty_at v exponent = (case v of
     ScalarText txt' \<Rightarrow> parse_unsigned txt' exponent
   | ScalarFixed mantissa from_exp \<Rightarrow>
       if sint mantissa < 0 then Inl Malformed
       else bind_ok (rescale_signed mantissa from_exp exponent)
         (\<lambda>raw. ok_or Malformed (u64_of (sint raw))))"

subsection \<open>Contract sizes\<close>

datatype contract_size = ContractSize (cs_mantissa: i64) (cs_exponent: i8)

definition TEXT_EXPONENT :: i8 where "TEXT_EXPONENT = - 9"

definition contract_new :: "i64 \<Rightarrow> i8 \<Rightarrow> contract_size option" where
  "contract_new mantissa exponent =
     (if sint mantissa \<le> 0 then None else Some (ContractSize mantissa exponent))"

definition contract_from_scalar :: "scalar \<Rightarrow> contract_size option" where
  "contract_from_scalar v = (case v of
     ScalarFixed mantissa exponent \<Rightarrow> contract_new mantissa exponent
   | ScalarText txt' \<Rightarrow> (case parse_signed txt' TEXT_EXPONENT of
       Inl e \<Rightarrow> None
     | Inr mantissa \<Rightarrow> contract_new mantissa TEXT_EXPONENT))"

definition fixed_parts :: "scalar \<Rightarrow> i8 \<Rightarrow> string \<Rightarrow> lowering_error + (i64 \<times> i8)" where
  "fixed_parts v text_exponent field = (case v of
     ScalarFixed mantissa exponent \<Rightarrow> Inr (mantissa, exponent)
   | ScalarText txt' \<Rightarrow> bind_ok (scale_err field (parse_signed txt' text_exponent))
       (\<lambda>mantissa. Inr (mantissa, text_exponent)))"

definition power_of_ten_i128 :: "int \<Rightarrow> int option" where
  "power_of_ten_i128 ds = (if ds < 0 then None else i128_of (10 ^ nat ds))"

function strip_tens :: "int \<Rightarrow> int" where
  "strip_tens v = (if 0 < v \<and> v mod 10 = 0 then strip_tens (v div 10) else v)"
  by auto
termination
  by (relation "measure nat") (auto simp: nat_less_iff)

declare strip_tens.simps [simp del] trailing_zeros.simps [simp del]

definition is_power_of_ten :: "int \<Rightarrow> bool" where
  "is_power_of_ten v \<longleftrightarrow> 0 < v \<and> strip_tens v = 1"

definition exact :: "int \<Rightarrow> int \<Rightarrow> int \<Rightarrow> string \<Rightarrow> lowering_error + int" where
  "exact numerator denominator shift field =
    (let overflow = Scale field Overflow in
     bind_ok
       (if 0 \<le> shift
        then bind_ok (ok_or overflow (power_of_ten_i128 shift)) (\<lambda>p.
             bind_ok (ok_or overflow (i128_of (numerator * p))) (\<lambda>n. Inr (n, denominator)))
        else bind_ok (ok_or overflow (power_of_ten_i128 (- shift))) (\<lambda>p.
             bind_ok (ok_or overflow (i128_of (denominator * p))) (\<lambda>d. Inr (numerator, d))))
       (\<lambda>(n, d).
         if n smod d \<noteq> 0
         then Inl (if is_power_of_ten d then Scale field (TooPrecise 1) else InexactContract field)
         else Inr (n sdiv d)))"

record instrument =
  in_instrument_id :: u32
  in_price_exponent :: i8
  in_qty_exponent :: i8
  in_quoted_per_contract :: "contract_size option"

definition price_for :: "instrument \<Rightarrow> scalar \<Rightarrow> string \<Rightarrow> lowering_error + i64" where
  "price_for inst v field = (case in_quoted_per_contract inst of
     None \<Rightarrow> scale_err field (price_at v (in_price_exponent inst))
   | Some contract \<Rightarrow>
       bind_ok (fixed_parts v (in_price_exponent inst) field) (\<lambda>(mantissa, exponent).
         let shift = sint exponent - sint (cs_exponent contract) - sint (in_price_exponent inst) in
         bind_ok (exact (sint mantissa) (sint (cs_mantissa contract)) shift field) (\<lambda>raw.
           ok_or (Scale field Overflow) (i64_of raw))))"

definition qty_for :: "instrument \<Rightarrow> scalar \<Rightarrow> string \<Rightarrow> lowering_error + u64" where
  "qty_for inst v field = (case in_quoted_per_contract inst of
     None \<Rightarrow> scale_err field (qty_at v (in_qty_exponent inst))
   | Some contract \<Rightarrow>
       bind_ok (fixed_parts v (in_qty_exponent inst) field) (\<lambda>(mantissa, exponent).
         if sint mantissa < 0 then Inl (Scale field Malformed)
         else
           bind_ok (ok_or (Scale field Overflow)
               (i128_of (sint mantissa * sint (cs_mantissa contract)))) (\<lambda>product.
             let shift = sint exponent + sint (cs_exponent contract) - sint (in_qty_exponent inst) in
             bind_ok (exact product 1 shift field) (\<lambda>raw.
               ok_or (Scale field Overflow) (u64_of raw)))))"

subsection \<open>Exactness\<close>

text \<open>\<open>m\<close> at exponent \<open>e\<close> and \<open>w\<close> at exponent \<open>t\<close> are one number.\<close>

definition same_amount :: "int \<Rightarrow> int \<Rightarrow> int \<Rightarrow> int \<Rightarrow> bool" where
  "same_amount m e w t \<longleftrightarrow> m * 10 ^ nat (e - t) = w * 10 ^ nat (t - e)"

lemma smod_zero_iff: "d \<noteq> 0 \<Longrightarrow> x smod d = 0 \<longleftrightarrow> d dvd (x :: int)"
  by (auto simp: signed_modulo_int_def sgn_0_0 dvd_eq_mod_eq_0 [symmetric])

lemma sdiv_exact: "d dvd (x :: int) \<Longrightarrow> 0 < d \<Longrightarrow> x sdiv d * d = x"
  by (auto simp: signed_divide_int_def abs_mult sgn_mult abs_sgn_eq sgn_mult_abs
      elim!: dvdE split: if_splits)

lemma smod_cases: "0 < d \<Longrightarrow> x smod d = 0 \<longleftrightarrow> (\<exists>q. x = q * (d :: int))"
  by (auto simp: smod_zero_iff dvd_def mult.commute)

lemma sdiv_of_mult: "0 < d \<Longrightarrow> (q * d) sdiv d = (q :: int)"
  using sdiv_exact [of d "q * d"] by simp

lemma sint_i64_range: "- (2 ^ 63) \<le> sint (w :: i64)" "sint (w :: i64) < 2 ^ 63"
  using sint_range_size [of w] by (simp_all add: word_size)

lemma i64_of_eq: "i64_of x = Some w \<longleftrightarrow> x = sint w"
proof
  assume "i64_of x = Some w"
  then show "x = sint w"
    by (auto simp: i64_of_def int_word_sint mod_pos_pos_trivial split: if_splits)
next
  assume "x = sint w"
  then show "i64_of x = Some w"
    using sint_i64_range [of w] by (simp add: i64_of_def)
qed

lemma u64_of_eq: "u64_of x = Some w \<longleftrightarrow> x = uint w"
proof
  assume "u64_of x = Some w"
  then show "x = uint w"
    by (auto simp: u64_of_def uint_word_of_int take_bit_int_eq_self split: if_splits)
next
  assume "x = uint w"
  then show "u64_of x = Some w"
    using uint_lt2p [of w] uint_ge_0 [of w] by (simp add: u64_of_def)
qed

lemma pow_ten_63: "(10 :: int) ^ n < 2 ^ 63 \<longleftrightarrow> n \<le> 18"
proof
  assume "(10 :: int) ^ n < 2 ^ 63"
  then show "n \<le> 18"
    using power_increasing [of 19 n "10 :: int"] by (cases "n \<le> 18") auto
next
  assume "n \<le> 18"
  then show "(10 :: int) ^ n < 2 ^ 63"
    using power_increasing [of n 18 "10 :: int"] by simp
qed

lemma pow_ten_big: "\<not> n \<le> 18 \<Longrightarrow> (2 :: int) ^ 63 < 10 ^ n"
  using power_increasing [of 19 n "10 :: int"] by simp

lemma too_big_product: "(k :: int) < p \<Longrightarrow> m \<noteq> 0 \<Longrightarrow> k < \<bar>m * p\<bar>"
proof -
  assume "k < p" "m \<noteq> 0"
  then have "1 \<le> \<bar>m\<bar>" by linarith
  then have "\<bar>p\<bar> \<le> \<bar>m\<bar> * \<bar>p\<bar>"
    using mult_right_mono [of 1 "\<bar>m\<bar>" "\<bar>p\<bar>"] by simp
  with \<open>k < p\<close> show ?thesis by (simp add: abs_mult)
qed

lemma rescale_exact:
  "rescale_signed m f t = Inr w \<longleftrightarrow> same_amount (sint m) (sint f) (sint w) (sint t)"
proof -
  define s where "s = sint f - sint t"
  have amount: "same_amount (sint m) (sint f) (sint w) (sint t) \<longleftrightarrow>
      sint m * 10 ^ nat s = sint w * 10 ^ nat (- s)"
    by (simp add: same_amount_def s_def)
  have nz: "m \<noteq> 0 \<Longrightarrow> sint m \<noteq> 0"
    using sint_u64_inj [of m 0] by auto
  consider "m = 0" | "m \<noteq> 0" "s = 0" | "m \<noteq> 0" "s > 0" | "m \<noteq> 0" "s < 0" by linarith
  then show ?thesis
  proof cases
    case 1
    then show ?thesis unfolding amount using sint_u64_inj [of w 0] by (auto simp: rescale_signed_def)
  next
    case 2
    then show ?thesis
      using sint_u64_inj [of m w] by (auto simp: rescale_signed_def s_def [symmetric] amount Let_def)
  next
    case 3
    show ?thesis
    proof (cases "nat s \<le> 18")
      case True
      then have "power_of_ten s = Inr (10 ^ nat s)"
        using 3 pow_ten_63 by (simp add: power_of_ten_def)
      then show ?thesis
        using 3 by (simp add: rescale_signed_def s_def [symmetric] amount i64_of_eq Let_def)
    next
      case False
      then have "power_of_ten s = Inl Overflow"
        using pow_ten_big [OF False] by (simp add: power_of_ten_def)
      moreover have "sint m * 10 ^ nat s \<noteq> sint w"
        using too_big_product [OF pow_ten_big [OF False] nz [OF 3(1)]] sint_i64_range [of w]
        by (auto simp: abs_if split: if_splits)
      ultimately show ?thesis
        using 3 by (simp add: rescale_signed_def s_def [symmetric] amount Let_def)
    qed
  next
    case 4
    show ?thesis
    proof (cases "nat (- s) \<le> 18")
      case True
      then have p: "power_of_ten (- s) = Inr (10 ^ nat (- s))"
        using 4 pow_ten_63 by (simp add: power_of_ten_def)
      let ?d = "10 ^ nat (- s) :: int"
      have "sint m smod ?d = 0 \<Longrightarrow> word_of_int (sint m sdiv ?d) = w \<longleftrightarrow> sint m = sint w * ?d"
      proof -
        assume "sint m smod ?d = 0"
        then obtain q where q: "sint m = q * ?d" by (auto simp: smod_cases)
        have "\<bar>q\<bar> \<le> \<bar>sint m\<bar>"
          using mult_left_mono [of 1 ?d "\<bar>q\<bar>"] by (simp add: q abs_mult)
        moreover have "q < 0 \<longleftrightarrow> sint m < 0"
          by (simp add: q mult_less_0_iff)
        ultimately have "i64_of q = Some (word_of_int q)"
          using sint_i64_range [of m] by (auto simp: i64_of_def)
        then have "sint (word_of_int q :: i64) = q"
          by (simp only: i64_of_eq)
        then show ?thesis
          by (auto simp: q sdiv_of_mult)
      qed
      moreover have "sint m = sint w * ?d \<Longrightarrow> sint m smod ?d = 0"
        by (auto simp: smod_cases)
      ultimately show ?thesis
        using 4 p by (auto simp: rescale_signed_def s_def [symmetric] amount Let_def)
    next
      case False
      then have "power_of_ten (- s) = Inl Overflow"
        using pow_ten_big [OF False] by (simp add: power_of_ten_def)
      moreover have "sint m \<noteq> sint w * 10 ^ nat (- s)"
        using too_big_product [OF pow_ten_big [OF False], of "sint w"] nz [OF 4(1)] sint_i64_range [of m]
        by (cases "sint w = 0") (auto simp: abs_if split: if_splits)
      ultimately show ?thesis
        using 4 by (simp add: rescale_signed_def s_def [symmetric] amount Let_def)
    qed
  qed
qed

lemma same_amount_sign:
  "same_amount m e w t \<Longrightarrow> 0 \<le> w \<Longrightarrow> 0 \<le> m"
  unfolding same_amount_def
  by (metis mult_nonneg_nonneg mult_less_0_iff not_le zero_less_numeral zero_less_power less_le_not_le)

lemma uint_as_i64: "uint (v :: u64) < 2 ^ 63 \<Longrightarrow> sint (word_of_int (uint v) :: i64) = uint v"
  using i64_of_eq [of "uint v" "word_of_int (uint v)"] uint_ge_0 [of v]
  by (simp add: i64_of_def)


subsection \<open>Exactness through a contract\<close>

lemma exact_Inr:
  assumes "0 < d"
  shows "exact n d s field = Inr r \<longleftrightarrow>
    (if 0 \<le> s then 10 ^ nat s < (2 :: int) ^ 127 \<and> - (2 ^ 127) \<le> n * 10 ^ nat s \<and>
        n * 10 ^ nat s < 2 ^ 127 \<and> n * 10 ^ nat s = r * d
     else 10 ^ nat (- s) < (2 :: int) ^ 127 \<and> d * 10 ^ nat (- s) < 2 ^ 127 \<and>
        n = r * (d * 10 ^ nat (- s)))"
proof -
  have pow: "- (2 ^ 127) \<le> (10 :: int) ^ k" for k
    by (rule order_trans [of _ 0]) simp_all
  have quot: "x smod y = 0 \<and> x sdiv y = r \<longleftrightarrow> x = r * y" if "0 < y" for x y :: int
    using that smod_cases [OF that, of x] by (auto simp: sdiv_of_mult [OF that])
  have pos: "0 < d * 10 ^ k" "- (2 ^ 127) \<le> d * 10 ^ k" for k
    using assms mult_pos_pos [of d "10 ^ k"] by (auto intro: order_trans [of _ 0])
  have step: "(if x smod y \<noteq> 0 then Inl e else Inr (x sdiv y)) = Inr r \<longleftrightarrow> x = r * y"
    if "0 < y" for x y and e :: lowering_error
    using quot [OF that, of x] by auto
  show ?thesis
    using pow pos step [OF assms] step [OF pos(1)]
    by (auto simp: exact_def Let_def power_of_ten_i128_def i128_of_def split: if_splits)
qed

lemma contract_new_positive:
  "contract_new k ke = Some c \<Longrightarrow> 0 < sint (cs_mantissa c) \<and> cs_mantissa c = k \<and> cs_exponent c = ke"
  by (auto simp: contract_new_def split: if_splits)

lemma power_at_most: "(x :: int) \<noteq> 0 \<Longrightarrow> 0 < p \<Longrightarrow> \<bar>x * p\<bar> < b \<Longrightarrow> p < b"
proof -
  assume "x \<noteq> 0" "0 < p" "\<bar>x * p\<bar> < b"
  moreover from this have "1 * p \<le> \<bar>x\<bar> * p" by (intro mult_right_mono) auto
  moreover have "\<bar>x * p\<bar> = \<bar>x\<bar> * p" using \<open>0 < p\<close> by (simp add: abs_mult)
  ultimately show ?thesis by linarith
qed

lemma product_bound:
  "\<bar>a :: int\<bar> \<le> A \<Longrightarrow> \<bar>b\<bar> \<le> B \<Longrightarrow> A * B < C \<Longrightarrow> \<bar>a * b\<bar> < C"
  using mult_mono [of "\<bar>a\<bar>" A "\<bar>b\<bar>" B] order_trans [OF abs_ge_zero, of a A] by (simp add: abs_mult)

text \<open>Away from zero no bound on the way can refuse a number whose result is within bounds.\<close>

lemma exact_amount:
  assumes "0 < d" "n \<noteq> 0" "\<bar>n\<bar> < 2 ^ 127" "\<bar>r * d\<bar> < 2 ^ 127"
  shows "exact n d s field = Inr r \<longleftrightarrow> n * 10 ^ nat s = r * d * 10 ^ nat (- s)"
proof (cases "0 \<le> s")
  case True
  have "10 ^ nat s < (2 :: int) ^ 127 \<and> - (2 ^ 127) \<le> n * 10 ^ nat s \<and> n * 10 ^ nat s < 2 ^ 127"
    if "n * 10 ^ nat s = r * d"
    using power_at_most [OF assms(2), of "10 ^ nat s" "2 ^ 127"] assms(4) that by auto
  then show ?thesis
    using True by (auto simp: exact_Inr [OF assms(1)])
next
  case False
  have "10 ^ nat (- s) < (2 :: int) ^ 127 \<and> d * 10 ^ nat (- s) < 2 ^ 127"
    if eq: "n = r * (d * 10 ^ nat (- s))"
  proof -
    have "r \<noteq> 0" "0 < d * 10 ^ nat (- s)"
      using eq assms(1,2) by auto
    then have "d * 10 ^ nat (- s) < 2 ^ 127"
      using power_at_most [of r "d * 10 ^ nat (- s)" "2 ^ 127"] assms(3) eq by simp
    moreover have "10 ^ nat (- s) \<le> d * 10 ^ nat (- s)"
      using mult_right_mono [of 1 d "10 ^ nat (- s)"] assms(1) by simp
    ultimately show ?thesis by linarith
  qed
  then show ?thesis
    using False by (auto simp: exact_Inr [OF assms(1)] mult.assoc)
qed

lemma scaled_amount:
  "n * 10 ^ nat (a - b) = r * k * 10 ^ nat (- (a - b)) \<longleftrightarrow> same_amount n a (r * k) b"
  by (simp add: same_amount_def)

lemma contract_price_exact:
  assumes k: "0 < sint k" and inst: "in_quoted_per_contract inst = Some (ContractSize k ke)"
    and m: "m \<noteq> 0"
  shows "price_for inst (ScalarFixed m e) field = Inr w \<longleftrightarrow>
      same_amount (sint m) (sint e) (sint w * sint k) (sint (in_price_exponent inst) + sint ke)"
proof -
  let ?s = "sint e - sint ke - sint (in_price_exponent inst)"
  have m: "sint m \<noteq> 0" "\<bar>sint m\<bar> \<le> 2 ^ 63" "\<bar>sint k\<bar> \<le> 2 ^ 63"
    using m sint_u64_inj [of m 0] sint_i64_range [of m] sint_i64_range [of k] by auto
  have w: "\<bar>sint w * sint k\<bar> < 2 ^ 127"
    using sint_i64_range [of w] m(3) by (intro product_bound [where A = "2 ^ 63" and B = "2 ^ 63"]) auto
  have "price_for inst (ScalarFixed m e) field = Inr w \<longleftrightarrow>
      exact (sint m) (sint k) ?s field = Inr (sint w)"
    by (auto simp: price_for_def inst fixed_parts_def i64_of_eq)
  also have "\<dots> \<longleftrightarrow> sint m * 10 ^ nat ?s = sint w * sint k * 10 ^ nat (- ?s)"
    using m(2) by (intro exact_amount [OF k m(1) _ w]) simp
  finally show ?thesis
    using scaled_amount [of "sint m" "sint e" "sint (in_price_exponent inst) + sint ke" "sint w" "sint k"]
    by (simp add: algebra_simps)
qed


definition sample_contract :: instrument where
  "sample_contract = \<lparr>in_instrument_id = 7, in_price_exponent = -2, in_qty_exponent = -3,
     in_quoted_per_contract = Some (ContractSize 1 (-3))\<rparr>"


text \<open>
  The two ways to state a number are not refused alike: 10^-20 at exponent 0 is too precise by
  20 digits as text, and an overflow as a mantissa and an exponent.
\<close>

theorem fixed_overflows_where_text_is_too_precise:
  "price_at (ScalarFixed 1 (-20)) 0 = Inl Overflow \<and>
   price_at (ScalarText ([48, 46] @ replicate 19 48 @ [49])) 0 = Inl (TooPrecise 20)"
proof
  show "price_at (ScalarFixed 1 (-20)) 0 = Inl Overflow"
    by (simp add: price_at_def rescale_signed_def power_of_ten_def Let_def)
  show "price_at (ScalarText ([48, 46] @ replicate 19 48 @ [49])) 0 = Inl (TooPrecise 20)"
    by code_simp
qed

end
