(* ===== verification/Lowering.thy ===== *)
theory Lowering
  imports Scaling Messages_Tob Messages_Mbp
begin

section \<open>Lowering normalized events onto messages\<close>

text \<open>
  \<open>instrument.rs\<close>, \<open>seq.rs\<close>, \<open>tob.rs\<close>, \<open>trade.rs\<close>, \<open>depth.rs\<close> and \<open>snapshot.rs\<close> of
  \<open>dz-publisher-lowering\<close>, with the event types of \<open>dz-adapter-core\<close>. An instrument handle is its
  \<open>u32\<close>; the table is the list of its slots, and the per-instrument sequence the list of the last
  numbers stamped. A lowering returns its result and the state it leaves.
\<close>

unbundle bit_operations_syntax

subsection \<open>The admitted instruments\<close>

type_synonym instrument_ref = u32

record instrument_table =
  it_slots :: "instrument option list"
  it_held :: nat

definition table_new :: instrument_table where
  "table_new = \<lparr>it_slots = [], it_held = 0\<rparr>"

definition table_admit :: "instrument \<Rightarrow> instrument_table \<Rightarrow> instrument_ref \<times> instrument_table" where
  "table_admit inst t = (word_of_nat (length (it_slots t)),
     t\<lparr>it_slots := it_slots t @ [Some inst], it_held := it_held t + 1\<rparr>)"

definition table_slot :: "instrument_table \<Rightarrow> instrument_ref \<Rightarrow> instrument option" where
  "table_slot t h = (if unat h < length (it_slots t) then it_slots t ! unat h else None)"

definition table_withdraw :: "instrument_ref \<Rightarrow> instrument_table \<Rightarrow> instrument_table" where
  "table_withdraw h t = (if table_slot t h = None then t
     else t\<lparr>it_slots := (it_slots t)[unat h := None], it_held := it_held t - 1\<rparr>)"

definition table_get :: "instrument_table \<Rightarrow> instrument_ref \<Rightarrow> lowering_error + instrument" where
  "table_get t h = (case table_slot t h of None \<Rightarrow> Inl UnknownInstrument | Some inst \<Rightarrow> Inr inst)"

definition table_replace ::
    "instrument_ref \<Rightarrow> instrument \<Rightarrow> instrument_table \<Rightarrow> bool \<times> instrument_table" where
  "table_replace h inst t = (case table_slot t h of
     None \<Rightarrow> (False, t)
   | Some _ \<Rightarrow> (True, t\<lparr>it_slots := (it_slots t)[unat h := Some inst]\<rparr>))"

definition table_holds :: "instrument_table \<Rightarrow> instrument_ref \<Rightarrow> bool" where
  "table_holds t h \<longleftrightarrow> table_slot t h \<noteq> None"

subsection \<open>The per-instrument sequence\<close>

type_synonym per_instrument_seq = "u32 list"

definition seq_new :: per_instrument_seq where "seq_new = []"

definition seq_last :: "per_instrument_seq \<Rightarrow> instrument_ref \<Rightarrow> u32" where
  "seq_last s h = (if unat h < length s then s ! unat h else 0)"

definition seq_stamp :: "instrument_ref \<Rightarrow> per_instrument_seq \<Rightarrow> u32 \<times> per_instrument_seq" where
  "seq_stamp h s =
    (let index = unat h;
         grown = (if length s \<le> index then s @ replicate (index + 1 - length s) 0 else s);
         n = sat_add (grown ! index) 1 in
     (n, grown[index := n]))"

definition seq_end_era :: "per_instrument_seq \<Rightarrow> per_instrument_seq" where "seq_end_era s = []"

subsection \<open>Top of book\<close>

datatype side_update = SideGone | SidePresent scalar scalar "u16 option"

datatype side = Bid | Ask

datatype aggressor = AggressorUnknown | AggressorBuy | AggressorSell

record trade_flags =
  tf_block :: bool
  tf_sweep :: bool
  tf_cross :: bool

datatype presence = PresenceUnknown | PresenceNew | PresenceChange

datatype clear_scope = EntireSide side | BothSides | FromPrice side scalar

datatype desync = DesyncUnspecified | VenueResync | UpstreamGap

record lowered_side =
  ls_price :: i64
  ls_qty :: u64
  ls_source_count :: u16
  ls_flag :: u8

record sides =
  sd_updated :: u8
  sd_gone :: u8
  sd_price_field :: string
  sd_qty_field :: string

definition SIDES_BID :: sides where
  "SIDES_BID = \<lparr>sd_updated = QUOTE_BID_UPDATED, sd_gone = QUOTE_BID_GONE,
     sd_price_field = ''bid_price'', sd_qty_field = ''bid_qty''\<rparr>"

definition SIDES_ASK :: sides where
  "SIDES_ASK = \<lparr>sd_updated = QUOTE_ASK_UPDATED, sd_gone = QUOTE_ASK_GONE,
     sd_price_field = ''ask_price'', sd_qty_field = ''ask_qty''\<rparr>"

definition lower_side :: "instrument \<Rightarrow> side_update \<Rightarrow> sides \<Rightarrow> lowering_error + lowered_side" where
  "lower_side inst u wire = (case u of
     SideGone \<Rightarrow> Inr \<lparr>ls_price = 0, ls_qty = 0, ls_source_count = 0, ls_flag = sd_gone wire\<rparr>
   | SidePresent px qty source_count \<Rightarrow>
       bind_ok (price_for inst px (sd_price_field wire)) (\<lambda>price.
       bind_ok (qty_for inst qty (sd_qty_field wire)) (\<lambda>q.
         Inr \<lparr>ls_price = price, ls_qty = q,
              ls_source_count = (case source_count of None \<Rightarrow> 0 | Some n \<Rightarrow> n),
              ls_flag = sd_updated wire\<rparr>)))"

definition lower_quote ::
    "u16 \<Rightarrow> instrument_table \<Rightarrow> instrument_ref \<Rightarrow> u64 \<Rightarrow> side_update \<Rightarrow> side_update \<Rightarrow> u64 option \<Rightarrow>
     lowering_error + quote" where
  "lower_quote source_id instruments h source_ts_ns bid ask venue_update_id =
    bind_ok (table_get instruments h) (\<lambda>inst.
    bind_ok (lower_side inst bid SIDES_BID) (\<lambda>bid.
    bind_ok (lower_side inst ask SIDES_ASK) (\<lambda>ask.
      Inr \<lparr>q_instrument_id = in_instrument_id inst, q_source_id = source_id,
           q_update_flags = ls_flag bid OR ls_flag ask, q_source_timestamp_ns = source_ts_ns,
           q_bid_price = ls_price bid, q_bid_qty = ls_qty bid,
           q_ask_price = ls_price ask, q_ask_qty = ls_qty ask,
           q_bid_source_count = ls_source_count bid, q_ask_source_count = ls_source_count ask,
           q_venue_update_id = (case venue_update_id of None \<Rightarrow> 0 | Some id' \<Rightarrow> ucast id')\<rparr>)))"

definition TRADE_FLAG_BLOCK :: u8 where "TRADE_FLAG_BLOCK = 0x01"
definition TRADE_FLAG_SWEEP :: u8 where "TRADE_FLAG_SWEEP = 0x02"
definition TRADE_FLAG_CROSS :: u8 where "TRADE_FLAG_CROSS = 0x04"

fun aggressor_byte :: "aggressor \<Rightarrow> u8" where
  "aggressor_byte AggressorUnknown = AGGRESSOR_UNKNOWN"
| "aggressor_byte AggressorBuy = AGGRESSOR_BUY"
| "aggressor_byte AggressorSell = AGGRESSOR_SELL"

definition trade_flags_byte :: "trade_flags \<Rightarrow> u8" where
  "trade_flags_byte flags =
     (if tf_block flags then TRADE_FLAG_BLOCK else 0) OR
     (if tf_sweep flags then TRADE_FLAG_SWEEP else 0) OR
     (if tf_cross flags then TRADE_FLAG_CROSS else 0)"

definition lower_trade ::
    "u16 \<Rightarrow> instrument_table \<Rightarrow> instrument_ref \<Rightarrow> u64 \<Rightarrow> scalar \<Rightarrow> scalar \<Rightarrow> aggressor \<Rightarrow> u64 option \<Rightarrow>
     scalar option \<Rightarrow> trade_flags \<Rightarrow> lowering_error + trade" where
  "lower_trade source_id instruments h source_ts_ns px qty aggr trade_id volume flags =
    bind_ok (table_get instruments h) (\<lambda>inst.
    bind_ok (case volume of
        Some v \<Rightarrow> qty_for inst v ''cumulative_volume'' | None \<Rightarrow> Inr 0) (\<lambda>cumulative.
    bind_ok (price_for inst px ''trade_price'') (\<lambda>price.
    bind_ok (qty_for inst qty ''trade_qty'') (\<lambda>q.
      Inr \<lparr>t_instrument_id = in_instrument_id inst, t_source_id = source_id,
           t_aggressor_side = aggressor_byte aggr, t_trade_flags = trade_flags_byte flags,
           t_source_timestamp_ns = source_ts_ns, t_trade_price = price, t_trade_qty = q,
           t_trade_id = (case trade_id of None \<Rightarrow> 0 | Some i \<Rightarrow> i),
           t_cumulative_volume = cumulative\<rparr>))))"

subsection \<open>Market by price\<close>

record depth_lowering =
  dl_source_id :: u16
  dl_seq :: per_instrument_seq
  dl_next_snapshot_id :: u32

definition depth_new :: "u16 \<Rightarrow> depth_lowering" where
  "depth_new source_id = \<lparr>dl_source_id = source_id, dl_seq = seq_new, dl_next_snapshot_id = 1\<rparr>"

definition depth_end_era :: "depth_lowering \<Rightarrow> depth_lowering" where
  "depth_end_era d = d\<lparr>dl_seq := seq_end_era (dl_seq d)\<rparr>"

fun side_byte :: "side \<Rightarrow> u8" where
  "side_byte Bid = SIDE_BID"
| "side_byte Ask = SIDE_ASK"

fun side_clear_byte :: "side \<Rightarrow> u8" where
  "side_clear_byte Bid = CLEAR_BID"
| "side_clear_byte Ask = CLEAR_ASK"

definition action_byte :: "u64 \<Rightarrow> presence \<Rightarrow> u8" where
  "action_byte qty_raw p = (if qty_raw = 0 then ACTION_DELETE else case p of
     PresenceUnknown \<Rightarrow> ACTION_UNKNOWN | PresenceNew \<Rightarrow> ACTION_NEW | PresenceChange \<Rightarrow> ACTION_CHANGE)"

fun reset_reason :: "desync \<Rightarrow> u8" where
  "reset_reason DesyncUnspecified = RESET_UNSPECIFIED"
| "reset_reason VenueResync = RESET_VENUE_RESYNC"
| "reset_reason UpstreamGap = RESET_UPSTREAM_GAP"

definition lower_level ::
    "instrument_table \<Rightarrow> instrument_ref \<Rightarrow> u64 \<Rightarrow> side \<Rightarrow> scalar \<Rightarrow> scalar \<Rightarrow> u16 option \<Rightarrow> presence \<Rightarrow>
     depth_lowering \<Rightarrow> (lowering_error + level_update) \<times> depth_lowering" where
  "lower_level instruments h source_ts_ns sd px qty order_count p d =
    (case bind_ok (table_get instruments h) (\<lambda>inst.
          bind_ok (price_for inst px ''price'') (\<lambda>price_raw.
          bind_ok (qty_for inst qty ''qty'') (\<lambda>qty_raw. Inr (inst, price_raw, qty_raw)))) of
       Inl e \<Rightarrow> (Inl e, d)
     | Inr (inst, price_raw, qty_raw) \<Rightarrow>
         let (n, s) = seq_stamp h (dl_seq d) in
         (Inr \<lparr>lu_instrument_id = in_instrument_id inst, lu_source_id = dl_source_id d,
               lu_side = side_byte sd, lu_action = action_byte qty_raw p,
               lu_per_instrument_seq = n, lu_price_raw = price_raw, lu_qty_raw = qty_raw,
               lu_timestamp_ns = source_ts_ns,
               lu_order_count = (case order_count of None \<Rightarrow> U16_UNAVAILABLE | Some c \<Rightarrow> c),
               lu_level_index = U16_UNAVAILABLE, lu_update_reason = 0, lu_level_flags = 0\<rparr>,
          d\<lparr>dl_seq := s\<rparr>))"

definition lower_clear ::
    "instrument_table \<Rightarrow> instrument_ref \<Rightarrow> u64 \<Rightarrow> clear_scope \<Rightarrow> depth_lowering \<Rightarrow>
     (lowering_error + book_clear) \<times> depth_lowering" where
  "lower_clear instruments h source_ts_ns scope d =
    (case bind_ok (table_get instruments h) (\<lambda>inst.
          case scope of
            EntireSide sd \<Rightarrow> Inr (inst, side_clear_byte sd, SCOPE_ENTIRE_SIDE, 0)
          | BothSides \<Rightarrow> Inr (inst, CLEAR_BOTH, SCOPE_ENTIRE_SIDE, 0)
          | FromPrice sd px \<Rightarrow> bind_ok (price_for inst px ''from_price'') (\<lambda>price.
              Inr (inst, side_clear_byte sd, SCOPE_FROM_PRICE, price))) of
       Inl e \<Rightarrow> (Inl e, d)
     | Inr (inst, clear_side, wire_scope, from_price_raw) \<Rightarrow>
         let (n, s) = seq_stamp h (dl_seq d) in
         (Inr \<lparr>bc_instrument_id = in_instrument_id inst, bc_source_id = dl_source_id d,
               bc_clear_side = clear_side, bc_scope = wire_scope, bc_per_instrument_seq = n,
               bc_from_price_raw = from_price_raw, bc_timestamp_ns = source_ts_ns,
               bc_clear_reason = 0\<rparr>,
          d\<lparr>dl_seq := s\<rparr>))"

definition lower_instrument_reset ::
    "instrument_table \<Rightarrow> instrument_ref \<Rightarrow> u64 \<Rightarrow> desync \<Rightarrow> u64 \<Rightarrow> lowering_error + instrument_reset"
where
  "lower_instrument_reset instruments h source_ts_ns reason sequence_number =
    bind_ok (table_get instruments h) (\<lambda>inst.
      Inr (instrument_reset_anchored_at (in_instrument_id inst) (reset_reason reason)
        sequence_number source_ts_ns))"

definition take_snapshot_id :: "depth_lowering \<Rightarrow> u32 \<times> depth_lowering" where
  "take_snapshot_id d =
     (dl_next_snapshot_id d, d\<lparr>dl_next_snapshot_id := dl_next_snapshot_id d + 1\<rparr>)"

subsection \<open>Snapshots\<close>

datatype depth_bound = Complete | Levels u32

definition depth_bound_levels :: "u32 \<Rightarrow> depth_bound option" where
  "depth_bound_levels n = (if n = 0 then None else Some (Levels n))"

fun depth_bound_encoded :: "depth_bound \<Rightarrow> u32" where
  "depth_bound_encoded Complete = 0"
| "depth_bound_encoded (Levels n) = n"

record snapshot =
  sn_begin :: snapshot_begin
  sn_levels :: "snapshot_level list"
  sn_end :: snapshot_end

record snapshot_framer =
  sf_instrument_id :: u32
  sf_instrument :: instrument
  sf_anchor_seq :: u64
  sf_snapshot_id :: u32
  sf_last_instrument_seq :: u32
  sf_timestamp_ns :: u64
  sf_levels :: "snapshot_level list"
  sf_refused :: "lowering_error option"

definition open_snapshot ::
    "instrument_table \<Rightarrow> instrument_ref \<Rightarrow> u64 \<Rightarrow> u64 \<Rightarrow> depth_lowering \<Rightarrow>
     (lowering_error + snapshot_framer) \<times> depth_lowering" where
  "open_snapshot instruments h anchor_seq timestamp_ns d = (case table_get instruments h of
     Inl e \<Rightarrow> (Inl e, d)
   | Inr inst \<Rightarrow>
       let last_seq = seq_last (dl_seq d) h; (sid, d) = take_snapshot_id d in
       (Inr \<lparr>sf_instrument_id = in_instrument_id inst, sf_instrument = inst,
             sf_anchor_seq = anchor_seq, sf_snapshot_id = sid, sf_last_instrument_seq = last_seq,
             sf_timestamp_ns = timestamp_ns, sf_levels = [], sf_refused = None\<rparr>, d))"

definition framer_level ::
    "side \<Rightarrow> scalar \<Rightarrow> scalar \<Rightarrow> u16 option \<Rightarrow> snapshot_framer \<Rightarrow> snapshot_framer" where
  "framer_level sd px qty order_count f =
    (if sf_refused f \<noteq> None then f
     else case price_for (sf_instrument f) px ''snapshot_price'' of
       Inl e \<Rightarrow> f\<lparr>sf_refused := Some e\<rparr>
     | Inr price_raw \<Rightarrow> (case qty_for (sf_instrument f) qty ''snapshot_qty'' of
         Inl e \<Rightarrow> f\<lparr>sf_refused := Some e\<rparr>
       | Inr qty_raw \<Rightarrow> f\<lparr>sf_levels := sf_levels f @
           [\<lparr>sl_snapshot_id = sf_snapshot_id f, sl_price_raw = price_raw, sl_qty_raw = qty_raw,
             sl_order_count = (case order_count of None \<Rightarrow> U16_UNAVAILABLE | Some c \<Rightarrow> c),
             sl_side = side_byte sd, sl_level_flags = 0\<rparr>]\<rparr>))"

definition framer_finish :: "depth_bound \<Rightarrow> snapshot_framer \<Rightarrow> lowering_error + snapshot" where
  "framer_finish bound f = (case sf_refused f of
     Some e \<Rightarrow> Inl e
   | None \<Rightarrow>
       if 2 ^ 32 \<le> length (sf_levels f) then Inl (Scale ''total_levels'' Overflow)
       else Inr
         \<lparr>sn_begin = \<lparr>sb_instrument_id = sf_instrument_id f, sb_anchor_seq = sf_anchor_seq f,
            sb_total_levels = word_of_nat (length (sf_levels f)),
            sb_snapshot_id = sf_snapshot_id f,
            sb_last_instrument_seq = sf_last_instrument_seq f,
            sb_timestamp_ns = sf_timestamp_ns f, sb_depth_bound = depth_bound_encoded bound\<rparr>,
          sn_levels = sf_levels f,
          sn_end = \<lparr>se_instrument_id = sf_instrument_id f, se_anchor_seq = sf_anchor_seq f,
            se_snapshot_id = sf_snapshot_id f\<rparr>\<rparr>)"

end
