(* ===== verification/Lowering_Contract.thy ===== *)
theory Lowering_Contract
  imports Lowering
begin

section \<open>What the lowering promises\<close>

text \<open>
  The contracts of the lowering: a handle means one instrument for the life of the table, the
  changes of one instrument's book are numbered without a gap within an era, a quote's flags state
  both sides, a removal is a quantity of zero, and a snapshot declares what it holds.
\<close>

unbundle bit_operations_syntax

subsection \<open>Handles\<close>

datatype table_op =
    Admit instrument
  | Withdraw instrument_ref
  | Replace instrument_ref instrument

fun table_step :: "table_op \<Rightarrow> instrument_table \<Rightarrow> instrument_table" where
  "table_step (Admit inst) t = snd (table_admit inst t)"
| "table_step (Withdraw h) t = table_withdraw h t"
| "table_step (Replace h inst) t = snd (table_replace h inst t)"

text \<open>
  The specification: a handle is absent until the admission it was minted by, then present with
  the instrument last stated for it, then withdrawn for good. The number counts admissions.
\<close>

datatype handle_state = Unminted | Present instrument | Withdrawn

fun spec_step :: "table_op \<Rightarrow> nat \<times> (nat \<Rightarrow> handle_state) \<Rightarrow> nat \<times> (nat \<Rightarrow> handle_state)" where
  "spec_step (Admit inst) (n, m) = (n + 1, m(n := Present inst))"
| "spec_step (Withdraw h) (n, m) =
     (n, case m (unat h) of Present _ \<Rightarrow> m(unat h := Withdrawn) | _ \<Rightarrow> m)"
| "spec_step (Replace h inst) (n, m) =
     (n, case m (unat h) of Present _ \<Rightarrow> m(unat h := Present inst) | _ \<Rightarrow> m)"

definition held_slots :: "'a option list \<Rightarrow> nat" where
  "held_slots xs = length (filter (\<lambda>x. x \<noteq> None) xs)"

definition table_models :: "nat \<times> (nat \<Rightarrow> handle_state) \<Rightarrow> instrument_table \<Rightarrow> bool" where
  "table_models s t \<longleftrightarrow> fst s = length (it_slots t) \<and>
     it_held t = held_slots (it_slots t) \<and>
     (\<forall>i. snd s i = (if length (it_slots t) \<le> i then Unminted
        else case it_slots t ! i of None \<Rightarrow> Withdrawn | Some inst \<Rightarrow> Present inst))"

lemma held_slots_simps [simp]:
  "held_slots [] = 0"
  "held_slots (xs @ [Some y]) = held_slots xs + 1"
  by (simp_all add: held_slots_def)

lemma held_slots_None:
  "i < length xs \<Longrightarrow> xs ! i = Some y \<Longrightarrow> Suc (held_slots (xs[i := None])) = held_slots xs"
  unfolding held_slots_def
  by (induction xs arbitrary: i) (auto simp: nth_Cons split: nat.splits)

lemma held_slots_less: "i < length xs \<Longrightarrow> xs ! i = Some y \<Longrightarrow>
    held_slots (xs[i := None]) = held_slots xs - 1"
  using held_slots_None [of i xs y] by simp

lemma held_slots_Some:
  "i < length xs \<Longrightarrow> xs ! i = Some y \<Longrightarrow> held_slots (xs[i := Some z]) = held_slots xs"
  unfolding held_slots_def
  by (induction xs arbitrary: i) (auto simp: nth_Cons split: nat.splits)

lemma table_slot_spec:
  assumes "table_models s t"
  shows "table_slot t h = (case snd s (unat h) of Present inst \<Rightarrow> Some inst | _ \<Rightarrow> None)"
  using assms by (auto simp: table_models_def table_slot_def split: option.split)

lemma table_step_models:
  assumes "table_models s t"
  shows "table_models (spec_step op s) (table_step op t)"
proof -
  obtain n m where s: "s = (n, m)" by (cases s)
  show ?thesis
  proof (cases op)
    case (Admit inst)
    then show ?thesis
      using assms by (auto simp: s table_models_def table_admit_def nth_append)
  next
    case (Withdraw h)
    then show ?thesis
      using assms table_slot_spec [OF assms, of h]
      by (auto simp: s table_models_def table_withdraw_def table_slot_def nth_list_update
          held_slots_less split: handle_state.splits if_splits option.splits)
  next
    case (Replace h inst)
    then show ?thesis
      using assms table_slot_spec [OF assms, of h]
      by (auto simp: s table_models_def table_replace_def table_slot_def held_slots_Some
          nth_list_update split: handle_state.splits if_splits option.splits)
  qed
qed

text \<open>
  C27. A handle means one instrument. After any admissions, withdrawals and restatements, a handle
  resolves exactly while its own admission has happened and its own withdrawal has not, to the
  instrument last stated for it: no other instrument's admission or withdrawal changes what it
  means, and a withdrawn handle never resolves again. The cached count is the number held.
\<close>

theorem handle_means_one_instrument:
  "(let t = fold table_step ops table_new; s = fold spec_step ops (0, \<lambda>_. Unminted) in
    table_get t h = (case snd s (unat h) of Present inst \<Rightarrow> Inr inst | _ \<Rightarrow> Inl UnknownInstrument) \<and>
    fst (table_admit inst t) = word_of_nat (fst s) \<and>
    it_held t = card {i. i < fst s \<and> (\<exists>x. snd s i = Present x)})"
proof -
  define t where "t = fold table_step ops table_new"
  define s where "s = fold spec_step ops (0, \<lambda>_. Unminted)"
  have "table_models (fold spec_step ops a) (fold table_step ops b)" if "table_models a b" for a b
    using that by (induction ops arbitrary: a b) (simp_all add: table_step_models)
  then have models: "table_models s t"
    unfolding s_def t_def by (simp add: table_models_def [of "(0, \<lambda>_. Unminted)"] table_new_def)
  have "{i. i < fst s \<and> (\<exists>x. snd s i = Present x)} = {i. i < length (it_slots t) \<and> it_slots t ! i \<noteq> None}"
    using models by (auto simp: table_models_def split: if_splits option.splits)
  then have "it_held t = card {i. i < fst s \<and> (\<exists>x. snd s i = Present x)}"
    using models by (simp add: table_models_def held_slots_def length_filter_conv_card)
  then show ?thesis
    using models table_slot_spec [OF models, of h]
    by (simp add: table_get_def table_admit_def table_models_def s_def [symmetric] t_def [symmetric]
        Let_def split: handle_state.split)
qed

subsection \<open>The numbering of book changes\<close>

datatype depth_op =
    OpLevel instrument_table instrument_ref u64 side scalar scalar "u16 option" presence
  | OpClear instrument_table instrument_ref u64 clear_scope
  | OpReset instrument_table instrument_ref u64 desync u64
  | OpSnapshot instrument_table instrument_ref u64 u64

datatype lowered =
    LoweredLevel level_update
  | LoweredClear book_clear
  | LoweredReset instrument_reset
  | LoweredFramer snapshot_framer

fun op_handle :: "depth_op \<Rightarrow> instrument_ref" where
  "op_handle (OpLevel t h ts sd px qty c p) = h"
| "op_handle (OpClear t h ts scope) = h"
| "op_handle (OpReset t h ts reason n) = h"
| "op_handle (OpSnapshot t h anchor ts) = h"

definition tagged :: "('a \<Rightarrow> 'b) \<Rightarrow> ('e + 'a) \<times> 's \<Rightarrow> ('e + 'b) \<times> 's" where
  "tagged f x = (map_sum id f (fst x), snd x)"

fun depth_step :: "depth_op \<Rightarrow> depth_lowering \<Rightarrow> (lowering_error + lowered) \<times> depth_lowering" where
  "depth_step (OpLevel t h ts sd px qty c p) d = tagged LoweredLevel (lower_level t h ts sd px qty c p d)"
| "depth_step (OpClear t h ts scope) d = tagged LoweredClear (lower_clear t h ts scope d)"
| "depth_step (OpReset t h ts reason n) d = (map_sum id LoweredReset (lower_instrument_reset t h ts reason n), d)"
| "depth_step (OpSnapshot t h anchor ts) d = tagged LoweredFramer (open_snapshot t h anchor ts d)"

fun depth_run :: "depth_op list \<Rightarrow> depth_lowering \<Rightarrow> (lowering_error + lowered) list" where
  "depth_run [] d = []"
| "depth_run (op # ops) d = (let (r, d) = depth_step op d in r # depth_run ops d)"

text \<open>The counter after \<open>n\<close> changes: \<open>n\<close>, held at the top of the field.\<close>

definition held_at_top :: "nat \<Rightarrow> u32" where
  "held_at_top n = word_of_nat (min n (2 ^ 32 - 1))"

lemma held_at_top_step: "sat_add (held_at_top n) 1 = held_at_top (n + 1)"
proof -
  have "unat (held_at_top n) = min n (2 ^ 32 - 1)" for n
    by (simp add: held_at_top_def unat_of_nat min_def)
  then show ?thesis
    by (intro word_unat_eq_iff [THEN iffD2]) (simp add: unat_sat_add min_def)
qed

lemma seq_stamp_last:
  "seq_stamp h s = (n, s') \<Longrightarrow> n = sat_add (seq_last s h) 1 \<and>
     (\<forall>k. seq_last s' k = (if k = h then n else seq_last s k))"
  by (auto simp: seq_stamp_def seq_last_def Let_def nth_append nth_list_update word_unat_eq_iff)

text \<open>
  The series of one instrument along a run: a change carries the successor of the count so far, a
  snapshot opened states the count, a refusal moves nothing.
\<close>

fun dense_from :: "instrument_ref \<Rightarrow> nat \<Rightarrow> (depth_op \<times> (lowering_error + lowered)) list \<Rightarrow> bool" where
  "dense_from h c [] = True"
| "dense_from h c ((op, r) # xs) =
    (if op_handle op \<noteq> h then dense_from h c xs
     else case r of
       Inr (LoweredLevel m) \<Rightarrow> lu_per_instrument_seq m = held_at_top (c + 1) \<and> dense_from h (c + 1) xs
     | Inr (LoweredClear m) \<Rightarrow> bc_per_instrument_seq m = held_at_top (c + 1) \<and> dense_from h (c + 1) xs
     | Inr (LoweredFramer f) \<Rightarrow> sf_last_instrument_seq f = held_at_top c \<and> dense_from h c xs
     | _ \<Rightarrow> dense_from h c xs)"

lemma lower_level_seq:
  "lower_level t h ts sd px qty oc p d = (r, d') \<Longrightarrow> (case r of
     Inl e \<Rightarrow> d' = d
   | Inr m \<Rightarrow> lu_per_instrument_seq m = sat_add (seq_last (dl_seq d) h) 1 \<and>
       (\<forall>k. seq_last (dl_seq d') k = (if k = h then lu_per_instrument_seq m else seq_last (dl_seq d) k)))"
  using seq_stamp_last [of h "dl_seq d"]
  by (auto simp: lower_level_def split: sum.splits prod.splits)

lemma lower_clear_seq:
  "lower_clear t h ts scope d = (r, d') \<Longrightarrow> (case r of
     Inl e \<Rightarrow> d' = d
   | Inr m \<Rightarrow> bc_per_instrument_seq m = sat_add (seq_last (dl_seq d) h) 1 \<and>
       (\<forall>k. seq_last (dl_seq d') k = (if k = h then bc_per_instrument_seq m else seq_last (dl_seq d) k)))"
  using seq_stamp_last [of h "dl_seq d"]
  by (auto simp: lower_clear_def split: sum.splits prod.splits)

lemma open_snapshot_seq:
  "open_snapshot t h anchor ts d = (r, d') \<Longrightarrow> dl_seq d' = dl_seq d \<and> (case r of
     Inl e \<Rightarrow> True | Inr f \<Rightarrow> sf_last_instrument_seq f = seq_last (dl_seq d) h)"
  by (auto simp: open_snapshot_def take_snapshot_id_def Let_def split: sum.splits)

lemma depth_run_dense:
  "seq_last (dl_seq d) h = held_at_top c \<Longrightarrow> dense_from h c (zip ops (depth_run ops d))"
proof (induction ops arbitrary: d c)
  case (Cons op ops)
  obtain r d' where step: "depth_step op d = (r, d')" by fastforce
  have split: "zip (op # ops) (depth_run (op # ops) d) = (op, r) # zip ops (depth_run ops d')"
    by (simp add: step)
  have "dense_from h c ((op, r) # zip ops (depth_run ops d'))"
  proof (cases op)
    case (OpLevel t k ts sd px qty oc p)
    obtain x where "lower_level t k ts sd px qty oc p d = (x, d')" "r = map_sum id LoweredLevel x"
      using step OpLevel by (cases "lower_level t k ts sd px qty oc p d") (auto simp: tagged_def)
    with lower_level_seq [OF this(1)] show ?thesis
      using Cons.IH [of d'] Cons.prems held_at_top_step
      by (cases x; cases "k = h") (simp_all add: OpLevel)
  next
    case (OpClear t k ts scope)
    obtain x where "lower_clear t k ts scope d = (x, d')" "r = map_sum id LoweredClear x"
      using step OpClear by (cases "lower_clear t k ts scope d") (auto simp: tagged_def)
    with lower_clear_seq [OF this(1)] show ?thesis
      using Cons.IH [of d'] Cons.prems held_at_top_step
      by (cases x; cases "k = h") (simp_all add: OpClear)
  next
    case (OpReset t k ts reason n)
    then have "d' = d" "r = map_sum id LoweredReset (lower_instrument_reset t k ts reason n)"
      using step by auto
    then show ?thesis
      using Cons.IH [of d] Cons.prems
      by (cases "lower_instrument_reset t k ts reason n") (simp_all add: OpReset)
  next
    case (OpSnapshot t k anchor ts)
    obtain x where "open_snapshot t k anchor ts d = (x, d')" "r = map_sum id LoweredFramer x"
      using step OpSnapshot by (cases "open_snapshot t k anchor ts d") (auto simp: tagged_def)
    with open_snapshot_seq [OF this(1)] show ?thesis
      using Cons.IH [of d'] Cons.prems
      by (cases x; cases "k = h") (simp_all add: OpSnapshot)
  qed
  then show ?case unfolding split .
qed simp

text \<open>
  C26. Within an era the changes of one instrument's book are numbered 1, 2, 3 and so on, levels and
  clears in one series, whatever other instruments do and whatever is refused: a refused message
  consumes no number, a reset and a snapshot neither consume nor restart any, and a snapshot states
  the number of the last change before it. At 2^32 - 1 the number holds.
\<close>

theorem book_changes_dense: "dense_from h 0 (zip ops (depth_run ops (depth_end_era d)))"
  by (rule depth_run_dense) (simp add: depth_end_era_def seq_end_era_def seq_last_def held_at_top_def)

subsection \<open>Flags, actions and snapshots\<close>

lemma lower_side_flag:
  "lower_side inst u wire = Inr s \<Longrightarrow>
   ls_flag s = (case u of SideGone \<Rightarrow> sd_gone wire | SidePresent px qty c \<Rightarrow> sd_updated wire) \<and>
   (u = SideGone \<longrightarrow> ls_price s = 0 \<and> ls_qty s = 0 \<and> ls_source_count s = 0)"
  by (auto simp: lower_side_def split: side_update.splits)

definition shows_side :: "side_update \<Rightarrow> u8 \<Rightarrow> u8 \<Rightarrow> u8 \<Rightarrow> bool" where
  "shows_side u updated gone flags \<longleftrightarrow>
     (flags AND updated \<noteq> 0) = (u \<noteq> SideGone) \<and> (flags AND gone \<noteq> 0) = (u = SideGone)"

text \<open>
  C31. A quote that is lowered states both sides and nothing else: per side exactly one of the
  updated and the gone bit is set, the gone one exactly when nothing rests there, no other bit is
  ever set, a gone side is all zeros, and the venue's counter is carried as its low 32 bits.
\<close>

theorem lowered_quote_states_both_sides:
  assumes "lower_quote source_id t h ts bid ask vid = Inr q"
  shows "shows_side bid QUOTE_BID_UPDATED QUOTE_BID_GONE (q_update_flags q) \<and>
    shows_side ask QUOTE_ASK_UPDATED QUOTE_ASK_GONE (q_update_flags q) \<and>
    q_update_flags q AND 0xF0 = 0 \<and>
    (bid = SideGone \<longrightarrow> q_bid_price q = 0 \<and> q_bid_qty q = 0 \<and> q_bid_source_count q = 0) \<and>
    (ask = SideGone \<longrightarrow> q_ask_price q = 0 \<and> q_ask_qty q = 0 \<and> q_ask_source_count q = 0) \<and>
    uint (q_venue_update_id q) = (case vid of None \<Rightarrow> 0 | Some n \<Rightarrow> uint n mod 2 ^ 32)"
proof -
  obtain inst b a where sides: "lower_side inst bid SIDES_BID = Inr b" "lower_side inst ask SIDES_ASK = Inr a"
    and q: "q_update_flags q = ls_flag b OR ls_flag a" "q_bid_price q = ls_price b" "q_bid_qty q = ls_qty b"
      "q_bid_source_count q = ls_source_count b" "q_ask_price q = ls_price a" "q_ask_qty q = ls_qty a"
      "q_ask_source_count q = ls_source_count a"
      "q_venue_update_id q = (case vid of None \<Rightarrow> 0 | Some n \<Rightarrow> ucast n)"
    using assms by (auto simp: lower_quote_def)
  show ?thesis
    using lower_side_flag [OF sides(1)] lower_side_flag [OF sides(2)]
    by (cases bid; cases ask; cases vid)
      (simp_all add: q shows_side_def SIDES_BID_def SIDES_ASK_def QUOTE_BID_UPDATED_def
        QUOTE_ASK_UPDATED_def QUOTE_BID_GONE_def QUOTE_ASK_GONE_def unsigned_ucast_eq take_bit_eq_mod)
qed

lemma side_clear_byte_facts [simp]:
  "side_clear_byte sd \<noteq> CLEAR_BOTH" "side_clear_byte sd \<le> 2"
  "SCOPE_ENTIRE_SIDE \<noteq> SCOPE_FROM_PRICE" "CLEAR_BOTH \<le> (2 :: u8)"
  by (cases sd; simp add: CLEAR_BID_def CLEAR_ASK_def CLEAR_BOTH_def SCOPE_ENTIRE_SIDE_def
      SCOPE_FROM_PRICE_def)+

lemma lower_clear_valid:
  "case fst (lower_clear t h ts scope d) of Inl e \<Rightarrow> True
   | Inr m \<Rightarrow> book_clear_validate m = Inr () \<and> bc_clear_side m \<le> 2"
  by (cases scope) (auto simp: lower_clear_def book_clear_validate_def split: sum.splits prod.splits)

text \<open>
  C32. What the depth lowering emits is what the market-by-price feed admits: a level's action is the
  removal exactly when its quantity is zero, and a clear passes the codec's own check, so the
  builder never refuses it as malformed.
\<close>

theorem lowered_book_changes_legal:
  "case fst (depth_step op d) of
     Inl e \<Rightarrow> snd (depth_step op d) = d
   | Inr (LoweredLevel m) \<Rightarrow> (lu_action m = ACTION_DELETE) = (lu_qty_raw m = 0) \<and> lu_side m \<le> 1
   | Inr (LoweredClear m) \<Rightarrow> book_clear_validate m = Inr () \<and> bc_clear_side m \<le> 2
   | Inr (LoweredReset m) \<Rightarrow> snd (depth_step op d) = d
   | Inr (LoweredFramer f) \<Rightarrow> dl_seq (snd (depth_step op d)) = dl_seq d"
proof (cases op)
  case (OpLevel t h ts sd px qty oc p)
  then show ?thesis
    by (cases sd; cases p)
      (auto simp: tagged_def lower_level_def action_byte_def ACTION_DELETE_def ACTION_UNKNOWN_def
        ACTION_NEW_def ACTION_CHANGE_def SIDE_BID_def SIDE_ASK_def split: sum.split prod.split)
next
  case (OpClear t h ts scope)
  show ?thesis
  proof (cases "lower_clear t h ts scope d")
    case (Pair r d')
    then show ?thesis
      using lower_clear_valid [of t h ts scope d] lower_clear_seq [OF Pair]
      by (cases r) (simp_all add: OpClear tagged_def)
  qed
next
  case (OpReset t h ts reason n)
  then show ?thesis by (cases "lower_instrument_reset t h ts reason n") simp_all
next
  case (OpSnapshot t h anchor ts)
  then show ?thesis
    by (cases "table_get t h")
      (simp_all add: tagged_def open_snapshot_def take_snapshot_id_def)
qed

type_synonym offered_level = "side \<times> scalar \<times> scalar \<times> u16 option"

definition offer_level :: "offered_level \<Rightarrow> snapshot_framer \<Rightarrow> snapshot_framer" where
  "offer_level l f = (case l of (sd, px, qty, c) \<Rightarrow> framer_level sd px qty c f)"

definition level_refusal :: "instrument \<Rightarrow> offered_level \<Rightarrow> lowering_error option" where
  "level_refusal inst l = (case l of (sd, px, qty, c) \<Rightarrow>
     (case price_for inst px ''snapshot_price'' of
        Inl e \<Rightarrow> Some e
      | Inr p \<Rightarrow> (case qty_for inst qty ''snapshot_qty'' of Inl e \<Rightarrow> Some e | Inr q \<Rightarrow> None)))"

fun first_refusal :: "instrument \<Rightarrow> offered_level list \<Rightarrow> lowering_error option" where
  "first_refusal inst [] = None"
| "first_refusal inst (l # ls) = (case level_refusal inst l of Some e \<Rightarrow> Some e | None \<Rightarrow> first_refusal inst ls)"

definition same_frame :: "snapshot_framer \<Rightarrow> snapshot_framer \<Rightarrow> bool" where
  "same_frame f g \<longleftrightarrow> sf_instrument_id g = sf_instrument_id f \<and> sf_instrument g = sf_instrument f \<and>
     sf_anchor_seq g = sf_anchor_seq f \<and> sf_snapshot_id g = sf_snapshot_id f \<and>
     sf_last_instrument_seq g = sf_last_instrument_seq f"

lemma offer_refused: "sf_refused f = Some e \<Longrightarrow> fold offer_level ls f = f"
  by (induction ls) (simp_all add: offer_level_def framer_level_def split: prod.split)

lemma offer_levels:
  assumes "sf_refused f = None" "list_all (\<lambda>m. sl_snapshot_id m = sf_snapshot_id f) (sf_levels f)"
  shows "same_frame f (fold offer_level ls f) \<and>
    sf_refused (fold offer_level ls f) = first_refusal (sf_instrument f) ls \<and>
    list_all (\<lambda>m. sl_snapshot_id m = sf_snapshot_id f) (sf_levels (fold offer_level ls f)) \<and>
    (sf_refused (fold offer_level ls f) = None \<longrightarrow>
       length (sf_levels (fold offer_level ls f)) = length (sf_levels f) + length ls)"
  using assms
proof (induction ls arbitrary: f)
  case (Cons l ls)
  obtain sd px qty c where l: "l = (sd, px, qty, c)" by (cases l)
  show ?case
  proof (cases "level_refusal (sf_instrument f) l")
    case None
    then obtain m where "offer_level l f = f\<lparr>sf_levels := sf_levels f @ [m]\<rparr>"
        "sl_snapshot_id m = sf_snapshot_id f"
      using Cons.prems(1) by (auto simp: l level_refusal_def offer_level_def framer_level_def
          split: sum.splits)
    then show ?thesis
      using Cons.IH [of "offer_level l f"] Cons.prems None by (simp add: same_frame_def)
  next
    case (Some e)
    then have "offer_level l f = f\<lparr>sf_refused := Some e\<rparr>"
      using Cons.prems(1) by (auto simp: l level_refusal_def offer_level_def framer_level_def
          split: sum.splits)
    then show ?thesis
      using offer_refused [of "f\<lparr>sf_refused := Some e\<rparr>" e] Cons.prems Some
      by (simp add: same_frame_def)
  qed
qed (simp add: same_frame_def)

text \<open>
  C28. A snapshot is whole or it is not made: closed, it holds every level the adapter offered and
  declares exactly that many, its begin, its levels and its end carry one snapshot id and one
  anchor, and its last instrument sequence is the instrument's current one; otherwise the error
  is the first level's that could not be stated, or the count does not fit 32 bits.
\<close>

theorem snapshot_declares_what_it_holds:
  "case open_snapshot t h anchor ts d of
     (Inl e, d') \<Rightarrow> e = UnknownInstrument \<and> d' = d
   | (Inr f, d') \<Rightarrow> (case framer_finish bound (fold offer_level ls f) of
       Inl e \<Rightarrow> (case first_refusal (sf_instrument f) ls of
           Some e' \<Rightarrow> e = e'
         | None \<Rightarrow> e = Scale ''total_levels'' Overflow \<and> 2 ^ 32 \<le> length ls)
     | Inr s \<Rightarrow> first_refusal (sf_instrument f) ls = None \<and> length (sn_levels s) = length ls \<and>
         unat (sb_total_levels (sn_begin s)) = length ls \<and>
         list_all (\<lambda>m. sl_snapshot_id m = sb_snapshot_id (sn_begin s)) (sn_levels s) \<and>
         se_snapshot_id (sn_end s) = sb_snapshot_id (sn_begin s) \<and>
         se_anchor_seq (sn_end s) = anchor \<and> sb_anchor_seq (sn_begin s) = anchor \<and>
         sb_last_instrument_seq (sn_begin s) = seq_last (dl_seq d) h \<and>
         sb_snapshot_id (sn_begin s) = dl_next_snapshot_id d \<and>
         dl_next_snapshot_id d' = dl_next_snapshot_id d + 1)"
proof (cases "table_get t h")
  case (Inl e)
  then show ?thesis
    by (auto simp: open_snapshot_def table_get_def split: option.splits)
next
  case (Inr inst)
  define f where "f = \<lparr>sf_instrument_id = in_instrument_id inst, sf_instrument = inst,
      sf_anchor_seq = anchor, sf_snapshot_id = dl_next_snapshot_id d,
      sf_last_instrument_seq = seq_last (dl_seq d) h, sf_timestamp_ns = ts, sf_levels = [],
      sf_refused = None\<rparr>"
  have f: "sf_refused f = None" "sf_levels f = []" "sf_anchor_seq f = anchor"
      "sf_snapshot_id f = dl_next_snapshot_id d" "sf_last_instrument_seq f = seq_last (dl_seq d) h"
    by (simp_all add: f_def)
  have opened: "open_snapshot t h anchor ts d = (Inr f, snd (take_snapshot_id d))"
    by (simp add: open_snapshot_def Inr take_snapshot_id_def f_def)
  have lv: "same_frame f (fold offer_level ls f)"
    "sf_refused (fold offer_level ls f) = first_refusal (sf_instrument f) ls"
    "list_all (\<lambda>m. sl_snapshot_id m = sf_snapshot_id f) (sf_levels (fold offer_level ls f))"
    "sf_refused (fold offer_level ls f) = None \<longrightarrow> length (sf_levels (fold offer_level ls f)) = length ls"
    using offer_levels [OF f(1), of ls] by (simp_all add: f(2))
  show ?thesis
    using lv f unfolding opened
    by (auto simp: framer_finish_def same_frame_def take_snapshot_id_def unat_of_nat
        split: option.splits if_splits)
qed

subsection \<open>A concrete quote\<close>

definition sample_table :: instrument_table where
  "sample_table = snd (table_admit \<lparr>in_instrument_id = 7, in_price_exponent = -2,
     in_qty_exponent = 0, in_quoted_per_contract = None\<rparr> table_new)"

theorem lowered_quote_states_both_sides_witness:
  "\<exists>q. lower_quote 1 sample_table 0 5 (SidePresent (ScalarFixed 3 (-2)) (ScalarFixed 9 0) None)
      SideGone (Some 4294967298) = Inr q \<and>
     shows_side SideGone QUOTE_ASK_UPDATED QUOTE_ASK_GONE (q_update_flags q) \<and>
     uint (q_venue_update_id q) = 2"
proof -
  obtain q where q: "lower_quote 1 sample_table 0 5
      (SidePresent (ScalarFixed 3 (-2)) (ScalarFixed 9 0) None) SideGone (Some 4294967298) = Inr q"
    by (simp add: lower_quote_def sample_table_def table_admit_def table_new_def table_get_def
        table_slot_def lower_side_def price_for_def qty_for_def scale_err_def price_at_def qty_at_def
        rescale_signed_def u64_of_def ok_or_def id_def)
  show ?thesis
    using lowered_quote_states_both_sides [OF q] q by auto
qed

end
