(* ===== verification/Refdata_Store.thy ===== *)
theory Refdata_Store
  imports Era_Store "HOL-Library.Sublist"
begin

section \<open>Where the reference-data record lives\<close>

text \<open>
  \<open>store.rs\<close> and \<open>file_store.rs\<close> of \<open>dz-publisher-refdata\<close>: the trait \<open>StateStore\<close> as a record of
  operations over a state, the memory store and the file store that implement it, and the trait's
  promises as the locale \<open>durable_store\<close>. The file store runs on a directory of names and a table
  of inodes, one outcome of the host per system call; a failed write leaves any prefix of its bytes,
  and a process that stops at a call leaves what a failure of that call leaves.
\<close>

subsection \<open>The trait\<close>

datatype state_error =
    AlreadyHeld
  | ClaimFailed io_error
  | ReadFailed io_error
  | WriteFailed io_error
  | NotReplaced io_error

record 's state_store =
  ss_claim :: "'s \<Rightarrow> (state_error + unit) \<times> 's"
  ss_load :: "'s \<Rightarrow> (state_error + bytes option) \<times> 's"
  ss_store :: "bytes \<Rightarrow> 's \<Rightarrow> (state_error + unit) \<times> 's"
  ss_append :: "bytes \<Rightarrow> 's \<Rightarrow> (state_error + unit) \<times> 's"
  ss_truncate :: "nat \<Rightarrow> 's \<Rightarrow> (state_error + unit) \<times> 's"

text \<open>
  What an implementation promises of the record it holds, \<open>content\<close>: a replacement is the whole of
  the new record or of the old one, and the old one when the error says so; an append leaves a
  prefix of its bytes at worst; a cut is made or not.
\<close>

locale durable_store =
  fixes S :: "'s state_store" and content :: "'s \<Rightarrow> bytes option" and ok :: "'s \<Rightarrow> bool"
  assumes claim: "ok s \<Longrightarrow> ss_claim S s = (r, s') \<Longrightarrow> ok s' \<and> content s' = content s"
    and load: "ok s \<Longrightarrow> ss_load S s = (l, s') \<Longrightarrow> ok s' \<and> content s' = content s \<and>
      (case l of Inl e \<Rightarrow> True | Inr c \<Rightarrow> c = content s)"
    and store: "ok s \<Longrightarrow> ss_store S bs s = (r, s') \<Longrightarrow> ok s' \<and>
      (case r of Inr _ \<Rightarrow> content s' = Some bs
       | Inl (NotReplaced _) \<Rightarrow> content s' = content s
       | Inl e \<Rightarrow> content s' = content s \<or> content s' = Some bs)"
    and append: "ok s \<Longrightarrow> content s = Some c \<Longrightarrow> ss_append S bs s = (r, s') \<Longrightarrow> ok s' \<and>
      (case r of Inr _ \<Rightarrow> content s' = Some (c @ bs)
       | Inl e \<Rightarrow> \<exists>p. prefix p bs \<and> content s' = Some (c @ p))"
    and truncate: "ok s \<Longrightarrow> content s = Some c \<Longrightarrow> n \<le> length c \<Longrightarrow> ss_truncate S n s = (r, s') \<Longrightarrow>
      ok s' \<and> (case r of Inr _ \<Rightarrow> content s' = Some (take n c)
       | Inl e \<Rightarrow> content s' = Some c \<or> content s' = Some (take n c))"

subsection \<open>The memory store\<close>

record directory =
  md_record :: "bytes option"
  md_claimed :: bool
  md_read_fails :: "string option"
  md_write_fails :: "string option"
  md_store_fails :: "string option"
  md_flush_fails :: "string option"
  md_stores :: nat
  md_appends :: nat

text \<open>A writer and the directory it shares; a clone is another writer on the same directory.\<close>

record memory_store =
  mem_directory :: directory
  mem_holds_claim :: bool

definition memory_new :: memory_store where
  "memory_new = \<lparr>mem_directory = \<lparr>md_record = None, md_claimed = False, md_read_fails = None,
     md_write_fails = None, md_store_fails = None, md_flush_fails = None, md_stores = 0,
     md_appends = 0\<rparr>, mem_holds_claim = False\<rparr>"

definition memory_clone :: "memory_store \<Rightarrow> memory_store" where
  "memory_clone m = \<lparr>mem_directory = mem_directory m, mem_holds_claim = False\<rparr>"

text \<open>The directory once the writer is dropped.\<close>

definition memory_drop :: "memory_store \<Rightarrow> directory" where
  "memory_drop m = (let d = mem_directory m in
     if mem_holds_claim m then d\<lparr>md_claimed := False\<rparr> else d)"

definition set_record :: "bytes \<Rightarrow> directory \<Rightarrow> directory" where
  "set_record r d = d\<lparr>md_record := Some r\<rparr>"
definition break_reads :: "string \<Rightarrow> directory \<Rightarrow> directory" where
  "break_reads msg d = d\<lparr>md_read_fails := Some msg\<rparr>"
definition break_writes :: "string \<Rightarrow> directory \<Rightarrow> directory" where
  "break_writes msg d = d\<lparr>md_write_fails := Some msg\<rparr>"
definition break_stores :: "string \<Rightarrow> directory \<Rightarrow> directory" where
  "break_stores msg d = d\<lparr>md_store_fails := Some msg\<rparr>"
definition break_flushes :: "string \<Rightarrow> directory \<Rightarrow> directory" where
  "break_flushes msg d = d\<lparr>md_flush_fails := Some msg\<rparr>"
definition repair_writes :: "directory \<Rightarrow> directory" where
  "repair_writes d = d\<lparr>md_write_fails := None, md_store_fails := None, md_flush_fails := None\<rparr>"

definition memory_claim :: "memory_store \<Rightarrow> (state_error + unit) \<times> memory_store" where
  "memory_claim m = (let d = mem_directory m in
     if md_claimed d then (Inl AlreadyHeld, m)
     else (Inr (), m\<lparr>mem_directory := d\<lparr>md_claimed := True\<rparr>, mem_holds_claim := True\<rparr>))"

definition memory_load :: "memory_store \<Rightarrow> (state_error + bytes option) \<times> memory_store" where
  "memory_load m = (let d = mem_directory m in
     case md_read_fails d of
       Some msg \<Rightarrow> (Inl (ReadFailed (IoOther msg)), m)
     | None \<Rightarrow> (Inr (md_record d), m))"

definition flushed :: "directory \<Rightarrow> memory_store \<Rightarrow> (state_error + unit) \<times> memory_store" where
  "flushed d m = (case md_flush_fails d of
       Some msg \<Rightarrow> (Inl (WriteFailed (IoOther msg)), m\<lparr>mem_directory := d\<rparr>)
     | None \<Rightarrow> (Inr (), m\<lparr>mem_directory := d\<rparr>))"

definition memory_replace :: "bytes \<Rightarrow> memory_store \<Rightarrow> (state_error + unit) \<times> memory_store" where
  "memory_replace record m = (let d = mem_directory m in
     case (if md_write_fails d \<noteq> None then md_write_fails d else md_store_fails d) of
       Some msg \<Rightarrow> (Inl (NotReplaced (IoOther msg)), m)
     | None \<Rightarrow> flushed (d\<lparr>md_record := Some record, md_stores := md_stores d + 1\<rparr>) m)"

definition memory_append :: "bytes \<Rightarrow> memory_store \<Rightarrow> (state_error + unit) \<times> memory_store" where
  "memory_append bs m = (let d = mem_directory m in
     case md_write_fails d of
       Some msg \<Rightarrow> (Inl (WriteFailed (IoOther msg)), m)
     | None \<Rightarrow> flushed (d\<lparr>md_record := Some ((case md_record d of None \<Rightarrow> [] | Some r \<Rightarrow> r) @ bs),
                         md_appends := md_appends d + 1\<rparr>) m)"

definition memory_truncate :: "nat \<Rightarrow> memory_store \<Rightarrow> (state_error + unit) \<times> memory_store" where
  "memory_truncate len m = (let d = mem_directory m in
     case md_write_fails d of
       Some msg \<Rightarrow> (Inl (WriteFailed (IoOther msg)), m)
     | None \<Rightarrow> (Inr (), m\<lparr>mem_directory := d\<lparr>md_record := map_option (take len) (md_record d)\<rparr>\<rparr>))"

definition memory_state_store :: "memory_store state_store" where
  "memory_state_store = \<lparr>ss_claim = memory_claim, ss_load = memory_load, ss_store = memory_replace,
     ss_append = memory_append, ss_truncate = memory_truncate\<rparr>"

definition memory_record :: "memory_store \<Rightarrow> bytes option" where
  "memory_record m = md_record (mem_directory m)"

interpretation mem: durable_store memory_state_store memory_record "\<lambda>_. True"
proof (unfold_locales, goal_cases)
  case (4 s c bs r s')
  have "prefix [] bs" by simp
  then show ?case
    using 4 by (force simp: memory_state_store_def memory_append_def flushed_def memory_record_def
        Let_def split: option.splits)
qed (auto simp: memory_state_store_def memory_claim_def memory_load_def memory_replace_def
  memory_truncate_def flushed_def memory_record_def Let_def split: option.splits if_splits)

subsection \<open>The file store\<close>

definition RECORD :: string where "RECORD = ''instruments.state''"
definition PENDING :: string where "PENDING = ''instruments.state.pending''"
definition LOCK :: string where "LOCK = ''writer.lock''"

text \<open>
  The state directory: the file each name refers to, the bytes of each file, the files not made
  yet, whether another process holds the lock; then the fields of \<open>FileStore\<close> and the outcomes of
  the calls still to come.
\<close>

record file_store =
  fst_dir :: "string \<Rightarrow> nat option"
  fst_data :: "nat \<Rightarrow> bytes"
  fst_unused :: nat
  fst_held_elsewhere :: bool
  fst_claim :: bool
  fst_appending :: "nat option"
  fst_outcomes :: "io_outcome list"

type_synonym 'a io = "file_store \<Rightarrow> (io_error + 'a) \<times> file_store"

definition io_call :: "(file_store \<Rightarrow> 'a \<times> file_store) \<Rightarrow> (nat \<Rightarrow> file_store \<Rightarrow> file_store) \<Rightarrow> 'a io" where
  "io_call works fails s = (let s1 = s\<lparr>fst_outcomes := tl (fst_outcomes s)\<rparr> in
     case next_outcome (fst_outcomes s) of
       Works \<Rightarrow> (let (x, s2) = works s1 in (Inr x, s2))
     | Fails e n \<Rightarrow> (Inl e, fails n s1))"

definition io_then :: "'a io \<Rightarrow> ('a \<Rightarrow> 'b io) \<Rightarrow> 'b io" where
  "io_then m f s = (case m s of (Inl e, s) \<Rightarrow> (Inl e, s) | (Inr x, s) \<Rightarrow> f x s)"

definition simple_call :: "unit io" where
  "simple_call = io_call (\<lambda>s. ((), s)) (\<lambda>n s. s)"

definition write_data :: "nat \<Rightarrow> bytes \<Rightarrow> file_store \<Rightarrow> file_store" where
  "write_data i bs s = s\<lparr>fst_data := (fst_data s)(i := bs)\<rparr>"

text \<open>Opening a name, making the file where there is none.\<close>

definition made :: "string \<Rightarrow> file_store \<Rightarrow> nat \<times> file_store" where
  "made name s = (case fst_dir s name of
     Some i \<Rightarrow> (i, s)
   | None \<Rightarrow> let i = fst_unused s in
       (i, write_data i [] (s\<lparr>fst_dir := (fst_dir s)(name \<mapsto> i), fst_unused := i + 1\<rparr>)))"

text \<open>\<open>File::create\<close>, \<open>write_all\<close> at the end of the file, \<open>sync_all\<close> and \<open>sync_data\<close>, \<open>rename\<close>.\<close>

definition create_file :: "string \<Rightarrow> nat io" where
  "create_file name = io_call (\<lambda>s. let (i, s) = made name s in (i, write_data i [] s)) (\<lambda>n s. s)"

definition write_end :: "nat \<Rightarrow> bytes \<Rightarrow> unit io" where
  "write_end i bs = io_call (\<lambda>s. ((), write_data i (fst_data s i @ bs) s))
     (\<lambda>n s. write_data i (fst_data s i @ take n bs) s)"

definition rename_file :: "string \<Rightarrow> string \<Rightarrow> unit io" where
  "rename_file old new = io_call
     (\<lambda>s. ((), s\<lparr>fst_dir := (fst_dir s)(old := None, new := fst_dir s old)\<rparr>)) (\<lambda>n s. s)"

definition remove_file :: "string \<Rightarrow> file_store \<Rightarrow> file_store" where
  "remove_file name s = snd (io_call (\<lambda>s. ((), s\<lparr>fst_dir := (fst_dir s)(name := None)\<rparr>)) (\<lambda>n s. s) s)"

text \<open>Opening a name that must exist.\<close>

definition open_file :: "string \<Rightarrow> nat io" where
  "open_file name = io_then (io_call (\<lambda>s. (fst_dir s name, s)) (\<lambda>n s. s))
     (\<lambda>i s. case i of None \<Rightarrow> (Inl (IoOther ''not found''), s) | Some i \<Rightarrow> (Inr i, s))"

text \<open>\<open>set_len\<close>: cut, or filled with zeros.\<close>

definition set_len :: "nat \<Rightarrow> nat \<Rightarrow> unit io" where
  "set_len i len = io_call (\<lambda>s. ((), write_data i (take len (fst_data s i) @
     replicate (len - length (fst_data s i)) 0) s)) (\<lambda>n s. s)"

definition state_result :: "(io_error \<Rightarrow> state_error) \<Rightarrow> (io_error + 'a) \<times> 's \<Rightarrow> (state_error + 'a) \<times> 's" where
  "state_result f r = (map_sum f id (fst r), snd r)"

definition file_claim :: "file_store \<Rightarrow> (state_error + unit) \<times> file_store" where
  "file_claim s = (case io_then simple_call (\<lambda>_. io_then
         (io_call (made LOCK) (\<lambda>n s. s)) (\<lambda>_. simple_call)) s of
     (Inl e, s) \<Rightarrow> (Inl (ClaimFailed e), s)
   | (Inr _, s) \<Rightarrow> if fst_held_elsewhere s then (Inl AlreadyHeld, s)
       else (Inr (), s\<lparr>fst_claim := True\<rparr>))"

text \<open>A name that is not there is the one failure that is not an error.\<close>

definition file_load :: "file_store \<Rightarrow> (state_error + bytes option) \<times> file_store" where
  "file_load s = state_result ReadFailed
     (io_call (\<lambda>s. (map_option (fst_data s) (fst_dir s RECORD), s)) (\<lambda>n s. s) s)"

definition write_pending :: "bytes \<Rightarrow> unit io" where
  "write_pending record = io_then (create_file PENDING) (\<lambda>i.
     io_then (write_end i record) (\<lambda>_. io_then simple_call (\<lambda>_. rename_file PENDING RECORD)))"

definition sync_dir :: "unit io" where
  "sync_dir = io_then simple_call (\<lambda>_. simple_call)"

definition file_replace :: "bytes \<Rightarrow> file_store \<Rightarrow> (state_error + unit) \<times> file_store" where
  "file_replace record s = (case write_pending record (s\<lparr>fst_appending := None\<rparr>) of
     (Inl e, s) \<Rightarrow> (Inl (NotReplaced e), remove_file PENDING s)
   | (Inr _, s) \<Rightarrow> state_result WriteFailed (sync_dir s))"

definition file_append :: "bytes \<Rightarrow> file_store \<Rightarrow> (state_error + unit) \<times> file_store" where
  "file_append bs s = state_result WriteFailed
     (io_then (\<lambda>s. case fst_appending s of
         Some i \<Rightarrow> (Inr i, s)
       | None \<Rightarrow> io_then (open_file RECORD) (\<lambda>i s. (Inr i, s\<lparr>fst_appending := Some i\<rparr>)) s)
      (\<lambda>i. io_then (write_end i bs) (\<lambda>_. simple_call)) s)"

definition file_truncate :: "nat \<Rightarrow> file_store \<Rightarrow> (state_error + unit) \<times> file_store" where
  "file_truncate len s = state_result WriteFailed
     (io_then (open_file RECORD) (\<lambda>i. io_then (set_len i len) (\<lambda>_. simple_call)) s)"

definition file_state_store :: "file_store state_store" where
  "file_state_store = \<lparr>ss_claim = file_claim, ss_load = file_load, ss_store = file_replace,
     ss_append = file_append, ss_truncate = file_truncate\<rparr>"

text \<open>
  What \<open>load\<close> reads, and what the fields keep true: no two names are one file, the append handle is
  on the record's file, and a file not made yet has no name.
\<close>

definition file_record :: "file_store \<Rightarrow> bytes option" where
  "file_record s = map_option (fst_data s) (fst_dir s RECORD)"

definition file_ok :: "file_store \<Rightarrow> bool" where
  "file_ok s \<longleftrightarrow> (\<forall>n n' i. fst_dir s n = Some i \<longrightarrow> fst_dir s n' = Some i \<longrightarrow> n = n') \<and>
     (\<forall>name i. fst_dir s name = Some i \<longrightarrow> i < fst_unused s) \<and>
     (fst_appending s = None \<or> fst_appending s = fst_dir s RECORD)"

lemma names_differ [simp]: "PENDING \<noteq> RECORD" "RECORD \<noteq> PENDING" "LOCK \<noteq> RECORD" "RECORD \<noteq> LOCK"
    "LOCK \<noteq> PENDING" "PENDING \<noteq> LOCK"
  by (simp_all add: PENDING_def RECORD_def LOCK_def)

lemma outcomes_irrelevant [simp]:
  "file_ok (s\<lparr>fst_outcomes := os\<rparr>) = file_ok s" "file_record (s\<lparr>fst_outcomes := os\<rparr>) = file_record s"
  by (simp_all add: file_ok_def file_record_def)

lemma write_data_elsewhere [simp]:
  "fst_dir (write_data i bs s) = fst_dir s" "fst_appending (write_data i bs s) = fst_appending s"
  "fst_data (write_data i bs s) i = bs" "file_ok (write_data i bs s) = file_ok s"
  "fst_dir s RECORD \<noteq> Some i \<Longrightarrow> file_record (write_data i bs s) = file_record s"
  by (auto simp: write_data_def file_ok_def file_record_def intro!: option.map_cong0)

lemma io_callE:
  assumes "io_call works fails s = (r, s')"
  obtains x where "r = Inr x" "works (s\<lparr>fst_outcomes := tl (fst_outcomes s)\<rparr>) = (x, s')"
    | e n where "r = Inl e" "s' = fails n (s\<lparr>fst_outcomes := tl (fst_outcomes s)\<rparr>)"
  using assms by (auto simp: io_call_def Let_def split: io_outcome.splits prod.splits)

lemma io_thenE:
  assumes "io_then m f s = (r, s')"
  obtains e where "m s = (Inl e, s')" "r = Inl e"
    | x s1 where "m s = (Inr x, s1)" "f x s1 = (r, s')"
  using assms by (auto simp: io_then_def split: prod.splits sum.splits)

lemma state_resultE:
  assumes "state_result f p = (r, s')"
  obtains q where "p = (q, s')" "r = map_sum f id q"
  using assms by (cases p) (simp add: state_result_def)

text \<open>A call that touches nothing the promises speak of.\<close>

definition untouched :: "file_store \<Rightarrow> file_store \<Rightarrow> bool" where
  "untouched s s' \<longleftrightarrow> (file_ok s \<longrightarrow> file_ok s') \<and> file_record s' = file_record s \<and>
     fst_dir s' RECORD = fst_dir s RECORD \<and> fst_appending s' = fst_appending s"

lemma untouched_trans [trans]: "untouched s t \<Longrightarrow> untouched t u \<Longrightarrow> untouched s u"
  by (simp add: untouched_def)

lemma untouched_outcomes [simp]: "untouched s (s\<lparr>fst_outcomes := os\<rparr>)"
  by (simp add: untouched_def)

lemma simple_untouched: "simple_call s = (r, s') \<Longrightarrow> untouched s s' \<and> fst_dir s' = fst_dir s \<and> fst_data s' = fst_data s"
  unfolding simple_call_def by (erule io_callE) auto

lemma made_untouched:
  assumes "file_ok s" "name \<noteq> RECORD" "made name s = (i, s')"
  shows "untouched s s' \<and> fst_dir s' name = Some i \<and> file_ok s'"
proof (cases "fst_dir s name")
  case None
  let ?s = "s\<lparr>fst_dir := (fst_dir s)(name \<mapsto> fst_unused s), fst_unused := fst_unused s + 1\<rparr>"
  have new: "fst_dir s n \<noteq> Some (fst_unused s)" for n
    using assms(1) by (auto simp: file_ok_def)
  have "file_ok ?s"
    using assms(1,2) new unfolding file_ok_def by (auto split: if_splits simp: less_Suc_eq)
  moreover have "file_record ?s = file_record s" "s' = write_data (fst_unused s) [] ?s" "i = fst_unused s"
    using assms(2,3) None by (auto simp: made_def file_record_def Let_def)
  ultimately show ?thesis
    using assms(2) new by (simp add: untouched_def)
qed (use assms in \<open>simp add: made_def untouched_def\<close>)

lemma create_pending:
  assumes "file_ok s" "create_file PENDING s = (r, s')"
  shows "untouched s s' \<and> (case r of Inl e \<Rightarrow> True
    | Inr i \<Rightarrow> fst_dir s' PENDING = Some i \<and> fst_dir s' RECORD \<noteq> Some i \<and> fst_data s' i = [])"
  using assms(2) unfolding create_file_def
proof (cases rule: io_callE)
  case (1 i)
  then obtain s1 where s1: "made PENDING (s\<lparr>fst_outcomes := tl (fst_outcomes s)\<rparr>) = (i, s1)"
      "s' = write_data i [] s1"
    by (auto split: prod.splits)
  have "untouched s s1" "fst_dir s1 PENDING = Some i" "file_ok s1"
    using made_untouched [OF _ _ s1(1)] assms(1) untouched_trans [OF untouched_outcomes] by auto
  moreover from this have "fst_dir s1 RECORD \<noteq> Some i"
    unfolding file_ok_def using names_differ(1) by blast
  ultimately show ?thesis
    using 1(1) s1(2) by (simp add: untouched_def)
qed auto

lemma write_end_elsewhere:
  assumes "write_end i bs s = (r, s')" "fst_dir s RECORD \<noteq> Some i"
  shows "untouched s s' \<and> fst_dir s' = fst_dir s \<and> (r = Inr () \<longrightarrow> fst_data s' i = fst_data s i @ bs)"
  using assms(1) unfolding write_end_def
  by (cases rule: io_callE) (use assms(2) in \<open>auto simp: untouched_def\<close>)

lemma write_pending_result:
  assumes "file_ok s" "fst_appending s = None" "write_pending bs s = (r, s')"
  shows "file_ok s' \<and> fst_appending s' = None \<and>
    file_record s' = (case r of Inl e \<Rightarrow> file_record s | Inr _ \<Rightarrow> Some bs)"
  using assms(3) unfolding write_pending_def
proof (cases rule: io_thenE)
  case (1 e)
  then show ?thesis
    using create_pending [OF assms(1) 1(1)] assms(1,2) by (simp add: untouched_def)
next
  case (2 i s1)
  note s1 = create_pending [OF assms(1) 2(1), simplified]
  show ?thesis
    using 2(2)
  proof (cases rule: io_thenE)
    case (1 e)
    then show ?thesis
      using write_end_elsewhere [OF 1(1)] s1 assms(1,2) by (simp add: untouched_def)
  next
    case s2: (2 x s2)
    note w = write_end_elsewhere [OF s2(1)]
    show ?thesis
      using s2(2)
    proof (cases rule: io_thenE)
      case (1 e)
      then show ?thesis
        using simple_untouched [OF 1(1)] w s1 assms(1,2) by (simp add: untouched_def)
    next
      case s3: (2 y s3)
      then have f: "file_ok s3" "fst_dir s3 PENDING = Some i" "fst_data s3 i = bs" "fst_appending s3 = None"
          "file_record s3 = file_record s"
        using simple_untouched [OF s3(1)] w s1 assms(1,2) by (auto simp: untouched_def)
      show ?thesis
        using s3(2) unfolding rename_file_def
      proof (cases rule: io_callE)
        case (1 z)
        have "file_ok s'"
          using f(1,2,4) 1(2) unfolding file_ok_def by (auto split: if_splits)
        then show ?thesis
          using f 1 by (auto simp: file_record_def)
      qed (use f in auto)
    qed
  qed
qed

lemma file_replace_result:
  assumes "file_ok s" "file_replace bs s = (r, s')"
  shows "file_ok s' \<and> (case r of Inr _ \<Rightarrow> file_record s' = Some bs
    | Inl (NotReplaced _) \<Rightarrow> file_record s' = file_record s
    | Inl e \<Rightarrow> file_record s' = file_record s \<or> file_record s' = Some bs)"
proof -
  let ?s = "s\<lparr>fst_appending := None\<rparr>"
  obtain q s1 where w: "write_pending bs ?s = (q, s1)" by fastforce
  have "file_ok ?s" "file_record ?s = file_record s"
    using assms(1) by (simp_all add: file_ok_def file_record_def)
  then have s1: "file_ok s1" "fst_appending s1 = None"
      "file_record s1 = (case q of Inl e \<Rightarrow> file_record s | Inr _ \<Rightarrow> Some bs)"
    using write_pending_result [OF _ _ w] by (simp_all split: sum.splits)
  show ?thesis
  proof (cases q)
    case (Inl e)
    have "untouched s1 (remove_file PENDING s1)"
      using s1(2) by (auto simp: remove_file_def io_call_def untouched_def file_ok_def file_record_def Let_def
          split: io_outcome.splits)
    then show ?thesis
      using assms(2) w Inl s1 by (auto simp: file_replace_def untouched_def)
  next
    case (Inr x)
    then obtain q2 where sync: "sync_dir s1 = (q2, s')" "r = map_sum WriteFailed id q2"
      using assms(2) w by (cases "sync_dir s1") (auto simp: file_replace_def state_result_def)
    have "untouched s1 s'"
      using sync(1) unfolding sync_dir_def
      by (elim io_thenE) (auto dest!: simple_untouched elim: untouched_trans)
    then show ?thesis
      using s1 Inr sync(2) by (cases q2) (auto simp: untouched_def)
  qed
qed

lemma open_file_result:
  "open_file name s = (r, s') \<Longrightarrow> untouched s s' \<and> fst_dir s' = fst_dir s \<and>
    (case r of Inl e \<Rightarrow> True | Inr i \<Rightarrow> fst_dir s name = Some i)"
  unfolding open_file_def by (elim io_thenE io_callE) (auto split: option.splits)

text \<open>Writing to the record's own file.\<close>

lemma write_record:
  assumes "fst_dir s RECORD = Some i"
  shows "file_record (write_data i bs s) = Some bs" "file_record s = Some (fst_data s i)"
  using assms by (simp_all add: file_record_def write_data_def)

lemma write_then_sync:
  assumes "fst_dir s RECORD = Some i" "file_ok s" "file_record s = Some c"
    and "\<And>s r s'. call s = (r, s') \<Longrightarrow> fst_dir s RECORD = Some i \<Longrightarrow> file_ok s \<Longrightarrow> file_record s = Some c \<Longrightarrow>
      file_ok s' \<and> (\<exists>c'. file_record s' = Some c' \<and> P c' \<and> (r = Inr () \<longrightarrow> Q c'))"
    and "io_then call (\<lambda>_. simple_call) s = (r, s')"
  shows "file_ok s' \<and> (\<exists>c'. file_record s' = Some c' \<and> P c' \<and> (r = Inr () \<longrightarrow> Q c'))"
  using assms(5)
proof (cases rule: io_thenE)
  case (1 e)
  then show ?thesis using assms(4) [OF 1(1) assms(1-3)] by simp
next
  case (2 x s1)
  then show ?thesis
    using assms(4) [OF 2(1) assms(1-3)] simple_untouched [OF 2(2)] by (auto simp: untouched_def)
qed

lemma write_end_record:
  assumes "write_end i bs s = (r, s')" "fst_dir s RECORD = Some i" "file_ok s" "file_record s = Some c"
  shows "file_ok s' \<and> (\<exists>c'. file_record s' = Some c' \<and> (\<exists>p. prefix p bs \<and> c' = c @ p) \<and> (r = Inr () \<longrightarrow> c' = c @ bs))"
  using assms(1) unfolding write_end_def
  by (cases rule: io_callE) (use assms(2-4) in \<open>auto simp: write_record take_is_prefix\<close>)

lemma set_len_record:
  assumes "set_len i n s = (r, s')" "fst_dir s RECORD = Some i" "file_ok s" "file_record s = Some c" "n \<le> length c"
  shows "file_ok s' \<and> (\<exists>c'. file_record s' = Some c' \<and> (c' = c \<or> c' = take n c) \<and> (r = Inr () \<longrightarrow> c' = take n c))"
  using assms(1) unfolding set_len_def
  by (cases rule: io_callE) (use assms(2-5) in \<open>auto simp: write_record\<close>)

lemma file_append_result:
  assumes "file_ok s" "file_record s = Some c" "file_append bs s = (r, s')"
  shows "file_ok s' \<and> (case r of Inr _ \<Rightarrow> file_record s' = Some (c @ bs)
    | Inl e \<Rightarrow> \<exists>p. prefix p bs \<and> file_record s' = Some (c @ p))"
proof -
  let ?open = "\<lambda>s. case fst_appending s of Some i \<Rightarrow> (Inr i, s)
    | None \<Rightarrow> io_then (open_file RECORD) (\<lambda>i s. (Inr i, s\<lparr>fst_appending := Some i\<rparr>)) s"
  obtain q where q: "io_then ?open (\<lambda>i. io_then (write_end i bs) (\<lambda>_. simple_call)) s = (q, s')"
      "r = map_sum WriteFailed id q"
    using assms(3) unfolding file_append_def by (rule state_resultE)
  have opened: "file_ok s1 \<and> file_record s1 = Some c \<and>
      (case q1 of Inl e \<Rightarrow> True | Inr i \<Rightarrow> fst_dir s1 RECORD = Some i)" if "?open s = (q1, s1)" for q1 s1
  proof (cases "fst_appending s")
    case None
    then have "io_then (open_file RECORD) (\<lambda>i s. (Inr i, s\<lparr>fst_appending := Some i\<rparr>)) s = (q1, s1)"
      using that by simp
    then show ?thesis
    proof (cases rule: io_thenE)
      case (1 e)
      then show ?thesis
        using open_file_result [OF 1(1)] assms(1,2) by (simp add: untouched_def)
    next
      case (2 i s2)
      then show ?thesis
        using open_file_result [OF 2(1)] assms(1,2) by (auto simp: untouched_def file_ok_def file_record_def)
    qed
  next
    case (Some i)
    then show ?thesis
      using that assms(1,2) by (auto simp: file_ok_def)
  qed
  show ?thesis
    using q(1)
  proof (cases rule: io_thenE)
    case (1 e)
    then show ?thesis
      using opened [OF 1(1)] q(2) by (auto intro!: exI [of _ "[]"])
  next
    case (2 i s1)
    have s1: "fst_dir s1 RECORD = Some i" "file_ok s1" "file_record s1 = Some c"
      using opened [OF 2(1)] by simp_all
    have "file_ok s' \<and> (\<exists>c'. file_record s' = Some c' \<and> (\<exists>p. prefix p bs \<and> c' = c @ p) \<and> (q = Inr () \<longrightarrow> c' = c @ bs))"
      by (rule write_then_sync [OF s1 _ 2(2)]) (rule write_end_record)
    then show ?thesis
      using q(2) by (cases q) auto
  qed
qed

lemma file_truncate_result:
  assumes "file_ok s" "file_record s = Some c" "n \<le> length c" "file_truncate n s = (r, s')"
  shows "file_ok s' \<and> (case r of Inr _ \<Rightarrow> file_record s' = Some (take n c)
    | Inl e \<Rightarrow> file_record s' = Some c \<or> file_record s' = Some (take n c))"
proof -
  obtain q where q: "io_then (open_file RECORD) (\<lambda>i. io_then (set_len i n) (\<lambda>_. simple_call)) s = (q, s')"
      "r = map_sum WriteFailed id q"
    using assms(4) unfolding file_truncate_def by (rule state_resultE)
  show ?thesis
    using q(1)
  proof (cases rule: io_thenE)
    case (1 e)
    then show ?thesis
      using open_file_result [OF 1(1)] q(2) assms(1,2) by (auto simp: untouched_def)
  next
    case (2 i s1)
    have s1: "fst_dir s1 RECORD = Some i" "file_ok s1" "file_record s1 = Some c"
      using open_file_result [OF 2(1)] assms(1,2) by (auto simp: untouched_def)
    have "file_ok s' \<and> (\<exists>c'. file_record s' = Some c' \<and> (c' = c \<or> c' = take n c) \<and> (q = Inr () \<longrightarrow> c' = take n c))"
      by (rule write_then_sync [OF s1 _ 2(2)]) (rule set_len_record [OF _ _ _ _ assms(3)])
    then show ?thesis
      using q(2) by (cases q) auto
  qed
qed

lemma file_claim_result:
  assumes "file_ok s" "file_claim s = (r, s')"
  shows "file_ok s' \<and> file_record s' = file_record s"
proof -
  have claimed: "file_ok (s\<lparr>fst_claim := b\<rparr>) = file_ok s" "file_record (s\<lparr>fst_claim := b\<rparr>) = file_record s" for b s
    by (simp_all add: file_ok_def file_record_def)
  obtain q s1 where q: "io_then simple_call (\<lambda>_. io_then (io_call (made LOCK) (\<lambda>n s. s)) (\<lambda>_. simple_call)) s = (q, s1)"
    by fastforce
  have "untouched s s1"
    using q
  proof (cases rule: io_thenE)
    case (2 x s2)
    note a = simple_untouched [OF 2(1)]
    show ?thesis
      using 2(2)
    proof (cases rule: io_thenE)
      case (1 e)
      then show ?thesis
        using a untouched_trans [OF _ untouched_outcomes] by (auto elim!: io_callE)
    next
      case (2 y s3)
      have "untouched s2 s3"
        using 2(1) a assms(1) made_untouched [of "s2\<lparr>fst_outcomes := tl (fst_outcomes s2)\<rparr>" LOCK]
        by (elim io_callE) (auto simp: untouched_def)
      then show ?thesis
        using a simple_untouched [OF 2(2)] untouched_trans by blast
    qed
  qed (use simple_untouched in blast)
  then show ?thesis
    using assms q by (cases q) (auto simp: file_claim_def untouched_def claimed split: if_splits)
qed

interpretation fil: durable_store file_state_store file_record file_ok
proof (unfold_locales, goal_cases)
  case (1 s r s')
  then show ?case using file_claim_result [of s r s'] by (simp add: file_state_store_def)
next
  case (2 s l s')
  then have "io_call (\<lambda>s. (map_option (fst_data s) (fst_dir s RECORD), s)) (\<lambda>n s. s) s = (l', s') \<Longrightarrow>
      l = map_sum ReadFailed id l' \<Longrightarrow> ?case" for l'
    by (elim io_callE) (auto simp: file_record_def)
  then show ?case
    using 2(2) by (auto simp: file_state_store_def file_load_def elim!: state_resultE)
next
  case (3 s bs r s')
  then show ?case using file_replace_result [of s bs r s'] by (simp add: file_state_store_def)
next
  case (4 s c bs r s')
  then show ?case using file_append_result [of s c bs r s'] by (simp add: file_state_store_def)
next
  case (5 s c n r s')
  then show ?case using file_truncate_result [of s c n r s'] by (simp add: file_state_store_def)
qed

end
