(* ===== verification/Refdata_Compose.thy ===== *)
theory Refdata_Compose
  imports Scaling Messages_Refdata Text_Field
begin

section \<open>Composing reference data\<close>

text \<open>
  \<open>definition.rs\<close>, \<open>strike.rs\<close> and \<open>refusal.rs\<close> of \<open>dz-publisher-refdata\<close>, with what the venue
  states (\<open>InstrumentSpec\<close>, \<open>Strike\<close> of \<open>dz-adapter-core\<close>). A \<open>&str\<close> is its bytes.
\<close>

unbundle bit_operations_syntax

subsection \<open>What the venue states\<close>

datatype asset_class =
    AssetUnknown | CryptoSpot | PredictionBinary | PredictionScalar | PredictionCategorical
  | PerpetualFuture | DatedFuture

datatype market_model = ModelUnknown | Clob | Amm

datatype settle_type = NotApplicable | Cash | Physical

datatype price_bound = Unbounded | UnitInterval | NonNegative

record instrument_spec =
  sp_symbol :: bytes
  sp_venue_key :: "bytes option"
  sp_leg1 :: "bytes option"
  sp_leg2 :: "bytes option"
  sp_asset_class :: asset_class
  sp_price_exponent :: i8
  sp_qty_exponent :: i8
  sp_market_model :: market_model
  sp_tick_size :: scalar
  sp_lot_size :: scalar
  sp_contract_value :: "scalar option"
  sp_quoted_per_contract :: "scalar option"
  sp_expiry_ns :: "u64 option"
  sp_settle_type :: settle_type
  sp_price_bound :: price_bound

datatype strike_bound = StrikeBound (sb_value: scalar) (sb_inclusive: bool)

datatype strike = StrikePending | StrikeFixed "strike_bound option" "strike_bound option" "u64 option"

subsection \<open>Refusals\<close>

datatype refusal =
    Capped
  | ContractSizeRefused
  | FieldRefused lowering_error
  | ScaleRestated
  | DatedFutureTerms
  | UnknownShard
  | ShardRestated
  | StrikeUnrepresentable
  | StrikeEmpty
  | StrikeUnfixed
  | StrikePresence
  | BadVenueKey
  | VenueKeyNotDeclared
  | IdSpaceExhausted
  | IdUnavailable
  | Unpersistable
  | ShuttingDownRefused

fun is_ordinary :: "refusal \<Rightarrow> bool" where
  "is_ordinary Capped = True"
| "is_ordinary r = False"

definition refused :: "lowering_error + 'a \<Rightarrow> refusal + 'a" where
  "refused r = map_sum FieldRefused id r"

subsection \<open>The wire tables\<close>

definition ASSET_CLASS_UNKNOWN :: u8 where "ASSET_CLASS_UNKNOWN = 0"
definition ASSET_CLASS_CRYPTO_SPOT :: u8 where "ASSET_CLASS_CRYPTO_SPOT = 1"
definition ASSET_CLASS_PREDICTION_BINARY :: u8 where "ASSET_CLASS_PREDICTION_BINARY = 2"
definition ASSET_CLASS_PREDICTION_SCALAR :: u8 where "ASSET_CLASS_PREDICTION_SCALAR = 3"
definition ASSET_CLASS_PREDICTION_CATEGORICAL :: u8 where "ASSET_CLASS_PREDICTION_CATEGORICAL = 4"
definition ASSET_CLASS_PERPETUAL_FUTURE :: u8 where "ASSET_CLASS_PERPETUAL_FUTURE = 5"
definition ASSET_CLASS_DATED_FUTURE :: u8 where "ASSET_CLASS_DATED_FUTURE = 6"
definition MARKET_MODEL_UNKNOWN :: u8 where "MARKET_MODEL_UNKNOWN = 0"
definition MARKET_MODEL_CLOB :: u8 where "MARKET_MODEL_CLOB = 1"
definition MARKET_MODEL_AMM :: u8 where "MARKET_MODEL_AMM = 2"
definition SETTLE_TYPE_NA :: u8 where "SETTLE_TYPE_NA = 0"
definition SETTLE_TYPE_CASH :: u8 where "SETTLE_TYPE_CASH = 1"
definition SETTLE_TYPE_PHYSICAL :: u8 where "SETTLE_TYPE_PHYSICAL = 2"
definition PRICE_BOUND_UNBOUNDED :: u8 where "PRICE_BOUND_UNBOUNDED = 0"
definition PRICE_BOUND_UNIT_INTERVAL :: u8 where "PRICE_BOUND_UNIT_INTERVAL = 1"
definition PRICE_BOUND_NON_NEGATIVE :: u8 where "PRICE_BOUND_NON_NEGATIVE = 2"

fun asset_class_byte :: "asset_class \<Rightarrow> u8" where
  "asset_class_byte AssetUnknown = ASSET_CLASS_UNKNOWN"
| "asset_class_byte CryptoSpot = ASSET_CLASS_CRYPTO_SPOT"
| "asset_class_byte PredictionBinary = ASSET_CLASS_PREDICTION_BINARY"
| "asset_class_byte PredictionScalar = ASSET_CLASS_PREDICTION_SCALAR"
| "asset_class_byte PredictionCategorical = ASSET_CLASS_PREDICTION_CATEGORICAL"
| "asset_class_byte PerpetualFuture = ASSET_CLASS_PERPETUAL_FUTURE"
| "asset_class_byte DatedFuture = ASSET_CLASS_DATED_FUTURE"

fun market_model_byte :: "market_model \<Rightarrow> u8" where
  "market_model_byte ModelUnknown = MARKET_MODEL_UNKNOWN"
| "market_model_byte Clob = MARKET_MODEL_CLOB"
| "market_model_byte Amm = MARKET_MODEL_AMM"

fun settle_type_byte :: "settle_type \<Rightarrow> u8" where
  "settle_type_byte NotApplicable = SETTLE_TYPE_NA"
| "settle_type_byte Cash = SETTLE_TYPE_CASH"
| "settle_type_byte Physical = SETTLE_TYPE_PHYSICAL"

fun price_bound_byte :: "price_bound \<Rightarrow> u8" where
  "price_bound_byte Unbounded = PRICE_BOUND_UNBOUNDED"
| "price_bound_byte UnitInterval = PRICE_BOUND_UNIT_INTERVAL"
| "price_bound_byte NonNegative = PRICE_BOUND_NON_NEGATIVE"

subsection \<open>Definitions\<close>

definition UNSTAMPED :: u16 where "UNSTAMPED = 0"

record fits =
  fits_symbol :: fit
  fits_leg1 :: "fit option"
  fits_leg2 :: "fit option"

definition all_fitted :: "fits \<Rightarrow> bool" where
  "all_fitted f \<longleftrightarrow> fits_symbol f = Fitted \<and>
     (case fits_leg1 f of None \<Rightarrow> True | Some x \<Rightarrow> x = Fitted) \<and>
     (case fits_leg2 f of None \<Rightarrow> True | Some x \<Rightarrow> x = Fitted)"

record composition =
  co_instrument :: instrument
  co_definition :: instrument_definition
  co_fits :: fits

definition symbol_field :: "bytes \<Rightarrow> bytes \<times> fit" where
  "symbol_field ticker = pad_text SYMBOL_LEN ticker"

definition set_leg ::
    "(instrument_definition \<Rightarrow> bytes \<Rightarrow> instrument_definition \<times> fit) \<Rightarrow> bytes option \<Rightarrow>
     instrument_definition \<Rightarrow> instrument_definition \<times> fit option" where
  "set_leg set_field leg d = (case leg of None \<Rightarrow> (d, None)
     | Some text \<Rightarrow> let (d, f) = set_field d text in (d, Some f))"

definition compose :: "instrument_spec \<Rightarrow> u32 \<Rightarrow> u16 \<Rightarrow> refusal + composition" where
  "compose spec instrument_id source_id =
    (if sp_asset_class spec = DatedFuture \<and>
        ((case sp_expiry_ns spec of None \<Rightarrow> True | Some expiry \<Rightarrow> expiry = 0) \<or>
         sp_settle_type spec = NotApplicable)
     then Inl DatedFutureTerms
     else
     bind_ok (case sp_quoted_per_contract spec of
         None \<Rightarrow> Inr None
       | Some stated \<Rightarrow> bind_ok (ok_or ContractSizeRefused (contract_from_scalar stated)) (\<lambda>c. Inr (Some c)))
       (\<lambda>quoted_per_contract.
     let inst = \<lparr>in_instrument_id = instrument_id, in_price_exponent = sp_price_exponent spec,
           in_qty_exponent = sp_qty_exponent spec, in_quoted_per_contract = quoted_per_contract\<rparr> in
     bind_ok (refused (price_for inst (sp_tick_size spec) ''tick_size'')) (\<lambda>tick_size.
     bind_ok (refused (qty_for inst (sp_lot_size spec) ''lot_size'')) (\<lambda>lot_size.
     bind_ok (case sp_contract_value spec of
         None \<Rightarrow> Inr 0
       | Some stated \<Rightarrow> refused (scale_err ''contract_value'' (qty_at stated (sp_price_exponent spec))))
       (\<lambda>contract_value.
     let d = \<lparr>idef_instrument_id = instrument_id, idef_source_id = source_id,
           idef_symbol = replicate SYMBOL_LEN 0, idef_leg1 = replicate LEG_LEN 0,
           idef_leg2 = replicate LEG_LEN 0,
           idef_asset_class = asset_class_byte (sp_asset_class spec),
           idef_price_exponent = sp_price_exponent spec, idef_qty_exponent = sp_qty_exponent spec,
           idef_market_model = market_model_byte (sp_market_model spec),
           idef_tick_size = tick_size, idef_lot_size = lot_size,
           idef_contract_value = contract_value,
           idef_expiry_ns = (case sp_expiry_ns spec of None \<Rightarrow> 0 | Some ns \<Rightarrow> ns),
           idef_settle_type = settle_type_byte (sp_settle_type spec),
           idef_price_bound = price_bound_byte (sp_price_bound spec),
           idef_manifest_seq = UNSTAMPED\<rparr>;
         (d, symbol_fit) = set_symbol d (sp_symbol spec);
         (d, leg1_fit) = set_leg set_leg1 (sp_leg1 spec) d;
         (d, leg2_fit) = set_leg set_leg2 (sp_leg2 spec) d in
     Inr \<lparr>co_instrument = inst, co_definition = d,
          co_fits = \<lparr>fits_symbol = symbol_fit, fits_leg1 = leg1_fit, fits_leg2 = leg2_fit\<rparr>\<rparr>)))))"

definition stamped :: "instrument_definition \<Rightarrow> u16 \<Rightarrow> instrument_definition" where
  "stamped d manifest_seq = d\<lparr>idef_manifest_seq := manifest_seq\<rparr>"

definition same_definition :: "instrument_definition \<Rightarrow> instrument_definition \<Rightarrow> bool" where
  "same_definition l r \<longleftrightarrow> l\<lparr>idef_manifest_seq := UNSTAMPED\<rparr> = r\<lparr>idef_manifest_seq := UNSTAMPED\<rparr>"

subsection \<open>Strikes\<close>

definition PENDING_EXPONENT :: i8 where "PENDING_EXPONENT = 0"

text \<open>\<open>split_once('.')\<close> and the trailing zeros trimmed.\<close>

definition fraction_digits :: "bytes \<Rightarrow> nat" where
  "fraction_digits s = (let r = dropWhile (\<lambda>c. c \<noteq> 46) s in
     if r = [] then 0 else length (dropWhile (\<lambda>c. c = 48) (rev (tl r))))"

fun strip_zero_digits :: "nat \<Rightarrow> int \<Rightarrow> nat" where
  "strip_zero_digits 0 mantissa = 0"
| "strip_zero_digits (Suc n) mantissa =
     (if mantissa smod 10 = 0 then strip_zero_digits n (mantissa sdiv 10) else Suc n)"

definition coarsest_exponent :: "scalar \<Rightarrow> refusal + i8" where
  "coarsest_exponent v =
    (let n = (case v of
         ScalarText s \<Rightarrow> fraction_digits s
       | ScalarFixed mantissa exponent \<Rightarrow> strip_zero_digits (nat (- min (sint exponent) 0)) (sint mantissa)) in
     if n \<le> 128 then Inr (word_of_int (- int n)) else Inl StrikeUnrepresentable)"

definition bound_flags_of :: "u8 \<Rightarrow> u8 \<Rightarrow> strike_bound option \<Rightarrow> u8" where
  "bound_flags_of present inclusive bound = (case bound of None \<Rightarrow> 0
     | Some b \<Rightarrow> present OR (if sb_inclusive b then inclusive else 0))"

definition bound_at :: "i8 \<Rightarrow> strike_bound option \<Rightarrow> refusal + i64" where
  "bound_at exponent bound = (case bound of None \<Rightarrow> Inr 0
     | Some b \<Rightarrow> map_sum (\<lambda>_. StrikeUnrepresentable) id (price_at (sb_value b) exponent))"

definition finer_exponent :: "strike_bound option \<Rightarrow> i8 \<Rightarrow> refusal + i8" where
  "finer_exponent bound exponent = (case bound of None \<Rightarrow> Inr exponent
     | Some b \<Rightarrow> bind_ok (coarsest_exponent (sb_value b)) (\<lambda>e.
         Inr (if sint e < sint exponent then e else exponent)))"

fun compose_strike :: "strike \<Rightarrow> u32 \<Rightarrow> u16 \<Rightarrow> refusal + strike_interval" where
  "compose_strike StrikePending instrument_id source_id =
     Inr (strike_interval_pending instrument_id source_id PENDING_EXPONENT)"
| "compose_strike (StrikeFixed lower upper fixing_time_ns) instrument_id source_id =
    (if lower = None \<and> upper = None then Inl StrikeUnrepresentable
     else
     bind_ok (finer_exponent lower 0) (\<lambda>e.
     bind_ok (finer_exponent upper e) (\<lambda>strike_exponent.
     bind_ok (bound_at strike_exponent lower) (\<lambda>lower_bound.
     bind_ok (bound_at strike_exponent upper) (\<lambda>upper_bound.
     let composed = \<lparr>si_instrument_id = instrument_id, si_source_id = source_id,
           si_strike_exponent = strike_exponent,
           si_bound_flags = bound_flags_of BOUND_LOWER_PRESENT BOUND_LOWER_INCLUSIVE lower OR
             bound_flags_of BOUND_UPPER_PRESENT BOUND_UPPER_INCLUSIVE upper,
           si_lower_bound = lower_bound, si_upper_bound = upper_bound,
           si_fixing_time_ns = (case fixing_time_ns of None \<Rightarrow> 0 | Some ns \<Rightarrow> ns)\<rparr> in
     if strike_interval_defect composed \<noteq> None then Inl StrikeEmpty else Inr composed)))))"

end
