(* ===== verification/Refdata_Pacer.thy ===== *)
theory Refdata_Pacer
  imports Datagram_Builder Messages_Refdata
begin

section \<open>Which instruments, and when: the selection policy and the definition cycle\<close>

text \<open>
  \<open>policy.rs\<close> and \<open>pacer.rs\<close> of \<open>dz-publisher-refdata\<close>. A \<open>usize\<close> is a natural number with the
  saturation of the code written out; a \<open>u64\<close> of nanoseconds is one below \<open>2 ^ 64\<close>.
\<close>

definition USIZE_MAX :: nat where "USIZE_MAX = 2 ^ 64 - 1"

subsection \<open>Selection\<close>

record selection_policy =
  pol_bootstrap_top_n :: nat
  pol_max_published :: nat
  pol_warn_published_above :: nat

datatype policy_error =
    SeedIsZero
  | CapBelowSeed nat nat
  | WarnNotBelowCap nat nat

datatype phase = Seeding | Established | ShuttingDown

definition policy_from_seed :: "nat \<Rightarrow> policy_error + selection_policy" where
  "policy_from_seed top_n = (if top_n = 0 then Inl SeedIsZero
     else Inr \<lparr>pol_bootstrap_top_n = top_n, pol_max_published = min (top_n * 2) USIZE_MAX,
       pol_warn_published_above = top_n\<rparr>)"

definition policy_new :: "nat \<Rightarrow> nat \<Rightarrow> nat \<Rightarrow> policy_error + selection_policy" where
  "policy_new bootstrap_top_n max_published warn_published_above =
    (if bootstrap_top_n = 0 then Inl SeedIsZero
     else if max_published < bootstrap_top_n then Inl (CapBelowSeed bootstrap_top_n max_published)
     else if warn_published_above \<ge> max_published
     then Inl (WarnNotBelowCap warn_published_above max_published)
     else Inr \<lparr>pol_bootstrap_top_n = bootstrap_top_n, pol_max_published = max_published,
       pol_warn_published_above = warn_published_above\<rparr>)"

fun policy_limit :: "selection_policy \<Rightarrow> phase \<Rightarrow> nat" where
  "policy_limit p Seeding = pol_bootstrap_top_n p"
| "policy_limit p Established = pol_max_published p"
| "policy_limit p ShuttingDown = 0"

definition warns_at :: "selection_policy \<Rightarrow> nat \<Rightarrow> bool" where
  "warns_at p published \<longleftrightarrow> published > pol_warn_published_above p"

subsection \<open>The schedule\<close>

definition LAP_PERCENT :: nat where "LAP_PERCENT = 80"

definition definitions_per_datagram :: "u16 \<Rightarrow> nat" where
  "definitions_per_datagram mtu =
     max ((clamp_capacity mtu - DATAGRAM_HEADER_SIZE) div SIZE instrument_definition_message) 1"

record cycle_schedule =
  cy_cycle_ns :: nat
  cy_definitions_per_datagram :: nat
  cy_max_datagrams_per_tick :: nat
  cy_payload_per_datagram :: nat

definition schedule_new :: "nat \<Rightarrow> u16 \<Rightarrow> nat \<Rightarrow> cycle_schedule" where
  "schedule_new cycle_as_nanos mtu max_datagrams_per_tick =
     \<lparr>cy_cycle_ns = min cycle_as_nanos (2 ^ 64 - 1),
      cy_definitions_per_datagram = definitions_per_datagram mtu,
      cy_max_datagrams_per_tick = max max_datagrams_per_tick 1,
      cy_payload_per_datagram = clamp_capacity mtu - DATAGRAM_HEADER_SIZE\<rparr>"

definition lap_ns :: "cycle_schedule \<Rightarrow> nat" where
  "lap_ns c = (let lap = cy_cycle_ns c div 100 * LAP_PERCENT + cy_cycle_ns c mod 100 * LAP_PERCENT div 100 in
     if lap = 0 then 1 else lap)"

definition max_definitions_per_tick :: "cycle_schedule \<Rightarrow> nat" where
  "max_definitions_per_tick c = min (cy_definitions_per_datagram c * cy_max_datagrams_per_tick c) USIZE_MAX"

record tick_room =
  tr_payload_per_datagram :: nat
  tr_datagrams_left :: nat
  tr_entries_left :: nat
  tr_room :: nat
  tr_taken :: nat

definition room_behind :: "cycle_schedule \<Rightarrow> nat \<Rightarrow> tick_room" where
  "room_behind c reserved =
     \<lparr>tr_payload_per_datagram = cy_payload_per_datagram c,
      tr_datagrams_left = cy_max_datagrams_per_tick c - 1,
      tr_entries_left = max_definitions_per_tick c,
      tr_room = cy_payload_per_datagram c - reserved, tr_taken = 0\<rparr>"

definition room_take :: "nat \<Rightarrow> tick_room \<Rightarrow> bool \<times> tick_room" where
  "room_take entry r =
    (if tr_entries_left r = 0 then (False, r)
     else
     let taking = (\<lambda>r. (True, r\<lparr>tr_room := tr_room r - entry, tr_entries_left := tr_entries_left r - 1,
           tr_taken := tr_taken r + 1\<rparr>)) in
     if entry > tr_room r then
       (if tr_taken r = 0 then taking (r\<lparr>tr_room := entry\<rparr>)
        else if tr_datagrams_left r = 0 \<or> entry > tr_payload_per_datagram r then (False, r)
        else taking (r\<lparr>tr_datagrams_left := tr_datagrams_left r - 1,
               tr_room := tr_payload_per_datagram r\<rparr>))
     else taking r)"

fun take_each :: "nat list \<Rightarrow> tick_room \<Rightarrow> tick_room" where
  "take_each [] r = r"
| "take_each (entry # sizes) r = (case room_take entry r of
     (True, r) \<Rightarrow> take_each sizes r | (False, r) \<Rightarrow> r)"

definition fitting_behind :: "cycle_schedule \<Rightarrow> nat \<Rightarrow> nat list \<Rightarrow> nat" where
  "fitting_behind c reserved sizes = tr_taken (take_each sizes (room_behind c reserved))"

definition fitting :: "cycle_schedule \<Rightarrow> nat list \<Rightarrow> nat" where
  "fitting c sizes = fitting_behind c 0 sizes"

subsection \<open>The pacer\<close>

record definition_pacer =
  dp_schedule :: cycle_schedule
  dp_lap_started_ns :: "nat option"
  dp_emitted_this_lap :: nat
  dp_laps :: nat

definition pacer_new :: "cycle_schedule \<Rightarrow> definition_pacer" where
  "pacer_new c = \<lparr>dp_schedule = c, dp_lap_started_ns = None, dp_emitted_this_lap = 0, dp_laps = 0\<rparr>"

text \<open>\<open>ceil (published * elapsed / lap)\<close>; the product of two 64-bit numbers fits the \<open>u128\<close>.\<close>

definition pacer_owed_by :: "definition_pacer \<Rightarrow> nat \<Rightarrow> nat \<Rightarrow> nat \<Rightarrow> nat" where
  "pacer_owed_by p lap_started now_ns published =
    (let lap = lap_ns (dp_schedule p); elapsed = min (now_ns - lap_started) lap in
     min ((elapsed * published + lap - 1) div lap) published)"

definition pacer_debt :: "definition_pacer \<Rightarrow> nat \<Rightarrow> nat \<Rightarrow> nat \<Rightarrow> nat" where
  "pacer_debt p lap_started now_ns published =
     min (pacer_owed_by p lap_started now_ns published - dp_emitted_this_lap p)
       (max_definitions_per_tick (dp_schedule p))"

definition pacer_owed :: "nat \<Rightarrow> nat \<Rightarrow> definition_pacer \<Rightarrow> nat" where
  "pacer_owed now_ns published p = (case dp_lap_started_ns p of
     Some lap_started \<Rightarrow> if published > 0 then pacer_debt p lap_started now_ns published else 0
   | None \<Rightarrow> 0)"

definition due_at_most :: "nat \<Rightarrow> nat \<Rightarrow> nat \<Rightarrow> definition_pacer \<Rightarrow> nat \<times> definition_pacer" where
  "due_at_most now_ns published ceiling p =
    (if published = 0 then (0, p\<lparr>dp_lap_started_ns := None, dp_emitted_this_lap := 0\<rparr>)
     else
     let lap_started = (case dp_lap_started_ns p of None \<Rightarrow> now_ns | Some t \<Rightarrow> t);
         p = p\<lparr>dp_lap_started_ns := Some lap_started\<rparr>;
         due = min (pacer_debt p lap_started now_ns published) ceiling;
         p = p\<lparr>dp_emitted_this_lap := dp_emitted_this_lap p + due\<rparr> in
     if dp_emitted_this_lap p \<ge> published then
       let scheduled = min (lap_started + lap_ns (dp_schedule p)) (2 ^ 64 - 1) in
       (due, p\<lparr>dp_lap_started_ns := Some (if scheduled > now_ns then scheduled else now_ns),
               dp_emitted_this_lap := 0, dp_laps := dp_laps p + 1\<rparr>)
     else (due, p))"

definition due :: "nat \<Rightarrow> nat \<Rightarrow> definition_pacer \<Rightarrow> nat \<times> definition_pacer" where
  "due now_ns published p = due_at_most now_ns published USIZE_MAX p"

subsection \<open>Pacing\<close>

text \<open>A run of ticks: the pacer each tick found and what it handed out.\<close>

fun pacer_run :: "nat \<Rightarrow> (nat \<times> nat) list \<Rightarrow> definition_pacer \<Rightarrow>
    (definition_pacer \<times> nat) list \<times> definition_pacer" where
  "pacer_run published [] p = ([], p)"
| "pacer_run published ((now_ns, ceiling) # ticks) p =
    (let (n, p1) = due_at_most now_ns published ceiling p;
         (ns, p2) = pacer_run published ticks p1 in ((p, n) # ns, p2))"

definition lap_start :: "definition_pacer \<Rightarrow> nat \<Rightarrow> nat" where
  "lap_start p now_ns = (case dp_lap_started_ns p of None \<Rightarrow> now_ns | Some t \<Rightarrow> t)"

definition tick_paced :: "nat \<Rightarrow> cycle_schedule \<Rightarrow> definition_pacer \<times> nat \<Rightarrow> nat \<times> nat \<Rightarrow> bool" where
  "tick_paced published c out tick \<longleftrightarrow> (case (out, tick) of ((p, n), (now_ns, ceiling)) \<Rightarrow>
     n \<le> max_definitions_per_tick c \<and> n \<le> ceiling \<and>
     (n = max_definitions_per_tick c \<or> n = ceiling \<or>
      dp_emitted_this_lap p + n =
        max (dp_emitted_this_lap p) (pacer_owed_by p (lap_start p now_ns) now_ns published)))"

lemma owed_by_le: "pacer_owed_by p t now_ns published \<le> published"
  by (simp add: pacer_owed_by_def Let_def)

lemma debt_room: "pacer_debt p t now_ns published \<le> published - dp_emitted_this_lap p"
  using owed_by_le [of p t now_ns published] by (simp add: pacer_debt_def)

lemma due_accounts:
  assumes "0 < published" "dp_emitted_this_lap p < published"
    and step: "due_at_most now_ns published ceiling p = (n, p')"
  shows "tick_paced published (dp_schedule p) (p, n) (now_ns, ceiling) \<and>
    dp_schedule p' = dp_schedule p \<and> dp_emitted_this_lap p' < published \<and>
    dp_laps p' * published + dp_emitted_this_lap p' = dp_laps p * published + dp_emitted_this_lap p + n"
proof -
  define t where "t = lap_start p now_ns"
  define p1 where "p1 = p\<lparr>dp_lap_started_ns := Some t\<rparr>"
  have same: "pacer_owed_by p1 t now_ns published = pacer_owed_by p t now_ns published"
      "dp_emitted_this_lap p1 = dp_emitted_this_lap p" "dp_schedule p1 = dp_schedule p" "dp_laps p1 = dp_laps p"
    by (simp_all add: p1_def pacer_owed_by_def)
  have run: "n = min (pacer_debt p1 t now_ns published) ceiling"
      "dp_schedule p' = dp_schedule p"
      "if dp_emitted_this_lap p + n \<ge> published
       then dp_emitted_this_lap p' = 0 \<and> dp_laps p' = dp_laps p + 1
       else dp_emitted_this_lap p' = dp_emitted_this_lap p + n \<and> dp_laps p' = dp_laps p"
    using step assms(1)
    by (auto simp: due_at_most_def Let_def t_def p1_def lap_start_def split: if_splits)
  have "dp_emitted_this_lap p + n \<le> published"
    using debt_room [of p1 t now_ns published] assms(2) by (simp add: run(1) same)
  then have "dp_emitted_this_lap p' < published"
      "dp_laps p' * published + dp_emitted_this_lap p' = dp_laps p * published + dp_emitted_this_lap p + n"
    using run(3) assms(1) by (auto split: if_splits)
  moreover have "tick_paced published (dp_schedule p) (p, n) (now_ns, ceiling)"
    unfolding tick_paced_def run(1) pacer_debt_def same unfolding t_def by (auto simp: min_def max_def)
  ultimately show ?thesis using run(2) by simp
qed



subsection \<open>A tick's datagrams\<close>

text \<open>
  How many further datagrams the egress starts when it packs entries in order, the first datagram
  having \<open>room\<close> left.
\<close>

fun datagrams_started :: "nat \<Rightarrow> nat \<Rightarrow> nat list \<Rightarrow> nat" where
  "datagrams_started payload room [] = 0"
| "datagrams_started payload room (n # ns) =
     (if n \<le> room then datagrams_started payload (room - n) ns
      else 1 + datagrams_started payload (payload - n) ns)"

lemma room_take_cases:
  assumes "n \<le> tr_payload_per_datagram r" "tr_taken r = 0 \<longrightarrow> n \<le> tr_room r"
  shows "room_take n r = (if tr_entries_left r = 0 \<or> n > tr_room r \<and> tr_datagrams_left r = 0 then (False, r)
    else (True, r\<lparr>tr_room := (if n \<le> tr_room r then tr_room r else tr_payload_per_datagram r) - n,
      tr_datagrams_left := (if n \<le> tr_room r then tr_datagrams_left r else tr_datagrams_left r - 1),
      tr_entries_left := tr_entries_left r - 1, tr_taken := tr_taken r + 1\<rparr>))"
  using assms by (cases r) (auto simp: room_take_def Let_def)

lemma take_each_packs:
  assumes "list_all (\<lambda>n. n \<le> tr_payload_per_datagram r) ns"
    "tr_taken r = 0 \<longrightarrow> (case ns of [] \<Rightarrow> True | n # _ \<Rightarrow> n \<le> tr_room r)"
  shows "\<exists>k \<le> length ns. tr_taken (take_each ns r) = tr_taken r + k \<and> k \<le> tr_entries_left r \<and>
    datagrams_started (tr_payload_per_datagram r) (tr_room r) (take k ns) \<le> tr_datagrams_left r \<and>
    (k < length ns \<longrightarrow> k = tr_entries_left r \<or>
      tr_datagrams_left r < datagrams_started (tr_payload_per_datagram r) (tr_room r) (take (k + 1) ns))"
  using assms
proof (induction ns arbitrary: r)
  case (Cons n ns)
  note cases = room_take_cases [of n r]
  show ?case
  proof (cases "tr_entries_left r = 0 \<or> n > tr_room r \<and> tr_datagrams_left r = 0")
    case True
    then have "take_each (n # ns) r = r" using cases Cons.prems by simp
    then show ?thesis
      using True by (intro exI [of _ 0]) auto
  next
    case False
    define r1 where "r1 = snd (room_take n r)"
    have r1: "take_each (n # ns) r = take_each ns r1" "tr_taken r1 = tr_taken r + 1"
        "tr_payload_per_datagram r1 = tr_payload_per_datagram r" "tr_entries_left r1 = tr_entries_left r - 1"
        "tr_room r1 = (if n \<le> tr_room r then tr_room r else tr_payload_per_datagram r) - n"
        "tr_datagrams_left r1 = (if n \<le> tr_room r then tr_datagrams_left r else tr_datagrams_left r - 1)"
      using cases Cons.prems False by (simp_all add: r1_def)
    obtain k where "k \<le> length ns" "tr_taken (take_each ns r1) = tr_taken r1 + k" "k \<le> tr_entries_left r1"
        "datagrams_started (tr_payload_per_datagram r) (tr_room r1) (take k ns) \<le> tr_datagrams_left r1"
        "k < length ns \<longrightarrow> k = tr_entries_left r1 \<or>
          tr_datagrams_left r1 < datagrams_started (tr_payload_per_datagram r) (tr_room r1) (take (k + 1) ns)"
      using Cons.IH [of r1] Cons.prems r1(2,3) by auto
    moreover have "datagrams_started (tr_payload_per_datagram r) (tr_room r) (take (Suc j) (n # ns)) =
        (if n \<le> tr_room r then 0 else 1) +
        datagrams_started (tr_payload_per_datagram r) (tr_room r1) (take j ns)" for j
      by (simp add: r1(5))
    ultimately show ?thesis
      using False unfolding r1(1)
      by (intro exI [of _ "Suc k"]) (simp add: r1(2,4,6) del: take_Suc_Cons split: if_splits, linarith+)
  qed
qed simp

text \<open>
  What a tick takes is what its datagrams hold, and no less. Entries that each fit a datagram,
  the first beside what is reserved, are taken up to the point where the egress, packing them in
  order, would start a datagram the tick does not have or pass its count.
\<close>

theorem tick_fills_its_datagrams:
  assumes "list_all (\<lambda>n. n \<le> cy_payload_per_datagram c) (n # ns)" "reserved + n \<le> cy_payload_per_datagram c"
  shows "let k = fitting_behind c reserved (n # ns);
      started = \<lambda>j. datagrams_started (cy_payload_per_datagram c) (cy_payload_per_datagram c - reserved)
        (take j (n # ns)) in
    k \<le> length (n # ns) \<and> k \<le> max_definitions_per_tick c \<and> started k \<le> cy_max_datagrams_per_tick c - 1 \<and>
    (k = length (n # ns) \<or> k = max_definitions_per_tick c \<or> cy_max_datagrams_per_tick c - 1 < started (k + 1))"
  using take_each_packs [of "room_behind c reserved" "n # ns"] assms
  by (auto simp: fitting_behind_def room_behind_def Let_def)

theorem tick_fills_its_datagrams_witness:
  "fitting_behind (schedule_new 100 1232 1) 24 (170 # replicate 6 170) \<noteq> 7"
proof -
  define c where "c = schedule_new 100 1232 1"
  have c: "cy_payload_per_datagram c = 1208" "max_definitions_per_tick c = 9" "cy_max_datagrams_per_tick c = 1"
    by (simp_all add: c_def schedule_new_def max_definitions_per_tick_def definitions_per_datagram_def
        clamp_capacity_def DATAGRAM_HEADER_SIZE_def MAX_DATAGRAM_SIZE_def instrument_definition_message_def
        USIZE_MAX_def)
  have "datagrams_started 1208 1014 (replicate 6 170) = 1" "list_all (\<lambda>n. n \<le> 1208) (replicate 6 (170 :: nat))"
    by (simp_all add: numeral_eq_Suc)
  with tick_fills_its_datagrams [of c 170 "replicate 6 170" 24]
  have "fitting_behind c 24 (170 # replicate 6 170) \<noteq> 7"
    by (auto simp: c Let_def)
  then show ?thesis
    by (simp add: c_def)
qed

end
