(* ===== verification/Refdata_Record.thy ===== *)
theory Refdata_Record
  imports Text_Codec Text_Field Messages_Refdata
begin

section \<open>The persisted reference-data record\<close>

text \<open>
  \<open>state.rs\<close> of \<open>dz-publisher-refdata\<close>: the record of every \<open>Instrument ID\<close> ever minted, a base
  of a header and as many lines as it counts, followed by appended lines. The text is its UTF-8
  bytes; the separators (line feed, space) and every field are ASCII, so splitting and comparing
  the bytes is splitting and comparing the text. A \<open>[u8; 64]\<close> is a byte list of length 64.
\<close>

unbundle bit_operations_syntax

subsection \<open>Constants and types\<close>

definition RECORD_TAG :: bytes where "RECORD_TAG = ascii_bytes ''dz-refdata-state''"

definition FORMAT_VERSION :: u32 where "FORMAT_VERSION = 2"
definition FORMAT_VERSION_DERIVED :: u32 where "FORMAT_VERSION_DERIVED = 3"
definition FORMAT_VERSION_KEYED :: u32 where "FORMAT_VERSION_KEYED = 4"
definition FORMAT_VERSION_V1 :: u32 where "FORMAT_VERSION_V1 = 1"

definition DERIVED_TAG :: bytes where "DERIVED_TAG = ascii_bytes ''derived''"
definition SEQUENTIAL_TAG :: bytes where "SEQUENTIAL_TAG = ascii_bytes ''sequential''"
definition DERIVED_KEY_TAG :: bytes where "DERIVED_KEY_TAG = ascii_bytes ''derived_key''"
definition SYMBOL_IS_KEY :: bytes where "SYMBOL_IS_KEY = ascii_bytes ''-''"
definition MAX_VENUE_KEY_LEN :: nat where "MAX_VENUE_KEY_LEN = 256"
definition WHOLE_SYMBOL_PADDING :: nat where "WHOLE_SYMBOL_PADDING = 4"
definition FIRST_INSTRUMENT_ID :: u32 where "FIRST_INSTRUMENT_ID = 1"

datatype id_allocation = Sequential | Derived | DerivedKey

datatype identity = SymbolIdentity | VenueKeyIdentity

datatype venue_keys = SymbolKeys | StatedKeys

fun allocation_version :: "id_allocation \<Rightarrow> u32" where
  "allocation_version Sequential = FORMAT_VERSION"
| "allocation_version Derived = FORMAT_VERSION_DERIVED"
| "allocation_version DerivedKey = FORMAT_VERSION_KEYED"

fun is_derived :: "id_allocation \<Rightarrow> bool" where
  "is_derived Sequential = False"
| "is_derived Derived = True"
| "is_derived DerivedKey = True"

fun allocation_tag :: "id_allocation \<Rightarrow> bytes" where
  "allocation_tag Sequential = SEQUENTIAL_TAG"
| "allocation_tag Derived = DERIVED_TAG"
| "allocation_tag DerivedKey = DERIVED_KEY_TAG"

definition allocation_from_tag :: "bytes \<Rightarrow> id_allocation option" where
  "allocation_from_tag tag = (if tag = SEQUENTIAL_TAG then Some Sequential
     else if tag = DERIVED_TAG then Some Derived
     else if tag = DERIVED_KEY_TAG then Some DerivedKey else None)"

fun venue_keys_tag :: "venue_keys \<Rightarrow> bytes" where
  "venue_keys_tag SymbolKeys = ascii_bytes ''symbol''"
| "venue_keys_tag StatedKeys = ascii_bytes ''stated''"

definition venue_keys_from_tag :: "bytes \<Rightarrow> venue_keys option" where
  "venue_keys_from_tag tag = (if tag = ascii_bytes ''symbol'' then Some SymbolKeys
     else if tag = ascii_bytes ''stated'' then Some StatedKeys else None)"

definition layout_version :: "id_allocation \<Rightarrow> bool \<Rightarrow> u32" where
  "layout_version allocation keyed = (if keyed then FORMAT_VERSION_KEYED else allocation_version allocation)"

record state_entry =
  ste_instrument_id :: u32
  ste_symbol :: bytes
  ste_venue_key :: "bytes option"
  ste_delisted_at :: "u64 option"

record state_record =
  sr_source_id :: u16
  sr_next_id :: u32
  sr_entries :: "state_entry list"
  sr_allocation :: id_allocation
  sr_keyed :: "venue_keys option"

record loaded =
  ld_record :: state_record
  ld_version :: u32
  ld_base :: nat
  ld_appended :: nat
  ld_torn :: bool
  ld_complete :: nat

definition needs_rewrite :: "loaded \<Rightarrow> identity \<Rightarrow> bool" where
  "needs_rewrite l identity \<longleftrightarrow>
     ld_version l \<noteq> layout_version (sr_allocation (ld_record l)) (identity = VenueKeyIdentity)"

datatype record_error =
    NotOurFormat
  | UnsupportedVersion u32
  | MalformedRecord nat string
  | DuplicateId u32
  | DuplicateSymbol u32 u32
  | DuplicateVenueKey u32 u32
  | BadVenueKeyText nat
  | UnresolvedVenueKey nat u32
  | RestatedUnderAnotherVenueKey nat u32
  | IdNotBelowNext u32 u32
  | AppendedOutOfOrder nat u32 u32
  | RestatedUnderAnotherSymbol nat u32
  | NotDerived nat u32
  | MintedBelowFloor nat u32 u32
  | ZeroId

subsection \<open>Symbols and venue keys\<close>

definition is_venue_key :: "bytes \<Rightarrow> bool" where
  "is_venue_key key \<longleftrightarrow> 1 \<le> length key \<and> length key \<le> MAX_VENUE_KEY_LEN \<and> 0 \<notin> set key"

definition unpadded :: "bytes \<Rightarrow> bytes" where
  "unpadded symbol = rev (dropWhile (\<lambda>b. b = 0) (rev symbol))"

definition symbol_is_whole :: "bytes \<Rightarrow> bool" where
  "symbol_is_whole symbol \<longleftrightarrow> (let kept = unpadded symbol in
     kept \<noteq> [] \<and> WHOLE_SYMBOL_PADDING \<le> SYMBOL_LEN - length kept \<and> 0 \<notin> set kept)"

definition entry_key :: "state_entry \<Rightarrow> bytes" where
  "entry_key e = (case ste_venue_key e of None \<Rightarrow> unpadded (ste_symbol e) | Some key \<Rightarrow> key)"

definition venue_key_field :: "bytes \<Rightarrow> bytes \<Rightarrow> bytes option" where
  "venue_key_field key symbol =
     (if symbol_is_whole symbol \<and> unpadded symbol = key then None else Some key)"

definition keyed_entry :: "u32 \<Rightarrow> bytes \<Rightarrow> u64 option \<Rightarrow> state_entry" where
  "keyed_entry instrument_id venue_key delisted_at =
    (let symbol = fst (pad_ascii SYMBOL_LEN venue_key) in
     \<lparr>ste_instrument_id = instrument_id, ste_symbol = symbol,
      ste_venue_key = venue_key_field venue_key symbol, ste_delisted_at = delisted_at\<rparr>)"

subsection \<open>Derived identifiers\<close>

text \<open>CRC-32/ISO-HDLC with the table built from the polynomial, one bit at a time.\<close>

definition crc_bit :: "u32 \<Rightarrow> u32" where
  "crc_bit crc = (if crc AND 1 = 1 then drop_bit 1 crc XOR 0xEDB88320 else drop_bit 1 crc)"

definition CRC32_TABLE :: "u32 list" where
  "CRC32_TABLE = map (\<lambda>index. (crc_bit ^^ 8) (word_of_nat index)) [0..<256]"

definition crc32 :: "bytes \<Rightarrow> u32" where
  "crc32 bs = NOT (foldl (\<lambda>crc byte. drop_bit 8 crc XOR
     (CRC32_TABLE ! unat ((crc XOR ucast byte) AND 0xFF))) 0xFFFFFFFF bs)"

definition derive_instrument_id :: "bytes \<Rightarrow> u32" where
  "derive_instrument_id symbol = crc32 (unpadded symbol)"

definition derive_instrument_id_from_key :: "bytes \<Rightarrow> u32" where
  "derive_instrument_id_from_key venue_key = crc32 venue_key"

fun derivation :: "id_allocation \<Rightarrow> state_entry \<Rightarrow> u32 option" where
  "derivation Sequential e = None"
| "derivation Derived e = Some (derive_instrument_id (ste_symbol e))"
| "derivation DerivedKey e = Some (derive_instrument_id_from_key (entry_key e))"

subsection \<open>Writing\<close>

definition hex_digit :: "nat \<Rightarrow> u8" where
  "hex_digit n = word_of_nat (if n < 10 then 48 + n else 87 + n)"

definition hex_byte :: "u8 \<Rightarrow> bytes" where
  "hex_byte b = [hex_digit (unat b div 16), hex_digit (unat b mod 16)]"

definition decimal :: "nat \<Rightarrow> bytes" where
  "decimal n = map word_of_nat (decimal_text n)"

definition push_entry :: "u32 \<Rightarrow> bytes \<Rightarrow> bytes" where
  "push_entry instrument_id symbol = decimal (unat instrument_id) @ [32] @ concat (map hex_byte symbol)"

definition push_venue_key :: "bytes option \<Rightarrow> bytes" where
  "push_venue_key venue_key = [32] @
     (case venue_key of None \<Rightarrow> SYMBOL_IS_KEY | Some key \<Rightarrow> concat (map hex_byte key))"

definition encode_line :: "u32 \<Rightarrow> bytes \<Rightarrow> bytes" where
  "encode_line instrument_id symbol = push_entry instrument_id symbol @ [10]"

definition encode_keyed_line :: "u32 \<Rightarrow> bytes \<Rightarrow> bytes option \<Rightarrow> bytes" where
  "encode_keyed_line instrument_id symbol venue_key =
     push_entry instrument_id symbol @ push_venue_key venue_key @ [10]"

definition empty_record :: "u16 \<Rightarrow> state_record" where
  "empty_record source_id = \<lparr>sr_source_id = source_id, sr_next_id = FIRST_INSTRUMENT_ID,
     sr_entries = [], sr_allocation = Sequential, sr_keyed = None\<rparr>"

definition record_header :: "state_record \<Rightarrow> bytes" where
  "record_header r = RECORD_TAG @ [32] @
     decimal (unat (layout_version (sr_allocation r) (sr_keyed r \<noteq> None))) @ [32] @
     decimal (unat (sr_source_id r)) @ [32] @ decimal (unat (sr_next_id r)) @ [32] @
     decimal (length (sr_entries r)) @
     (case sr_keyed r of
        Some keys \<Rightarrow> [32] @ allocation_tag (sr_allocation r) @ [32] @ venue_keys_tag keys
      | None \<Rightarrow> if sr_allocation r = Derived then [32] @ DERIVED_TAG else []) @ [10]"

definition base_line :: "bool \<Rightarrow> state_entry \<Rightarrow> bytes" where
  "base_line keyed e = push_entry (ste_instrument_id e) (ste_symbol e) @
     (if keyed then push_venue_key (venue_key_field (entry_key e) (ste_symbol e)) else []) @
     (case ste_delisted_at e of None \<Rightarrow> [] | Some at \<Rightarrow> [32] @ decimal (unat at)) @ [10]"

definition record_encode :: "state_record \<Rightarrow> bytes" where
  "record_encode r = record_header r @
     concat (map (base_line (sr_keyed r \<noteq> None)) (sort_key ste_instrument_id (sr_entries r)))"

subsection \<open>Reading\<close>

text \<open>\<open>split_inclusive('\n')\<close> and \<open>split(' ')\<close>.\<close>

fun split_lines :: "bytes \<Rightarrow> bytes list" where
  "split_lines [] = []"
| "split_lines (c # cs) = (if c = 10 then [10] # split_lines cs
     else case split_lines cs of [] \<Rightarrow> [[c]] | l # ls \<Rightarrow> (c # l) # ls)"

fun split_spaces :: "bytes \<Rightarrow> bytes list" where
  "split_spaces [] = [[]]"
| "split_spaces (c # cs) = (if c = 32 then [] # split_spaces cs
     else case split_spaces cs of [] \<Rightarrow> [[c]] | f # fs \<Rightarrow> (c # f) # fs)"

text \<open>\<open>from_str\<close> of an unsigned integer: one optional \<open>+\<close>, then digits, each step checked.\<close>

fun dec_digits :: "nat \<Rightarrow> nat \<Rightarrow> bytes \<Rightarrow> nat option" where
  "dec_digits bound acc [] = Some acc"
| "dec_digits bound acc (c # cs) =
     (if 48 \<le> c \<and> c \<le> 57 \<and> acc * 10 + (unat c - 48) \<le> bound
      then dec_digits bound (acc * 10 + (unat c - 48)) cs else None)"

definition parse_dec :: "nat \<Rightarrow> bytes \<Rightarrow> nat option" where
  "parse_dec bound bs = (if bs = [] \<or> bs = [43] \<or> bs = [45] then None
     else dec_digits bound 0 (if hd bs = 43 then tl bs else bs))"

definition parse_word :: "bytes \<Rightarrow> 'a::len word option" where
  "parse_word bs = map_option word_of_nat (parse_dec (2 ^ LENGTH('a) - 1) bs)"

definition parse_usize :: "bytes \<Rightarrow> nat option" where
  "parse_usize bs = parse_dec (2 ^ 64 - 1) bs"

definition nibble :: "u8 \<Rightarrow> u8 option" where
  "nibble digit = (if 48 \<le> digit \<and> digit \<le> 57 then Some (digit - 48)
     else if 97 \<le> digit \<and> digit \<le> 102 then Some (digit - 97 + 10) else None)"

fun decode_pairs :: "bytes \<Rightarrow> bytes option" where
  "decode_pairs (h # l # rest) = (case (nibble h, nibble l) of
     (Some high, Some low) \<Rightarrow> map_option ((#) (push_bit 4 high OR low)) (decode_pairs rest)
   | _ \<Rightarrow> None)"
| "decode_pairs _ = Some []"

definition decode_symbol :: "bytes \<Rightarrow> bytes option" where
  "decode_symbol digits = (if length digits \<noteq> SYMBOL_LEN * 2 then None else decode_pairs digits)"

definition decode_venue_key :: "bytes \<Rightarrow> bytes option" where
  "decode_venue_key digits = (if length digits mod 2 \<noteq> 0 then None
     else case decode_pairs digits of None \<Rightarrow> None
       | Some key \<Rightarrow> if is_venue_key key then Some key else None)"

text \<open>The fields of a \<open>splitn(3, ' ')\<close>.\<close>

definition splitn3 :: "bytes \<Rightarrow> bytes \<times> bytes \<times> bytes option" where
  "splitn3 tail =
    (let num = takeWhile (\<lambda>c. c \<noteq> 32) tail; r1 = dropWhile (\<lambda>c. c \<noteq> 32) tail in
     if r1 = [] then (num, [], None)
     else let symbol = takeWhile (\<lambda>c. c \<noteq> 32) (tl r1); r2 = dropWhile (\<lambda>c. c \<noteq> 32) (tl r1) in
       (num, symbol, if r2 = [] then None else Some (tl r2)))"

definition starts_an_appended_line :: "bytes \<Rightarrow> bool \<Rightarrow> bool" where
  "starts_an_appended_line tail keyed =
    (let (num, symbol, key) = splitn3 tail;
         digits = list_all (\<lambda>c. 48 \<le> c \<and> c \<le> 57);
         hex = list_all (\<lambda>c. nibble c \<noteq> None) in
     num \<noteq> [] \<and> length num \<le> length (decimal (2 ^ 32 - 1)) \<and> digits num \<and>
     length symbol \<le> SYMBOL_LEN * 2 \<and> hex symbol \<and>
     (case key of
        None \<Rightarrow> True
      | Some k \<Rightarrow> keyed \<and> length symbol = SYMBOL_LEN * 2 \<and>
          (k = SYMBOL_IS_KEY \<or> (length k \<le> MAX_VENUE_KEY_LEN * 2 \<and> hex k))))"

record record_head =
  rh_version :: u32
  rh_source_id :: u16
  rh_next_id :: u32
  rh_base :: "nat option"
  rh_allocation :: id_allocation
  rh_keyed :: "venue_keys option"

definition trim_newlines :: "bytes \<Rightarrow> bytes" where
  "trim_newlines h = rev (dropWhile (\<lambda>c. c = 10) (rev h))"

definition ends_with_newline :: "bytes \<Rightarrow> bool" where
  "ends_with_newline l \<longleftrightarrow> l \<noteq> [] \<and> last l = 10"

fun next_field :: "bytes list \<Rightarrow> bytes option \<times> bytes list" where
  "next_field [] = (None, [])"
| "next_field (f # fs) = (Some f, fs)"

definition bind_field :: "(bytes \<Rightarrow> 'a option) \<Rightarrow> bytes option \<Rightarrow> 'a option" where
  "bind_field p f = (case f of None \<Rightarrow> None | Some s \<Rightarrow> p s)"

definition read_allocation ::
    "u32 \<Rightarrow> bytes list \<Rightarrow> record_error + (id_allocation \<times> venue_keys option \<times> bytes list)" where
  "read_allocation version fs =
    (if version = FORMAT_VERSION_DERIVED then
       (let (f, fs) = next_field fs in
        if f \<noteq> Some DERIVED_TAG
        then Inl (MalformedRecord 1 ''a version 3 header does not name its allocation'')
        else Inr (Derived, None, fs))
     else if version = FORMAT_VERSION_KEYED then
       (let (f, fs) = next_field fs in
        bind_ok (ok_or (MalformedRecord 1 ''a version 4 header does not name its allocation'')
                  (bind_field allocation_from_tag f)) (\<lambda>allocation.
        let (f, fs) = next_field fs in
        bind_ok (ok_or (MalformedRecord 1 ''a version 4 header does not name its venue keys'')
                  (bind_field venue_keys_from_tag f)) (\<lambda>keys.
        Inr (allocation, Some keys, fs))))
     else Inr (Sequential, None, fs))"

definition read_header :: "bytes \<Rightarrow> record_error + record_head" where
  "read_header header =
    (let (tag, fs) = next_field (split_spaces (trim_newlines header)) in
     if tag \<noteq> Some RECORD_TAG then Inl NotOurFormat
     else let (f, fs) = next_field fs in
     bind_ok (ok_or NotOurFormat (bind_field parse_word f)) (\<lambda>version.
     if version \<notin> {FORMAT_VERSION, FORMAT_VERSION_V1, FORMAT_VERSION_DERIVED, FORMAT_VERSION_KEYED}
     then Inl (UnsupportedVersion version)
     else if \<not> ends_with_newline header
     then Inl (MalformedRecord 1 ''the header is not a complete line'')
     else let (f, fs) = next_field fs in
     bind_ok (ok_or (MalformedRecord 1 ''the header has no readable Source ID'')
               (bind_field parse_word f)) (\<lambda>source_id.
     let (f, fs) = next_field fs in
     bind_ok (ok_or (MalformedRecord 1 ''the header has no readable next_id'')
               (bind_field parse_word f)) (\<lambda>next_id.
     bind_ok (if version = FORMAT_VERSION_V1 then Inr (None, fs)
              else let (f, fs) = next_field fs in
                bind_ok (ok_or (MalformedRecord 1 ''the header has no readable entry count'')
                          (bind_field parse_usize f)) (\<lambda>n. Inr (Some n, fs)))
      (\<lambda>(base, fs).
     bind_ok (read_allocation version fs) (\<lambda>(allocation, keyed, fs).
     if fs \<noteq> [] then Inl (MalformedRecord 1 ''the header carries more fields than this format has'')
     else Inr \<lparr>rh_version = version, rh_source_id = source_id, rh_next_id = next_id,
               rh_base = base, rh_allocation = allocation, rh_keyed = keyed\<rparr>))))))"

text \<open>The maps and counters \<open>load\<close> keeps while it walks the lines.\<close>

record load_state =
  lst_entries :: "state_entry list"
  lst_ids :: "u32 \<Rightarrow> nat option"
  lst_symbols :: "bytes \<Rightarrow> u32 option"
  lst_keys :: "bytes \<Rightarrow> u32 option"
  lst_next :: u32
  lst_read :: nat
  lst_appended :: nat
  lst_torn :: bool
  lst_complete :: nat

definition hold :: "bool \<Rightarrow> state_entry \<Rightarrow> load_state \<Rightarrow> record_error + load_state" where
  "hold keyed e st =
    (if keyed then (case lst_keys st (entry_key e) of
        Some first \<Rightarrow> Inl (DuplicateVenueKey first (ste_instrument_id e))
      | None \<Rightarrow> Inr (st\<lparr>lst_keys := (lst_keys st)(entry_key e \<mapsto> ste_instrument_id e)\<rparr>))
     else (case lst_symbols st (ste_symbol e) of
        Some first \<Rightarrow> Inl (DuplicateSymbol first (ste_instrument_id e))
      | None \<Rightarrow> Inr (st\<lparr>lst_symbols := (lst_symbols st)(ste_symbol e \<mapsto> ste_instrument_id e)\<rparr>)))"

text \<open>One complete line, without its line feed: \<open>Instrument ID\<close>, \<open>Symbol\<close>, venue key, time.\<close>

definition read_entry :: "record_head \<Rightarrow> nat \<Rightarrow> bool \<Rightarrow> bytes \<Rightarrow> record_error + state_entry" where
  "read_entry h n in_base line =
    (let malformed = MalformedRecord n;
         (f, fs) = next_field (split_spaces line);
         num = (case f of None \<Rightarrow> [] | Some s \<Rightarrow> s);
         (f, fs) = next_field fs in
     bind_ok (ok_or (malformed ''an entry is not `Instrument ID` then `Symbol`'') f) (\<lambda>sym.
     let (f, fs') = (if rh_keyed h = None then (None, fs) else next_field fs) in
     bind_ok (if rh_keyed h \<noteq> None \<and> f = None
              then Inl (malformed ''a version 4 entry is not `Instrument ID`, `Symbol` then venue key'')
              else Inr f) (\<lambda>key_text.
     let (f, fs) = next_field fs' in
     bind_ok (case f of
         None \<Rightarrow> Inr None
       | Some at \<Rightarrow>
           if rh_version h = FORMAT_VERSION_V1 then Inl (malformed ''a version 1 entry carries a timestamp'')
           else if \<not> in_base then Inl (malformed ''an appended line carries a timestamp'')
           else bind_ok (ok_or (malformed ''an entry's timestamp is not a number'') (parse_word at))
             (\<lambda>t. Inr (Some t))) (\<lambda>delisted_at.
     if fs \<noteq> [] then Inl (malformed ''an entry carries more fields than this format has'')
     else
     bind_ok (ok_or (malformed ''an entry's Instrument ID is not a number'') (parse_word num))
       (\<lambda>instrument_id.
     if instrument_id = 0 then Inl ZeroId
     else
     bind_ok (ok_or (malformed ''an entry's Symbol is not 64 hexadecimal bytes'') (decode_symbol sym))
       (\<lambda>symbol.
     bind_ok (case key_text of
         None \<Rightarrow> Inr None
       | Some t \<Rightarrow>
           if t = SYMBOL_IS_KEY then
             (if \<not> symbol_is_whole symbol then Inl (UnresolvedVenueKey n instrument_id) else Inr None)
           else bind_ok (ok_or (BadVenueKeyText n) (decode_venue_key t)) (\<lambda>key. Inr (Some key)))
       (\<lambda>venue_key.
     Inr \<lparr>ste_instrument_id = instrument_id, ste_symbol = symbol, ste_venue_key = venue_key,
          ste_delisted_at = delisted_at\<rparr>)))))))"

definition keep_entry :: "state_entry \<Rightarrow> load_state \<Rightarrow> load_state" where
  "keep_entry e st = st\<lparr>lst_ids := (lst_ids st)(ste_instrument_id e \<mapsto> length (lst_entries st)),
     lst_entries := lst_entries st @ [e]\<rparr>"

definition fold_base :: "record_head \<Rightarrow> nat \<Rightarrow> state_entry \<Rightarrow> load_state \<Rightarrow> record_error + load_state" where
  "fold_base h n e st =
    (let i = ste_instrument_id e in
     bind_ok
       (if is_derived (rh_allocation h) then
          (if i \<ge> rh_next_id h \<and> Some i \<noteq> derivation (rh_allocation h) e
           then Inl (NotDerived n i) else Inr ())
        else if i \<ge> rh_next_id h then Inl (IdNotBelowNext i (rh_next_id h)) else Inr ()) (\<lambda>_.
     if lst_ids st i \<noteq> None then Inl (DuplicateId i)
     else bind_ok (hold (rh_keyed h \<noteq> None) e st) (\<lambda>st. Inr (keep_entry e st))))"

definition fold_appended ::
    "record_head \<Rightarrow> nat \<Rightarrow> state_entry \<Rightarrow> load_state \<Rightarrow> record_error + load_state" where
  "fold_appended h n e st0 =
    (let i = ste_instrument_id e; st = st0\<lparr>lst_appended := lst_appended st0 + 1\<rparr> in
     case lst_ids st i of
       Some at \<Rightarrow>
         if ste_symbol (lst_entries st ! at) \<noteq> ste_symbol e then Inl (RestatedUnderAnotherSymbol n i)
         else if entry_key (lst_entries st ! at) \<noteq> entry_key e
         then Inl (RestatedUnderAnotherVenueKey n i)
         else Inr (st\<lparr>lst_entries := (lst_entries st)[at := (lst_entries st ! at)\<lparr>ste_delisted_at := None\<rparr>]\<rparr>)
     | None \<Rightarrow>
         if is_derived (rh_allocation h) then
           (if Some i \<noteq> derivation (rh_allocation h) e then Inl (NotDerived n i)
            else if i < rh_next_id h then Inl (MintedBelowFloor n i (rh_next_id h))
            else bind_ok (hold (rh_keyed h \<noteq> None) e st) (\<lambda>st. Inr (keep_entry e st)))
         else if i = lst_next st then
           bind_ok (hold (rh_keyed h \<noteq> None) e st) (\<lambda>st.
           bind_ok (ok_or (MalformedRecord n ''an appended line mints past the ID space'')
                     (checked_add (lst_next st) 1)) (\<lambda>next.
           Inr ((keep_entry e st)\<lparr>lst_next := next\<rparr>)))
         else Inl (AppendedOutOfOrder n i (lst_next st)))"

text \<open>The loop over the lines after the header; \<open>n\<close> is the line number, from 2.\<close>

fun load_lines :: "record_head \<Rightarrow> nat \<Rightarrow> bytes list \<Rightarrow> load_state \<Rightarrow> record_error + load_state" where
  "load_lines h n [] st = Inr st"
| "load_lines h n (raw # raws) st =
    (let in_base = (case rh_base h of None \<Rightarrow> True | Some count \<Rightarrow> lst_read st < count) in
     if \<not> ends_with_newline raw then
       (if in_base then Inl (MalformedRecord n ''a base entry is not a complete line'')
        else if \<not> starts_an_appended_line raw (rh_keyed h \<noteq> None)
        then Inl (MalformedRecord n ''a final line with no newline is not the start of an appended line'')
        else Inr (st\<lparr>lst_torn := True\<rparr>))
     else
       let st = st\<lparr>lst_read := lst_read st + 1, lst_complete := lst_complete st + length raw\<rparr> in
       bind_ok (read_entry h n in_base (butlast raw)) (\<lambda>e.
       bind_ok (if in_base then fold_base h n e st else fold_appended h n e st) (\<lambda>st.
       load_lines h (n + 1) raws st)))"

definition record_load :: "bytes \<Rightarrow> record_error + loaded" where
  "record_load bs =
    (if utf8_decode bs = None then Inl NotOurFormat
     else case split_lines bs of
       [] \<Rightarrow> Inl NotOurFormat
     | header # raws \<Rightarrow>
         bind_ok (read_header header) (\<lambda>h.
         bind_ok (load_lines h 2 raws
             \<lparr>lst_entries = [], lst_ids = Map.empty, lst_symbols = Map.empty, lst_keys = Map.empty,
              lst_next = rh_next_id h, lst_read = 0, lst_appended = 0, lst_torn = False,
              lst_complete = length header\<rparr>) (\<lambda>st.
         if (case rh_base h of None \<Rightarrow> False | Some count \<Rightarrow> lst_read st < count)
         then Inl (MalformedRecord (lst_read st + 2) ''the base is shorter than its header counts'')
         else Inr \<lparr>ld_record = \<lparr>sr_source_id = rh_source_id h, sr_next_id = lst_next st,
                     sr_entries = lst_entries st, sr_allocation = rh_allocation h,
                     sr_keyed = rh_keyed h\<rparr>,
                   ld_version = rh_version h, ld_base = lst_read st - lst_appended st,
                   ld_appended = lst_appended st, ld_torn = lst_torn st,
                   ld_complete = lst_complete st\<rparr>)))"

end
