(* ===== verification/Record_Text.thy ===== *)
theory Record_Text
  imports Refdata_Record "HOL-Library.Sublist"
begin

section \<open>The text of the record\<close>

text \<open>
  The lexical layer of the record: what splitting, the decimal numbers and the hexadecimal fields
  give back of what the writer put down. Every field is free of separators, so a line splits
  into the fields it was made of.
\<close>

named_theorems record_text \<open>fields free of separators, and what reading one gives\<close>

definition plain :: "bytes \<Rightarrow> bool" where
  "plain bs \<longleftrightarrow> list_all (\<lambda>c. 32 < c \<and> c < 128) bs"

lemma plain_Nil [simp]: "plain []"
  by (simp add: plain_def)

lemma plain_append [simp]: "plain (xs @ ys) \<longleftrightarrow> plain xs \<and> plain ys"
  by (auto simp: plain_def)

lemma plain_not_mem: "plain bs \<Longrightarrow> c \<le> 32 \<Longrightarrow> c \<notin> set bs"
  by (auto simp: plain_def list_all_iff)

lemma plain_prefix: "plain ys \<Longrightarrow> prefix xs ys \<Longrightarrow> plain xs"
  by (auto simp: prefix_def)

subsection \<open>Splitting\<close>

lemma split_spaces_field: "32 \<notin> set f \<Longrightarrow> split_spaces (f @ 32 # rest) = f # split_spaces rest"
  by (induction f) auto

lemma split_spaces_last: "32 \<notin> set f \<Longrightarrow> split_spaces f = [f]"
  by (induction f) auto

lemma split_spaces_plain [simp]:
  "plain f \<Longrightarrow> split_spaces (f @ 32 # rest) = f # split_spaces rest"
  "plain f \<Longrightarrow> split_spaces f = [f]"
  by (simp_all add: split_spaces_field split_spaces_last plain_not_mem)

lemma split_lines_line: "10 \<notin> set l \<Longrightarrow> split_lines (l @ 10 # rest) = (l @ [10]) # split_lines rest"
  by (induction l) auto

lemma split_lines_last: "10 \<notin> set l \<Longrightarrow> l \<noteq> [] \<Longrightarrow> split_lines l = [l]"
proof (induction l)
  case (Cons a l)
  then show ?case by (cases l) auto
qed simp

subsection \<open>Decimal numbers\<close>

lemma unat_digit_char: "d < 10 \<Longrightarrow> unat (word_of_nat (48 + d) :: u8) = 48 + d"
  by (simp add: unat_of_nat del: of_nat_add)

lemma digit_range: "d < 10 \<Longrightarrow> (48 :: u8) \<le> word_of_nat (48 + d) \<and> (word_of_nat (48 + d) :: u8) \<le> 57"
  using unat_digit_char [of d] by (simp add: word_le_nat_alt)

lemma decimal_rec: "decimal n = (if n < 10 then [word_of_nat (48 + n)]
    else decimal (n div 10) @ [word_of_nat (48 + n mod 10)])"
  unfolding decimal_def by (subst decimal_text.simps) simp

lemma decimal_digits: "list_all (\<lambda>c. 48 \<le> c \<and> c \<le> 57) (decimal n)"
proof (induction n rule: decimal_text.induct)
  case (1 n)
  then show ?case
    using digit_range [of n] digit_range [of "n mod 10"] by (subst decimal_rec) auto
qed

lemma decimal_not_Nil [simp]: "decimal n \<noteq> []"
  by (simp add: decimal_def)

lemma decimal_plain [simp]: "plain (decimal n)"
proof -
  have "32 < c \<and> c < 128" if "48 \<le> c \<and> c \<le> 57" for c :: u8
    using that by (auto simp: word_le_nat_alt word_less_nat_alt)
  then show ?thesis
    using decimal_digits [of n] by (auto simp: plain_def list_all_iff)
qed

lemma dec_digits_append:
  "dec_digits bound acc (xs @ ys) = (case dec_digits bound acc xs of
     None \<Rightarrow> None | Some v \<Rightarrow> dec_digits bound v ys)"
  by (induction xs arbitrary: acc) auto

lemma dec_digits_decimal: "n \<le> bound \<Longrightarrow> dec_digits bound 0 (decimal n) = Some n"
proof (induction n rule: decimal_text.induct)
  case (1 n)
  show ?case
  proof (cases "n < 10")
    case True
    then show ?thesis
      using 1(2) digit_range [of n] unat_digit_char [of n] by (subst decimal_rec) simp
  next
    case False
    have "dec_digits bound 0 (decimal (n div 10)) = Some (n div 10)"
      using 1 False by (simp add: div_le_dividend order_trans [OF div_le_dividend])
    moreover have "n div 10 * 10 + n mod 10 = n" by (rule div_mult_mod_eq)
    ultimately show ?thesis
      using False 1(2) digit_range [of "n mod 10"] unat_digit_char [of "n mod 10"]
      by (subst decimal_rec) (simp add: dec_digits_append)
  qed
qed

lemma parse_dec_decimal: "n \<le> bound \<Longrightarrow> parse_dec bound (decimal n) = Some n"
proof -
  assume n: "n \<le> bound"
  obtain c cs where d: "decimal n = c # cs" by (cases "decimal n") auto
  then have "48 \<le> c" using decimal_digits [of n] by simp
  then have "c \<noteq> 43" "c \<noteq> 45" by auto
  then show ?thesis
    using dec_digits_decimal [OF n] by (simp add: parse_dec_def d)
qed

lemma parse_word_decimal [simp, record_text]: "parse_word (decimal (unat w)) = Some (w :: 'a::len word)"
proof -
  have "unat w \<le> 2 ^ LENGTH('a) - 1"
    using unat_bound [of w] by linarith
  then show ?thesis by (simp add: parse_word_def parse_dec_decimal)
qed

lemma parse_usize_decimal [simp, record_text]: "n < 2 ^ 64 \<Longrightarrow> parse_usize (decimal n) = Some n"
  by (simp add: parse_usize_def parse_dec_decimal)

lemma length_decimal_mono: "m \<le> n \<Longrightarrow> length (decimal m) \<le> length (decimal n)"
proof (induction n arbitrary: m rule: decimal_text.induct)
  case (1 n)
  show ?case
  proof (cases "m < 10")
    case True
    then show ?thesis using decimal_not_Nil [of n]
      by (subst decimal_rec) (simp add: Suc_le_eq)
  next
    case False
    then have "length (decimal (m div 10)) \<le> length (decimal (n div 10))"
      using 1 by (simp add: div_le_mono)
    then show ?thesis
      using False 1(2) by (subst decimal_rec, subst (2) decimal_rec) simp
  qed
qed

lemma length_decimal_u32: "length (decimal (unat (w :: u32))) \<le> length (decimal (2 ^ 32 - 1))"
  using unat_u32_bound [of w] by (intro length_decimal_mono) simp

subsection \<open>Hexadecimal bytes\<close>

lemma hex_digit_value: "n < 16 \<Longrightarrow> nibble (hex_digit n) = Some (word_of_nat n)"
proof -
  assume "n < 16"
  then have "n \<in> {0,1,2,3,4,5,6,7,8,9,10,11,12,13,14,15}" by (simp only: insert_iff empty_iff) presburger
  then show ?thesis by (auto simp: hex_digit_def nibble_def)
qed

lemma hex_digit_plain: "n < 16 \<Longrightarrow> 32 < hex_digit n \<and> hex_digit n < 128"
proof -
  assume "n < 16"
  then have "n \<in> {0,1,2,3,4,5,6,7,8,9,10,11,12,13,14,15}" by (simp only: insert_iff empty_iff) presburger
  then show ?thesis by (auto simp: hex_digit_def)
qed

lemma nibbles_join: "push_bit 4 (word_of_nat (unat b div 16)) OR word_of_nat (unat b mod 16) = (b :: u8)"
proof -
  have "word_of_nat (unat b div 16) = drop_bit 4 b" "word_of_nat (unat b mod 16) = take_bit 4 b"
    using unat_u8_bound [of b]
    by (auto simp: word_unat_eq_iff unat_of_nat drop_bit_eq_div take_bit_eq_mod unat_div unat_mod)
  then show ?thesis
    by (simp only:) (rule bit_word_eqI, auto simp: bit_simps)
qed

lemma decode_pairs_hex [simp, record_text]: "decode_pairs (concat (map hex_byte bs)) = Some bs"
proof (induction bs)
  case (Cons b bs)
  have "unat b div 16 < 16" using unat_u8_bound [of b] by simp
  then show ?case
    using Cons hex_digit_value [of "unat b div 16"] hex_digit_value [of "unat b mod 16"] nibbles_join [of b]
    by (simp add: hex_byte_def)
qed simp

lemma length_hex [simp]: "length (concat (map hex_byte bs)) = 2 * length bs"
  by (induction bs) (simp_all add: hex_byte_def)

lemma hex_digits_ok: "list_all (\<lambda>c. nibble c \<noteq> None) (concat (map hex_byte bs))"
proof (induction bs)
  case (Cons b bs)
  have "unat b div 16 < 16" using unat_u8_bound [of b] by simp
  then show ?case
    using Cons hex_digit_value [of "unat b div 16"] hex_digit_value [of "unat b mod 16"]
    by (simp add: hex_byte_def)
qed simp

lemma hex_plain [simp]: "plain (concat (map hex_byte bs))"
proof (induction bs)
  case (Cons b bs)
  have "unat b div 16 < 16" using unat_u8_bound [of b] by simp
  then show ?case
    using Cons hex_digit_plain [of "unat b div 16"] hex_digit_plain [of "unat b mod 16"]
    by (simp add: hex_byte_def plain_def)
qed simp

lemma decode_symbol_hex [simp, record_text]:
  "length bs = SYMBOL_LEN \<Longrightarrow> decode_symbol (concat (map hex_byte bs)) = Some bs"
  by (simp add: decode_symbol_def)

lemma decode_venue_key_hex [simp, record_text]:
  "is_venue_key key \<Longrightarrow> decode_venue_key (concat (map hex_byte key)) = Some key"
  by (simp add: decode_venue_key_def)

end
