(* ===== verification/Record_Roundtrip.thy ===== *)
theory Record_Roundtrip
  imports Record_Text
begin

section \<open>What is written is what is read back\<close>

text \<open>
  The record as a state: a base, then appended lines, each a mint or a restatement. The
  specification is \<open>append_entry\<close> on the record itself; the theorems say that loading the bytes
  gives the record with the lines folded in, wherever the last append stopped.
\<close>

subsection \<open>Well-formed records\<close>

definition entry_wf :: "bool \<Rightarrow> state_entry \<Rightarrow> bool" where
  "entry_wf keyed e \<longleftrightarrow> ste_instrument_id e \<noteq> 0 \<and> length (ste_symbol e) = SYMBOL_LEN \<and>
     (if keyed then is_venue_key (entry_key e) \<and>
        ste_venue_key e = venue_key_field (entry_key e) (ste_symbol e)
      else ste_venue_key e = None)"

definition recall_key :: "bool \<Rightarrow> state_entry \<Rightarrow> bytes" where
  "recall_key keyed e = (if keyed then entry_key e else ste_symbol e)"

definition id_admitted :: "id_allocation \<Rightarrow> u32 \<Rightarrow> state_entry \<Rightarrow> bool" where
  "id_admitted allocation next_id e \<longleftrightarrow> ste_instrument_id e < next_id \<or>
     (is_derived allocation \<and> derivation allocation e = Some (ste_instrument_id e))"

definition record_wf :: "state_record \<Rightarrow> bool" where
  "record_wf r \<longleftrightarrow> distinct (map ste_instrument_id (sr_entries r)) \<and>
     distinct (map (recall_key (sr_keyed r \<noteq> None)) (sr_entries r)) \<and>
     list_all (entry_wf (sr_keyed r \<noteq> None)) (sr_entries r) \<and>
     list_all (id_admitted (sr_allocation r) (sr_next_id r)) (sr_entries r) \<and>
     length (sr_entries r) < 2 ^ 64 \<and> (sr_keyed r = None \<longrightarrow> sr_allocation r \<noteq> DerivedKey)"

definition line_of :: "bool \<Rightarrow> state_entry \<Rightarrow> bytes" where
  "line_of keyed e =
     (if keyed then encode_keyed_line (ste_instrument_id e) (ste_symbol e)
        (venue_key_field (entry_key e) (ste_symbol e))
      else encode_line (ste_instrument_id e) (ste_symbol e))"

text \<open>An appended line mints a new identifier or restates a known one as published.\<close>

definition appendable :: "state_record \<Rightarrow> state_entry \<Rightarrow> bool" where
  "appendable r e \<longleftrightarrow> entry_wf (sr_keyed r \<noteq> None) e \<and> ste_delisted_at e = None \<and>
     (if ste_instrument_id e \<in> ste_instrument_id ` set (sr_entries r)
      then \<exists>e' \<in> set (sr_entries r). ste_instrument_id e' = ste_instrument_id e \<and>
        ste_symbol e' = ste_symbol e \<and> entry_key e' = entry_key e
      else recall_key (sr_keyed r \<noteq> None) e \<notin> recall_key (sr_keyed r \<noteq> None) ` set (sr_entries r) \<and>
        (if is_derived (sr_allocation r)
         then derivation (sr_allocation r) e = Some (ste_instrument_id e) \<and> sr_next_id r \<le> ste_instrument_id e
         else ste_instrument_id e = sr_next_id r \<and> sr_next_id r \<noteq> - 1))"

definition append_entry :: "state_entry \<Rightarrow> state_record \<Rightarrow> state_record" where
  "append_entry e r =
     (if ste_instrument_id e \<in> ste_instrument_id ` set (sr_entries r)
      then r\<lparr>sr_entries := map (\<lambda>e'. if ste_instrument_id e' = ste_instrument_id e
              then e'\<lparr>ste_delisted_at := None\<rparr> else e') (sr_entries r)\<rparr>
      else r\<lparr>sr_entries := sr_entries r @ [e],
             sr_next_id := (if is_derived (sr_allocation r) then sr_next_id r else sr_next_id r + 1)\<rparr>)"

fun appendables :: "state_record \<Rightarrow> state_entry list \<Rightarrow> bool" where
  "appendables r [] = True"
| "appendables r (e # es) \<longleftrightarrow> appendable r e \<and> appendables (append_entry e r) es"

definition in_id_order :: "state_record \<Rightarrow> state_record" where
  "in_id_order r = r\<lparr>sr_entries := sort_key ste_instrument_id (sr_entries r)\<rparr>"

subsection \<open>One line\<close>

definition entry_body :: "bool \<Rightarrow> state_entry \<Rightarrow> bytes" where
  "entry_body keyed e = push_entry (ste_instrument_id e) (ste_symbol e) @
     (if keyed then push_venue_key (venue_key_field (entry_key e) (ste_symbol e)) else []) @
     (case ste_delisted_at e of None \<Rightarrow> [] | Some at \<Rightarrow> [32] @ decimal (unat at))"

lemma base_line_body: "base_line keyed e = entry_body keyed e @ [10]"
  by (simp add: base_line_def entry_body_def)

lemma line_of_body: "ste_delisted_at e = None \<Longrightarrow> line_of keyed e = entry_body keyed e @ [10]"
  by (simp add: line_of_def encode_line_def encode_keyed_line_def entry_body_def)

definition key_text :: "bytes option \<Rightarrow> bytes" where
  "key_text k = (case k of None \<Rightarrow> SYMBOL_IS_KEY | Some key \<Rightarrow> concat (map hex_byte key))"

lemma key_text_plain [simp]: "plain (key_text k)"
  by (cases k) (simp_all add: key_text_def SYMBOL_IS_KEY_def ascii_bytes_def plain_def
      hex_plain [unfolded plain_def])

lemma push_venue_key_text: "push_venue_key k = 32 # key_text k"
  by (simp add: push_venue_key_def key_text_def)

lemma entry_body_fields:
  "split_spaces (entry_body keyed e) =
    [decimal (unat (ste_instrument_id e)), concat (map hex_byte (ste_symbol e))] @
    (if keyed then [key_text (venue_key_field (entry_key e) (ste_symbol e))] else []) @
    (case ste_delisted_at e of None \<Rightarrow> [] | Some at \<Rightarrow> [decimal (unat at)])"
  by (cases "ste_delisted_at e") (simp_all add: entry_body_def push_entry_def push_venue_key_text)

lemma entry_body_ascii: "c \<in> set (entry_body keyed e) \<Longrightarrow> c = 32 \<or> 32 < c \<and> c < 128"
proof -
  have "plain (decimal n)" "plain (concat (map hex_byte s))" "plain (key_text k)" for n s k
    by simp_all
  then have "c \<in> set (decimal n) \<Longrightarrow> 32 < c \<and> c < 128"
      "c \<in> set (concat (map hex_byte s)) \<Longrightarrow> 32 < c \<and> c < 128"
      "c \<in> set (key_text k) \<Longrightarrow> 32 < c \<and> c < 128" for n s k
    unfolding plain_def list_all_iff by blast+
  then show "c \<in> set (entry_body keyed e) \<Longrightarrow> c = 32 \<or> 32 < c \<and> c < 128"
    unfolding entry_body_def push_entry_def push_venue_key_text
    by (auto simp del: set_concat set_map split: if_splits option.splits)
qed

lemma dash_is_not_hex: "SYMBOL_IS_KEY \<noteq> concat (map hex_byte key)"
proof
  assume "SYMBOL_IS_KEY = concat (map hex_byte key)"
  then have "length SYMBOL_IS_KEY = length (concat (map hex_byte key))" by (rule arg_cong)
  then have "length SYMBOL_IS_KEY = 2 * length key" by (rule trans) (rule length_hex)
  then show False by (simp add: SYMBOL_IS_KEY_def ascii_bytes_def)
qed

lemma read_entry_body:
  assumes "entry_wf keyed e" "keyed \<longleftrightarrow> rh_keyed h \<noteq> None" "rh_version h \<noteq> FORMAT_VERSION_V1"
    "in_base \<or> ste_delisted_at e = None"
  shows "read_entry h n in_base (entry_body keyed e) = Inr e"
proof -
  have symbol: "decode_symbol (concat (map hex_byte (ste_symbol e))) = Some (ste_symbol e)"
    using assms(1) by (simp add: entry_wf_def)
  have key: "keyed \<Longrightarrow> (let t = key_text (ste_venue_key e) in
      if t = SYMBOL_IS_KEY then ste_venue_key e = None \<and> symbol_is_whole (ste_symbol e)
      else \<exists>k. ste_venue_key e = Some k \<and> decode_venue_key t = Some k)"
    using assms(1) dash_is_not_hex
    by (cases "ste_venue_key e") (auto simp: entry_wf_def key_text_def venue_key_field_def Let_def
        entry_key_def dest: sym split: if_splits)
  show ?thesis
    using assms key symbol
    by (cases keyed; cases "ste_delisted_at e"; cases e)
      (auto simp: read_entry_def entry_body_fields Let_def ok_or_def entry_wf_def
        split: if_splits option.splits)
qed

subsection \<open>The header\<close>


lemma tags_plain [simp]:
  "plain RECORD_TAG" "plain DERIVED_TAG" "plain SEQUENTIAL_TAG" "plain DERIVED_KEY_TAG"
  "plain (allocation_tag a)" "plain (venue_keys_tag k)"
proof -
  show tags: "plain RECORD_TAG" "plain DERIVED_TAG" "plain SEQUENTIAL_TAG" "plain DERIVED_KEY_TAG"
    by (simp_all add: RECORD_TAG_def DERIVED_TAG_def SEQUENTIAL_TAG_def DERIVED_KEY_TAG_def
        ascii_bytes_def plain_def)
  show "plain (allocation_tag a)" by (cases a) (simp_all add: tags)
  show "plain (venue_keys_tag k)" by (cases k) (simp_all add: ascii_bytes_def plain_def)
qed

lemma allocation_tag_back: "allocation_from_tag (allocation_tag a) = Some a"
  by (cases a) (simp_all add: allocation_from_tag_def SEQUENTIAL_TAG_def DERIVED_TAG_def
      DERIVED_KEY_TAG_def ascii_bytes_def)

lemmas allocation_tags_back [simp] =
  allocation_tag_back [of Sequential, simplified] allocation_tag_back [of Derived, simplified]
  allocation_tag_back [of DerivedKey, simplified]

lemma venue_keys_tag_back [simp]: "venue_keys_from_tag (venue_keys_tag k) = Some k"
  by (cases k) (simp_all add: venue_keys_from_tag_def ascii_bytes_def)

definition header_body :: "state_record \<Rightarrow> bytes" where
  "header_body r = RECORD_TAG @ 32 #
     decimal (unat (layout_version (sr_allocation r) (sr_keyed r \<noteq> None))) @ 32 #
     decimal (unat (sr_source_id r)) @ 32 # decimal (unat (sr_next_id r)) @ 32 #
     decimal (length (sr_entries r)) @
     (case sr_keyed r of
        Some keys \<Rightarrow> 32 # allocation_tag (sr_allocation r) @ 32 # venue_keys_tag keys
      | None \<Rightarrow> if sr_allocation r = Derived then 32 # DERIVED_TAG else [])"

lemma record_header_body: "record_header r = header_body r @ [10]"
  by (simp add: header_body_def record_header_def split: option.split)

lemma header_body_ascii: "c \<in> set (header_body r) \<Longrightarrow> c = 32 \<or> 32 < c \<and> c < 128"
proof -
  have "plain (decimal n)" "plain (allocation_tag a)" "plain (venue_keys_tag k)"
    "plain RECORD_TAG" "plain DERIVED_TAG" for n a k
    by simp_all
  then have "c \<in> set (decimal n) \<Longrightarrow> 32 < c \<and> c < 128"
      "c \<in> set (allocation_tag a) \<Longrightarrow> 32 < c \<and> c < 128"
      "c \<in> set (venue_keys_tag k) \<Longrightarrow> 32 < c \<and> c < 128"
      "c \<in> set RECORD_TAG \<Longrightarrow> 32 < c \<and> c < 128" "c \<in> set DERIVED_TAG \<Longrightarrow> 32 < c \<and> c < 128" for n a k
    unfolding plain_def list_all_iff by blast+
  then show "c \<in> set (header_body r) \<Longrightarrow> c = 32 \<or> 32 < c \<and> c < 128"
    unfolding header_body_def by (auto split: if_splits option.splits)
qed

lemma trim_newlines_one: "10 \<notin> set l \<Longrightarrow> trim_newlines (l @ [10]) = l"
proof -
  assume "10 \<notin> set l"
  then have "dropWhile (\<lambda>c. c = 10) (rev l) = rev l"
    by (cases l rule: rev_cases) auto
  then show ?thesis by (simp add: trim_newlines_def)
qed

lemma no_newline: "10 \<notin> set (header_body r)" "10 \<notin> set (entry_body keyed e)"
  using header_body_ascii [of 10 r] entry_body_ascii [of 10 keyed e] by auto

lemma layout_versions:
  "layout_version a keyed \<in> {FORMAT_VERSION, FORMAT_VERSION_V1, FORMAT_VERSION_DERIVED, FORMAT_VERSION_KEYED}"
  "layout_version a keyed \<noteq> FORMAT_VERSION_V1"
  "layout_version a True = FORMAT_VERSION_KEYED"
  "a \<noteq> DerivedKey \<Longrightarrow> layout_version a False = FORMAT_VERSION_DERIVED \<longleftrightarrow> a = Derived"
  "a \<noteq> DerivedKey \<Longrightarrow> layout_version a False \<noteq> FORMAT_VERSION_KEYED"
  "FORMAT_VERSION_KEYED \<noteq> FORMAT_VERSION_DERIVED"
  by (cases a; simp add: layout_version_def FORMAT_VERSION_def FORMAT_VERSION_V1_def
      FORMAT_VERSION_DERIVED_def FORMAT_VERSION_KEYED_def)+

definition head_of :: "state_record \<Rightarrow> record_head" where
  "head_of r = \<lparr>rh_version = layout_version (sr_allocation r) (sr_keyed r \<noteq> None),
     rh_source_id = sr_source_id r, rh_next_id = sr_next_id r,
     rh_base = Some (length (sr_entries r)), rh_allocation = sr_allocation r, rh_keyed = sr_keyed r\<rparr>"

lemma read_allocation_back:
  assumes "sr_keyed r = None \<longrightarrow> sr_allocation r \<noteq> DerivedKey"
  shows "read_allocation (layout_version (sr_allocation r) (sr_keyed r \<noteq> None))
      (case sr_keyed r of
         Some keys \<Rightarrow> [allocation_tag (sr_allocation r), venue_keys_tag keys]
       | None \<Rightarrow> if sr_allocation r = Derived then [DERIVED_TAG] else []) =
    Inr (sr_allocation r, sr_keyed r, [])"
  using assms layout_versions(3-5) [of "sr_allocation r"] layout_versions(6)
  by (cases "sr_keyed r"; cases "sr_allocation r")
    (simp_all add: read_allocation_def ok_or_def bind_field_def)

lemma read_header_back:
  assumes "record_wf r"
  shows "read_header (record_header r) = Inr (head_of r)"
proof -
  have trimmed: "trim_newlines (record_header r) = header_body r"
    unfolding record_header_body by (rule trim_newlines_one [OF no_newline(1)])
  have parts: "split_spaces (header_body r) =
      [RECORD_TAG, decimal (unat (layout_version (sr_allocation r) (sr_keyed r \<noteq> None))),
       decimal (unat (sr_source_id r)), decimal (unat (sr_next_id r)), decimal (length (sr_entries r))] @
      (case sr_keyed r of
         Some keys \<Rightarrow> [allocation_tag (sr_allocation r), venue_keys_tag keys]
       | None \<Rightarrow> if sr_allocation r = Derived then [DERIVED_TAG] else [])"
    unfolding header_body_def by (simp split: option.split)
  have "ends_with_newline (record_header r)"
    by (simp add: record_header_body ends_with_newline_def)
  then show ?thesis
    using assms layout_versions(1,2) [of "sr_allocation r" "sr_keyed r \<noteq> None"] read_allocation_back [of r]
    by (simp add: read_header_def trimmed parts ok_or_def bind_field_def head_of_def record_wf_def)
qed

subsection \<open>The lines\<close>

declare load_lines.simps(2) [simp del]

text \<open>What the maps of the loader hold of the entries read so far.\<close>

definition tracked :: "bool \<Rightarrow> load_state \<Rightarrow> bool" where
  "tracked keyed st \<longleftrightarrow>
     (\<forall>i. lst_ids st i = None \<longrightarrow> i \<notin> ste_instrument_id ` set (lst_entries st)) \<and>
     (\<forall>i k. lst_ids st i = Some k \<longrightarrow>
        k < length (lst_entries st) \<and> ste_instrument_id (lst_entries st ! k) = i) \<and>
     dom (if keyed then lst_keys st else lst_symbols st) = recall_key keyed ` set (lst_entries st)"

lemma tracked_cong:
  "lst_entries st' = lst_entries st \<Longrightarrow> lst_ids st' = lst_ids st \<Longrightarrow> lst_keys st' = lst_keys st \<Longrightarrow>
   lst_symbols st' = lst_symbols st \<Longrightarrow> tracked keyed st' \<longleftrightarrow> tracked keyed st"
  by (cases keyed) (simp_all add: tracked_def)

lemma tracked_maps:
  "tracked keyed st \<longleftrightarrow>
     (\<forall>i. lst_ids st i = None \<longrightarrow> i \<notin> set (map ste_instrument_id (lst_entries st))) \<and>
     (\<forall>i k. lst_ids st i = Some k \<longrightarrow> k < length (map ste_instrument_id (lst_entries st)) \<and>
        map ste_instrument_id (lst_entries st) ! k = i) \<and>
     dom (if keyed then lst_keys st else lst_symbols st) = set (map (recall_key keyed) (lst_entries st))"
proof -
  have "(k < length (lst_entries st) \<and> ste_instrument_id (lst_entries st ! k) = i) \<longleftrightarrow>
      k < length (map ste_instrument_id (lst_entries st)) \<and> map ste_instrument_id (lst_entries st) ! k = i" for i k
    by auto
  then show ?thesis
    unfolding tracked_def set_map by simp
qed

lemma tracked_same:
  "map ste_instrument_id (lst_entries st') = map ste_instrument_id (lst_entries st) \<Longrightarrow>
   map (recall_key keyed) (lst_entries st') = map (recall_key keyed) (lst_entries st) \<Longrightarrow>
   lst_ids st' = lst_ids st \<Longrightarrow> lst_keys st' = lst_keys st \<Longrightarrow> lst_symbols st' = lst_symbols st \<Longrightarrow>
   tracked keyed st' \<longleftrightarrow> tracked keyed st"
  unfolding tracked_maps by simp

lemma hold_fresh:
  assumes "tracked keyed st" "recall_key keyed e \<notin> recall_key keyed ` set (lst_entries st)"
  shows "\<exists>st'. hold keyed e st = Inr st' \<and> lst_entries st' = lst_entries st \<and> lst_ids st' = lst_ids st \<and>
    lst_next st' = lst_next st \<and> lst_read st' = lst_read st \<and> lst_appended st' = lst_appended st \<and>
    lst_torn st' = lst_torn st \<and> lst_complete st' = lst_complete st \<and>
    dom (if keyed then lst_keys st' else lst_symbols st') =
      insert (recall_key keyed e) (recall_key keyed ` set (lst_entries st))"
proof (cases keyed)
  case True
  then have "lst_keys st (entry_key e) = None"
    using assms by (auto simp: tracked_def recall_key_def domIff)
  then show ?thesis
    using True assms(1) by (simp add: hold_def tracked_def recall_key_def)
next
  case False
  then have "lst_symbols st (ste_symbol e) = None"
    using assms by (auto simp: tracked_def recall_key_def domIff)
  then show ?thesis
    using False assms(1) by (simp add: hold_def tracked_def recall_key_def)
qed

lemma tracked_keep:
  assumes "tracked keyed st" "ste_instrument_id e \<notin> ste_instrument_id ` set (lst_entries st)"
    "lst_entries st' = lst_entries st" "lst_ids st' = lst_ids st"
    "dom (if keyed then lst_keys st' else lst_symbols st') =
      insert (recall_key keyed e) (recall_key keyed ` set (lst_entries st))"
  shows "tracked keyed (keep_entry e st')"
  using assms by (auto simp: tracked_def keep_entry_def nth_append less_SucI split: if_splits)

lemma id_unheld: "tracked keyed st \<Longrightarrow>
    lst_ids st i = None \<longleftrightarrow> i \<notin> ste_instrument_id ` set (lst_entries st)"
  unfolding tracked_def by (metis image_eqI nth_mem option.exhaust)

lemma id_held: "tracked keyed st \<Longrightarrow> i \<in> ste_instrument_id ` set (lst_entries st) \<Longrightarrow>
    \<exists>k. lst_ids st i = Some k \<and> k < length (lst_entries st) \<and> ste_instrument_id (lst_entries st ! k) = i"
  unfolding tracked_def by (metis option.exhaust)

text \<open>The loader after the base: the entries in order, the maps tracking them.\<close>

definition advanced :: "load_state \<Rightarrow> load_state \<Rightarrow> state_entry list \<Rightarrow> nat \<Rightarrow> bool" where
  "advanced st st' es bytes_read \<longleftrightarrow> lst_entries st' = lst_entries st @ es \<and>
     lst_read st' = lst_read st + length es \<and> lst_complete st' = lst_complete st + bytes_read \<and>
     lst_next st' = lst_next st \<and> lst_appended st' = lst_appended st \<and> lst_torn st' = lst_torn st"

lemma load_base_line:
  assumes h: "keyed \<longleftrightarrow> rh_keyed h \<noteq> None" "rh_version h \<noteq> FORMAT_VERSION_V1"
      "rh_base h = Some count" "lst_read st < count"
    and e: "entry_wf keyed e" "id_admitted (rh_allocation h) (rh_next_id h) e"
    and fresh: "tracked keyed st" "ste_instrument_id e \<notin> ste_instrument_id ` set (lst_entries st)"
      "recall_key keyed e \<notin> recall_key keyed ` set (lst_entries st)"
  shows "\<exists>st'. load_lines h n ((entry_body keyed e @ [10]) # raws) st = load_lines h (n + 1) raws st' \<and>
    tracked keyed st' \<and> advanced st st' [e] (length (entry_body keyed e @ [10]))"
proof -
  let ?st = "st\<lparr>lst_read := lst_read st + 1,
      lst_complete := lst_complete st + length (entry_body keyed e @ [10])\<rparr>"
  have tracked: "tracked keyed ?st"
    using fresh(1) by (subst tracked_cong [of _ st]) simp_all
  obtain st' where held: "hold keyed e ?st = Inr st'" "lst_entries st' = lst_entries ?st"
      "lst_ids st' = lst_ids ?st" "lst_next st' = lst_next ?st" "lst_read st' = lst_read ?st"
      "lst_appended st' = lst_appended ?st" "lst_torn st' = lst_torn ?st"
      "lst_complete st' = lst_complete ?st"
      "dom (if keyed then lst_keys st' else lst_symbols st') =
        insert (recall_key keyed e) (recall_key keyed ` set (lst_entries ?st))"
    using hold_fresh [OF tracked, of e] fresh(3) by auto
  have "lst_ids ?st (ste_instrument_id e) = None"
    using id_unheld [OF tracked] fresh(2) by simp
  then have "fold_base h n e ?st = Inr (keep_entry e st')"
    using e(2) held(1) h(1)
    by (auto simp: fold_base_def id_admitted_def Let_def not_le)
  moreover have "tracked keyed (keep_entry e st')"
    using fresh(2) by (intro tracked_keep [OF tracked _ held(2,3,9)]) simp
  moreover have "read_entry h n True (entry_body keyed e) = Inr e"
    using e(1) h(1,2) by (intro read_entry_body) auto
  ultimately show ?thesis
    using h(3,4) held
    by (intro exI [of _ "keep_entry e st'"])
      (simp add: ends_with_newline_def Let_def advanced_def keep_entry_def load_lines.simps(2))
qed

lemma load_base:
  assumes h: "keyed \<longleftrightarrow> rh_keyed h \<noteq> None" "rh_version h \<noteq> FORMAT_VERSION_V1"
      "rh_base h = Some count" "lst_read st + length es \<le> count"
    and es: "list_all (entry_wf keyed) es" "list_all (id_admitted (rh_allocation h) (rh_next_id h)) es"
    and fresh: "tracked keyed st" "distinct (map ste_instrument_id (lst_entries st @ es))"
      "distinct (map (recall_key keyed) (lst_entries st @ es))"
  shows "\<exists>st'. load_lines h n (map (base_line keyed) es @ raws) st = load_lines h (n + length es) raws st' \<and>
    tracked keyed st' \<and> advanced st st' es (length (concat (map (base_line keyed) es)))"
  using assms
proof (induction es arbitrary: st n)
  case Nil
  then show ?case by (intro exI [of _ st]) (simp add: advanced_def)
next
  case (Cons e es)
  obtain st1 where one: "load_lines h n ((entry_body keyed e @ [10]) # map (base_line keyed) es @ raws) st =
        load_lines h (n + 1) (map (base_line keyed) es @ raws) st1"
      "tracked keyed st1" "advanced st st1 [e] (length (entry_body keyed e @ [10]))"
    using load_base_line [OF Cons.prems(1-3), of st e n "map (base_line keyed) es @ raws"] Cons.prems
    by auto
  obtain st2 where two: "load_lines h (n + 1) (map (base_line keyed) es @ raws) st1 =
        load_lines h (n + 1 + length es) raws st2"
      "tracked keyed st2" "advanced st1 st2 es (length (concat (map (base_line keyed) es)))"
    using Cons.IH [of st1 "n + 1"] Cons.prems one(2,3) by (auto simp: advanced_def)
  show ?case
    using one two by (intro exI [of _ st2]) (simp add: base_line_body [of keyed e] advanced_def)
qed

subsection \<open>Appended lines\<close>

definition matches :: "record_head \<Rightarrow> state_record \<Rightarrow> load_state \<Rightarrow> bool" where
  "matches h r st \<longleftrightarrow> lst_entries st = sr_entries r \<and> lst_next st = sr_next_id r \<and> \<not> lst_torn st \<and>
     tracked (sr_keyed r \<noteq> None) st \<and> distinct (map ste_instrument_id (sr_entries r)) \<and>
     rh_allocation h = sr_allocation r \<and> (rh_keyed h \<noteq> None \<longleftrightarrow> sr_keyed r \<noteq> None) \<and>
     rh_version h \<noteq> FORMAT_VERSION_V1 \<and>
     (is_derived (sr_allocation r) \<longrightarrow> rh_next_id h = sr_next_id r)"

lemma distinct_map_same: "distinct (map f xs) \<Longrightarrow> x \<in> set xs \<Longrightarrow> y \<in> set xs \<Longrightarrow> f x = f y \<Longrightarrow> x = y"
  by (simp add: distinct_map inj_on_def)

lemma relist_at:
  assumes "distinct (map ste_instrument_id es)" "k < length es" "ste_instrument_id (es ! k) = i"
  shows "es[k := (es ! k)\<lparr>ste_delisted_at := None\<rparr>] =
    map (\<lambda>e. if ste_instrument_id e = i then e\<lparr>ste_delisted_at := None\<rparr> else e) es"
proof (rule nth_equalityI)
  fix j assume "j < length (es[k := (es ! k)\<lparr>ste_delisted_at := None\<rparr>])"
  then have j: "j < length es" by simp
  have "ste_instrument_id (es ! j) = i \<longleftrightarrow> j = k"
    using assms j nth_eq_iff_index_eq [OF assms(1), of j k] by auto
  then show "es[k := (es ! k)\<lparr>ste_delisted_at := None\<rparr>] ! j =
      map (\<lambda>e. if ste_instrument_id e = i then e\<lparr>ste_delisted_at := None\<rparr> else e) es ! j"
    using j by (auto simp: nth_list_update)
qed simp

lemma entry_key_delisted [simp]: "entry_key (e\<lparr>ste_delisted_at := t\<rparr>) = entry_key e"
  unfolding entry_key_def by (simp split: option.split)

lemma recall_key_delisted [simp]: "recall_key keyed (e\<lparr>ste_delisted_at := t\<rparr>) = recall_key keyed e"
  by (simp add: recall_key_def)

lemma relist_keeps:
  "map ste_instrument_id (map (\<lambda>e. if ste_instrument_id e = i then e\<lparr>ste_delisted_at := None\<rparr> else e) es) =
   map ste_instrument_id es"
  "map (recall_key keyed) (map (\<lambda>e. if ste_instrument_id e = i then e\<lparr>ste_delisted_at := None\<rparr> else e) es) =
   map (recall_key keyed) es"
  by auto

lemma fold_restated:
  assumes m: "matches h r st" and e: "appendable r e" "ste_instrument_id e \<in> ste_instrument_id ` set (sr_entries r)"
  shows "\<exists>st'. fold_appended h n e st = Inr st' \<and> matches h (append_entry e r) st' \<and>
    lst_read st' = lst_read st \<and> lst_appended st' = lst_appended st + 1 \<and> lst_complete st' = lst_complete st"
proof -
  let ?es = "lst_entries st" and ?i = "ste_instrument_id e"
  have "tracked (sr_keyed r \<noteq> None) st" "?i \<in> ste_instrument_id ` set ?es"
    using m e(2) by (simp_all add: matches_def)
  then obtain k where k: "lst_ids st ?i = Some k" "k < length ?es" "ste_instrument_id (?es ! k) = ?i"
    using id_held by blast
  obtain e' where e': "e' \<in> set (sr_entries r)" "ste_instrument_id e' = ?i" "ste_symbol e' = ste_symbol e"
      "entry_key e' = entry_key e"
    using e by (auto simp: appendable_def)
  have dist: "distinct (map ste_instrument_id ?es)" using m by (simp add: matches_def)
  have "e' = ?es ! k"
    using distinct_map_same [OF dist, of e' "?es ! k"] e'(1,2) k(2,3) m by (simp add: matches_def)
  then have "fold_appended h n e st = Inr (st\<lparr>lst_appended := lst_appended st + 1,
      lst_entries := map (\<lambda>e'. if ste_instrument_id e' = ?i then e'\<lparr>ste_delisted_at := None\<rparr> else e') ?es\<rparr>)"
    using e'(3,4) k relist_at [OF dist k(2,3)] by (simp add: fold_appended_def Let_def)
  moreover have "tracked (sr_keyed r \<noteq> None) (st\<lparr>lst_appended := lst_appended st + 1,
      lst_entries := map (\<lambda>e'. if ste_instrument_id e' = ?i then e'\<lparr>ste_delisted_at := None\<rparr> else e') ?es\<rparr>)"
    using m by (subst tracked_same [of _ st], simp_all add: matches_def)
  ultimately show ?thesis
    using m e(2) by (simp add: matches_def append_entry_def relist_keeps(1) del: map_map list.map_comp)
qed

lemma fold_minted:
  assumes m: "matches h r st" and e: "appendable r e" "ste_instrument_id e \<notin> ste_instrument_id ` set (sr_entries r)"
  shows "\<exists>st'. fold_appended h n e st = Inr st' \<and> matches h (append_entry e r) st' \<and>
    lst_read st' = lst_read st \<and> lst_appended st' = lst_appended st + 1 \<and> lst_complete st' = lst_complete st"
proof -
  let ?st = "st\<lparr>lst_appended := lst_appended st + 1\<rparr>" and ?k = "sr_keyed r \<noteq> None"
  have tracked: "tracked ?k ?st" and entries: "lst_entries ?st = sr_entries r"
    using m by (subst tracked_cong [of _ st], simp_all add: matches_def)
  have fresh: "recall_key ?k e \<notin> recall_key ?k ` set (lst_entries ?st)"
    using e entries by (simp add: appendable_def)
  obtain st' where held: "hold ?k e ?st = Inr st'" "lst_entries st' = lst_entries ?st"
      "lst_ids st' = lst_ids ?st" "lst_next st' = lst_next ?st" "lst_read st' = lst_read ?st"
      "lst_appended st' = lst_appended ?st" "lst_torn st' = lst_torn ?st"
      "lst_complete st' = lst_complete ?st"
      "dom (if ?k then lst_keys st' else lst_symbols st') =
        insert (recall_key ?k e) (recall_key ?k ` set (lst_entries ?st))"
    using hold_fresh [OF tracked fresh] by blast
  have unheld: "lst_ids st (ste_instrument_id e) = None"
    using id_unheld [OF tracked] e(2) entries by simp
  have kept: "tracked ?k (keep_entry e st')"
    using e(2) entries by (intro tracked_keep [OF tracked _ held(2,3,9)]) simp
  have room: "sr_next_id r \<noteq> - 1 \<Longrightarrow> checked_add (sr_next_id r) 1 = Some (sr_next_id r + 1)"
    using unat_u32_bound [of "sr_next_id r"] word_unat_eq_iff [of "sr_next_id r" "- 1"]
    by (auto simp: checked_add_def unsigned_minus_1_eq_mask mask_eq_exp_minus_1)
  show ?thesis
  proof (cases "is_derived (sr_allocation r)")
    case True
    then have "fold_appended h n e st = Inr (keep_entry e st')"
      using m e unheld held(1) by (simp add: fold_appended_def matches_def appendable_def Let_def not_less)
    then show ?thesis
      using True m e(2) held kept by (simp add: matches_def append_entry_def keep_entry_def)
  next
    case False
    then have "fold_appended h n e st = Inr ((keep_entry e st')\<lparr>lst_next := sr_next_id r + 1\<rparr>)"
      using m e unheld held(1,4) room
      by (simp add: fold_appended_def matches_def appendable_def Let_def ok_or_def)
    moreover have "tracked ?k ((keep_entry e st')\<lparr>lst_next := sr_next_id r + 1\<rparr>)"
      using kept by (subst tracked_cong [of _ "keep_entry e st'"]) simp_all
    ultimately show ?thesis
      using False m e(2) held by (simp add: matches_def append_entry_def keep_entry_def)
  qed
qed

lemma append_entry_fields [simp]:
  "sr_keyed (append_entry e r) = sr_keyed r" "sr_allocation (append_entry e r) = sr_allocation r"
  "sr_source_id (append_entry e r) = sr_source_id r"
  by (simp_all add: append_entry_def)

lemma load_appended_line:
  assumes m: "matches h r st" and h: "rh_base h = Some count" "count \<le> lst_read st"
    and e: "appendable r e"
  shows "\<exists>st'. load_lines h n (line_of (sr_keyed r \<noteq> None) e # raws) st = load_lines h (n + 1) raws st' \<and>
    matches h (append_entry e r) st' \<and> lst_read st' = lst_read st + 1 \<and>
    lst_appended st' = lst_appended st + 1 \<and>
    lst_complete st' = lst_complete st + length (line_of (sr_keyed r \<noteq> None) e)"
proof -
  let ?line = "line_of (sr_keyed r \<noteq> None) e"
  let ?st = "st\<lparr>lst_read := lst_read st + 1, lst_complete := lst_complete st + length ?line\<rparr>"
  have line: "?line = entry_body (sr_keyed r \<noteq> None) e @ [10]"
    using e by (intro line_of_body) (simp add: appendable_def)
  have "matches h r ?st"
    using m unfolding matches_def by (subst tracked_cong [of _ st], simp_all)
  then obtain st' where st': "fold_appended h n e ?st = Inr st'" "matches h (append_entry e r) st'"
      "lst_read st' = lst_read ?st" "lst_appended st' = lst_appended ?st + 1" "lst_complete st' = lst_complete ?st"
    using fold_restated [of h r ?st e n] fold_minted [of h r ?st e n] e by blast
  have "read_entry h n False (entry_body (sr_keyed r \<noteq> None) e) = Inr e"
    using m e by (intro read_entry_body) (auto simp: matches_def appendable_def)
  moreover have "ends_with_newline ?line" "butlast ?line = entry_body (sr_keyed r \<noteq> None) e"
    by (simp_all add: line ends_with_newline_def del: not_None_eq)
  ultimately show ?thesis
    using h st' by (intro exI [of _ st']) (simp add: load_lines.simps(2) del: not_None_eq)
qed

lemma load_appended:
  assumes "matches h r st" "rh_base h = Some count" "count \<le> lst_read st" "appendables r es"
  shows "\<exists>st'. load_lines h n (map (line_of (sr_keyed r \<noteq> None)) es @ raws) st =
      load_lines h (n + length es) raws st' \<and>
    matches h (fold append_entry es r) st' \<and> lst_read st' = lst_read st + length es \<and>
    lst_appended st' = lst_appended st + length es \<and>
    lst_complete st' = lst_complete st + length (concat (map (line_of (sr_keyed r \<noteq> None)) es))"
  using assms
proof (induction es arbitrary: r st n)
  case (Cons e es)
  let ?keyed = "sr_keyed r \<noteq> None"
  obtain st1 where one: "load_lines h n (line_of ?keyed e # map (line_of ?keyed) es @ raws) st =
        load_lines h (n + 1) (map (line_of ?keyed) es @ raws) st1"
      "matches h (append_entry e r) st1" "lst_read st1 = lst_read st + 1"
      "lst_appended st1 = lst_appended st + 1" "lst_complete st1 = lst_complete st + length (line_of ?keyed e)"
    using load_appended_line [OF Cons.prems(1-3), of e n "map (line_of ?keyed) es @ raws"] Cons.prems(4) by auto
  show ?case
    using Cons.IH [of "append_entry e r" st1 "n + 1"] one Cons.prems by (auto simp: add.assoc)
qed auto

subsection \<open>A torn append\<close>

lemma splitn3_cases:
  "32 \<notin> set a \<Longrightarrow> splitn3 a = (a, [], None)"
  "32 \<notin> set a \<Longrightarrow> 32 \<notin> set b \<Longrightarrow> splitn3 (a @ 32 # b) = (a, b, None)"
  "32 \<notin> set a \<Longrightarrow> 32 \<notin> set b \<Longrightarrow> splitn3 (a @ 32 # b @ 32 # c) = (a, b, Some c)"
  by (simp_all add: splitn3_def takeWhile_append dropWhile_append Let_def)

lemma list_all_prefix: "prefix xs ys \<Longrightarrow> list_all P ys \<Longrightarrow> list_all P xs"
  by (auto simp: prefix_def)

lemma torn_line_recognised:
  assumes "prefix tail (entry_body keyed e)" "tail \<noteq> []" "entry_wf keyed e" "ste_delisted_at e = None"
  shows "starts_an_appended_line tail keyed"
proof -
  let ?num = "decimal (unat (ste_instrument_id e))" and ?hex = "concat (map hex_byte (ste_symbol e))"
  let ?key = "key_text (venue_key_field (entry_key e) (ste_symbol e))"
  have body: "entry_body keyed e = ?num @ 32 # ?hex @ (if keyed then 32 # ?key else [])"
    using assms(4) by (simp add: entry_body_def push_entry_def push_venue_key_text)
  have free: "32 \<notin> set xs" if "prefix xs ys" "plain ys" for xs ys :: bytes
    using plain_not_mem [OF plain_prefix [OF that(2,1)]] by simp
  have num: "list_all (\<lambda>c. 48 \<le> c \<and> c \<le> 57) ?num" "length ?num \<le> length (decimal (2 ^ 32 - 1))" "?num \<noteq> []"
    using decimal_digits length_decimal_u32 by auto
  have hex: "length ?hex = SYMBOL_LEN * 2" "list_all (\<lambda>c. nibble c \<noteq> None) ?hex"
    using assms(3) hex_digits_ok by (simp_all add: entry_wf_def)
  consider (num) "prefix tail ?num" | (symbol) s where "tail = ?num @ 32 # s" "prefix s ?hex"
    | (key) k where "keyed" "tail = ?num @ 32 # ?hex @ 32 # k" "prefix k ?key"
    using assms(1) unfolding body
    by (auto simp: prefix_append prefix_Cons split: if_splits)
  then show ?thesis
  proof cases
    case num
    then show ?thesis
      using assms(2) list_all_prefix [OF num(1) \<open>list_all _ ?num\<close>] prefix_length_le [OF num] \<open>length ?num \<le> _\<close>
      by (simp add: starts_an_appended_line_def splitn3_cases(1) free)
  next
    case symbol
    then show ?thesis
      using num hex list_all_prefix [OF symbol(2) hex(2)] prefix_length_le [OF symbol(2)]
      by (simp add: starts_an_appended_line_def splitn3_cases(2) free [of ?num ?num] free)
  next
    case key
    have "k = SYMBOL_IS_KEY \<or> length k \<le> MAX_VENUE_KEY_LEN * 2 \<and> list_all (\<lambda>c. nibble c \<noteq> None) k"
    proof (cases "venue_key_field (entry_key e) (ste_symbol e)")
      case None
      then have "k = [] \<or> k = SYMBOL_IS_KEY"
        using key(3) by (auto simp: key_text_def SYMBOL_IS_KEY_def ascii_bytes_def prefix_Cons)
      then show ?thesis by auto
    next
      case (Some w)
      then have "w = entry_key e" by (simp add: venue_key_field_def split: if_splits)
      then have "length w \<le> MAX_VENUE_KEY_LEN"
        using assms(3) key(1) by (simp add: entry_wf_def is_venue_key_def)
      moreover have "prefix k (concat (map hex_byte w))"
        using key(3) Some by (simp add: key_text_def)
      ultimately show ?thesis
        using list_all_prefix [OF _ hex_digits_ok, of k w] prefix_length_le [of k "concat (map hex_byte w)"] by simp
    qed
    moreover have "splitn3 tail = (?num, ?hex, Some k)"
      unfolding key(2) using free [of ?num ?num] free [of ?hex ?hex] by (intro splitn3_cases(3)) simp_all
    ultimately show ?thesis
      using num hex key(1) by (simp add: starts_an_appended_line_def)
  qed
qed

subsection \<open>The whole record\<close>

definition unpadded_line :: "bytes \<Rightarrow> bool" where
  "unpadded_line l \<longleftrightarrow> (\<exists>b. l = b @ [10] \<and> 10 \<notin> set b \<and> list_all (\<lambda>c. c < 128) b)"

lemma split_lines_concat: "list_all unpadded_line ls \<Longrightarrow> split_lines (concat ls @ t) = ls @ split_lines t"
  by (induction ls) (auto simp: unpadded_line_def split_lines_line)

lemma body_line: "unpadded_line (entry_body keyed e @ [10])" "unpadded_line (header_body r @ [10])"
proof -
  have "list_all (\<lambda>c. c < 128) (entry_body keyed e)" "list_all (\<lambda>c. c < 128) (header_body r)"
    by (auto simp: list_all_iff dest!: entry_body_ascii header_body_ascii)
  then show "unpadded_line (entry_body keyed e @ [10])" "unpadded_line (header_body r @ [10])"
    using no_newline by (auto simp: unpadded_line_def)
qed

lemma lines_are_text: "list_all unpadded_line ls \<Longrightarrow> list_all (\<lambda>c. c < 128) (concat ls)"
  by (induction ls) (auto simp: unpadded_line_def)

lemma text_decodes: "list_all (\<lambda>c. c < 128) bs \<Longrightarrow> utf8_decode bs \<noteq> None"
  using utf8_decode_ascii [of bs] by (auto simp: list_all_iff word_less_nat_alt)

lemma append_entry_wf:
  "list_all (entry_wf keyed) (sr_entries r) \<Longrightarrow> appendable r e \<Longrightarrow> keyed = (sr_keyed r \<noteq> None) \<Longrightarrow>
   list_all (entry_wf keyed) (sr_entries (append_entry e r))"
  by (auto simp: append_entry_def appendable_def list_all_iff entry_wf_def)

lemma appendables_lines:
  "appendables r es \<Longrightarrow> list_all unpadded_line (map (line_of (sr_keyed r \<noteq> None)) es)"
proof (induction es arbitrary: r)
  case (Cons e es)
  then have "unpadded_line (line_of (sr_keyed r \<noteq> None) e)"
    using body_line(1) line_of_body [of e "sr_keyed r \<noteq> None"] by (simp add: appendable_def)
  then show ?case
    using Cons.IH [of "append_entry e r"] Cons.prems by simp
qed simp

lemma distinct_map_sorted: "distinct (map f (sort_key g xs)) \<longleftrightarrow> distinct (map f xs)"
  by (simp add: distinct_map)

lemma in_id_order_wf:
  assumes "record_wf r"
  shows "record_wf (in_id_order r)" "head_of (in_id_order r) = head_of r"
    "record_header (in_id_order r) = record_header r"
proof -
  show "record_wf (in_id_order r)"
    using assms by (simp add: record_wf_def in_id_order_def list_all_iff distinct_map_sorted)
  show "head_of (in_id_order r) = head_of r" "record_header (in_id_order r) = record_header r"
    by (simp_all add: head_of_def record_header_def in_id_order_def split: option.split)
qed

text \<open>The bytes of a base, the appended lines, and what is left of one that did not complete.\<close>

definition on_disk :: "state_record \<Rightarrow> state_entry list \<Rightarrow> bytes \<Rightarrow> bytes" where
  "on_disk r es tail = record_encode r @ concat (map (line_of (sr_keyed r \<noteq> None)) es) @ tail"

definition torn_tail :: "bool \<Rightarrow> bytes \<Rightarrow> bool" where
  "torn_tail keyed tail \<longleftrightarrow> tail = [] \<or>
     (\<exists>e. entry_wf keyed e \<and> ste_delisted_at e = None \<and> strict_prefix tail (line_of keyed e))"

lemma torn_tail_facts:
  assumes "torn_tail keyed tail"
  shows "list_all (\<lambda>c. c < 128) tail \<and> 10 \<notin> set tail \<and>
    (tail \<noteq> [] \<longrightarrow> split_lines tail = [tail] \<and> \<not> ends_with_newline tail \<and> starts_an_appended_line tail keyed)"
proof (cases "tail = []")
  case False
  then obtain e where e: "entry_wf keyed e" "ste_delisted_at e = None" "strict_prefix tail (line_of keyed e)"
    using assms by (auto simp: torn_tail_def)
  then have p: "prefix tail (entry_body keyed e)"
    by (auto simp: line_of_body strict_prefix_def)
  then have sub: "set tail \<subseteq> set (entry_body keyed e)" by (rule set_mono_prefix)
  then have "10 \<notin> set tail" using no_newline(2) by blast
  moreover have "list_all (\<lambda>c. c < 128) tail"
    using sub by (auto simp: list_all_iff dest!: subsetD entry_body_ascii)
  moreover have "\<not> ends_with_newline tail"
    using \<open>10 \<notin> set tail\<close> last_in_set [OF False] by (auto simp: ends_with_newline_def)
  ultimately show ?thesis
    using torn_line_recognised [OF p False e(1,2)] False by (simp add: split_lines_last)
qed simp

lemma load_start_matches:
  assumes wf: "record_wf r"
  shows "\<exists>st. load_lines (head_of r) 2 (map (base_line (sr_keyed r \<noteq> None)) (sr_entries r) @ raws)
        \<lparr>lst_entries = [], lst_ids = Map.empty, lst_symbols = Map.empty, lst_keys = Map.empty,
         lst_next = rh_next_id (head_of r), lst_read = 0, lst_appended = 0, lst_torn = False,
         lst_complete = n\<rparr> = load_lines (head_of r) (2 + length (sr_entries r)) raws st \<and>
    matches (head_of r) r st \<and> lst_read st = length (sr_entries r) \<and> lst_appended st = 0 \<and>
    lst_complete st = n + length (concat (map (base_line (sr_keyed r \<noteq> None)) (sr_entries r)))"
proof -
  let ?st = "\<lparr>lst_entries = [], lst_ids = Map.empty, lst_symbols = Map.empty, lst_keys = Map.empty,
         lst_next = rh_next_id (head_of r), lst_read = 0, lst_appended = 0, lst_torn = False,
         lst_complete = n\<rparr>"
  have "tracked (sr_keyed r \<noteq> None) ?st" by (simp add: tracked_def)
  then obtain st where st: "load_lines (head_of r) 2 (map (base_line (sr_keyed r \<noteq> None)) (sr_entries r) @ raws) ?st =
        load_lines (head_of r) (2 + length (sr_entries r)) raws st"
      "tracked (sr_keyed r \<noteq> None) st"
      "advanced ?st st (sr_entries r) (length (concat (map (base_line (sr_keyed r \<noteq> None)) (sr_entries r))))"
    using load_base [of "sr_keyed r \<noteq> None" "head_of r" "length (sr_entries r)" ?st "sr_entries r" 2 raws] wf
      layout_versions(2) by (auto simp: record_wf_def head_of_def)
  then show ?thesis
    using wf layout_versions(2)
    by (intro exI [of _ st]) (simp add: matches_def advanced_def head_of_def record_wf_def)
qed

lemma on_disk_lines:
  assumes lines: "appendables (in_id_order r) es" and tail: "torn_tail (sr_keyed r \<noteq> None) tail"
  shows "utf8_decode (on_disk r es tail) \<noteq> None"
    "split_lines (on_disk r es tail) =
      record_header r # map (base_line (sr_keyed r \<noteq> None)) (sr_entries (in_id_order r)) @
      map (line_of (sr_keyed r \<noteq> None)) es @ (if tail = [] then [] else [tail])"
proof -
  let ?ls = "record_header r # map (base_line (sr_keyed r \<noteq> None)) (sr_entries (in_id_order r)) @
      map (line_of (sr_keyed r \<noteq> None)) es"
  have keyed: "sr_keyed (in_id_order r) = sr_keyed r" by (simp add: in_id_order_def)
  have good: "list_all unpadded_line ?ls"
    using appendables_lines [OF lines] body_line
    by (auto simp: keyed record_header_body base_line_body list_all_iff)
  have disk: "on_disk r es tail = concat ?ls @ tail"
    by (simp add: on_disk_def record_encode_def in_id_order_def)
  show "utf8_decode (on_disk r es tail) \<noteq> None"
    unfolding disk using lines_are_text [OF good] torn_tail_facts [OF tail]
    by (intro text_decodes) (simp only: list_all_append)
  show "split_lines (on_disk r es tail) =
      record_header r # map (base_line (sr_keyed r \<noteq> None)) (sr_entries (in_id_order r)) @
      map (line_of (sr_keyed r \<noteq> None)) es @ (if tail = [] then [] else [tail])"
    unfolding disk split_lines_concat [OF good] using torn_tail_facts [OF tail] by auto
qed

lemma on_disk_loads:
  assumes wf: "record_wf r" and lines: "appendables (in_id_order r) es"
    and tail: "torn_tail (sr_keyed r \<noteq> None) tail"
  shows "record_load (on_disk r es tail) = Inr
    \<lparr>ld_record = fold append_entry es (in_id_order r),
     ld_version = layout_version (sr_allocation r) (sr_keyed r \<noteq> None),
     ld_base = length (sr_entries r), ld_appended = length es, ld_torn = (tail \<noteq> []),
     ld_complete = length (on_disk r es [])\<rparr>"
proof -
  let ?r = "in_id_order r" and ?keyed = "sr_keyed r \<noteq> None" and ?h = "head_of r"
  let ?base = "map (base_line ?keyed) (sr_entries ?r)" and ?lines = "map (line_of ?keyed) es"
  let ?tail = "if tail = [] then [] else [tail]"
  note r = in_id_order_wf [OF wf]
  have keyed: "sr_keyed ?r = sr_keyed r" "length (sr_entries ?r) = length (sr_entries r)"
      "sr_allocation ?r = sr_allocation r" "sr_source_id ?r = sr_source_id r"
    by (simp_all add: in_id_order_def)
  have encoded: "record_encode r = record_header r @ concat ?base"
    by (simp add: record_encode_def in_id_order_def)
  obtain st0 where st0: "load_lines ?h 2 (?base @ ?lines @ ?tail)
      \<lparr>lst_entries = [], lst_ids = Map.empty, lst_symbols = Map.empty, lst_keys = Map.empty,
       lst_next = rh_next_id ?h, lst_read = 0, lst_appended = 0, lst_torn = False,
       lst_complete = length (record_header r)\<rparr> =
      load_lines ?h (2 + length (sr_entries r)) (?lines @ ?tail) st0"
    "matches ?h ?r st0" "lst_read st0 = length (sr_entries r)" "lst_appended st0 = 0"
    "lst_complete st0 = length (record_header r) + length (concat ?base)"
    using load_start_matches [OF r(1), of "?lines @ ?tail" "length (record_header r)"] r(2) keyed by auto
  obtain n st1 where st1: "load_lines ?h (2 + length (sr_entries r)) (?lines @ ?tail) st0 =
      load_lines ?h n ?tail st1" "matches ?h (fold append_entry es ?r) st1"
    "lst_read st1 = length (sr_entries r) + length es" "lst_appended st1 = length es"
    "lst_complete st1 = length (on_disk r es [])"
    using load_appended [OF st0(2) _ _ lines, of "length (sr_entries r)" "2 + length (sr_entries r)" ?tail] st0(3-5)
    by (auto simp: head_of_def keyed on_disk_def encoded)
  have torn: "load_lines ?h n ?tail st1 = Inr (st1\<lparr>lst_torn := (tail \<noteq> [])\<rparr>)"
    using torn_tail_facts [OF tail] st1(2,3)
    by (cases st1) (auto simp: load_lines.simps(2) matches_def head_of_def Let_def)
  have kept: "sr_allocation (fold append_entry es q) = sr_allocation q"
      "sr_keyed (fold append_entry es q) = sr_keyed q" "sr_source_id (fold append_entry es q) = sr_source_id q" for q
    by (induction es arbitrary: q) simp_all
  show ?thesis
    using read_header_back [OF wf] st0(1) st1 torn on_disk_lines [OF lines tail] kept [of ?r] keyed
    by (simp add: record_load_def head_of_def matches_def)
qed

text \<open>
  C36. Wherever the writer stopped, the record reads back. The bytes of a base, of any lines
  appended to it and of any strict beginning of one more load as the base in \<open>Instrument ID\<close> order
  with the complete lines folded in; the torn line is reported, not read, and the record can be
  cut back to where the complete lines end.
\<close>

theorem record_survives_torn_append:
  assumes wf: "record_wf r" and lines: "appendables (in_id_order r) es"
    and tail: "torn_tail (sr_keyed r \<noteq> None) tail"
  shows "record_load (on_disk r es tail) = Inr
    \<lparr>ld_record = fold append_entry es (in_id_order r),
     ld_version = layout_version (sr_allocation r) (sr_keyed r \<noteq> None),
     ld_base = length (sr_entries r), ld_appended = length es, ld_torn = (tail \<noteq> []),
     ld_complete = length (on_disk r es [])\<rparr>"
  using assms by (rule on_disk_loads)

definition sample_symbol :: "u8 \<Rightarrow> bytes" where
  "sample_symbol b = b # replicate 63 0"

definition sample_record :: state_record where
  "sample_record = \<lparr>sr_source_id = 7, sr_next_id = 2,
     sr_entries = [\<lparr>ste_instrument_id = 1, ste_symbol = sample_symbol 65, ste_venue_key = None,
       ste_delisted_at = Some 9\<rparr>], sr_allocation = Sequential, sr_keyed = None\<rparr>"

definition sample_mint :: "u32 \<Rightarrow> u8 \<Rightarrow> state_entry" where
  "sample_mint i b = \<lparr>ste_instrument_id = i, ste_symbol = sample_symbol b, ste_venue_key = None,
     ste_delisted_at = None\<rparr>"

theorem record_survives_torn_append_witness:
  "map_sum id (\<lambda>l. (sr_next_id (ld_record l), ld_appended l, ld_torn l))
     (record_load (on_disk sample_record [sample_mint 2 66, sample_mint 1 65] (decimal 3))) =
   Inr (3, 2, True)"
proof -
  have wf: "record_wf sample_record"
    by (simp add: record_wf_def sample_record_def entry_wf_def sample_symbol_def SYMBOL_LEN_def id_admitted_def)
  have lines: "appendables (in_id_order sample_record) [sample_mint 2 66, sample_mint 1 65]"
    by (simp add: sample_record_def sample_mint_def in_id_order_def appendable_def append_entry_def
        entry_wf_def sample_symbol_def SYMBOL_LEN_def recall_key_def entry_key_def)
  have "strict_prefix (decimal 3) (line_of False (sample_mint 3 67))"
    by (simp add: line_of_def encode_line_def push_entry_def sample_mint_def strict_prefix_def)
  then have tail: "torn_tail (sr_keyed sample_record \<noteq> None) (decimal 3)"
    unfolding torn_tail_def
    by (intro disjI2 exI [of _ "sample_mint 3 67"])
      (simp add: sample_record_def sample_mint_def entry_wf_def sample_symbol_def SYMBOL_LEN_def)
  show ?thesis
    using record_survives_torn_append [OF wf lines tail]
    by (simp add: append_entry_def in_id_order_def sample_record_def sample_mint_def)
qed

end
