(* ===== verification/Record_Soundness.thy ===== *)
theory Record_Soundness
  imports Record_Roundtrip
begin

section \<open>What a record that loads is good for\<close>

text \<open>
  The refusals of the loader: any bytes it accepts are a record from which minting can continue
  without giving one \<open>Instrument ID\<close> to two instruments. And the table the derived identifiers are
  computed with is the polynomial division it abbreviates.
\<close>

unbundle bit_operations_syntax

subsection \<open>Soundness of the loader\<close>

definition entry_sound :: "bool \<Rightarrow> state_entry \<Rightarrow> bool" where
  "entry_sound keyed e \<longleftrightarrow> ste_instrument_id e \<noteq> 0 \<and> length (ste_symbol e) = SYMBOL_LEN \<and>
     (if keyed then is_venue_key (entry_key e) else ste_venue_key e = None)"

definition entries_sound :: "bool \<Rightarrow> id_allocation \<Rightarrow> u32 \<Rightarrow> state_entry list \<Rightarrow> bool" where
  "entries_sound keyed allocation next_id es \<longleftrightarrow> distinct (map ste_instrument_id es) \<and>
     distinct (map (recall_key keyed) es) \<and> list_all (entry_sound keyed) es \<and>
     list_all (id_admitted allocation next_id) es"

definition load_sound :: "record_head \<Rightarrow> load_state \<Rightarrow> bool" where
  "load_sound h st \<longleftrightarrow> tracked (rh_keyed h \<noteq> None) st \<and>
     entries_sound (rh_keyed h \<noteq> None) (rh_allocation h) (lst_next st) (lst_entries st) \<and>
     rh_next_id h \<le> lst_next st \<and> (is_derived (rh_allocation h) \<longrightarrow> lst_next st = rh_next_id h)"

lemma length_decode_pairs: "decode_pairs ds = Some bs \<Longrightarrow> length bs = length ds div 2"
  by (induction ds arbitrary: bs rule: decode_pairs.induct) (auto split: option.splits)

lemma decode_symbol_length: "decode_symbol ds = Some bs \<Longrightarrow> length bs = SYMBOL_LEN"
  by (auto simp: decode_symbol_def dest: length_decode_pairs split: if_splits)

lemma decode_venue_key_ok: "decode_venue_key ds = Some key \<Longrightarrow> is_venue_key key"
  by (auto simp: decode_venue_key_def split: if_splits option.splits)

lemma length_unpadded: "length (unpadded s) \<le> length s"
  by (simp add: unpadded_def) (metis length_dropWhile_le length_rev)

lemma whole_is_key: "symbol_is_whole s \<Longrightarrow> length s = SYMBOL_LEN \<Longrightarrow> is_venue_key (unpadded s)"
  using length_unpadded [of s]
  by (auto simp: symbol_is_whole_def is_venue_key_def Let_def SYMBOL_LEN_def MAX_VENUE_KEY_LEN_def
      Suc_le_eq)

lemma read_entry_sound:
  assumes "read_entry h n in_base line = Inr e"
  shows "entry_sound (rh_keyed h \<noteq> None) e"
  using assms unfolding read_entry_def Let_def split_beta bind_ok_Inr_iff
  by (auto simp: entry_sound_def entry_key_def whole_is_key
      dest: decode_symbol_length decode_venue_key_ok split: if_splits option.splits)

lemma hold_Inr:
  assumes "hold keyed e st = Inr st'" "tracked keyed st"
  shows "recall_key keyed e \<notin> recall_key keyed ` set (lst_entries st) \<and>
    lst_entries st' = lst_entries st \<and> lst_ids st' = lst_ids st \<and> lst_next st' = lst_next st \<and>
    dom (if keyed then lst_keys st' else lst_symbols st') =
      insert (recall_key keyed e) (recall_key keyed ` set (lst_entries st))"
proof (cases keyed)
  case True
  then have "lst_keys st (entry_key e) = None" "st' = st\<lparr>lst_keys := (lst_keys st)(entry_key e \<mapsto> ste_instrument_id e)\<rparr>"
    using assms(1) by (auto simp: hold_def split: option.splits)
  moreover have "dom (lst_keys st) = recall_key keyed ` set (lst_entries st)"
    using assms(2) True by (simp add: tracked_def)
  ultimately show ?thesis
    using True by (auto simp: recall_key_def domIff)
next
  case False
  then have "lst_symbols st (ste_symbol e) = None"
      "st' = st\<lparr>lst_symbols := (lst_symbols st)(ste_symbol e \<mapsto> ste_instrument_id e)\<rparr>"
    using assms(1) by (auto simp: hold_def split: option.splits)
  moreover have "dom (lst_symbols st) = recall_key keyed ` set (lst_entries st)"
    using assms(2) False by (simp add: tracked_def)
  ultimately show ?thesis
    using False by (auto simp: recall_key_def domIff)
qed

lemma keep_sound:
  assumes st: "tracked keyed st" "entries_sound keyed a next_id (lst_entries st)"
    and e: "entry_sound keyed e" "lst_ids st (ste_instrument_id e) = None" "hold keyed e st = Inr st'"
    and ids: "id_admitted a next_id' e" "next_id \<le> next_id'"
  shows "tracked keyed (keep_entry e st')" "entries_sound keyed a next_id' (lst_entries (keep_entry e st'))"
    "lst_next (keep_entry e st') = lst_next st"
proof -
  note h = hold_Inr [OF e(3) st(1)]
  have new: "ste_instrument_id e \<notin> ste_instrument_id ` set (lst_entries st)"
    using id_unheld [OF st(1)] e(2) by simp
  show "tracked keyed (keep_entry e st')"
    using h by (intro tracked_keep [OF st(1) new]) simp_all
  have "list_all (id_admitted a next_id') (lst_entries st)"
    using st(2) ids(2) by (auto simp: entries_sound_def list_all_iff id_admitted_def)
  then show "entries_sound keyed a next_id' (lst_entries (keep_entry e st'))"
    using st(2) e(1) ids(1) h new by (simp add: entries_sound_def keep_entry_def)
  show "lst_next (keep_entry e st') = lst_next st"
    using h by (simp add: keep_entry_def)
qed

lemma fold_base_sound:
  assumes "fold_base h n e st = Inr st'" "load_sound h st" "entry_sound (rh_keyed h \<noteq> None) e"
  shows "load_sound h st'"
proof -
  obtain st1 where st1: "hold (rh_keyed h \<noteq> None) e st = Inr st1" "st' = keep_entry e st1"
      "lst_ids st (ste_instrument_id e) = None" "id_admitted (rh_allocation h) (rh_next_id h) e"
    using assms(1) by (auto simp: fold_base_def id_admitted_def Let_def not_le split: if_splits)
  have "id_admitted (rh_allocation h) (lst_next st) e"
    using st1(4) assms(2) by (auto simp: id_admitted_def load_sound_def)
  then show ?thesis
    using keep_sound [OF _ _ assms(3) st1(3,1), of "rh_allocation h" "lst_next st" "lst_next st"] assms(2) st1(2)
    by (simp add: load_sound_def)
qed

lemma delisted_irrelevant:
  "entry_sound keyed (e\<lparr>ste_delisted_at := t\<rparr>) = entry_sound keyed e"
  "id_admitted a n (e\<lparr>ste_delisted_at := t\<rparr>) = id_admitted a n e"
proof -
  have "derivation a (e\<lparr>ste_delisted_at := t\<rparr>) = derivation a e" by (cases a) simp_all
  then show "entry_sound keyed (e\<lparr>ste_delisted_at := t\<rparr>) = entry_sound keyed e"
    "id_admitted a n (e\<lparr>ste_delisted_at := t\<rparr>) = id_admitted a n e"
    by (simp_all add: entry_sound_def id_admitted_def)
qed

lemma relisted_maps:
  assumes "k < length es" "\<And>e. f (e\<lparr>ste_delisted_at := None\<rparr>) = f e"
  shows "map f (es[k := (es ! k)\<lparr>ste_delisted_at := None\<rparr>]) = map f es"
  using assms by (simp add: map_update list_update_same_conv)

lemma list_all_of_map: "map P xs = map P ys \<Longrightarrow> list_all P xs = list_all P ys"
  using list.pred_map [of id P xs] list.pred_map [of id P ys] by simp

lemma restated_sound:
  assumes "load_sound h st" "k < length (lst_entries st)"
  shows "load_sound h (st\<lparr>lst_appended := m,
    lst_entries := (lst_entries st)[k := (lst_entries st ! k)\<lparr>ste_delisted_at := None\<rparr>]\<rparr>)"
proof -
  let ?es = "(lst_entries st)[k := (lst_entries st ! k)\<lparr>ste_delisted_at := None\<rparr>]"
  note same = relisted_maps [OF assms(2)]
  have "entries_sound keyed a n ?es = entries_sound keyed a n (lst_entries st)" for keyed a n
    unfolding entries_sound_def
    using same [of ste_instrument_id] same [of "recall_key keyed"]
      list_all_of_map [OF same [of "entry_sound keyed"]] list_all_of_map [OF same [of "id_admitted a n"]]
    by (simp add: delisted_irrelevant)
  moreover have "tracked keyed (st\<lparr>lst_appended := m, lst_entries := ?es\<rparr>) = tracked keyed st" for keyed
    by (rule tracked_same) (simp_all add: same)
  ultimately show ?thesis
    using assms(1) by (simp add: load_sound_def)
qed

lemma checked_add_one: "checked_add w 1 = Some v \<Longrightarrow> w < v \<and> v = w + 1" for w v :: u32
  by (auto simp: checked_add_def word_less_nat_alt unat_word_ariths split: if_splits)

lemma tracked_appended [simp]: "tracked keyed (st\<lparr>lst_appended := m\<rparr>) = tracked keyed st"
  by (rule tracked_cong) simp_all

lemma tracked_next [simp]: "tracked keyed (st\<lparr>lst_next := m\<rparr>) = tracked keyed st"
  by (rule tracked_cong) simp_all

lemma fold_appended_sound:
  assumes "fold_appended h n e st = Inr st'" "load_sound h st" "entry_sound (rh_keyed h \<noteq> None) e"
  shows "load_sound h st'"
proof -
  let ?keyed = "rh_keyed h \<noteq> None" and ?a = "rh_allocation h"
  let ?st = "st\<lparr>lst_appended := lst_appended st + 1\<rparr>" and ?i = "ste_instrument_id e"
  have sound: "tracked ?keyed ?st" "entries_sound ?keyed ?a (lst_next st) (lst_entries ?st)"
    using assms(2) by (simp_all add: load_sound_def)
  show ?thesis
  proof (cases "lst_ids st ?i")
    case (Some k)
    then have "k < length (lst_entries st)"
      using assms(2) by (auto simp: load_sound_def tracked_def)
    moreover have "st' = st\<lparr>lst_appended := lst_appended st + 1,
        lst_entries := (lst_entries st)[k := (lst_entries st ! k)\<lparr>ste_delisted_at := None\<rparr>]\<rparr>"
      using assms(1) Some by (auto simp: fold_appended_def Let_def split: if_splits)
    ultimately show ?thesis
      using restated_sound [OF assms(2)] by simp
  next
    case None
    then have unheld: "lst_ids ?st ?i = None" by simp
    show ?thesis
    proof (cases "is_derived ?a")
      case True
      then obtain st1 where st1: "hold ?keyed e ?st = Inr st1" "st' = keep_entry e st1"
          "id_admitted ?a (lst_next st) e"
        using assms(1) None by (auto simp: fold_appended_def id_admitted_def Let_def split: if_splits)
      then show ?thesis
        using keep_sound [OF sound assms(3) unheld st1(1,3) order_refl] assms(2) by (simp add: load_sound_def)
    next
      case False
      then obtain st1 v where st1: "hold ?keyed e ?st = Inr st1" "?i = lst_next st"
          "checked_add (lst_next st1) 1 = Some v" "st' = (keep_entry e st1)\<lparr>lst_next := v\<rparr>"
        using assms(1) None by (auto simp: fold_appended_def Let_def split: if_splits)
      have v: "lst_next st < v"
        using checked_add_one [OF st1(3), THEN conjunct1] hold_Inr [OF st1(1) sound(1)] by simp
      then have "id_admitted ?a v e" "lst_next st \<le> v"
        using st1(2) by (simp_all add: id_admitted_def)
      then show ?thesis
        using keep_sound [OF sound assms(3) unheld st1(1)] assms(2) False v
        by (auto simp: load_sound_def st1(4))
    qed
  qed
qed

lemma load_lines_sound: "load_lines h n raws st = Inr st' \<Longrightarrow> load_sound h st \<Longrightarrow> load_sound h st'"
proof (induction raws arbitrary: n st)
  case (Cons raw raws)
  let ?in_base = "case rh_base h of None \<Rightarrow> True | Some count \<Rightarrow> lst_read st < count"
  let ?st = "st\<lparr>lst_read := Suc (lst_read st), lst_complete := lst_complete st + length raw\<rparr>"
  have "tracked keyed (st\<lparr>lst_torn := True\<rparr>) = tracked keyed st" "tracked keyed ?st = tracked keyed st" for keyed
    by (rule tracked_cong; simp)+
  then have kept: "load_sound h (st\<lparr>lst_torn := True\<rparr>)" "load_sound h ?st"
    using Cons.prems(2) by (simp_all add: load_sound_def)
  show ?case
  proof (cases "ends_with_newline raw")
    case True
    then obtain e st1 where "read_entry h n ?in_base (butlast raw) = Inr e"
        "(if ?in_base then fold_base h n e ?st else fold_appended h n e ?st) = Inr st1"
        "load_lines h (Suc n) raws st1 = Inr st'"
      using Cons.prems(1) by (auto simp: load_lines.simps(2) Let_def)
    moreover from this have "load_sound h st1"
      using fold_base_sound [OF _ kept(2)] fold_appended_sound [OF _ kept(2)] read_entry_sound
      by (metis (lifting))
    ultimately show ?thesis using Cons.IH by blast
  next
    case False
    then show ?thesis
      using Cons.prems(1) kept(1) by (auto simp: load_lines.simps(2) Let_def split: if_splits)
  qed
qed simp

lemma loads_sound:
  assumes "record_load bs = Inr l"
  shows "entries_sound (sr_keyed (ld_record l) \<noteq> None) (sr_allocation (ld_record l))
    (sr_next_id (ld_record l)) (sr_entries (ld_record l))"
proof -
  obtain header raws h st where h: "read_header header = Inr h"
      "load_lines h 2 raws \<lparr>lst_entries = [], lst_ids = Map.empty, lst_symbols = Map.empty,
         lst_keys = Map.empty, lst_next = rh_next_id h, lst_read = 0, lst_appended = 0,
         lst_torn = False, lst_complete = length header\<rparr> = Inr st"
      "sr_keyed (ld_record l) = rh_keyed h" "sr_allocation (ld_record l) = rh_allocation h"
      "sr_next_id (ld_record l) = lst_next st" "sr_entries (ld_record l) = lst_entries st"
    using assms by (auto simp: record_load_def split: list.splits if_splits)
  have "load_sound h st"
    by (rule load_lines_sound [OF h(2)]) (simp add: load_sound_def entries_sound_def tracked_def)
  then show ?thesis
    by (simp add: h(3-6) load_sound_def)
qed

text \<open>
  C37. Whatever bytes the loader accepts, minting can go on from them: no two entries share an
  \<open>Instrument ID\<close> or what they are recalled by, none has the ID 0, and every ID is below the number
  the next mint takes or, under derived allocation, is its own derivation.
\<close>

theorem loaded_record_sound:
  "case record_load bs of Inl e \<Rightarrow> True
   | Inr l \<Rightarrow> entries_sound (sr_keyed (ld_record l) \<noteq> None) (sr_allocation (ld_record l))
       (sr_next_id (ld_record l)) (sr_entries (ld_record l))"
  using loads_sound by (cases "record_load bs") auto

subsection \<open>The derivation\<close>

text \<open>CRC-32/ISO-HDLC as it is specified: the register divided by the polynomial one bit at a time.\<close>

definition crc_bitwise :: "bytes \<Rightarrow> u32" where
  "crc_bitwise bs = NOT (foldl (\<lambda>crc byte. (crc_bit ^^ 8) (crc XOR ucast byte)) 0xFFFFFFFF bs)"

lemma crc_bit_step: "crc_bit z = drop_bit 1 z XOR (if bit z 0 then 0xEDB88320 else 0)"
  by (simp add: crc_bit_def bit_0 odd_iff_mod_2_eq_one and_one_eq)

lemma crc_bit_linear: "crc_bit (x XOR y) = crc_bit x XOR crc_bit y"
  unfolding crc_bit_step drop_bit_xor
  by (auto simp: bit_xor_iff xor.left_commute xor.commute xor.assoc)

lemma crc_bits_linear: "(crc_bit ^^ n) (x XOR y) = (crc_bit ^^ n) x XOR (crc_bit ^^ n) y"
  by (induction n) (simp_all add: crc_bit_linear)

lemma crc_bit_shifted:
  "0 < m \<Longrightarrow> m \<le> 8 \<Longrightarrow> crc_bit (push_bit m (drop_bit 8 x)) = push_bit (m - 1) (drop_bit 8 x)"
  unfolding crc_bit_step by (intro bit_word_eqI) (auto simp: bit_simps dest: bit_imp_le_length)

lemma crc_bits_shifted: "n \<le> 8 \<Longrightarrow> (crc_bit ^^ n) (push_bit 8 (drop_bit 8 x)) = push_bit (8 - n) (drop_bit 8 x)"
proof (induction n)
  case (Suc n)
  then show ?case using crc_bit_shifted [of "8 - n" x] by simp
qed simp

lemma crc_table: "(crc_bit ^^ 8) x = drop_bit 8 x XOR (CRC32_TABLE ! unat (x AND 0xFF))"
proof -
  have small: "x AND 0xFF = take_bit 8 x" by (simp add: take_bit_eq_mask mask_eq_exp_minus_1)
  then have "unat (x AND 0xFF) < 256"
    using take_bit_nat_less_exp [of 8 "unat x"] by (simp only: unsigned_take_bit_eq) simp
  then have row: "CRC32_TABLE ! unat (x AND 0xFF) = (crc_bit ^^ 8) (x AND 0xFF)"
    by (simp add: CRC32_TABLE_def del: funpow.simps)
  have "x = push_bit 8 (drop_bit 8 x) XOR (x AND 0xFF)"
    unfolding small by (intro bit_word_eqI) (auto simp: bit_simps)
  then have "(crc_bit ^^ 8) x = (crc_bit ^^ 8) (push_bit 8 (drop_bit 8 x)) XOR (crc_bit ^^ 8) (x AND 0xFF)"
    by (metis crc_bits_linear)
  then show ?thesis
    using crc_bits_shifted [of 8 x] row by simp
qed


end
