(* ===== verification/Record_Extend.thy ===== *)
theory Record_Extend
  imports Record_Soundness
begin

section \<open>Growing and cutting a record in place\<close>

text \<open>
  What the writer does to a record that loads, whoever wrote it: a line is appended, a line is begun
  and not finished, a torn line is cut off. Each keeps the record loading, with exactly that line
  folded in, ignored, or gone.
\<close>

subsection \<open>UTF-8 across an ASCII byte\<close>

lemma lead_bounds: "128 \<le> fst (second_of_three n)" "128 \<le> fst (second_of_four n)"
  by (simp_all add: second_of_three_def second_of_four_def)

lemma ascii_not_continuation: "unat c < 128 \<Longrightarrow> 128 \<le> lo \<Longrightarrow> \<not> continuation c lo hi"
  by (simp add: continuation_def)

lemma utf8_split:
  assumes "unat c < 128"
  shows "utf8_decode (a @ c # b) = None \<longleftrightarrow> utf8_decode a = None \<or> utf8_decode (c # b) = None"
proof (induction "length a" arbitrary: a rule: less_induct)
  case less
  note no = ascii_not_continuation [OF assms] lead_bounds
  consider "a = []" | b0 where "a = [b0]" | b0 b1 where "a = [b0, b1]" | b0 b1 b2 where "a = [b0, b1, b2]"
    | b0 b1 b2 b3 r where "a = b0 # b1 # b2 # b3 # r"
    by (cases a rule: remdups_adj.cases) (auto, metis list.exhaust)
  then show ?case
  proof cases
    case 2
    then show ?thesis using no less [of "[]"] by (simp add: Let_def split: list.split)
  next
    case 3
    then show ?thesis using no less [of "[]"] less [of "[b1]"] by (simp add: Let_def split: list.split)
  next
    case 4
    then show ?thesis
      using no less [of "[]"] less [of "[b2]"] less [of "[b1, b2]"] by (simp add: Let_def split: list.split)
  next
    case 5
    then show ?thesis
      using less [of r] less [of "b3 # r"] less [of "b2 # b3 # r"] less [of "b1 # b2 # b3 # r"]
      by (simp add: Let_def)
  qed simp
qed

lemma utf8_begins_ascii:
  assumes "b = [] \<or> unat (hd b) < 128"
  shows "utf8_decode (a @ b) = None \<longleftrightarrow> utf8_decode a = None \<or> utf8_decode b = None"
  using assms utf8_split [of "hd b" a "tl b"] by (cases b) auto

subsection \<open>The lines of a record\<close>

lemma concat_split_lines [simp]: "concat (split_lines c) = c"
  by (induction c rule: split_lines.induct) (auto split: list.split)

lemma split_lines_nonempty: "l \<in> set (split_lines c) \<Longrightarrow> l \<noteq> []"
  by (induction c arbitrary: l rule: split_lines.induct) (auto split: list.splits if_splits)

lemma split_lines_complete: "list_all ends_with_newline (butlast (split_lines c))"
proof (induction c rule: split_lines.induct)
  case (2 c cs)
  then show ?case
    using split_lines_nonempty [of _ cs]
    by (cases "split_lines cs") (auto simp: ends_with_newline_def split: if_splits)
qed simp

lemma split_lines_append:
  "list_all ends_with_newline (split_lines c) \<Longrightarrow> split_lines (c @ x) = split_lines c @ split_lines x"
proof (induction c rule: split_lines.induct)
  case (2 c cs)
  show ?case
  proof (cases "c = 10")
    case False
    then have "split_lines cs \<noteq> []" using 2(3) by (auto simp: ends_with_newline_def)
    then show ?thesis
      using False 2 by (cases "split_lines cs") (auto simp: ends_with_newline_def split: if_splits)
  qed (use 2 in \<open>simp add: ends_with_newline_def\<close>)
qed simp

lemma split_lines_of_lines: "list_all ends_with_newline ls \<Longrightarrow> set ls \<subseteq> set (split_lines c) \<Longrightarrow>
    split_lines (concat ls) = ls"
proof (induction ls)
  case (Cons l ls)
  have one: "l \<in> set (split_lines c) \<Longrightarrow> ends_with_newline l \<Longrightarrow> split_lines l = [l]" for l
  proof (induction c arbitrary: l rule: split_lines.induct)
    case (2 c cs)
    then show ?case
      by (cases "split_lines cs") (auto simp: ends_with_newline_def split: if_splits list.splits)
  qed simp
  then have "split_lines l = [l]" using Cons.prems by simp
  then show ?case
    using Cons split_lines_append [of l "concat ls"] by simp
qed simp

subsection \<open>Loading in two parts\<close>

definition load_begin :: "record_head \<Rightarrow> nat \<Rightarrow> load_state" where
  "load_begin h n = \<lparr>lst_entries = [], lst_ids = Map.empty, lst_symbols = Map.empty,
     lst_keys = Map.empty, lst_next = rh_next_id h, lst_read = 0, lst_appended = 0,
     lst_torn = False, lst_complete = n\<rparr>"

definition base_read :: "record_head \<Rightarrow> load_state \<Rightarrow> bool" where
  "base_read h st \<longleftrightarrow> (case rh_base h of None \<Rightarrow> True | Some count \<Rightarrow> count \<le> lst_read st)"

definition loaded_of :: "record_head \<Rightarrow> load_state \<Rightarrow> loaded" where
  "loaded_of h st = \<lparr>ld_record = \<lparr>sr_source_id = rh_source_id h, sr_next_id = lst_next st,
       sr_entries = lst_entries st, sr_allocation = rh_allocation h, sr_keyed = rh_keyed h\<rparr>,
     ld_version = rh_version h, ld_base = lst_read st - lst_appended st,
     ld_appended = lst_appended st, ld_torn = lst_torn st, ld_complete = lst_complete st\<rparr>"

lemma record_load_iff:
  "record_load c = Inr l \<longleftrightarrow> utf8_decode c \<noteq> None \<and>
    (\<exists>header raws h st. split_lines c = header # raws \<and> read_header header = Inr h \<and>
      load_lines h 2 raws (load_begin h (length header)) = Inr st \<and> base_read h st \<and> l = loaded_of h st)"
proof -
  have "(case rh_base h of None \<Rightarrow> False | Some count \<Rightarrow> lst_read st < count) \<longleftrightarrow> \<not> base_read h st" for h st
    by (auto simp: base_read_def split: option.split)
  then show ?thesis
    by (auto simp: record_load_def loaded_of_def load_begin_def split: list.splits if_splits)
qed

lemma load_lines_append:
  "list_all ends_with_newline xs \<Longrightarrow> load_lines h n (xs @ ys) st =
    bind_ok (load_lines h n xs st) (load_lines h (n + length xs) ys)"
proof (induction xs arbitrary: n st)
  case (Cons x xs)
  have bind: "bind_ok (bind_ok r f) g = bind_ok r (\<lambda>x. bind_ok (f x) g)" for r :: "record_error + 'a"
      and f :: "'a \<Rightarrow> record_error + 'b" and g :: "'b \<Rightarrow> record_error + 'c"
    by (cases r) simp_all
  have "load_lines h m (xs @ ys) = (\<lambda>st. bind_ok (load_lines h m xs st) (load_lines h (m + length xs) ys))" for m
    using Cons by (intro ext) simp
  then show ?case
    using Cons.prems by (simp add: load_lines.simps(2) Let_def bind)
qed simp

lemma load_lines_torn:
  assumes "load_lines h n raws st = Inr st'" "\<not> lst_torn st" "list_all ends_with_newline (butlast raws)"
  shows "if lst_torn st' then raws \<noteq> [] \<and> \<not> ends_with_newline (last raws) \<and>
      load_lines h n (butlast raws) st = Inr (st'\<lparr>lst_torn := False\<rparr>) \<and>
      lst_complete st' = lst_complete st + length (concat (butlast raws)) \<and>
      starts_an_appended_line (last raws) (rh_keyed h \<noteq> None) \<and> base_read h st'
    else list_all ends_with_newline raws \<and> lst_complete st' = lst_complete st + length (concat raws)"
  using assms
proof (induction raws arbitrary: n st)
  case (Cons raw raws)
  show ?case
  proof (cases "ends_with_newline raw")
    case True
    let ?in_base = "case rh_base h of None \<Rightarrow> True | Some count \<Rightarrow> lst_read st < count"
    let ?st = "st\<lparr>lst_read := Suc (lst_read st), lst_complete := lst_complete st + length raw\<rparr>"
    obtain e st1 where st1: "read_entry h n ?in_base (butlast raw) = Inr e"
        "(if ?in_base then fold_base h n e ?st else fold_appended h n e ?st) = Inr st1"
        "load_lines h (Suc n) raws st1 = Inr st'"
      using Cons.prems(1) True by (auto simp: load_lines.simps(2) Let_def)
    have kept: "lst_torn st1 = lst_torn st \<and> lst_complete st1 = lst_complete st + length raw"
      using st1(2) by (auto simp: fold_base_def fold_appended_def hold_def keep_entry_def Let_def
          split: if_splits option.splits)
    show ?thesis
      using Cons.IH [OF st1(3)] Cons.prems(2,3) kept True st1
      by (cases raws) (auto simp: load_lines.simps(2) Let_def split: if_splits)
  next
    case False
    then have "raws = []" using Cons.prems(3) by (cases raws) auto
    then show ?thesis
      using Cons.prems(1,2) False
      by (auto simp: load_lines.simps(2) Let_def base_read_def split: if_splits option.splits)
  qed
qed simp

lemma read_header_facts:
  assumes "read_header header = Inr h"
  shows "ends_with_newline header" "rh_version h \<noteq> FORMAT_VERSION_V1 \<Longrightarrow> rh_base h \<noteq> None"
  using assms by (auto simp: read_header_def Let_def split_beta split: if_splits prod.splits)

lemma loaded_matches:
  assumes "load_lines h 2 raws (load_begin h n) = Inr st" "\<not> lst_torn st" "rh_version h \<noteq> FORMAT_VERSION_V1"
  shows "matches h (ld_record (loaded_of h st)) st"
proof -
  have "load_sound h st"
    by (rule load_lines_sound [OF assms(1)]) (simp add: load_begin_def load_sound_def entries_sound_def tracked_def)
  then show ?thesis
    using assms(2,3) by (simp add: matches_def loaded_of_def load_sound_def entries_sound_def)
qed

subsection \<open>Appending\<close>

text \<open>
  All of a line, or any beginning of it, behind a record that is not torn: the line is folded in,
  or the record is the one it was.
\<close>

lemma record_append_prefix:
  assumes l: "record_load c = Inr l" "\<not> ld_torn l" "ld_version l \<noteq> FORMAT_VERSION_V1"
    and e: "appendable (ld_record l) e" and p: "prefix p (line_of (sr_keyed (ld_record l) \<noteq> None) e)"
  shows "record_load (c @ p) = Inr (if p = line_of (sr_keyed (ld_record l) \<noteq> None) e
    then l\<lparr>ld_record := append_entry e (ld_record l), ld_appended := ld_appended l + 1,
           ld_complete := ld_complete l + length p\<rparr>
    else l\<lparr>ld_torn := (p \<noteq> [])\<rparr>)"
proof -
  let ?keyed = "sr_keyed (ld_record l) \<noteq> None"
  let ?line = "line_of ?keyed e"
  obtain header raws h st where h: "utf8_decode c \<noteq> None" "split_lines c = header # raws"
      "read_header header = Inr h" "load_lines h 2 raws (load_begin h (length header)) = Inr st"
      "base_read h st" "l = loaded_of h st"
    using l(1) unfolding record_load_iff by blast
  have untorn: "\<not> lst_torn st" "rh_version h \<noteq> FORMAT_VERSION_V1"
    using l(2,3) h(6) by (simp_all add: loaded_of_def)
  have m: "matches h (ld_record l) st"
    using loaded_matches [OF h(4) untorn] h(6) by simp
  have "list_all ends_with_newline (butlast raws)"
    using split_lines_complete [of c] h(2) by (cases raws) auto
  then have raws: "list_all ends_with_newline raws"
    using load_lines_torn [OF h(4)] untorn(1) by (simp add: load_begin_def)
  then have split: "split_lines (c @ x) = header # raws @ split_lines x" for x
    using split_lines_append [of c x] h(2) read_header_facts(1) [OF h(3)] by simp
  have line: "?line = entry_body ?keyed e @ [10]" "entry_wf ?keyed e" "ste_delisted_at e = None"
    using e by (simp_all add: appendable_def line_of_body)
  obtain count where count: "rh_base h = Some count" "count \<le> lst_read st"
    using h(5) read_header_facts(2) [OF h(3) untorn(2)] by (auto simp: base_read_def)
  have ascii: "list_all (\<lambda>c. c < 128) p"
    using lines_are_text [of "[?line]"] body_line(1) [of ?keyed e] line(1) list_all_prefix [OF p] by simp
  then have "utf8_decode p \<noteq> None" "p = [] \<or> unat (hd p) < 128"
    using text_decodes [of p] by (simp, cases p, simp_all add: word_less_nat_alt)
  then have utf8: "utf8_decode (c @ p) \<noteq> None"
    using h(1) utf8_begins_ascii [of p c] by simp
  show ?thesis
  proof (cases "p = ?line")
    case True
    then have lines: "split_lines p = [?line]"
      unfolding True line(1) using split_lines_line [OF no_newline(2) [of ?keyed e], of "[]"] by simp
    obtain st' where st': "load_lines h (2 + length raws) [?line] st = Inr st'"
        "matches h (append_entry e (ld_record l)) st'" "lst_read st' = lst_read st + 1"
        "lst_appended st' = lst_appended st + 1" "lst_complete st' = lst_complete st + length ?line"
      using load_appended_line [OF m count e, of "2 + length raws" "[]"] by auto
    then have "load_lines h 2 (raws @ [?line]) (load_begin h (length header)) = Inr st'"
      using load_lines_append [OF raws] h(4) by simp
    moreover have "base_read h st'" using h(5) st'(3) by (auto simp: base_read_def split: option.splits)
    moreover have "loaded_of h st' = l\<lparr>ld_record := append_entry e (ld_record l), ld_appended := ld_appended l + 1,
        ld_complete := ld_complete l + length p\<rparr>"
      using st'(2-5) m h(6) True by (simp add: loaded_of_def matches_def)
    ultimately show ?thesis
      unfolding record_load_iff using True utf8 split lines h(3) by auto
  next
    case False
    then have tail: "torn_tail ?keyed p"
      using line p by (auto simp: torn_tail_def strict_prefix_def)
    note t = torn_tail_facts [OF tail]
    have "load_lines h 2 (raws @ split_lines p) (load_begin h (length header)) = Inr (st\<lparr>lst_torn := (p \<noteq> [])\<rparr>)"
      using load_lines_append [OF raws] h(4) t count m untorn(1)
      by (cases "p = []") (cases st, auto simp: load_lines.simps(2) matches_def)
    moreover have "base_read h (st\<lparr>lst_torn := b\<rparr>) = base_read h st" for b
      by (simp add: base_read_def split: option.split)
    moreover have "loaded_of h (st\<lparr>lst_torn := (p \<noteq> [])\<rparr>) = l\<lparr>ld_torn := (p \<noteq> [])\<rparr>"
      using h(6) by (simp add: loaded_of_def)
    ultimately show ?thesis
      unfolding record_load_iff using False utf8 split h(3,5) by auto
  qed
qed

subsection \<open>Cutting\<close>

lemma starts_with_digit:
  assumes "starts_an_appended_line t keyed"
  shows "t \<noteq> []" "unat (hd t) < 128"
proof -
  let ?num = "takeWhile (\<lambda>c. c \<noteq> 32) t"
  have "fst (splitn3 t) = ?num" by (simp add: splitn3_def Let_def)
  then have num: "?num \<noteq> []" "list_all (\<lambda>c. 48 \<le> c \<and> c \<le> 57) ?num"
    using assms by (auto simp: starts_an_appended_line_def Let_def split: prod.splits)
  then show t: "t \<noteq> []" by auto
  have "hd t \<in> set ?num" using num(1) by (cases t) (auto split: if_splits)
  then have "hd t \<le> 57" using num(2) by (auto simp: list_all_iff)
  then show "unat (hd t) < 128" by (simp add: word_le_nat_alt)
qed

text \<open>Cut back to where its complete lines end, a record loads without its torn line.\<close>

lemma record_cut:
  assumes l: "record_load c = Inr l"
  shows "ld_complete l \<le> length c" "record_load (take (ld_complete l) c) = Inr (l\<lparr>ld_torn := False\<rparr>)"
proof -
  obtain header raws h st where h: "utf8_decode c \<noteq> None" "split_lines c = header # raws"
      "read_header header = Inr h" "load_lines h 2 raws (load_begin h (length header)) = Inr st"
      "base_read h st" "l = loaded_of h st"
    using l unfolding record_load_iff by blast
  have c: "c = header @ concat raws"
    using concat_split_lines [of c] h(2) by simp
  have "list_all ends_with_newline (butlast raws)"
    using split_lines_complete [of c] h(2) by (cases raws) auto
  note torn = load_lines_torn [OF h(4) _ this]
  have complete: "ld_complete l = lst_complete st" "lst_complete (load_begin h n) = n"
      "\<not> lst_torn (load_begin h n)" for n
    using h(6) by (simp_all add: loaded_of_def load_begin_def)
  show le: "ld_complete l \<le> length c" "record_load (take (ld_complete l) c) = Inr (l\<lparr>ld_torn := False\<rparr>)"
  proof (atomize(full), cases "lst_torn st")
    case False
    then show "ld_complete l \<le> length c \<and> record_load (take (ld_complete l) c) = Inr (l\<lparr>ld_torn := False\<rparr>)"
      using torn complete c l h(6) by (simp add: loaded_of_def)
  next
    case True
    then have t: "raws \<noteq> []" "load_lines h 2 (butlast raws) (load_begin h (length header)) = Inr (st\<lparr>lst_torn := False\<rparr>)"
        "lst_complete st = length header + length (concat (butlast raws))"
        "starts_an_appended_line (last raws) (rh_keyed h \<noteq> None)"
      using torn complete by auto
    let ?kept = "header @ concat (butlast raws)"
    have cut: "c = ?kept @ last raws"
      using c t(1) by (metis append_assoc append_butlast_last_id concat.simps(2) concat_append concat.simps(1) append_Nil2)
    have "last raws \<noteq> []" "unat (hd (last raws)) < 128"
      using starts_with_digit [OF t(4)] by simp_all
    then have "utf8_decode ?kept \<noteq> None"
      using h(1) cut utf8_begins_ascii [of "last raws" ?kept] by auto
    moreover have "split_lines ?kept = header # butlast raws"
      using split_lines_of_lines [of "header # butlast raws" c] h(2,3) t(1) read_header_facts(1)
        \<open>list_all ends_with_newline (butlast raws)\<close> by (auto dest: in_set_butlastD)
    moreover have "base_read h (st\<lparr>lst_torn := False\<rparr>)" using h(5) by (simp add: base_read_def split: option.splits)
    ultimately have "record_load ?kept = Inr (l\<lparr>ld_torn := False\<rparr>)"
      unfolding record_load_iff using h(3,6) t(2) by (auto simp: loaded_of_def)
    then show "ld_complete l \<le> length c \<and> record_load (take (ld_complete l) c) = Inr (l\<lparr>ld_torn := False\<rparr>)"
      using t(3) complete cut by simp
  qed
qed

end
