(* ===== verification/Refdata_Registry.thy ===== *)
theory Refdata_Registry
  imports Refdata_Store Refdata_Compose Refdata_Pacer Record_Extend Lowering "HOL-Library.AList"
begin

section \<open>The reference-data registry\<close>

text \<open>
  \<open>registry.rs\<close>, \<open>error.rs\<close> and \<open>clock.rs\<close> of \<open>dz-publisher-refdata\<close>. The registry is a record
  over the state of its store; each method takes the store's operations and returns its result and
  the registry it leaves. The hash map of minted identifiers is an association list with distinct
  keys (its order is never observable: a base is written in identifier order), the other maps are
  functions. The clock is the two readings it would give now. Counters that only grow and are
  compared are natural numbers, the reported counts words. The two \<open>expect\<close>s of the source are
  on facts the registry's invariant gives; what the model returns there is never reached.
\<close>

subsection \<open>Clocks\<close>

record clock =
  clk_monotonic_ns :: u64
  clk_unix_ns :: u64

definition manual_clock_new :: clock where
  "manual_clock_new = \<lparr>clk_monotonic_ns = 0, clk_unix_ns = 0\<rparr>"

definition clock_advance :: "nat \<Rightarrow> clock \<Rightarrow> clock" where
  "clock_advance by c = (let by' = word_of_nat (min by (2 ^ 64 - 1)) in
     c\<lparr>clk_monotonic_ns := sat_add (clk_monotonic_ns c) by', clk_unix_ns := sat_add (clk_unix_ns c) by'\<rparr>)"

definition set_unix_ns :: "u64 \<Rightarrow> clock \<Rightarrow> clock" where
  "set_unix_ns ns c = c\<lparr>clk_unix_ns := ns\<rparr>"

definition now_s :: "clock \<Rightarrow> u64" where
  "now_s c = clk_unix_ns c div 1000000000"

definition stamp_s :: "clock \<Rightarrow> u64" where
  "stamp_s c = clk_unix_ns c div 1000000000 + (if clk_unix_ns c mod 1000000000 = 0 then 0 else 1)"

subsection \<open>Configuration and state\<close>

record shard_config =
  shc_name :: string
  shc_channel_id :: u8

definition default_shard :: "u8 \<Rightarrow> shard_config" where
  "default_shard channel_id = \<lparr>shc_name = ''default'', shc_channel_id = channel_id\<rparr>"

record registry_config =
  rc_source_id :: u16
  rc_shards :: "shard_config list"
  rc_selection :: selection_policy
  rc_schedule :: cycle_schedule
  rc_forget_delisted_after :: "nat option"
  rc_id_allocation :: id_allocation
  rc_identity :: identity
  rc_venue_keys :: venue_keys

datatype refdata_error =
    StateHeldByAnotherWriter
  | StateUnusable state_error
  | CorruptState record_error
  | NoShardConfigured
  | ShardConfiguredTwice string
  | StateBelongsToAnotherSource u16 u16
  | ForgettingUnderDerivedIds
  | StateIsDerived
  | VenueKeysWithoutVenueKey
  | DerivedKeyWithoutVenueKey
  | DerivedWithStatedVenueKeys
  | DerivationChanged id_allocation id_allocation
  | StateIsKeyed
  | VenueKeysChanged venue_keys venue_keys
  | UnresolvedVenueKeys "(u32 \<times> bytes) list"

record unavailable_id =
  ui_symbol :: bytes
  ui_venue_key :: "bytes option"
  ui_holder_venue_key :: "bytes option"
  ui_instrument_id :: u32
  ui_holder :: "bytes option"
  ui_below_floor :: bool

definition COMPACTION_FLOOR :: nat where "COMPACTION_FLOOR = 1024"
definition MAX_REPORTED_UNKNOWN_SHARDS :: nat where "MAX_REPORTED_UNKNOWN_SHARDS = 64"
definition MAX_REPORTED_UNAVAILABLE_IDS :: nat where "MAX_REPORTED_UNAVAILABLE_IDS = 64"

record minted_id =
  mi_instrument_id :: u32
  mi_symbol :: bytes
  mi_recorded_published :: bool
  mi_last_published_s :: u64

record published =
  pb_shard :: nat
  pb_definition :: instrument_definition
  pb_strike :: "strike_interval option"
  pb_defined :: bool

record published_definition =
  pd_definition :: instrument_definition
  pd_strike :: "strike_interval option"

definition wire_size :: "bool \<Rightarrow> nat" where
  "wire_size has_strike = SIZE instrument_definition_message +
     (if has_strike then SIZE strike_interval_message else 0)"

definition published_wire_size :: "published_definition \<Rightarrow> nat" where
  "published_wire_size d = wire_size (pd_strike d \<noteq> None)"

definition same_interval :: "strike_interval \<Rightarrow> strike_interval \<Rightarrow> bool" where
  "same_interval l r \<longleftrightarrow> si_strike_exponent l = si_strike_exponent r \<and>
     si_bound_flags l = si_bound_flags r \<and> si_lower_bound l = si_lower_bound r \<and>
     si_upper_bound l = si_upper_bound r"

record published_set =
  ps_published :: nat
  ps_manifest_seq :: u16
  ps_changed :: bool
  ps_pacer :: definition_pacer
  ps_cursor :: nat
  ps_strikes_pending :: nat
  ps_strikes_changed :: "instrument_ref list"

record counts =
  ct_admitted :: u64
  ct_delisted :: u64
  ct_definitions_emitted :: u64
  ct_declined_at_cap :: u64
  ct_declined_unrepresentable :: u64
  ct_declined_unknown_shard :: u64
  ct_declined_venue_key_undeclared :: u64
  ct_declined_shard_restated :: u64
  ct_declined_strike_unfixed :: u64
  ct_declined_strike_presence :: u64
  ct_strikes_changed :: u64
  ct_declined_id_unavailable :: u64
  ct_imperfect_symbols :: u64

definition counts_default :: counts where
  "counts_default = \<lparr>ct_admitted = 0, ct_delisted = 0, ct_definitions_emitted = 0,
     ct_declined_at_cap = 0, ct_declined_unrepresentable = 0, ct_declined_unknown_shard = 0,
     ct_declined_venue_key_undeclared = 0, ct_declined_shard_restated = 0,
     ct_declined_strike_unfixed = 0, ct_declined_strike_presence = 0, ct_strikes_changed = 0,
     ct_declined_id_unavailable = 0, ct_imperfect_symbols = 0\<rparr>"

record 's registry =
  rg_config :: registry_config
  rg_store :: 's
  rg_clock :: clock
  rg_minted :: "(bytes \<times> minted_id) list"
  rg_next_id :: u32
  rg_base_written :: bool
  rg_base_entries :: nat
  rg_appended :: nat
  rg_compaction_at :: nat
  rg_handles :: "bytes \<Rightarrow> instrument_ref option"
  rg_slots :: "published option list"
  rg_slot_keys :: "bytes option list"
  rg_published :: nat
  rg_instruments :: instrument_table
  rg_sets :: "published_set list"
  rg_polling :: bool
  rg_phase :: phase
  rg_counts :: counts
  rg_unknown_shards :: "string list"
  rg_unknown_shards_taken :: nat
  rg_in_use :: "u32 \<Rightarrow> bytes option"
  rg_unavailable :: "unavailable_id list"
  rg_unavailable_taken :: nat
  rg_last_refusal :: "refusal option"
  rg_fault :: "state_error option"

definition is_keyed :: "'s registry \<Rightarrow> bool" where
  "is_keyed r \<longleftrightarrow> rc_identity (rg_config r) = VenueKeyIdentity"

subsection \<open>Writing the record\<close>

definition horizon_s :: "nat \<Rightarrow> u64" where
  "horizon_s ns = word_of_nat (ns div 10 ^ 9) + (if ns mod 10 ^ 9 > 0 then 1 else 0)"

definition forgettable :: "u64 \<Rightarrow> 's registry \<Rightarrow> bytes list" where
  "forgettable now r = (case rc_forget_delisted_after (rg_config r) of
     None \<Rightarrow> []
   | Some horizon \<Rightarrow> map fst (filter (\<lambda>(key, m). rg_handles r key = None \<and>
         now \<ge> sat_add (mi_last_published_s m) (horizon_s horizon)) (rg_minted r)))"

definition key_field :: "bool \<Rightarrow> bytes \<Rightarrow> bytes \<Rightarrow> bytes option" where
  "key_field keyed key symbol = (if keyed then venue_key_field key symbol else None)"

text \<open>Whether a base writes an entry as published.\<close>

definition stands_published :: "'s registry \<Rightarrow> bytes \<times> minted_id \<Rightarrow> bool" where
  "stands_published r km \<longleftrightarrow> rg_handles r (fst km) \<noteq> None \<or>
     (rg_phase r = Seeding \<and> mi_recorded_published (snd km))"

definition base_entry :: "'s registry \<Rightarrow> bytes \<times> minted_id \<Rightarrow> state_entry" where
  "base_entry r km = (let (key, m) = km in
     \<lparr>ste_instrument_id = mi_instrument_id m, ste_symbol = mi_symbol m,
      ste_venue_key = key_field (is_keyed r) key (mi_symbol m),
      ste_delisted_at = (if stands_published r km then None else Some (mi_last_published_s m))\<rparr>)"

definition base_record :: "(u32 \<times> bytes \<times> bytes \<times> u32) option \<Rightarrow> bytes list \<Rightarrow> 's registry \<Rightarrow> state_record" where
  "base_record minting forgetting r =
    (let kept = map (base_entry r) (filter (\<lambda>(key, m). key \<notin> set forgetting) (rg_minted r));
         (entries, next_id) = (case minting of
            None \<Rightarrow> (kept, rg_next_id r)
          | Some (instrument_id, key, symbol, next) \<Rightarrow>
              (kept @ [\<lparr>ste_instrument_id = instrument_id, ste_symbol = symbol,
                 ste_venue_key = key_field (is_keyed r) key symbol, ste_delisted_at = None\<rparr>], next)) in
     \<lparr>sr_source_id = rc_source_id (rg_config r), sr_next_id = next_id, sr_entries = entries,
      sr_allocation = rc_id_allocation (rg_config r),
      sr_keyed = (if is_keyed r then Some (rc_venue_keys (rg_config r)) else None)\<rparr>)"

definition write_base ::
    "'s state_store \<Rightarrow> (u32 \<times> bytes \<times> bytes \<times> u32) option \<Rightarrow> bytes list \<Rightarrow> 's registry \<Rightarrow>
     (state_error + unit) \<times> 's registry" where
  "write_base S minting forgetting r =
    (let record = base_record minting forgetting r in
     case ss_store S (record_encode record) (rg_store r) of
       (Inl e, s) \<Rightarrow> (Inl e, r\<lparr>rg_store := s\<rparr>)
     | (Inr _, s) \<Rightarrow>
         (Inr (), r\<lparr>rg_store := s,
            rg_minted := map (\<lambda>(key, m). (key, m\<lparr>mi_recorded_published := stands_published r (key, m)\<rparr>))
              (filter (\<lambda>(key, m). key \<notin> set forgetting) (rg_minted r)),
            rg_base_entries := length (sr_entries record),
            rg_compaction_at := max (length (sr_entries record)) COMPACTION_FLOOR,
            rg_base_written := True, rg_appended := 0\<rparr>))"

definition compaction_due :: "'s registry \<Rightarrow> bool" where
  "compaction_due r \<longleftrightarrow> rg_appended r \<ge> rg_compaction_at r"

definition compact :: "'s state_store \<Rightarrow> bool \<Rightarrow> 's registry \<Rightarrow> (state_error + bool) \<times> 's registry" where
  "compact S opening r =
    (let forgetting = (if opening \<or> compaction_due r then forgettable (now_s (rg_clock r)) r else []) in
     if \<not> compaction_due r \<and> forgetting = [] then (Inr False, r)
     else case write_base S None forgetting r of
       (Inr _, r) \<Rightarrow> (Inr True, r)
     | (Inl (NotReplaced e), r) \<Rightarrow>
         (Inr False, r\<lparr>rg_compaction_at := rg_appended r + max (rg_base_entries r) COMPACTION_FLOOR\<rparr>)
     | (Inl e, r) \<Rightarrow> (Inl e, r))"

definition persist ::
    "'s state_store \<Rightarrow> u32 \<Rightarrow> bytes \<Rightarrow> bytes \<Rightarrow> u32 \<Rightarrow> 's registry \<Rightarrow> (refusal + unit) \<times> 's registry" where
  "persist S instrument_id key symbol next_id r =
    (case
       (if rg_base_written r then
          (let line = (if is_keyed r then encode_keyed_line instrument_id symbol (venue_key_field key symbol)
                       else encode_line instrument_id symbol) in
           case ss_append S line (rg_store r) of
             (Inl e, s) \<Rightarrow> (Inl e, r\<lparr>rg_store := s\<rparr>)
           | (Inr _, s) \<Rightarrow> (Inr (), r\<lparr>rg_store := s, rg_appended := rg_appended r + 1\<rparr>))
        else write_base S (Some (instrument_id, key, symbol, next_id)) [] r) of
       (Inl e, r) \<Rightarrow> (Inl Unpersistable, r\<lparr>rg_fault := Some e\<rparr>)
     | (Inr _, r) \<Rightarrow> (Inr (), r))"

subsection \<open>Opening\<close>

text \<open>The checks of \<open>open\<close> on the configuration, before the directory is claimed, and on the record.\<close>

fun first_repeated :: "string list \<Rightarrow> string list \<Rightarrow> string option" where
  "first_repeated earlier [] = None"
| "first_repeated earlier (n # ns) = (if n \<in> set earlier then Some n else first_repeated (earlier @ [n]) ns)"

definition check_config :: "registry_config \<Rightarrow> refdata_error + unit" where
  "check_config c =
    (if rc_shards c = [] then Inl NoShardConfigured
     else case first_repeated [] (map shc_name (rc_shards c)) of
       Some name \<Rightarrow> Inl (ShardConfiguredTwice name)
     | None \<Rightarrow>
         if rc_venue_keys c = StatedKeys \<and> rc_identity c = SymbolIdentity then Inl VenueKeysWithoutVenueKey
         else if rc_id_allocation c = DerivedKey \<and> rc_identity c = SymbolIdentity then Inl DerivedKeyWithoutVenueKey
         else if rc_id_allocation c = Derived \<and> rc_venue_keys c = StatedKeys then Inl DerivedWithStatedVenueKeys
         else if is_derived (rc_id_allocation c) \<and> rc_forget_delisted_after c \<noteq> None
         then Inl ForgettingUnderDerivedIds
         else Inr ())"

definition check_keys :: "registry_config \<Rightarrow> state_record \<Rightarrow> refdata_error + unit" where
  "check_keys c R = (case (sr_keyed R, rc_identity c) of
     (Some _, SymbolIdentity) \<Rightarrow> Inl StateIsKeyed
   | (Some persisted, VenueKeyIdentity) \<Rightarrow>
       if persisted \<noteq> rc_venue_keys c then Inl (VenueKeysChanged persisted (rc_venue_keys c)) else Inr ()
   | (None, VenueKeyIdentity) \<Rightarrow>
       let unresolved = map (\<lambda>e. (ste_instrument_id e, ste_symbol e))
         (filter (\<lambda>e. rc_venue_keys c = StatedKeys \<or> \<not> symbol_is_whole (ste_symbol e)) (sr_entries R)) in
       if unresolved \<noteq> [] then Inl (UnresolvedVenueKeys unresolved) else Inr ()
   | (None, SymbolIdentity) \<Rightarrow> Inr ())"

definition check_record :: "registry_config \<Rightarrow> state_record \<Rightarrow> refdata_error + unit" where
  "check_record c R =
    (if sr_source_id R \<noteq> rc_source_id c
     then Inl (StateBelongsToAnotherSource (sr_source_id R) (rc_source_id c))
     else if is_derived (sr_allocation R) \<and> rc_id_allocation c = Sequential then Inl StateIsDerived
     else if is_derived (sr_allocation R) \<and> is_derived (rc_id_allocation c) \<and>
       sr_allocation R \<noteq> rc_id_allocation c
     then Inl (DerivationChanged (sr_allocation R) (rc_id_allocation c))
     else check_keys c R)"

definition new_set :: "registry_config \<Rightarrow> published_set" where
  "new_set c = \<lparr>ps_published = 0, ps_manifest_seq = 0, ps_changed = False,
     ps_pacer = pacer_new (rc_schedule c), ps_cursor = 0, ps_strikes_pending = 0,
     ps_strikes_changed = []\<rparr>"

text \<open>The registry as it is before the record is rewritten, from what was loaded.\<close>

definition registry_of ::
    "registry_config \<Rightarrow> 's \<Rightarrow> clock \<Rightarrow> loaded option \<Rightarrow> 's registry" where
  "registry_of c s clk loaded =
    (let R = (case loaded of None \<Rightarrow> empty_record (rc_source_id c) | Some l \<Rightarrow> ld_record l);
         key = recall_key (rc_identity c = VenueKeyIdentity);
         base = (case loaded of None \<Rightarrow> 0 | Some l \<Rightarrow> ld_base l) in
     \<lparr>rg_config = c, rg_store = s, rg_clock = clk,
      rg_minted = fold (\<lambda>e. AList.update (key e)
          \<lparr>mi_instrument_id = ste_instrument_id e, mi_symbol = ste_symbol e,
           mi_recorded_published = (ste_delisted_at e = None),
           mi_last_published_s = (case ste_delisted_at e of None \<Rightarrow> stamp_s clk | Some at \<Rightarrow> at)\<rparr>)
        (sr_entries R) [],
      rg_next_id = sr_next_id R, rg_base_written = (loaded \<noteq> None), rg_base_entries = base,
      rg_appended = (case loaded of None \<Rightarrow> 0 | Some l \<Rightarrow> ld_appended l),
      rg_compaction_at = max base COMPACTION_FLOOR, rg_handles = Map.empty, rg_slots = [],
      rg_slot_keys = [], rg_published = 0, rg_instruments = table_new,
      rg_sets = map (\<lambda>_. new_set c) (rc_shards c), rg_polling = False, rg_phase = Seeding,
      rg_counts = counts_default, rg_unknown_shards = [], rg_unknown_shards_taken = 0,
      rg_in_use = (if is_derived (rc_id_allocation c)
         then foldl (\<lambda>m e. m(ste_instrument_id e \<mapsto> key e)) Map.empty (sr_entries R) else Map.empty),
      rg_unavailable = [], rg_unavailable_taken = 0, rg_last_refusal = None, rg_fault = None\<rparr>)"

text \<open>
  The rewrite, the compaction or the cut an opening owes; \<open>clk\<close> is the clock when it is reached.
\<close>

definition settle :: "'s state_store \<Rightarrow> loaded \<Rightarrow> 's registry \<Rightarrow> (refdata_error + unit) \<times> 's registry" where
  "settle S l r =
    (case
       (if needs_rewrite l (rc_identity (rg_config r)) \<or>
           sr_allocation (ld_record l) \<noteq> rc_id_allocation (rg_config r)
        then (case write_base S None (forgettable (now_s (rg_clock r)) r) r of
            (Inl e, r) \<Rightarrow> (Inl e, r) | (Inr _, r) \<Rightarrow> (Inr True, r))
        else compact S True r) of
       (Inl e, r) \<Rightarrow> (Inl (StateUnusable e), r)
     | (Inr rewritten, r) \<Rightarrow>
         if \<not> rewritten \<and> ld_torn l then
           (case ss_truncate S (ld_complete l) (rg_store r) of
              (Inl e, s) \<Rightarrow> (Inl (StateUnusable e), r\<lparr>rg_store := s\<rparr>)
            | (Inr _, s) \<Rightarrow> (Inr (), r\<lparr>rg_store := s\<rparr>))
         else (Inr (), r))"

text \<open>
  \<open>Registry::open\<close>. The clock is read twice, when the entries are stamped and when the horizon is
  measured; the store is returned in every case.
\<close>

definition registry_open ::
    "'s state_store \<Rightarrow> registry_config \<Rightarrow> clock \<Rightarrow> clock \<Rightarrow> 's \<Rightarrow>
     (refdata_error + 's registry) \<times> 's" where
  "registry_open S c clk clk' s =
    (case check_config c of
       Inl e \<Rightarrow> (Inl e, s)
     | Inr _ \<Rightarrow> (case ss_claim S s of
         (Inl AlreadyHeld, s) \<Rightarrow> (Inl StateHeldByAnotherWriter, s)
       | (Inl e, s) \<Rightarrow> (Inl (StateUnusable e), s)
       | (Inr _, s) \<Rightarrow> (case ss_load S s of
           (Inl e, s) \<Rightarrow> (Inl (StateUnusable e), s)
         | (Inr None, s) \<Rightarrow> (case check_record c (empty_record (rc_source_id c)) of
             Inl e \<Rightarrow> (Inl e, s)
           | Inr _ \<Rightarrow> (Inr (registry_of c s clk None\<lparr>rg_clock := clk'\<rparr>), s))
         | (Inr (Some bytes), s) \<Rightarrow> (case record_load bytes of
             Inl e \<Rightarrow> (Inl (CorruptState e), s)
           | Inr l \<Rightarrow> (case check_record c (ld_record l) of
               Inl e \<Rightarrow> (Inl e, s)
             | Inr _ \<Rightarrow> (case settle S l (registry_of c s clk (Some l)\<lparr>rg_clock := clk'\<rparr>) of
                 (Inl e, r) \<Rightarrow> (Inl e, rg_store r)
               | (Inr _, r) \<Rightarrow> (Inr r, rg_store r)))))))"

subsection \<open>Slots, sets and counts\<close>

definition registry_slot :: "'s registry \<Rightarrow> instrument_ref \<Rightarrow> published option" where
  "registry_slot r h = (if unat h < length (rg_slots r) then rg_slots r ! unat h else None)"

text \<open>\<open>slot_mut\<close> and an update of the entry it finds.\<close>

definition update_slot :: "instrument_ref \<Rightarrow> (published \<Rightarrow> published) \<Rightarrow> 's registry \<Rightarrow> 's registry" where
  "update_slot h f r = (case registry_slot r h of None \<Rightarrow> r
     | Some p \<Rightarrow> r\<lparr>rg_slots := (rg_slots r)[unat h := Some (f p)]\<rparr>)"

definition update_set :: "nat \<Rightarrow> (published_set \<Rightarrow> published_set) \<Rightarrow> 's registry \<Rightarrow> 's registry" where
  "update_set i f r = r\<lparr>rg_sets := (rg_sets r)[i := f (rg_sets r ! i)]\<rparr>"

definition update_counts :: "(counts \<Rightarrow> counts) \<Rightarrow> 's registry \<Rightarrow> 's registry" where
  "update_counts f r = r\<lparr>rg_counts := f (rg_counts r)\<rparr>"

fun shard_position :: "string \<Rightarrow> string list \<Rightarrow> nat option" where
  "shard_position name [] = None"
| "shard_position name (n # ns) = (if n = name then Some 0 else map_option Suc (shard_position name ns))"

definition shard_index :: "'s registry \<Rightarrow> string \<Rightarrow> nat option" where
  "shard_index r shard = shard_position shard (map shc_name (rc_shards (rg_config r)))"

definition shard_of :: "'s registry \<Rightarrow> instrument_ref \<Rightarrow> nat option" where
  "shard_of r h = map_option pb_shard (registry_slot r h)"

definition published_index :: "'s registry \<Rightarrow> instrument_ref \<Rightarrow> nat option" where
  "published_index r h = (if registry_slot r h = None then None else Some (unat h))"

definition published_on :: "'s registry \<Rightarrow> string \<Rightarrow> nat option" where
  "published_on r shard = map_option (\<lambda>i. ps_published (rg_sets r ! i)) (shard_index r shard)"

definition manifest_seq :: "'s registry \<Rightarrow> string \<Rightarrow> u16 option" where
  "manifest_seq r shard = map_option (\<lambda>i. ps_manifest_seq (rg_sets r ! i)) (shard_index r shard)"

definition strikes_pending_on :: "'s registry \<Rightarrow> string \<Rightarrow> nat option" where
  "strikes_pending_on r shard = map_option (\<lambda>i. ps_strikes_pending (rg_sets r ! i)) (shard_index r shard)"

definition is_valid :: "'s registry \<Rightarrow> string \<Rightarrow> bool" where
  "is_valid r shard \<longleftrightarrow> shard_index r shard \<noteq> None \<and> rg_phase r = Established"

definition registry_warns :: "'s registry \<Rightarrow> bool" where
  "registry_warns r = warns_at (rc_selection (rg_config r)) (rg_published r)"

definition seeding_complete :: "'s registry \<Rightarrow> 's registry" where
  "seeding_complete r = (if rg_phase r = Seeding then r\<lparr>rg_phase := Established\<rparr> else r)"

definition begin_shutdown :: "'s registry \<Rightarrow> 's registry" where
  "begin_shutdown r = r\<lparr>rg_phase := ShuttingDown\<rparr>"

definition published_definition_of :: "'s registry \<Rightarrow> instrument_ref \<Rightarrow> instrument_definition option" where
  "published_definition_of r h = map_option
     (\<lambda>p. stamped (pb_definition p) (ps_manifest_seq (rg_sets r ! pb_shard p))) (registry_slot r h)"

definition manifest :: "'s registry \<Rightarrow> string \<Rightarrow> manifest_summary option" where
  "manifest r shard = map_option (\<lambda>i.
     \<lparr>ms_channel_id = shc_channel_id (rc_shards (rg_config r) ! i),
      ms_valid = (if is_valid r shard then 1 else 0),
      ms_manifest_seq = ps_manifest_seq (rg_sets r ! i),
      ms_instrument_count = word_of_nat (min (ps_published (rg_sets r ! i)) (2 ^ 32 - 1)),
      ms_timestamp_ns = clk_unix_ns (rg_clock r)\<rparr>) (shard_index r shard)"

definition advance_manifest :: "nat \<Rightarrow> 's registry \<Rightarrow> 's registry" where
  "advance_manifest shard = update_set shard (\<lambda>set. set\<lparr>ps_manifest_seq :=
     (case checked_add (ps_manifest_seq set) 1 of None \<Rightarrow> 1 | Some seq \<Rightarrow> seq)\<rparr>)"

definition set_changed :: "nat \<Rightarrow> 's registry \<Rightarrow> 's registry" where
  "set_changed shard r = (if rg_polling r then update_set shard (\<lambda>set. set\<lparr>ps_changed := True\<rparr>) r
     else advance_manifest shard r)"

fun count_refused :: "refusal \<Rightarrow> counts \<Rightarrow> counts" where
  "count_refused Capped c = c\<lparr>ct_declined_at_cap := ct_declined_at_cap c + 1\<rparr>"
| "count_refused IdUnavailable c = c\<lparr>ct_declined_id_unavailable := ct_declined_id_unavailable c + 1\<rparr>"
| "count_refused UnknownShard c = c\<lparr>ct_declined_unknown_shard := ct_declined_unknown_shard c + 1\<rparr>"
| "count_refused VenueKeyNotDeclared c =
     c\<lparr>ct_declined_venue_key_undeclared := ct_declined_venue_key_undeclared c + 1\<rparr>"
| "count_refused ShardRestated c = c\<lparr>ct_declined_shard_restated := ct_declined_shard_restated c + 1\<rparr>"
| "count_refused StrikeUnfixed c = c\<lparr>ct_declined_strike_unfixed := ct_declined_strike_unfixed c + 1\<rparr>"
| "count_refused StrikePresence c = c\<lparr>ct_declined_strike_presence := ct_declined_strike_presence c + 1\<rparr>"
| "count_refused _ c = c\<lparr>ct_declined_unrepresentable := ct_declined_unrepresentable c + 1\<rparr>"

definition count_refusal :: "refusal \<Rightarrow> 's registry \<Rightarrow> 's registry" where
  "count_refusal refusal r = update_counts (count_refused refusal) (r\<lparr>rg_last_refusal := Some refusal\<rparr>)"

definition count_fits :: "fits \<Rightarrow> 's registry \<Rightarrow> 's registry" where
  "count_fits f r = (if all_fitted f then r
     else update_counts (\<lambda>c. c\<lparr>ct_imperfect_symbols := ct_imperfect_symbols c + 1\<rparr>) r)"

definition remember_unknown_shard :: "string \<Rightarrow> 's registry \<Rightarrow> 's registry" where
  "remember_unknown_shard shard r =
    (if length (rg_unknown_shards r) \<ge> MAX_REPORTED_UNKNOWN_SHARDS \<or> shard \<in> set (rg_unknown_shards r)
     then r else r\<lparr>rg_unknown_shards := rg_unknown_shards r @ [shard]\<rparr>)"

definition take_unknown_shards :: "'s registry \<Rightarrow> string list \<times> 's registry" where
  "take_unknown_shards r = (drop (rg_unknown_shards_taken r) (rg_unknown_shards r),
     r\<lparr>rg_unknown_shards_taken := length (rg_unknown_shards r)\<rparr>)"

definition remember_unavailable :: "bytes \<Rightarrow> bytes \<Rightarrow> u32 \<Rightarrow> 's registry \<Rightarrow> 's registry" where
  "remember_unavailable key symbol instrument_id r =
    (let venue_key = (if is_keyed r then Some key else None) in
     if length (rg_unavailable r) \<ge> MAX_REPORTED_UNAVAILABLE_IDS \<or>
        (\<exists>seen \<in> set (rg_unavailable r). ui_symbol seen = symbol \<and> ui_venue_key seen = venue_key)
     then r
     else
       let holding = rg_in_use r instrument_id;
           holder = (case holding of None \<Rightarrow> None
             | Some held \<Rightarrow> map_option mi_symbol (map_of (rg_minted r) held)) in
       r\<lparr>rg_unavailable := rg_unavailable r @
          [\<lparr>ui_symbol = symbol, ui_venue_key = venue_key,
            ui_holder_venue_key = (if is_keyed r then holding else None),
            ui_instrument_id = instrument_id, ui_holder = holder,
            ui_below_floor = (instrument_id = 0 \<or> instrument_id < rg_next_id r)\<rparr>]\<rparr>)"

definition take_unavailable_ids :: "'s registry \<Rightarrow> unavailable_id list \<times> 's registry" where
  "take_unavailable_ids r = (drop (rg_unavailable_taken r) (rg_unavailable r),
     r\<lparr>rg_unavailable_taken := length (rg_unavailable r)\<rparr>)"

subsection \<open>Offers\<close>

definition offered_key :: "'s registry \<Rightarrow> instrument_spec \<Rightarrow> refusal + bytes" where
  "offered_key r spec =
    (if rc_venue_keys (rg_config r) = SymbolKeys \<and>
        (case sp_venue_key spec of None \<Rightarrow> False | Some key \<Rightarrow> key \<noteq> sp_symbol spec)
     then Inl VenueKeyNotDeclared
     else
       let key = (case sp_venue_key spec of None \<Rightarrow> sp_symbol spec | Some key \<Rightarrow> key) in
       if \<not> is_venue_key key then Inl BadVenueKey else Inr key)"

text \<open>An instrument that is already published. The table holds it, so the comparison never misses.\<close>

definition reoffer :: "instrument_ref \<Rightarrow> nat \<Rightarrow> instrument_spec \<Rightarrow> 's registry \<Rightarrow> 's registry" where
  "reoffer h shard spec r = (case registry_slot r h of
     None \<Rightarrow> r
   | Some entry \<Rightarrow>
       if pb_shard entry \<noteq> shard then count_refusal ShardRestated r
       else (case compose spec (idef_instrument_id (pb_definition entry)) (rc_source_id (rg_config r)) of
         Inl refusal \<Rightarrow> count_refusal refusal r
       | Inr composed \<Rightarrow>
           if table_get (rg_instruments r) h \<noteq> Inr (co_instrument composed)
           then count_refusal ScaleRestated r
           else if same_definition (pb_definition entry) (co_definition composed) then r
           else set_changed shard
             (update_slot h (\<lambda>p. p\<lparr>pb_definition := co_definition composed\<rparr>)
               (count_fits (co_fits composed) r))))"

definition resized :: "nat \<Rightarrow> 'a option list \<Rightarrow> 'a option list" where
  "resized n xs = (if length xs < n then xs @ replicate (n - length xs) None else xs)"

text \<open>
  The two halves of \<open>admit\<close>: what is written down before an instrument is published, and the
  publication.
\<close>

definition record_id ::
    "'s state_store \<Rightarrow> minted_id option \<Rightarrow> u32 \<Rightarrow> bytes \<Rightarrow> bytes \<Rightarrow> 's registry \<Rightarrow>
     (refusal + unit) \<times> 's registry" where
  "record_id S recalled instrument_id key symbol r = (case recalled of
     None \<Rightarrow>
       (let derived = is_derived (rc_id_allocation (rg_config r)) in
        case (if derived then Some (rg_next_id r) else checked_add (rg_next_id r) 1) of
          None \<Rightarrow> (Inl IdSpaceExhausted, r)
        | Some next_id \<Rightarrow> (case persist S instrument_id key symbol next_id r of
            (Inl refusal, r) \<Rightarrow> (Inl refusal, r)
          | (Inr _, r) \<Rightarrow> (Inr (), r\<lparr>
              rg_minted := AList.update key \<lparr>mi_instrument_id = instrument_id, mi_symbol = symbol,
                mi_recorded_published = True, mi_last_published_s = 0\<rparr> (rg_minted r),
              rg_in_use := (if derived then (rg_in_use r)(instrument_id \<mapsto> key) else rg_in_use r),
              rg_next_id := next_id\<rparr>)))
   | Some m \<Rightarrow>
       if \<not> mi_recorded_published m then
         (case persist S instrument_id key (mi_symbol m) (rg_next_id r) r of
            (Inl refusal, r) \<Rightarrow> (Inl refusal, r)
          | (Inr _, r) \<Rightarrow> (Inr (), r\<lparr>rg_minted :=
              AList.map_entry key (\<lambda>m. m\<lparr>mi_recorded_published := True\<rparr>) (rg_minted r)\<rparr>))
       else (Inr (), r))"

definition publish :: "bytes \<Rightarrow> nat \<Rightarrow> composition \<Rightarrow> 's registry \<Rightarrow> instrument_ref \<times> 's registry" where
  "publish key shard composed r =
    (let (h, instruments) = table_admit (co_instrument composed) (rg_instruments r);
         r = r\<lparr>rg_instruments := instruments,
           rg_slot_keys := (resized (unat h + 1) (rg_slot_keys r))[unat h := Some key],
           rg_slots := (resized (unat h + 1) (rg_slots r))[unat h := Some
             \<lparr>pb_shard = shard, pb_definition = co_definition composed, pb_strike = None,
              pb_defined = False\<rparr>],
           rg_handles := (rg_handles r)(key \<mapsto> h), rg_published := rg_published r + 1\<rparr>;
         r = update_set shard (\<lambda>set. set\<lparr>ps_published := ps_published set + 1\<rparr>) r;
         r = update_counts (\<lambda>c. c\<lparr>ct_admitted := ct_admitted c + 1\<rparr>) r in
     (h, set_changed shard (count_fits (co_fits composed) r)))"

definition instrument_id_for :: "'s registry \<Rightarrow> minted_id option \<Rightarrow> bytes \<Rightarrow> bytes \<Rightarrow> u32" where
  "instrument_id_for r recalled key symbol = (case recalled of
     Some m \<Rightarrow> mi_instrument_id m
   | None \<Rightarrow> (case rc_id_allocation (rg_config r) of
       Sequential \<Rightarrow> rg_next_id r
     | Derived \<Rightarrow> derive_instrument_id symbol
     | DerivedKey \<Rightarrow> derive_instrument_id_from_key key))"

definition registry_admit ::
    "'s state_store \<Rightarrow> bytes \<Rightarrow> bytes \<Rightarrow> nat \<Rightarrow> instrument_spec \<Rightarrow> 's registry \<Rightarrow>
     (refusal + instrument_ref) \<times> 's registry" where
  "registry_admit S key symbol shard spec r =
    (if rg_phase r = ShuttingDown then (Inl ShuttingDownRefused, r)
     else if rg_fault r \<noteq> None then (Inl Unpersistable, r)
     else if rg_published r \<ge> policy_limit (rc_selection (rg_config r)) (rg_phase r) then (Inl Capped, r)
     else
       let recalled = map_of (rg_minted r) key;
           derived = (recalled = None \<and> is_derived (rc_id_allocation (rg_config r)));
           instrument_id = instrument_id_for r recalled key symbol in
       if instrument_id = 0 \<and> \<not> derived then (Inl IdSpaceExhausted, r)
       else case compose spec instrument_id (rc_source_id (rg_config r)) of
         Inl refusal \<Rightarrow> (Inl refusal, r)
       | Inr composed \<Rightarrow>
           if derived \<and> (instrument_id = 0 \<or> instrument_id < rg_next_id r \<or>
              rg_in_use r instrument_id \<noteq> None)
           then (Inl IdUnavailable, remember_unavailable key symbol instrument_id r)
           else (case record_id S recalled instrument_id key symbol r of
             (Inl refusal, r) \<Rightarrow> (Inl refusal, r)
           | (Inr _, r) \<Rightarrow>
               let (h, r) = publish key shard composed r in
               (case compact S False r of
                  (Inl e, r) \<Rightarrow> (Inr h, r\<lparr>rg_fault := Some e\<rparr>)
                | (Inr _, r) \<Rightarrow> (Inr h, r))))"

definition registry_offer ::
    "'s state_store \<Rightarrow> string \<Rightarrow> instrument_spec \<Rightarrow> 's registry \<Rightarrow>
     (refusal + instrument_ref) \<times> 's registry" where
  "registry_offer S shard spec r = (case shard_index r shard of
     None \<Rightarrow> (Inl UnknownShard, count_refusal UnknownShard (remember_unknown_shard shard r))
   | Some index \<Rightarrow>
       let symbol = fst (symbol_field (sp_symbol spec)) in
       case (if is_keyed r then offered_key r spec else Inr symbol) of
         Inl refusal \<Rightarrow> (Inl refusal, count_refusal refusal r)
       | Inr key \<Rightarrow> (case rg_handles r key of
           Some h \<Rightarrow> (Inr h, reoffer h index spec r)
         | None \<Rightarrow> (case registry_admit S key symbol index spec r of
             (Inl refusal, r) \<Rightarrow> (Inl refusal, count_refusal refusal r)
           | (Inr h, r) \<Rightarrow> (Inr h, r))))"

text \<open>\<open>withdraw\<close>; the key is kept beside every published slot.\<close>

definition withdraw :: "instrument_ref \<Rightarrow> 's registry \<Rightarrow> 's registry" where
  "withdraw h r = (case registry_slot r h of
     None \<Rightarrow> r
   | Some entry \<Rightarrow>
       let key = (case rg_slot_keys r ! unat h of None \<Rightarrow> [] | Some key \<Rightarrow> key);
           r = r\<lparr>rg_slots := (rg_slots r)[unat h := None],
             rg_slot_keys := (rg_slot_keys r)[unat h := None],
             rg_handles := (rg_handles r)(key := None),
             rg_instruments := table_withdraw h (rg_instruments r),
             rg_published := rg_published r - 1\<rparr>;
           r = update_set (pb_shard entry) (\<lambda>set. set\<lparr>ps_published := ps_published set - 1,
             ps_strikes_pending := (case pb_strike entry of None \<Rightarrow> ps_strikes_pending set
               | Some k \<Rightarrow> if strike_interval_is_pending k then ps_strikes_pending set - 1
                   else ps_strikes_pending set)\<rparr>) r;
           r = update_counts (\<lambda>c. c\<lparr>ct_delisted := ct_delisted c + 1\<rparr>) r;
           r = r\<lparr>rg_minted := AList.map_entry key
             (\<lambda>m. m\<lparr>mi_last_published_s := stamp_s (rg_clock r)\<rparr>) (rg_minted r)\<rparr> in
       set_changed (pb_shard entry) r)"

subsection \<open>Strikes\<close>

definition replace_strike :: "instrument_ref \<Rightarrow> published \<Rightarrow> strike_interval \<Rightarrow> 's registry \<Rightarrow> 's registry" where
  "replace_strike h entry strike r =
    (let r = update_slot h (\<lambda>p. p\<lparr>pb_strike := Some strike\<rparr>) r;
         r = update_set (pb_shard entry) (\<lambda>set.
           let pending = (case pb_strike entry of
                 None \<Rightarrow> ps_strikes_pending set
               | Some current \<Rightarrow> if strike_interval_is_pending current then ps_strikes_pending set - 1
                   else ps_strikes_pending set);
               set = set\<lparr>ps_strikes_pending :=
                 (if strike_interval_is_pending strike then pending + 1 else pending)\<rparr> in
           if pb_defined entry \<and> h \<notin> List.set (ps_strikes_changed set)
           then set\<lparr>ps_strikes_changed := ps_strikes_changed set @ [h]\<rparr> else set) r in
     if pb_defined entry then update_counts (\<lambda>c. c\<lparr>ct_strikes_changed := ct_strikes_changed c + 1\<rparr>) r
     else r)"

definition restate_strike ::
    "instrument_ref \<Rightarrow> published \<Rightarrow> strike \<Rightarrow> 's registry \<Rightarrow> (refusal + unit) \<times> 's registry" where
  "restate_strike h entry stated r =
    (let instrument_id = idef_instrument_id (pb_definition entry);
         source_id = rc_source_id (rg_config r) in
     case compose_strike stated instrument_id source_id of
       Inl refusal \<Rightarrow>
         (Inl refusal, if pb_strike entry = None \<and> \<not> pb_defined entry
            then replace_strike h entry (strike_interval_pending instrument_id source_id 0) r else r)
     | Inr composed \<Rightarrow> (case pb_strike entry of
         Some current \<Rightarrow>
           if same_interval current composed then
             (Inr (), if si_fixing_time_ns current = 0 \<and> si_fixing_time_ns composed \<noteq> 0
                then update_slot h (\<lambda>p. p\<lparr>pb_strike :=
                  Some (current\<lparr>si_fixing_time_ns := si_fixing_time_ns composed\<rparr>)\<rparr>) r
                else r)
           else if \<not> strike_interval_is_pending current \<and> strike_interval_is_pending composed
           then (Inl StrikeUnfixed, r)
           else (Inr (), replace_strike h entry composed r)
       | None \<Rightarrow>
           if pb_defined entry then (Inl StrikePresence, r)
           else (Inr (), replace_strike h entry composed r)))"

definition state_strike :: "instrument_ref \<Rightarrow> strike \<Rightarrow> 's registry \<Rightarrow> (refusal + unit) \<times> 's registry" where
  "state_strike h stated r = (case registry_slot r h of
     None \<Rightarrow> (Inr (), r)
   | Some entry \<Rightarrow> (case restate_strike h entry stated r of
       (Inl refusal, r) \<Rightarrow> (Inl refusal, count_refusal refusal r)
     | (Inr _, r) \<Rightarrow> (Inr (), r)))"

subsection \<open>Polls\<close>

text \<open>The \<open>ListingSink\<close> an adapter is handed, its calls as data.\<close>

datatype listing_call =
    ListOn string instrument_spec
  | Delist instrument_ref
  | StateStrike instrument_ref strike

fun apply_listing :: "'s state_store \<Rightarrow> listing_call \<Rightarrow> 's registry \<Rightarrow> instrument_ref option \<times> 's registry" where
  "apply_listing S (ListOn shard spec) r = (case registry_offer S shard spec r of
     (Inl _, r) \<Rightarrow> (None, r) | (Inr h, r) \<Rightarrow> (Some h, r))"
| "apply_listing S (Delist h) r = (None, withdraw h r)"
| "apply_listing S (StateStrike h strike) r = (None, snd (state_strike h strike r))"

definition end_set :: "published_set \<Rightarrow> published_set" where
  "end_set ps = (if ps_changed ps then ps\<lparr>ps_changed := False, ps_manifest_seq :=
     (case checked_add (ps_manifest_seq ps) 1 of None \<Rightarrow> 1 | Some seq \<Rightarrow> seq)\<rparr> else ps)"

definition end_poll :: "'s registry \<Rightarrow> 's registry" where
  "end_poll r = r\<lparr>rg_polling := False, rg_sets := map end_set (rg_sets r)\<rparr>"

text \<open>\<open>drain\<close> is what the adapter does with the sink, whether it returns or unwinds.\<close>

definition registry_poll :: "('s registry \<Rightarrow> 'r \<times> 's registry) \<Rightarrow> 's registry \<Rightarrow> 'r \<times> 's registry" where
  "registry_poll drain r = (let (x, r) = drain (r\<lparr>rg_polling := True\<rparr>) in (x, end_poll r))"

subsection \<open>The definition cycle\<close>

record tick_walk =
  wk_slots :: "published option list"
  wk_room :: tick_room
  wk_out :: "published_definition list"
  wk_cursor :: nat
  wk_full :: bool

text \<open>One pass over every slot, or as far as the tick goes; the first argument counts what is left of it.\<close>

fun walk_pass :: "nat \<Rightarrow> nat \<Rightarrow> nat \<Rightarrow> u16 \<Rightarrow> tick_walk \<Rightarrow> tick_walk" where
  "walk_pass 0 due_now shard seq w = w"
| "walk_pass (Suc n) due_now shard seq w =
    (if length (wk_out w) = due_now then w
     else
       let next = (wk_cursor w + 1) mod length (wk_slots w) in
       case wk_slots w ! wk_cursor w of
         Some entry \<Rightarrow>
           if pb_shard entry = shard then
             (case room_take (wire_size (pb_strike entry \<noteq> None)) (wk_room w) of
                (False, room) \<Rightarrow> w\<lparr>wk_room := room, wk_full := True\<rparr>
              | (True, room) \<Rightarrow> walk_pass n due_now shard seq (w\<lparr>wk_room := room,
                  wk_slots := (wk_slots w)[wk_cursor w := Some (entry\<lparr>pb_defined := True\<rparr>)],
                  wk_out := wk_out w @ [\<lparr>pd_definition = stamped (pb_definition entry) seq,
                    pd_strike = pb_strike entry\<rparr>],
                  wk_cursor := next\<rparr>))
           else walk_pass n due_now shard seq (w\<lparr>wk_cursor := next\<rparr>)
       | None \<Rightarrow> walk_pass n due_now shard seq (w\<lparr>wk_cursor := next\<rparr>))"

lemma walk_pass_out: "length (wk_out w) \<le> length (wk_out (walk_pass n due_now shard seq w))"
proof (induction n due_now shard seq w rule: walk_pass.induct)
  case (2 n due_now shard seq w)
  then show ?case by (fastforce simp: Let_def split: option.split prod.split bool.split)
qed simp

function walk_passes :: "nat \<Rightarrow> nat \<Rightarrow> u16 \<Rightarrow> tick_walk \<Rightarrow> tick_walk" where
  "walk_passes due_now shard seq w =
    (if length (wk_out w) < due_now \<and> \<not> wk_full w then
       let w' = walk_pass (length (wk_slots w)) due_now shard seq w in
       if length (wk_out w') = length (wk_out w) then w' else walk_passes due_now shard seq w'
     else w)"
  by auto

termination
  by (relation "measure (\<lambda>(due_now, shard, seq, w). due_now - length (wk_out w))")
    (auto intro!: diff_less_mono2 simp: le_neq_implies_less walk_pass_out)

definition definition_tick :: "string \<Rightarrow> 's registry \<Rightarrow> published_definition list \<times> 's registry" where
  "definition_tick shard r = (case shard_index r shard of
     None \<Rightarrow> ([], r)
   | Some index \<Rightarrow>
       let now_ns = unat (clk_monotonic_ns (rg_clock r));
           set = rg_sets r ! index;
           published = ps_published set;
           due_now = pacer_owed now_ns published (ps_pacer set) in
       if due_now = 0 then
         ([], update_set index (\<lambda>set. set\<lparr>ps_pacer := snd (due_at_most now_ns published 0 (ps_pacer set))\<rparr>) r)
       else
         let w = walk_passes due_now index (ps_manifest_seq set)
               \<lparr>wk_slots = rg_slots r, wk_room = room_behind (rc_schedule (rg_config r)) 0, wk_out = [],
                wk_cursor = ps_cursor set, wk_full = False\<rparr>;
             emitted = length (wk_out w) in
         (wk_out w,
          update_counts (\<lambda>c. c\<lparr>ct_definitions_emitted := ct_definitions_emitted c + word_of_nat emitted\<rparr>)
            (update_set index (\<lambda>set. set\<lparr>ps_cursor := wk_cursor w,
                ps_pacer := snd (due_at_most now_ns published emitted (ps_pacer set))\<rparr>)
              (r\<lparr>rg_slots := wk_slots w\<rparr>))))"

text \<open>Every waiting handle that still resolves, the first \<open>fitting\<close> of them out, the rest kept.\<close>

definition strike_changes :: "string \<Rightarrow> 's registry \<Rightarrow> published_definition list \<times> 's registry" where
  "strike_changes shard r = (case shard_index r shard of
     None \<Rightarrow> ([], r)
   | Some index \<Rightarrow>
       let waiting = ps_strikes_changed (rg_sets r ! index) in
       if waiting = [] then ([], r)
       else
         let live = filter (\<lambda>h. registry_slot r h \<noteq> None) waiting;
             sizes = map (\<lambda>h. wire_size (pb_strike (the (registry_slot r h)) \<noteq> None)) live;
             fitting = fitting_behind (rc_schedule (rg_config r)) (SIZE manifest_summary_message) sizes;
             out = map (\<lambda>h. let entry = the (registry_slot r h) in
               \<lparr>pd_definition = stamped (pb_definition entry) (ps_manifest_seq (rg_sets r ! index)),
                pd_strike = pb_strike entry\<rparr>) (take fitting live) in
         (out,
          update_counts (\<lambda>c. c\<lparr>ct_definitions_emitted := ct_definitions_emitted c + word_of_nat (length out)\<rparr>)
            (update_set index (\<lambda>set. set\<lparr>ps_strikes_changed := drop fitting live\<rparr>) r)))"

end
