(* ===== verification/Registry_Slots.thy ===== *)
theory Registry_Slots
  imports Refdata_Registry
begin

section \<open>The published set\<close>

text \<open>
  The registry keeps what is published in several places: the slots, the keys beside them, the live
  handles, the lowering's instrument table, the counts of each shard. The invariant says they are
  one set, and every operation keeps it; so no \<open>expect\<close> of the source fails and no counter goes
  below zero.
\<close>

named_theorems registry_frame \<open>fields an operation leaves alone\<close>

subsection \<open>Frames\<close>

lemma update_set_frame [simp, registry_frame]:
  "rg_config (update_set i f r) = rg_config r" "rg_store (update_set i f r) = rg_store r"
  "rg_clock (update_set i f r) = rg_clock r" "rg_minted (update_set i f r) = rg_minted r"
  "rg_next_id (update_set i f r) = rg_next_id r" "rg_base_written (update_set i f r) = rg_base_written r"
  "rg_base_entries (update_set i f r) = rg_base_entries r" "rg_appended (update_set i f r) = rg_appended r"
  "rg_compaction_at (update_set i f r) = rg_compaction_at r" "rg_handles (update_set i f r) = rg_handles r"
  "rg_slots (update_set i f r) = rg_slots r" "rg_slot_keys (update_set i f r) = rg_slot_keys r"
  "rg_published (update_set i f r) = rg_published r" "rg_instruments (update_set i f r) = rg_instruments r"
  "rg_polling (update_set i f r) = rg_polling r" "rg_phase (update_set i f r) = rg_phase r"
  "rg_in_use (update_set i f r) = rg_in_use r" "rg_fault (update_set i f r) = rg_fault r"
  "rg_sets (update_set i f r) = (rg_sets r)[i := f (rg_sets r ! i)]"
  by (simp_all add: update_set_def)

lemma update_counts_frame [simp, registry_frame]:
  "rg_config (update_counts g r) = rg_config r" "rg_store (update_counts g r) = rg_store r"
  "rg_clock (update_counts g r) = rg_clock r" "rg_minted (update_counts g r) = rg_minted r"
  "rg_next_id (update_counts g r) = rg_next_id r" "rg_base_written (update_counts g r) = rg_base_written r"
  "rg_base_entries (update_counts g r) = rg_base_entries r" "rg_appended (update_counts g r) = rg_appended r"
  "rg_compaction_at (update_counts g r) = rg_compaction_at r" "rg_handles (update_counts g r) = rg_handles r"
  "rg_slots (update_counts g r) = rg_slots r" "rg_slot_keys (update_counts g r) = rg_slot_keys r"
  "rg_published (update_counts g r) = rg_published r" "rg_instruments (update_counts g r) = rg_instruments r"
  "rg_sets (update_counts g r) = rg_sets r"
  "rg_polling (update_counts g r) = rg_polling r" "rg_phase (update_counts g r) = rg_phase r"
  "rg_in_use (update_counts g r) = rg_in_use r" "rg_fault (update_counts g r) = rg_fault r"
  by (simp_all add: update_counts_def)

text \<open>
  Two registries that differ in the reported counts, refusals and names only, and two that hold the
  same record on the same store.
\<close>

definition same_but_reports :: "'s registry \<Rightarrow> 's registry \<Rightarrow> bool" where
  "same_but_reports r r' \<longleftrightarrow> (\<exists>ct us ut ua ui rf. r' = r\<lparr>rg_counts := ct, rg_unknown_shards := us,
     rg_unknown_shards_taken := ut, rg_unavailable := ua, rg_unavailable_taken := ui, rg_last_refusal := rf\<rparr>)"

lemma reports_irrelevant:
  "same_but_reports r (count_refusal x r)" "same_but_reports r (count_fits f r)"
  "same_but_reports r (remember_unknown_shard n r)" "same_but_reports r (remember_unavailable k s i r)"
  "same_but_reports r (snd (take_unknown_shards r))" "same_but_reports r (snd (take_unavailable_ids r))"
  "same_but_reports r (update_counts g r)" "same_but_reports r r"
  unfolding same_but_reports_def
  by (cases r, force simp: count_refusal_def count_fits_def remember_unknown_shard_def
      remember_unavailable_def take_unknown_shards_def take_unavailable_ids_def update_counts_def Let_def)+

lemma same_but_reports_fields:
  assumes "same_but_reports r r'"
  shows "rg_config r' = rg_config r" "rg_store r' = rg_store r" "rg_clock r' = rg_clock r"
    "rg_minted r' = rg_minted r" "rg_next_id r' = rg_next_id r" "rg_base_written r' = rg_base_written r"
    "rg_handles r' = rg_handles r" "rg_slots r' = rg_slots r" "rg_slot_keys r' = rg_slot_keys r"
    "rg_published r' = rg_published r" "rg_instruments r' = rg_instruments r" "rg_sets r' = rg_sets r"
    "rg_polling r' = rg_polling r" "rg_phase r' = rg_phase r" "rg_in_use r' = rg_in_use r"
    "rg_fault r' = rg_fault r" "rg_appended r' = rg_appended r" "rg_base_entries r' = rg_base_entries r"
    "rg_compaction_at r' = rg_compaction_at r"
  using assms by (auto simp: same_but_reports_def)

lemma same_but_reports_trans: "same_but_reports r r' \<Longrightarrow> same_but_reports r' r'' \<Longrightarrow> same_but_reports r r''"
  unfolding same_but_reports_def by (elim exE) (simp, blast)

lemmas report_frames [simp, registry_frame] =
  same_but_reports_fields [OF reports_irrelevant(1)] same_but_reports_fields [OF reports_irrelevant(2)]
  same_but_reports_fields [OF reports_irrelevant(3)] same_but_reports_fields [OF reports_irrelevant(4)]

lemma set_changed_frame [simp, registry_frame]:
  "rg_config (set_changed i r) = rg_config r" "rg_store (set_changed i r) = rg_store r"
  "rg_clock (set_changed i r) = rg_clock r" "rg_minted (set_changed i r) = rg_minted r"
  "rg_next_id (set_changed i r) = rg_next_id r" "rg_base_written (set_changed i r) = rg_base_written r"
  "rg_handles (set_changed i r) = rg_handles r"
  "rg_slots (set_changed i r) = rg_slots r" "rg_slot_keys (set_changed i r) = rg_slot_keys r"
  "rg_published (set_changed i r) = rg_published r" "rg_instruments (set_changed i r) = rg_instruments r"
  "rg_polling (set_changed i r) = rg_polling r" "rg_phase (set_changed i r) = rg_phase r"
  "rg_in_use (set_changed i r) = rg_in_use r" "rg_fault (set_changed i r) = rg_fault r"
  "length (rg_sets (set_changed i r)) = length (rg_sets r)"
  by (simp_all add: set_changed_def advance_manifest_def)

lemma nth_update_field: "(\<And>x. g (f x) = g x) \<Longrightarrow> g (xs[i := f (xs ! i)] ! j) = g (xs ! j)"
  by (cases "i < length xs") (simp_all add: nth_list_update list_update_beyond not_less)

lemma set_changed_sets [simp, registry_frame]:
  "ps_published (rg_sets (set_changed i r) ! j) = ps_published (rg_sets r ! j)"
  "ps_strikes_pending (rg_sets (set_changed i r) ! j) = ps_strikes_pending (rg_sets r ! j)"
  "ps_strikes_changed (rg_sets (set_changed i r) ! j) = ps_strikes_changed (rg_sets r ! j)"
  "ps_cursor (rg_sets (set_changed i r) ! j) = ps_cursor (rg_sets r ! j)"
  by (simp_all add: set_changed_def advance_manifest_def nth_update_field)

subsection \<open>Counting the published\<close>

definition tally :: "(published \<Rightarrow> bool) \<Rightarrow> published option list \<Rightarrow> nat" where
  "tally p xs = length (filter (\<lambda>x. case x of None \<Rightarrow> False | Some e \<Rightarrow> p e) xs)"

definition hit :: "(published \<Rightarrow> bool) \<Rightarrow> published option \<Rightarrow> nat" where
  "hit p x = (case x of None \<Rightarrow> 0 | Some e \<Rightarrow> if p e then 1 else 0)"

lemma hit_simps [simp]: "hit p None = 0" "hit p (Some e) = (if p e then 1 else 0)"
  by (simp_all add: hit_def)

lemma tally_simps [simp]: "tally p [] = 0" "tally p (x # xs) = hit p x + tally p xs"
  "tally p (xs @ ys) = tally p xs + tally p ys" "tally p (replicate n None) = 0"
  by (simp_all add: tally_def hit_def split: option.split)

lemma tally_update: "i < length xs \<Longrightarrow> tally p (xs[i := x]) + hit p (xs ! i) = tally p xs + hit p x"
proof (induction xs arbitrary: i)
  case (Cons y ys)
  then show ?case by (cases i) auto
qed simp

lemma hit_le_tally: "i < length xs \<Longrightarrow> hit p (xs ! i) \<le> tally p xs"
proof (induction xs arbitrary: i)
  case (Cons y ys)
  then show ?case by (cases i) (auto intro: le_SucI trans_le_add2)
qed simp

lemma tally_le_length: "tally p xs \<le> length xs"
  by (simp add: tally_def)

text \<open>What a shard's counts say of its slots.\<close>

definition on_shard :: "nat \<Rightarrow> published \<Rightarrow> bool" where
  "on_shard i e \<longleftrightarrow> pb_shard e = i"

definition pending_on :: "nat \<Rightarrow> published \<Rightarrow> bool" where
  "pending_on i e \<longleftrightarrow> pb_shard e = i \<and> (case pb_strike e of None \<Rightarrow> False | Some k \<Rightarrow> strike_interval_is_pending k)"

definition sets_count :: "published option list \<Rightarrow> published_set list \<Rightarrow> bool" where
  "sets_count slots sets \<longleftrightarrow> (\<forall>i < length sets. ps_published (sets ! i) = tally (on_shard i) slots \<and>
     ps_strikes_pending (sets ! i) = tally (pending_on i) slots) \<and>
     (\<forall>e. Some e \<in> set slots \<longrightarrow> pb_shard e < length sets)"

subsection \<open>The invariant\<close>

text \<open>The slots, their keys, the live handles and the instrument table hold the same instruments.\<close>

definition slots_agree :: "published option list \<Rightarrow> bytes option list \<Rightarrow> (bytes \<Rightarrow> instrument_ref option) \<Rightarrow>
    instrument_table \<Rightarrow> bool" where
  "slots_agree slots keys handles tab \<longleftrightarrow>
     length keys = length slots \<and> length (it_slots tab) = length slots \<and> length slots \<le> 2 ^ 32 \<and>
     (\<forall>i < length slots. (keys ! i = None \<longleftrightarrow> slots ! i = None) \<and> (it_slots tab ! i = None \<longleftrightarrow> slots ! i = None)) \<and>
     (\<forall>k h. handles k = Some h \<longleftrightarrow> unat h < length keys \<and> keys ! unat h = Some k)"

definition slots_ok :: "'s registry \<Rightarrow> bool" where
  "slots_ok r \<longleftrightarrow> slots_agree (rg_slots r) (rg_slot_keys r) (rg_handles r) (rg_instruments r) \<and>
     sets_count (rg_slots r) (rg_sets r) \<and> rg_published r = tally (\<lambda>e. True) (rg_slots r) \<and>
     length (rg_sets r) = length (rc_shards (rg_config r))"

lemma slots_ok_reports: "same_but_reports r r' \<Longrightarrow> slots_ok r' = slots_ok r"
  by (simp add: slots_ok_def same_but_reports_fields)

lemma slots_ok_counted [simp]:
  "slots_ok (count_refusal x r) = slots_ok r" "slots_ok (count_fits f r) = slots_ok r"
  "slots_ok (remember_unknown_shard n r) = slots_ok r" "slots_ok (remember_unavailable k s i r) = slots_ok r"
  "slots_ok (update_counts g r) = slots_ok r"
  by (rule slots_ok_reports, rule reports_irrelevant)+

lemma sets_count_cong:
  assumes "length sets' = length sets" "\<And>i. ps_published (sets' ! i) = ps_published (sets ! i)"
    "\<And>i. ps_strikes_pending (sets' ! i) = ps_strikes_pending (sets ! i)"
  shows "sets_count slots sets' = sets_count slots sets"
  using assms by (simp add: sets_count_def)

lemma slots_ok_set_changed [simp]: "slots_ok (set_changed i r) = slots_ok r"
  using sets_count_cong [of "rg_sets (set_changed i r)" "rg_sets r"] by (simp add: slots_ok_def)

subsection \<open>Publishing\<close>

text \<open>What writing the record leaves alone.\<close>

definition same_slots :: "'s registry \<Rightarrow> 's registry \<Rightarrow> bool" where
  "same_slots r r' \<longleftrightarrow> rg_config r' = rg_config r \<and> rg_clock r' = rg_clock r \<and>
     rg_handles r' = rg_handles r \<and> rg_slots r' = rg_slots r \<and> rg_slot_keys r' = rg_slot_keys r \<and>
     rg_published r' = rg_published r \<and> rg_instruments r' = rg_instruments r \<and>
     rg_sets r' = rg_sets r \<and> rg_polling r' = rg_polling r \<and> rg_phase r' = rg_phase r \<and>
     rg_counts r' = rg_counts r"

lemma same_slots_ok: "same_slots r r' \<Longrightarrow> slots_ok r' = slots_ok r"
  by (simp add: same_slots_def slots_ok_def)

lemma same_slots_refl [simp]: "same_slots r r"
  by (simp add: same_slots_def)

lemma same_slots_trans: "same_slots r r' \<Longrightarrow> same_slots r' r'' \<Longrightarrow> same_slots r r''"
  by (simp add: same_slots_def)

lemma write_base_slots: "write_base S mi fo r = (x, r') \<Longrightarrow> same_slots r r'"
  by (auto simp: write_base_def Let_def same_slots_def split: prod.splits sum.splits)

lemma persist_slots:
  assumes "persist S i key symb nxt r = (x, r')"
  shows "same_slots r r'"
proof -
  have fault: "same_slots r (q\<lparr>rg_fault := e\<rparr>) = same_slots r q" for q e
    by (simp add: same_slots_def)
  show ?thesis
  proof (cases "rg_base_written r")
    case True
    then show ?thesis
      using assms by (auto simp: persist_def Let_def same_slots_def split: prod.splits sum.splits)
  next
    case False
    then show ?thesis
      using assms write_base_slots [of S "Some (i, key, symb, nxt)" "[]" r]
      by (auto simp: persist_def fault split: prod.splits sum.splits)
  qed
qed

lemma record_id_slots:
  assumes "record_id S recalled i key symb r = (x, r')"
  shows "same_slots r r'"
proof -
  have kept: "same_slots r (q\<lparr>rg_minted := m\<rparr>) = same_slots r q"
      "same_slots r (q\<lparr>rg_minted := m, rg_in_use := u, rg_next_id := n\<rparr>) = same_slots r q"
      "same_slots r (q\<lparr>rg_minted := m, rg_next_id := n\<rparr>) = same_slots r q" for q m u n
    by (simp_all add: same_slots_def)
  show ?thesis
    using assms persist_slots
    by (auto simp: record_id_def Let_def kept split: option.splits prod.splits sum.splits if_splits)
qed

lemma compact_slots:
  assumes "compact S opening r = (x, r')"
  shows "same_slots r r'"
proof -
  have kept: "same_slots r (q\<lparr>rg_compaction_at := n\<rparr>) = same_slots r q" for q n
    by (simp add: same_slots_def)
  show ?thesis
    using assms write_base_slots
    by (auto simp: compact_def Let_def kept split: prod.splits sum.splits state_error.splits if_splits)
qed

lemma resized_append: "(resized (Suc (length xs)) xs)[length xs := Some x] = xs @ [Some x]"
  by (simp add: resized_def)

lemma publish_slots:
  assumes ok: "slots_ok r" and h: "publish key shard composed r = (h, r')" "length (rg_slots r) < 2 ^ 32"
  shows "unat h = length (rg_slots r)"
    "rg_slots r' = rg_slots r @ [Some \<lparr>pb_shard = shard, pb_definition = co_definition composed,
       pb_strike = None, pb_defined = False\<rparr>]"
    "rg_slot_keys r' = rg_slot_keys r @ [Some key]" "rg_handles r' = (rg_handles r)(key \<mapsto> h)"
    "rg_published r' = rg_published r + 1"
    "it_slots (rg_instruments r') = it_slots (rg_instruments r) @ [Some (co_instrument composed)]"
    "rg_config r' = rg_config r" "rg_store r' = rg_store r" "rg_minted r' = rg_minted r"
    "rg_next_id r' = rg_next_id r" "rg_in_use r' = rg_in_use r" "rg_fault r' = rg_fault r"
    "rg_phase r' = rg_phase r" "rg_base_written r' = rg_base_written r" "rg_clock r' = rg_clock r"
    "length (rg_sets r') = length (rg_sets r)"
    "ps_published (rg_sets r' ! i) = ps_published ((rg_sets r)[shard := (rg_sets r ! shard)
       \<lparr>ps_published := ps_published (rg_sets r ! shard) + 1\<rparr>] ! i)"
    "ps_strikes_pending (rg_sets r' ! i) = ps_strikes_pending (rg_sets r ! i)"
proof -
  have len: "length (rg_slot_keys r) = length (rg_slots r)" "length (it_slots (rg_instruments r)) = length (rg_slots r)"
    using ok by (simp_all add: slots_ok_def slots_agree_def)
  have "unat (word_of_nat (length (rg_slots r)) :: u32) = length (rg_slots r)"
    using h(2) by (simp add: unat_of_nat)
  then show "unat h = length (rg_slots r)"
    "rg_slots r' = rg_slots r @ [Some \<lparr>pb_shard = shard, pb_definition = co_definition composed,
       pb_strike = None, pb_defined = False\<rparr>]"
    "rg_slot_keys r' = rg_slot_keys r @ [Some key]" "rg_handles r' = (rg_handles r)(key \<mapsto> h)"
    "rg_published r' = rg_published r + 1"
    "it_slots (rg_instruments r') = it_slots (rg_instruments r) @ [Some (co_instrument composed)]"
    "rg_config r' = rg_config r" "rg_store r' = rg_store r" "rg_minted r' = rg_minted r"
    "rg_next_id r' = rg_next_id r" "rg_in_use r' = rg_in_use r" "rg_fault r' = rg_fault r"
    "rg_phase r' = rg_phase r" "rg_base_written r' = rg_base_written r" "rg_clock r' = rg_clock r"
    "length (rg_sets r') = length (rg_sets r)"
    "ps_published (rg_sets r' ! i) = ps_published ((rg_sets r)[shard := (rg_sets r ! shard)
       \<lparr>ps_published := ps_published (rg_sets r ! shard) + 1\<rparr>] ! i)"
    "ps_strikes_pending (rg_sets r' ! i) = ps_strikes_pending (rg_sets r ! i)"
    using h(1) len resized_append [of "rg_slots r"] resized_append [of "rg_slot_keys r"]
    by (auto simp: publish_def table_admit_def Let_def nth_update_field)
qed

lemma slots_agree_publish:
  assumes "slots_agree slots keys handles tab" "handles key = None" "unat h = length slots"
    "length slots < 2 ^ 32" "it_slots tab' = it_slots tab @ [Some x]"
  shows "slots_agree (slots @ [Some e]) (keys @ [Some key]) (handles(key \<mapsto> h)) tab'"
proof -
  have len: "length keys = length slots" using assms(1) by (simp add: slots_agree_def)
  have "((handles(key \<mapsto> h)) k = Some g) = (unat g < length (keys @ [Some key]) \<and> (keys @ [Some key]) ! unat g = Some k)" for k g
  proof (cases "unat g = length slots")
    case True
    then have "g = h" using assms(3) by (metis word_unat_eq_iff)
    moreover have "handles k \<noteq> Some g"
      using assms(1) True len unfolding slots_agree_def by (metis less_irrefl)
    ultimately show ?thesis using True len by (auto simp: nth_append)
  next
    case False
    then have "g \<noteq> h" using assms(3) by auto
    moreover have "handles k = Some g \<longleftrightarrow> unat g < length keys \<and> keys ! unat g = Some k"
      using assms(1) unfolding slots_agree_def by blast
    moreover from this have "k = key \<Longrightarrow> \<not> (unat g < length keys \<and> keys ! unat g = Some k)"
      using assms(2) by auto
    ultimately show ?thesis using False len by (auto simp: nth_append)
  qed
  then show ?thesis
    using assms(1,4,5) by (auto simp: slots_agree_def nth_append less_Suc_eq)
qed

lemma sets_count_publish:
  assumes "sets_count slots sets" "shard < length sets" "length sets' = length sets"
    "\<And>i. ps_published (sets' ! i) = ps_published (sets[shard := (sets ! shard)\<lparr>ps_published := ps_published (sets ! shard) + 1\<rparr>] ! i)"
    "\<And>i. ps_strikes_pending (sets' ! i) = ps_strikes_pending (sets ! i)" "pb_shard e = shard" "pb_strike e = None"
  shows "sets_count (slots @ [Some e]) sets'"
  using assms unfolding sets_count_def
  by (auto simp: on_shard_def pending_on_def nth_list_update)

lemma slots_ok_publish:
  assumes "slots_ok r" "rg_handles r key = None" "shard < length (rg_sets r)" "length (rg_slots r) < 2 ^ 32"
    "publish key shard composed r = (h, r')"
  shows "slots_ok r'"
proof -
  note p = publish_slots [OF assms(1,5,4)]
  show ?thesis
    using assms(1-4) p(6,7)
      slots_agree_publish [of "rg_slots r" "rg_slot_keys r" "rg_handles r" "rg_instruments r" key h "rg_instruments r'"
        "co_instrument composed"]
      sets_count_publish [of "rg_slots r" "rg_sets r" shard "rg_sets r'"]
    by (simp add: slots_ok_def p(1-5,16-18))
qed

subsection \<open>Withdrawing\<close>

lemma slots_agree_key:
  assumes "slots_agree slots keys handles tab" "i < length slots" "keys ! i = Some k"
  shows "handles k = Some (word_of_nat i)"
proof -
  have "unat (word_of_nat i :: u32) = i"
    using assms by (simp add: slots_agree_def unat_of_nat)
  then show ?thesis using assms unfolding slots_agree_def by simp
qed

lemma slots_agree_withdraw:
  assumes ok: "slots_agree slots keys handles tab" and h: "unat h < length slots" "slots ! unat h = Some e"
  obtains key where "keys ! unat h = Some key" "handles key = Some h"
    "slots_agree (slots[unat h := None]) (keys[unat h := None]) (handles(key := None)) (table_withdraw h tab)"
proof -
  have len: "length keys = length slots" "length (it_slots tab) = length slots"
    using ok by (simp_all add: slots_agree_def)
  obtain key where key: "keys ! unat h = Some key"
    using ok h unfolding slots_agree_def by (metis not_Some_eq)
  then have held: "handles key = Some h"
    using ok h(1) len by (simp add: slots_agree_def)
  have "it_slots tab ! unat h \<noteq> None"
    using ok h unfolding slots_agree_def by simp
  then have tab: "it_slots (table_withdraw h tab) = (it_slots tab)[unat h := None]"
    using h(1) len by (auto simp: table_withdraw_def table_slot_def)
  have "(handles(key := None)) k = Some g \<longleftrightarrow>
      unat g < length (keys[unat h := None]) \<and> keys[unat h := None] ! unat g = Some k" for k g
  proof -
    have iff: "handles k = Some g \<longleftrightarrow> unat g < length keys \<and> keys ! unat g = Some k"
      using ok unfolding slots_agree_def by blast
    show ?thesis
    proof (cases "unat g = unat h")
      case True
      then have "g = h" by (simp add: word_unat_eq_iff)
      then show ?thesis using iff key held h(1) len by auto
    next
      case False
      then have "k = key \<Longrightarrow> handles k \<noteq> Some g" using held by auto
      then show ?thesis using iff False by (auto simp: nth_list_update)
    qed
  qed
  then have "slots_agree (slots[unat h := None]) (keys[unat h := None]) (handles(key := None)) (table_withdraw h tab)"
    using ok len tab h(1) by (auto simp: slots_agree_def nth_list_update)
  with key held show thesis by (rule that)
qed

lemma tally_clear: "i < length xs \<Longrightarrow> tally p (xs[i := None]) = tally p xs - hit p (xs ! i)"
  using tally_update [of i xs p None] by simp

lemma set_list_updateD: "Some e \<in> set (xs[i := x]) \<Longrightarrow> Some e \<in> set xs \<or> x = Some e"
  using set_update_subset_insert [of xs i x] by auto

lemma sets_count_withdraw:
  assumes "sets_count slots sets" "i < length slots" "slots ! i = Some e" "length sets' = length sets"
    "\<And>j. ps_published (sets' ! j) = ps_published (sets[pb_shard e := (sets ! pb_shard e)
       \<lparr>ps_published := ps_published (sets ! pb_shard e) - 1\<rparr>] ! j)"
    "\<And>j. ps_strikes_pending (sets' ! j) = (if j = pb_shard e \<and> pending_on j e
       then ps_strikes_pending (sets ! j) - 1 else ps_strikes_pending (sets ! j))"
  shows "sets_count (slots[i := None]) sets'"
  unfolding sets_count_def
proof (intro conjI allI impI)
  fix j assume j: "j < length sets'"
  have old: "ps_published (sets ! j) = tally (on_shard j) slots" "ps_strikes_pending (sets ! j) = tally (pending_on j) slots"
    using assms(1,4) j by (simp_all add: sets_count_def)
  show "ps_published (sets' ! j) = tally (on_shard j) (slots[i := None])"
    using old(1) j assms(4) by (simp add: assms(2,3) assms(5) [of j] tally_clear nth_list_update on_shard_def)
  show "ps_strikes_pending (sets' ! j) = tally (pending_on j) (slots[i := None])"
    using old(2) assms(2,3) by (simp add: assms(6) tally_clear) (simp add: pending_on_def)
next
  fix e' assume "Some e' \<in> set (slots[i := None])"
  then have "Some e' \<in> set slots" by (auto dest: set_list_updateD)
  then show "pb_shard e' < length sets'"
    using assms(1,4) by (simp add: sets_count_def)
qed

lemma withdraw_unheld: "registry_slot r h = None \<Longrightarrow> withdraw h r = r"
  by (simp add: withdraw_def)

lemma withdraw_slots:
  assumes ok: "slots_ok r" and e: "registry_slot r h = Some e"
  obtains key where "rg_slot_keys r ! unat h = Some key" "rg_handles r key = Some h"
    "slots_ok (withdraw h r)" "rg_handles (withdraw h r) = (rg_handles r)(key := None)"
    "rg_minted (withdraw h r) = AList.map_entry key
       (\<lambda>m. m\<lparr>mi_last_published_s := stamp_s (rg_clock r)\<rparr>) (rg_minted r)"
    "rg_slots (withdraw h r) = (rg_slots r)[unat h := None]"
    "rg_slot_keys (withdraw h r) = (rg_slot_keys r)[unat h := None]"
proof -
  let ?r = "withdraw h r"
  have h: "unat h < length (rg_slots r)" "rg_slots r ! unat h = Some e"
    using e by (auto simp: registry_slot_def split: if_splits)
  have agree: "slots_agree (rg_slots r) (rg_slot_keys r) (rg_handles r) (rg_instruments r)"
    using ok by (simp add: slots_ok_def)
  obtain key where key: "rg_slot_keys r ! unat h = Some key" "rg_handles r key = Some h"
      "slots_agree ((rg_slots r)[unat h := None]) ((rg_slot_keys r)[unat h := None])
        ((rg_handles r)(key := None)) (table_withdraw h (rg_instruments r))"
    using slots_agree_withdraw [OF agree h] by blast
  have shard: "pb_shard e < length (rg_sets r)"
    using ok h unfolding slots_ok_def sets_count_def by (metis nth_mem)
  have sets: "length (rg_sets ?r) = length (rg_sets r)"
    "ps_published (rg_sets ?r ! j) = ps_published ((rg_sets r)[pb_shard e := (rg_sets r ! pb_shard e)
       \<lparr>ps_published := ps_published (rg_sets r ! pb_shard e) - 1\<rparr>] ! j)"
    "ps_strikes_pending (rg_sets ?r ! j) = (if j = pb_shard e \<and> pending_on j e
       then ps_strikes_pending (rg_sets r ! j) - 1 else ps_strikes_pending (rg_sets r ! j))" for j
    using e shard by (simp_all add: withdraw_def Let_def nth_list_update)
      (simp_all add: pending_on_def split: option.split)
  have fields: "rg_handles ?r = (rg_handles r)(key := None)"
    "rg_minted ?r = AList.map_entry key (\<lambda>m. m\<lparr>mi_last_published_s := stamp_s (rg_clock r)\<rparr>) (rg_minted r)"
    "rg_slots ?r = (rg_slots r)[unat h := None]" "rg_slot_keys ?r = (rg_slot_keys r)[unat h := None]"
    "rg_instruments ?r = table_withdraw h (rg_instruments r)" "rg_published ?r = rg_published r - 1"
    "rg_config ?r = rg_config r"
    using e key(1) by (simp_all add: withdraw_def Let_def)
  have "slots_ok ?r"
    using ok key(3) h sets sets_count_withdraw [of "rg_slots r" "rg_sets r" "unat h" e "rg_sets ?r"]
      tally_clear [of "unat h" "rg_slots r" "\<lambda>e. True"]
    by (simp add: slots_ok_def fields)
  then show thesis
    using that [OF key(1,2)] fields by blast
qed

subsection \<open>Restating\<close>

text \<open>A change of one entry that leaves its shard, with the shard's pending count kept up.\<close>

lemma slots_agree_restate:
  assumes "slots_agree slots keys handles tab" "i < length slots" "slots ! i = Some e"
  shows "slots_agree (slots[i := Some e']) keys handles tab"
  using assms by (auto simp: slots_agree_def nth_list_update)

lemma sets_count_restate:
  assumes "sets_count slots sets" "i < length slots" "slots ! i = Some e" "pb_shard e' = pb_shard e"
    "length sets' = length sets" "\<And>j. ps_published (sets' ! j) = ps_published (sets ! j)"
    "\<And>j. j < length sets \<Longrightarrow> ps_strikes_pending (sets' ! j) + hit (pending_on j) (Some e) =
       ps_strikes_pending (sets ! j) + hit (pending_on j) (Some e')"
  shows "sets_count (slots[i := Some e']) sets'"
  unfolding sets_count_def
proof (intro conjI allI impI)
  fix j assume j: "j < length sets'"
  have old: "ps_published (sets ! j) = tally (on_shard j) slots" "ps_strikes_pending (sets ! j) = tally (pending_on j) slots"
    using assms(1,5) j by (simp_all add: sets_count_def)
  show "ps_published (sets' ! j) = tally (on_shard j) (slots[i := Some e'])"
    using old(1) tally_update [OF assms(2), of "on_shard j" "Some e'"] assms(3,4,6)
    by (simp add: on_shard_def)
  show "ps_strikes_pending (sets' ! j) = tally (pending_on j) (slots[i := Some e'])"
    using old(2) tally_update [OF assms(2), of "pending_on j" "Some e'"] assms(3) assms(7) [of j] j assms(5)
    by simp
next
  fix x assume "Some x \<in> set (slots[i := Some e'])"
  then have "Some x \<in> set slots \<or> x = e'" by (auto dest: set_list_updateD)
  moreover have "Some e \<in> set slots" using assms(2,3) by (metis nth_mem)
  ultimately show "pb_shard x < length sets'"
    using assms(1,4,5) by (auto simp: sets_count_def)
qed

lemma update_slot_fields:
  assumes "registry_slot r h = Some e"
  shows "unat h < length (rg_slots r)" "rg_slots r ! unat h = Some e"
    "update_slot h f r = r\<lparr>rg_slots := (rg_slots r)[unat h := Some (f e)]\<rparr>"
  using assms by (auto simp: registry_slot_def update_slot_def split: if_splits)

lemma slots_ok_restate:
  assumes ok: "slots_ok r" and e: "registry_slot r h = Some e" "pb_shard e' = pb_shard e"
    and r': "rg_slots r' = (rg_slots r)[unat h := Some e']" "length (rg_sets r') = length (rg_sets r)"
      "\<And>j. ps_published (rg_sets r' ! j) = ps_published (rg_sets r ! j)"
      "\<And>j. j < length (rg_sets r) \<Longrightarrow> ps_strikes_pending (rg_sets r' ! j) + hit (pending_on j) (Some e) =
         ps_strikes_pending (rg_sets r ! j) + hit (pending_on j) (Some e')"
    and same: "rg_slot_keys r' = rg_slot_keys r" "rg_handles r' = rg_handles r"
      "rg_instruments r' = rg_instruments r" "rg_published r' = rg_published r" "rg_config r' = rg_config r"
  shows "slots_ok r'"
proof -
  note h = update_slot_fields(1,2) [OF e(1)]
  show ?thesis
    using ok slots_agree_restate [OF _ h, of "rg_slot_keys r" "rg_handles r" "rg_instruments r" e']
      sets_count_restate [OF _ h e(2) r'(2-4)] tally_update [OF h(1), of "\<lambda>e. True" "Some e'"] h(2)
    by (simp add: slots_ok_def r' same)
qed

lemma update_slot_ok:
  assumes "slots_ok r" "\<And>p. pb_shard (f p) = pb_shard p" "\<And>p. pb_strike (f p) = pb_strike p"
  shows "slots_ok (update_slot h f r)"
proof (cases "registry_slot r h")
  case None
  then show ?thesis using assms(1) by (simp add: update_slot_def)
next
  case (Some e)
  note u = update_slot_fields [OF Some]
  show ?thesis
    by (rule slots_ok_restate [OF assms(1) Some assms(2)]) (simp_all add: u(3) pending_on_def assms(2,3))
qed

lemma slots_ok_reoffer: "slots_ok r \<Longrightarrow> slots_ok (reoffer h shard spec r)"
  by (auto simp: reoffer_def Let_def intro!: update_slot_ok split: option.splits sum.splits)

lemma slots_ok_replace_strike:
  assumes ok: "slots_ok r" and e: "registry_slot r h = Some e"
  shows "slots_ok (replace_strike h e k r)"
proof -
  note u = update_slot_fields [OF e]
  have shard: "pb_shard e < length (rg_sets r)"
    using ok u(1,2) unfolding slots_ok_def sets_count_def by (metis nth_mem)
  have pending: "hit (pending_on (pb_shard e)) (Some e) \<le> ps_strikes_pending (rg_sets r ! pb_shard e)"
    using ok shard u(2) hit_le_tally [OF u(1), of "pending_on (pb_shard e)"]
    by (simp add: slots_ok_def sets_count_def)
  let ?e = "e\<lparr>pb_strike := Some k\<rparr>" and ?r = "replace_strike h e k r"
  have "rg_slots ?r = (rg_slots r)[unat h := Some ?e]" "length (rg_sets ?r) = length (rg_sets r)"
    "rg_slot_keys ?r = rg_slot_keys r" "rg_handles ?r = rg_handles r" "rg_instruments ?r = rg_instruments r"
    "rg_published ?r = rg_published r" "rg_config ?r = rg_config r"
    by (simp_all add: replace_strike_def Let_def u(3))
  moreover have "ps_published (rg_sets ?r ! j) = ps_published (rg_sets r ! j)" for j
    using shard by (simp add: replace_strike_def Let_def u(3) nth_list_update)
  moreover have "ps_strikes_pending (rg_sets ?r ! j) + hit (pending_on j) (Some e) =
      ps_strikes_pending (rg_sets r ! j) + hit (pending_on j) (Some ?e)" if "j < length (rg_sets r)" for j
    using shard pending that
    by (cases "pb_strike e") (auto simp: replace_strike_def Let_def u(3) nth_list_update pending_on_def split: if_splits)
  ultimately show ?thesis
    by (intro slots_ok_restate [OF ok e, of ?e]) simp_all
qed

lemma slots_ok_state_strike:
  assumes "slots_ok r"
  shows "slots_ok (snd (state_strike h stated r))"
proof (cases "registry_slot r h")
  case (Some e)
  have time: "slots_ok (update_slot h (\<lambda>p. p\<lparr>pb_strike := Some (k\<lparr>si_fixing_time_ns := ns\<rparr>)\<rparr>) r)"
    if "pb_strike e = Some k" for k ns
  proof (rule slots_ok_restate [OF assms Some])
    show "pb_shard (e\<lparr>pb_strike := Some (k\<lparr>si_fixing_time_ns := ns\<rparr>)\<rparr>) = pb_shard e" by simp
  qed (use that in \<open>simp_all add: update_slot_fields(3) [OF Some] pending_on_def strike_interval_is_pending_def\<close>)
  have "slots_ok (snd (restate_strike h e stated r))"
    using assms time slots_ok_replace_strike [OF assms Some]
    by (auto simp: restate_strike_def Let_def split: sum.split option.split)
  then show ?thesis
    using Some by (auto simp: state_strike_def split: prod.split sum.split)
qed (use assms in \<open>simp add: state_strike_def\<close>)

subsection \<open>Offering\<close>

lemma shard_position_bound: "shard_position name ns = Some i \<Longrightarrow> i < length ns \<and> ns ! i = name"
  by (induction ns arbitrary: i) (auto split: if_splits)

lemma shard_index_bound:
  "slots_ok r \<Longrightarrow> shard_index r shard = Some i \<Longrightarrow> i < length (rg_sets r)"
  by (auto simp: shard_index_def slots_ok_def dest: shard_position_bound)

text \<open>An admission: written down, published, and a compaction that may be due.\<close>

lemma admitE:
  assumes "registry_admit S key symb shard spec r = (Inr h, r')"
  obtains i composed r1 r2 r3 res where "rg_phase r \<noteq> ShuttingDown" "rg_fault r = None"
    "rg_published r < policy_limit (rc_selection (rg_config r)) (rg_phase r)"
    "i = instrument_id_for r (map_of (rg_minted r) key) key symb"
    "map_of (rg_minted r) key = None \<longrightarrow> is_derived (rc_id_allocation (rg_config r)) \<longrightarrow>
       i \<noteq> 0 \<and> rg_next_id r \<le> i \<and> rg_in_use r i = None"
    "i \<noteq> 0" "compose spec i (rc_source_id (rg_config r)) = Inr composed"
    "record_id S (map_of (rg_minted r) key) i key symb r = (Inr (), r1)"
    "publish key shard composed r1 = (h, r2)" "compact S False r2 = (res, r3)"
    "r' = (case res of Inl e \<Rightarrow> r3\<lparr>rg_fault := Some e\<rparr> | Inr _ \<Rightarrow> r3)"
proof -
  let ?recalled = "map_of (rg_minted r) key"
  define derived where "derived \<longleftrightarrow> ?recalled = None \<and> is_derived (rc_id_allocation (rg_config r))"
  define i where "i = instrument_id_for r ?recalled key symb"
  have ok: "rg_phase r \<noteq> ShuttingDown" "rg_fault r = None"
      "rg_published r < policy_limit (rc_selection (rg_config r)) (rg_phase r)" "i = 0 \<longrightarrow> derived"
    using assms by (auto simp: registry_admit_def derived_def i_def Let_def not_le split: if_splits)
  then obtain composed where composed: "compose spec i (rc_source_id (rg_config r)) = Inr composed"
      "\<not> (derived \<and> (i = 0 \<or> i < rg_next_id r \<or> rg_in_use r i \<noteq> None))"
    using assms by (auto simp: registry_admit_def derived_def i_def Let_def split: if_splits sum.splits)
  obtain r1 where r1: "record_id S ?recalled i key symb r = (Inr (), r1)"
    using assms ok composed
    by (auto simp: registry_admit_def derived_def i_def Let_def split: if_splits sum.splits prod.splits)
  obtain h2 r2 where r2: "publish key shard composed r1 = (h2, r2)" by fastforce
  obtain res r3 where r3: "compact S False r2 = (res, r3)" by fastforce
  have "(case res of Inl e \<Rightarrow> (Inr h2, r3\<lparr>rg_fault := Some e\<rparr>) | Inr _ \<Rightarrow> (Inr h2, r3)) = (Inr h :: refusal + instrument_ref, r')"
    using assms ok composed r1 r2 r3 unfolding registry_admit_def Let_def
    by (auto simp: derived_def i_def split: if_splits)
  then have "h2 = h" "r' = (case res of Inl e \<Rightarrow> r3\<lparr>rg_fault := Some e\<rparr> | Inr _ \<Rightarrow> r3)"
    by (auto split: sum.splits)
  then show thesis
    using ok composed r1 r2 r3 by (intro that [of i composed r1 r2 res r3]) (auto simp: derived_def i_def)
qed

lemma fault_same_slots [simp]: "same_slots r (q\<lparr>rg_fault := e\<rparr>) = same_slots r q"
  by (simp add: same_slots_def)

lemma fault_slots_ok [simp]: "slots_ok (q\<lparr>rg_fault := e\<rparr>) = slots_ok q"
  by (simp add: slots_ok_def)

lemma admit_refused_slots:
  assumes "registry_admit S key symb shard spec r = (Inl refusal, r')" "slots_ok r"
  shows "slots_ok r' \<and> rg_slots r' = rg_slots r"
proof -
  have "slots_ok q \<and> rg_slots q = rg_slots r"
    if "record_id S recalled i key symb r = (x, q)" for recalled i x q
    using record_id_slots [OF that] assms(2) same_slots_ok by (auto simp: same_slots_def)
  then show ?thesis
    using assms by (auto simp: registry_admit_def Let_def split: if_splits sum.splits prod.splits)
qed

lemma slots_ok_admit:
  assumes "slots_ok r" "rg_handles r key = None" "shard < length (rg_sets r)" "length (rg_slots r) < 2 ^ 32"
    "registry_admit S key symb shard spec r = (res, r')"
  shows "slots_ok r'"
proof (cases res)
  case (Inl refusal)
  then show ?thesis using admit_refused_slots assms(1,5) by blast
next
  case (Inr h)
  with assms(5) have "registry_admit S key symb shard spec r = (Inr h, r')" by simp
  then obtain i composed r1 r2 r3 res where a:
      "record_id S (map_of (rg_minted r) key) i key symb r = (Inr (), r1)"
      "publish key shard composed r1 = (h, r2)" "compact S False r2 = (res, r3)"
      "r' = (case res of Inl e \<Rightarrow> r3\<lparr>rg_fault := Some e\<rparr> | Inr _ \<Rightarrow> r3)"
    by (rule admitE)
  have r1: "same_slots r r1" by (rule record_id_slots [OF a(1)])
  have "slots_ok r2"
    using r1 assms(1-4) same_slots_ok [OF r1]
    by (intro slots_ok_publish [OF _ _ _ _ a(2)]) (simp_all add: same_slots_def)
  then have "slots_ok r3"
    using same_slots_ok [OF compact_slots [OF a(3)]] by simp
  then show ?thesis by (simp add: a(4) split: sum.split)
qed

lemma slots_ok_offer:
  assumes "slots_ok r" "length (rg_slots r) < 2 ^ 32"
  shows "slots_ok (snd (registry_offer S shard spec r))"
proof (cases "shard_index r shard")
  case None
  then show ?thesis using assms(1) by (simp add: registry_offer_def)
next
  case (Some index)
  have "slots_ok r'" if "registry_admit S key symb index spec r = (res, r')" "rg_handles r key = None"
    for key symb res r'
    using slots_ok_admit [OF assms(1) that(2) shard_index_bound [OF assms(1) Some] assms(2) that(1)] .
  then show ?thesis
    using Some assms(1) slots_ok_reoffer
    by (auto simp: registry_offer_def Let_def split: sum.split option.split prod.split)
qed

subsection \<open>Polls and ticks\<close>

lemma slots_ok_withdraw: "slots_ok r \<Longrightarrow> slots_ok (withdraw h r)"
  by (cases "registry_slot r h") (auto simp: withdraw_unheld elim: withdraw_slots)

lemma slots_ok_end_poll: "slots_ok r \<Longrightarrow> slots_ok (end_poll r)"
  by (auto simp: slots_ok_def end_poll_def sets_count_def end_set_def)

lemma slots_ok_polling [simp]: "slots_ok (r\<lparr>rg_polling := b\<rparr>) = slots_ok r"
  by (simp add: slots_ok_def)

lemma slots_ok_phase [simp]: "slots_ok (seeding_complete r) = slots_ok r" "slots_ok (begin_shutdown r) = slots_ok r"
  by (simp_all add: slots_ok_def seeding_complete_def begin_shutdown_def)

lemma slots_ok_clock [simp]: "slots_ok (r\<lparr>rg_clock := c\<rparr>) = slots_ok r"
  by (simp add: slots_ok_def)

text \<open>A walk changes nothing of a slot but that its definition has been handed out.\<close>

definition undefined_entry :: "published \<Rightarrow> published" where
  "undefined_entry e = e\<lparr>pb_defined := False\<rparr>"

definition same_but_defined :: "published option list \<Rightarrow> published option list \<Rightarrow> bool" where
  "same_but_defined xs ys \<longleftrightarrow> map (map_option undefined_entry) xs = map (map_option undefined_entry) ys"

lemma same_but_defined_nth:
  "same_but_defined xs ys \<Longrightarrow> i < length xs \<Longrightarrow> map_option undefined_entry (xs ! i) = map_option undefined_entry (ys ! i)"
  unfolding same_but_defined_def by (metis length_map nth_map)

lemma same_but_defined_length: "same_but_defined xs ys \<Longrightarrow> length ys = length xs"
  unfolding same_but_defined_def by (metis length_map)

lemma tally_same_but_defined:
  assumes "same_but_defined xs ys" "\<And>e. p (undefined_entry e) = p e"
  shows "tally p ys = tally p xs"
proof -
  have "tally p zs = tally p (map (map_option undefined_entry) zs)" for zs
    using assms(2) by (induction zs) (auto simp: hit_def split: option.split)
  then show ?thesis using assms(1) by (metis same_but_defined_def)
qed

text \<open>What each step of a walk keeps, the walk keeps: emitting an entry, skipping a slot, running full.\<close>

definition emitted :: "published \<Rightarrow> tick_room \<Rightarrow> u16 \<Rightarrow> tick_walk \<Rightarrow> tick_walk" where
  "emitted e room seq w = w\<lparr>wk_room := room,
     wk_slots := (wk_slots w)[wk_cursor w := Some (e\<lparr>pb_defined := True\<rparr>)],
     wk_out := wk_out w @ [\<lparr>pd_definition = stamped (pb_definition e) seq, pd_strike = pb_strike e\<rparr>],
     wk_cursor := (wk_cursor w + 1) mod length (wk_slots w)\<rparr>"

lemma walk_pass_keeps:
  assumes "P w"
    and emit: "\<And>w e room. P w \<Longrightarrow> length (wk_out w) \<noteq> k \<Longrightarrow> wk_slots w ! wk_cursor w = Some e \<Longrightarrow> pb_shard e = shard \<Longrightarrow>
      room_take (wire_size (pb_strike e \<noteq> None)) (wk_room w) = (True, room) \<Longrightarrow> P (emitted e room seq w)"
    and skip: "\<And>w. P w \<Longrightarrow> P (w\<lparr>wk_cursor := (wk_cursor w + 1) mod length (wk_slots w)\<rparr>)"
    and full: "\<And>w room. P w \<Longrightarrow> P (w\<lparr>wk_room := room, wk_full := True\<rparr>)"
  shows "P (walk_pass n k shard seq w)"
  using assms(1)
proof (induction n arbitrary: w)
  case (Suc n)
  show ?case
  proof (cases "length (wk_out w) = k \<or> wk_slots w ! wk_cursor w = None \<or> pb_shard (the (wk_slots w ! wk_cursor w)) \<noteq> shard")
    case True
    then show ?thesis
      using Suc.IH [OF skip [OF Suc.prems]] Suc.prems by (auto simp: Let_def split: option.split)
  next
    case False
    then obtain e where e: "wk_slots w ! wk_cursor w = Some e" "pb_shard e = shard" "length (wk_out w) \<noteq> k" by auto
    obtain taken room where taken: "room_take (wire_size (pb_strike e \<noteq> None)) (wk_room w) = (taken, room)" by fastforce
    show ?thesis
    proof (cases taken)
      case True
      then have "P (walk_pass n k shard seq (emitted e room seq w))"
        using taken by (intro Suc.IH emit [OF Suc.prems e(3,1,2)]) simp
      then show ?thesis using e taken True by (simp add: emitted_def)
    next
      case False
      then show ?thesis using e taken full [OF Suc.prems] by simp
    qed
  qed
qed simp

lemma walk_pass_slots: "same_but_defined (wk_slots w) (wk_slots (walk_pass n k shard seq w))"
  for w :: tick_walk
proof (rule walk_pass_keeps)
  fix w' :: tick_walk and e room assume "same_but_defined (wk_slots w) (wk_slots w')" and e: "wk_slots w' ! wk_cursor w' = Some e"
  moreover have "same_but_defined xs (xs[i := Some (e\<lparr>pb_defined := True\<rparr>)])" if "xs ! i = Some e" for xs i
  proof (cases "i < length xs")
    case True
    then have "(map (map_option undefined_entry) xs)[i := map_option undefined_entry (xs ! i)] =
        map (map_option undefined_entry) xs"
      by (metis list_update_id map_update)
    then show ?thesis
      using that by (simp add: same_but_defined_def map_update undefined_entry_def)
  qed (simp add: same_but_defined_def list_update_beyond not_less)
  ultimately show "same_but_defined (wk_slots w) (wk_slots (emitted e room seq w'))"
    by (simp add: emitted_def same_but_defined_def)
qed (simp_all add: same_but_defined_def)

lemma walk_passes_slots: "same_but_defined (wk_slots w) (wk_slots (walk_passes k shard seq w))"
  for w :: tick_walk
proof (induction k shard seq w rule: walk_passes.induct)
  case (1 k shard seq w)
  then show ?case
    using walk_pass_slots [of w "length (wk_slots w)" k shard seq]
    by (subst walk_passes.simps) (auto simp: same_but_defined_def Let_def simp del: walk_passes.simps)
qed

lemma slots_ok_same_but_defined:
  assumes "slots_ok r" "same_but_defined (rg_slots r) xs"
  shows "slots_ok (r\<lparr>rg_slots := xs\<rparr>)"
proof -
  have none: "xs ! i = None \<longleftrightarrow> rg_slots r ! i = None" if "i < length xs" for i
    using same_but_defined_nth [OF assms(2), of i] same_but_defined_length [OF assms(2)] that
    by (cases "xs ! i"; cases "rg_slots r ! i") auto
  have "tally p xs = tally p (rg_slots r)" if "\<And>e. p (undefined_entry e) = p e" for p
    by (rule tally_same_but_defined [OF assms(2)]) (rule that)
  then have "tally (on_shard i) xs = tally (on_shard i) (rg_slots r)" "tally (pending_on i) xs = tally (pending_on i) (rg_slots r)"
      "tally (\<lambda>e. True) xs = tally (\<lambda>e. True) (rg_slots r)" for i
    by (simp_all add: on_shard_def pending_on_def undefined_entry_def)
  moreover have "pb_shard e < length (rg_sets r)" if x: "Some e \<in> set xs" for e
  proof -
    obtain i where i: "i < length xs" "xs ! i = Some e" using x by (auto simp: in_set_conv_nth)
    then obtain e' where "rg_slots r ! i = Some e'" "undefined_entry e' = undefined_entry e"
      using same_but_defined_nth [OF assms(2), of i] same_but_defined_length [OF assms(2)] by auto
    moreover have "Some e' \<in> set (rg_slots r)"
      using i same_but_defined_length [OF assms(2)] calculation by (metis nth_mem)
    moreover have "pb_shard e' = pb_shard e"
      using arg_cong [OF calculation(2), of pb_shard] by (simp add: undefined_entry_def)
    ultimately show ?thesis
      using assms(1) by (auto simp: slots_ok_def sets_count_def)
  qed
  ultimately show ?thesis
    using assms(1) none same_but_defined_length [OF assms(2)]
    by (auto simp: slots_ok_def slots_agree_def sets_count_def)
qed

lemma slots_ok_update_set:
  assumes "\<And>x. ps_published (f x) = ps_published x" "\<And>x. ps_strikes_pending (f x) = ps_strikes_pending x"
  shows "slots_ok (update_set i f r) = slots_ok r"
  using sets_count_cong [of "rg_sets (update_set i f r)" "rg_sets r"] assms
  by (simp add: slots_ok_def nth_update_field [of ps_published f, OF assms(1)]
      nth_update_field [of ps_strikes_pending f, OF assms(2)])

lemma slots_ok_walked:
  assumes "slots_ok r" "wk_slots w = rg_slots r"
  shows "slots_ok (r\<lparr>rg_slots := wk_slots (walk_passes k shard seq w)\<rparr>)"
  using slots_ok_same_but_defined [OF assms(1)] walk_passes_slots [of w] assms(2) by simp

lemma slots_ok_definition_tick: "slots_ok r \<Longrightarrow> slots_ok (snd (definition_tick shard r))"
  by (auto simp: definition_tick_def Let_def slots_ok_update_set slots_ok_walked
      simp del: walk_passes.simps split: option.split)

lemma slots_ok_strike_changes: "slots_ok r \<Longrightarrow> slots_ok (snd (strike_changes shard r))"
  by (auto simp: strike_changes_def Let_def slots_ok_update_set split: option.split)

lemma slots_ok_registry_of: "slots_ok (registry_of c s clk l)"
  by (simp add: slots_ok_def slots_agree_def sets_count_def registry_of_def Let_def table_new_def new_set_def)

end
