(* ===== verification/Registry_Ledger.thy ===== *)
theory Registry_Ledger
  imports Registry_Slots
begin

section \<open>The ledger: what is written down before it is published\<close>

text \<open>
  The minted identifiers in memory and the record in the store. The lemmas say that the two agree
  while no write has failed, that whatever a failed write leaves still loads and holds every
  published identifier, and that an identifier once published is never given to another key. The
  store is any that keeps the promises of \<open>durable_store\<close>.
\<close>

subsection \<open>One entry\<close>

definition own_derivation :: "id_allocation \<Rightarrow> bytes \<Rightarrow> bytes \<Rightarrow> u32 option" where
  "own_derivation allocation key symbol = (case allocation of
     Sequential \<Rightarrow> None
   | Derived \<Rightarrow> Some (derive_instrument_id symbol)
   | DerivedKey \<Rightarrow> Some (derive_instrument_id_from_key key))"

definition mint_ok :: "bool \<Rightarrow> id_allocation \<Rightarrow> u32 \<Rightarrow> bytes \<Rightarrow> u32 \<Rightarrow> bytes \<Rightarrow> bool" where
  "mint_ok keyed allocation next_id key i symbol \<longleftrightarrow> i \<noteq> 0 \<and> length symbol = SYMBOL_LEN \<and>
     (if keyed then is_venue_key key else key = symbol) \<and>
     (i < next_id \<or> own_derivation allocation key symbol = Some i)"

definition entry_for :: "bool \<Rightarrow> bytes \<Rightarrow> u32 \<Rightarrow> bytes \<Rightarrow> u64 option \<Rightarrow> state_entry" where
  "entry_for keyed key i symbol at = \<lparr>ste_instrument_id = i, ste_symbol = symbol,
     ste_venue_key = key_field keyed key symbol, ste_delisted_at = at\<rparr>"

lemma base_entry_for: "base_entry r (k, m) = entry_for (is_keyed r) k (mi_instrument_id m) (mi_symbol m)
    (if stands_published r (k, m) then None else Some (mi_last_published_s m))"
  by (simp add: base_entry_def entry_for_def)

lemma entry_for_simps [simp]:
  "ste_instrument_id (entry_for keyed k i symb at) = i" "ste_symbol (entry_for keyed k i symb at) = symb"
  "ste_delisted_at (entry_for keyed k i symb at) = at"
  by (simp_all add: entry_for_def)

lemma entry_key_for: "keyed \<Longrightarrow> entry_key (entry_for keyed k i symb at) = k"
  by (auto simp: entry_for_def entry_key_def key_field_def venue_key_field_def)

lemma recall_key_for: "keyed \<or> k = symb \<Longrightarrow> recall_key keyed (entry_for keyed k i symb at) = k"
  by (auto simp: recall_key_def entry_key_for)

lemma derivation_for: "allocation = DerivedKey \<longrightarrow> keyed \<Longrightarrow>
    derivation allocation (entry_for keyed k i symb at) = own_derivation allocation k symb"
  by (cases allocation) (simp_all add: own_derivation_def entry_key_for)

lemma mint_ok_entry:
  assumes "mint_ok keyed allocation next_id k i symb" "allocation = DerivedKey \<longrightarrow> keyed"
  shows "entry_wf keyed (entry_for keyed k i symb at)" "recall_key keyed (entry_for keyed k i symb at) = k"
    "id_admitted allocation next_id (entry_for keyed k i symb at)"
proof -
  show "entry_wf keyed (entry_for keyed k i symb at)"
    using assms(1) entry_key_for [of keyed k i symb at]
    by (auto simp: entry_wf_def mint_ok_def) (simp_all add: entry_for_def key_field_def)
  show "recall_key keyed (entry_for keyed k i symb at) = k"
    using assms(1) by (intro recall_key_for) (auto simp: mint_ok_def split: if_splits)
  show "id_admitted allocation next_id (entry_for keyed k i symb at)"
    using assms by (auto simp: id_admitted_def mint_ok_def derivation_for own_derivation_def split: id_allocation.splits)
qed

lemma line_of_entry: "mint_ok keyed allocation next_id k i symb \<Longrightarrow>
    line_of keyed (entry_for keyed k i symb None) =
    (if keyed then encode_keyed_line i symb (venue_key_field k symb) else encode_line i symb)"
  by (simp add: line_of_def entry_key_for)

lemma mint_ok_next: "mint_ok keyed allocation n k i symb \<Longrightarrow> n \<le> n' \<Longrightarrow> mint_ok keyed allocation n' k i symb"
  by (auto simp: mint_ok_def)

subsection \<open>The minted identifiers\<close>

type_synonym row = "bytes \<times> u32 \<times> bytes \<times> bool"

definition minted_rows :: "(bytes \<times> minted_id) list \<Rightarrow> row set" where
  "minted_rows ms = (\<lambda>(k, m). (k, mi_instrument_id m, mi_symbol m, mi_recorded_published m)) ` set ms"

definition record_rows :: "bool \<Rightarrow> state_entry list \<Rightarrow> row set" where
  "record_rows keyed es = (\<lambda>e. (recall_key keyed e, ste_instrument_id e, ste_symbol e, ste_delisted_at e = None)) ` set es"

text \<open>Which key holds which identifier.\<close>

definition holdings :: "row set \<Rightarrow> (bytes \<times> u32) set" where
  "holdings rows = (\<lambda>(k, i, symbol, p). (k, i)) ` rows"

definition minted_ok :: "bool \<Rightarrow> id_allocation \<Rightarrow> u32 \<Rightarrow> (bytes \<times> minted_id) list \<Rightarrow> bool" where
  "minted_ok keyed allocation next_id ms \<longleftrightarrow> distinct (map fst ms) \<and>
     distinct (map (\<lambda>(k, m). mi_instrument_id m) ms) \<and>
     (\<forall>(k, m) \<in> set ms. mint_ok keyed allocation next_id k (mi_instrument_id m) (mi_symbol m))"

definition keyed_field :: "'s registry \<Rightarrow> venue_keys option" where
  "keyed_field r = (if is_keyed r then Some (rc_venue_keys (rg_config r)) else None)"

lemma keyed_field_None [simp]: "keyed_field r \<noteq> None \<longleftrightarrow> is_keyed r" "keyed_field r = None \<longleftrightarrow> \<not> is_keyed r"
  by (simp_all add: keyed_field_def)

text \<open>The record says what memory says.\<close>

definition agrees :: "'s registry \<Rightarrow> state_record \<Rightarrow> bool" where
  "agrees r R \<longleftrightarrow> sr_source_id R = rc_source_id (rg_config r) \<and> sr_next_id R = rg_next_id r \<and>
     sr_allocation R = rc_id_allocation (rg_config r) \<and> sr_keyed R = keyed_field r \<and>
     record_rows (is_keyed r) (sr_entries R) = minted_rows (rg_minted r)"

definition written_down :: "'s registry \<Rightarrow> bytes \<Rightarrow> bool" where
  "written_down r bs \<longleftrightarrow> (\<exists>l. record_load bs = Inr l \<and> \<not> ld_torn l \<and>
     ld_version l = layout_version (rc_id_allocation (rg_config r)) (is_keyed r) \<and> agrees r (ld_record l))"

definition config_ok :: "registry_config \<Rightarrow> bool" where
  "config_ok c \<longleftrightarrow> (rc_id_allocation c = DerivedKey \<longrightarrow> rc_identity c = VenueKeyIdentity) \<and>
     (is_derived (rc_id_allocation c) \<longrightarrow> rc_forget_delisted_after c = None)"

lemma check_config_ok: "check_config c = Inr () \<Longrightarrow> config_ok c"
  by (cases "rc_identity c") (auto simp: check_config_def config_ok_def split: if_splits option.splits)

subsection \<open>Writing a base\<close>

lemma distinct_ids_bound:
  fixes es :: "state_entry list"
  assumes "distinct (map ste_instrument_id es)"
  shows "length es < 2 ^ 64"
proof -
  have "card (set (map ste_instrument_id es)) \<le> card (UNIV :: u32 set)"
    by (rule card_mono) simp_all
  then have "length es \<le> 2 ^ 32"
    using distinct_card [OF assms] by (simp add: card_word)
  then show ?thesis by simp
qed

text \<open>A base of entries that may be held loads as what it was made of.\<close>

lemma base_loads:
  assumes "record_wf R"
  shows "\<exists>l. record_load (record_encode R) = Inr l \<and> \<not> ld_torn l \<and>
    ld_version l = layout_version (sr_allocation R) (sr_keyed R \<noteq> None) \<and> ld_record l = in_id_order R"
  using on_disk_loads [OF assms, of "[]" "[]"] by (simp add: on_disk_def torn_tail_def)

lemma in_id_order_rows [simp]: "record_rows keyed (sr_entries (in_id_order R)) = record_rows keyed (sr_entries R)"
  by (simp add: record_rows_def in_id_order_def)

lemma in_id_order_fields [simp]:
  "sr_source_id (in_id_order R) = sr_source_id R" "sr_next_id (in_id_order R) = sr_next_id R"
  "sr_allocation (in_id_order R) = sr_allocation R" "sr_keyed (in_id_order R) = sr_keyed R"
  by (simp_all add: in_id_order_def)

lemma base_record_fields [simp]:
  "sr_source_id (base_record mi fo r) = rc_source_id (rg_config r)"
  "sr_allocation (base_record mi fo r) = rc_id_allocation (rg_config r)"
  "sr_keyed (base_record mi fo r) = keyed_field r"
  "sr_next_id (base_record None fo r) = rg_next_id r"
  "sr_next_id (base_record (Some (i, k, symb, n)) fo r) = n"
  "sr_entries (base_record None fo r) = map (base_entry r) (filter (\<lambda>(key, m). key \<notin> set fo) (rg_minted r))"
  by (simp_all add: base_record_def keyed_field_def Let_def split: option.split prod.split)

definition kept_minted :: "bytes list \<Rightarrow> 's registry \<Rightarrow> (bytes \<times> minted_id) list" where
  "kept_minted fo r = map (\<lambda>(key, m). (key, m\<lparr>mi_recorded_published := stands_published r (key, m)\<rparr>))
     (filter (\<lambda>(key, m). key \<notin> set fo) (rg_minted r))"

lemma map_fst_filter: "map fst (filter (\<lambda>(key, m). P key) ms) = filter P (map fst ms)"
  by (induction ms) auto

lemma minted_ok_kept:
  assumes "minted_ok keyed allocation n (rg_minted r)"
  shows "minted_ok keyed allocation n (kept_minted fo r)"
proof -
  have "map fst (kept_minted fo r) = filter (\<lambda>k. k \<notin> set fo) (map fst (rg_minted r))"
    "map (\<lambda>(k, m). mi_instrument_id m) (kept_minted fo r) =
      map (\<lambda>(k, m). mi_instrument_id m) (filter (\<lambda>(key, m). key \<notin> set fo) (rg_minted r))"
    by (simp_all add: kept_minted_def map_fst_filter [symmetric] case_prod_beta comp_def)
  then have "distinct (map fst (kept_minted fo r))" "distinct (map (\<lambda>(k, m). mi_instrument_id m) (kept_minted fo r))"
    using assms by (simp_all only: minted_ok_def distinct_map_filter distinct_filter)
  then show ?thesis
    using assms by (auto simp: minted_ok_def kept_minted_def)
qed

lemma base_entries_wf:
  assumes "minted_ok (is_keyed r) (rc_id_allocation (rg_config r)) n ms" "config_ok (rg_config r)"
  shows "distinct (map ste_instrument_id (map (base_entry r) ms))"
    "map (recall_key (is_keyed r)) (map (base_entry r) ms) = map fst ms"
    "list_all (entry_wf (is_keyed r)) (map (base_entry r) ms)"
    "list_all (id_admitted (rc_id_allocation (rg_config r)) n) (map (base_entry r) ms)"
proof -
  have ids: "map ste_instrument_id (map (base_entry r) ms) = map (\<lambda>(k, m). mi_instrument_id m) ms"
    by (auto simp: base_entry_for)
  then show "distinct (map ste_instrument_id (map (base_entry r) ms))"
    using assms(1) by (simp only: minted_ok_def)
  have derived: "rc_id_allocation (rg_config r) = DerivedKey \<longrightarrow> is_keyed r"
    using assms(2) by (simp add: config_ok_def is_keyed_def)
  have "mint_ok (is_keyed r) (rc_id_allocation (rg_config r)) n k (mi_instrument_id m) (mi_symbol m)"
    if "(k, m) \<in> set ms" for k m
    using assms(1) that by (auto simp: minted_ok_def)
  note one = mint_ok_entry [OF this derived]
  show "map (recall_key (is_keyed r)) (map (base_entry r) ms) = map fst ms"
    using one(2) by (auto simp: base_entry_for)
  show "list_all (entry_wf (is_keyed r)) (map (base_entry r) ms)"
    "list_all (id_admitted (rc_id_allocation (rg_config r)) n) (map (base_entry r) ms)"
    using one(1,3) by (auto simp: list_all_iff base_entry_for)
qed

lemma config_ok_unkeyed: "config_ok (rg_config r) \<Longrightarrow> keyed_field r = None \<longrightarrow> rc_id_allocation (rg_config r) \<noteq> DerivedKey"
  by (auto simp: config_ok_def is_keyed_def)

lemma base_record_wf:
  assumes "minted_ok (is_keyed r) (rc_id_allocation (rg_config r)) (rg_next_id r) (rg_minted r)" "config_ok (rg_config r)"
  shows "record_wf (base_record None fo r)"
proof -
  let ?ms = "filter (\<lambda>(key, m). key \<notin> set fo) (rg_minted r)"
  have "minted_ok (is_keyed r) (rc_id_allocation (rg_config r)) (rg_next_id r) ?ms"
    using assms(1) map_fst_filter [of "\<lambda>k. k \<notin> set fo" "rg_minted r"] by (auto simp: minted_ok_def distinct_map_filter)
  note wf = base_entries_wf [OF this assms(2)]
  have "distinct (map fst ?ms)"
    using assms(1) by (simp add: minted_ok_def map_fst_filter)
  then show ?thesis
    using wf distinct_ids_bound [OF wf(1)] config_ok_unkeyed [OF assms(2)]
    by (simp add: record_wf_def del: map_map list.map_comp)
qed

lemma base_rows: "minted_ok (is_keyed r) (rc_id_allocation (rg_config r)) (rg_next_id r) (rg_minted r) \<Longrightarrow>
    config_ok (rg_config r) \<Longrightarrow>
    record_rows (is_keyed r) (sr_entries (base_record None fo r)) = minted_rows (kept_minted fo r)"
proof -
  assume ok: "minted_ok (is_keyed r) (rc_id_allocation (rg_config r)) (rg_next_id r) (rg_minted r)" "config_ok (rg_config r)"
  have "recall_key (is_keyed r) (base_entry r (k, m)) = k" if "(k, m) \<in> set (rg_minted r)" for k m
    using ok mint_ok_entry(2) [of "is_keyed r" "rc_id_allocation (rg_config r)" "rg_next_id r" k] that
    by (auto simp: minted_ok_def base_entry_for config_ok_def is_keyed_def)
  then show ?thesis
    unfolding record_rows_def minted_rows_def kept_minted_def base_record_fields set_map image_image
    by (intro image_cong) (auto simp: base_entry_for split: if_splits)
qed

subsection \<open>Appending a line\<close>

lemma written_down_sound:
  assumes "written_down r bs"
  obtains l where "record_load bs = Inr l" "\<not> ld_torn l" "agrees r (ld_record l)"
    "ld_version l = layout_version (rc_id_allocation (rg_config r)) (is_keyed r)"
    "entries_sound (is_keyed r) (rc_id_allocation (rg_config r)) (rg_next_id r) (sr_entries (ld_record l))"
    "sr_keyed (ld_record l) \<noteq> None \<longleftrightarrow> is_keyed r"
proof -
  obtain l where l: "record_load bs = Inr l" "\<not> ld_torn l" "agrees r (ld_record l)"
      "ld_version l = layout_version (rc_id_allocation (rg_config r)) (is_keyed r)"
    using assms unfolding written_down_def by blast
  have keyed: "sr_keyed (ld_record l) \<noteq> None \<longleftrightarrow> is_keyed r"
    using l(3) unfolding agrees_def by (metis keyed_field_None(1))
  have "entries_sound (is_keyed r) (rc_id_allocation (rg_config r)) (rg_next_id r) (sr_entries (ld_record l))"
    using loads_sound [OF l(1)] l(3) keyed unfolding agrees_def by simp
  with l keyed that show thesis by blast
qed

lemma layout_not_v1: "layout_version allocation keyed \<noteq> FORMAT_VERSION_V1"
  by (cases allocation) (auto simp: layout_version_def FORMAT_VERSION_def FORMAT_VERSION_DERIVED_def
      FORMAT_VERSION_KEYED_def FORMAT_VERSION_V1_def)

lemma rows_append_entry_new:
  "ste_instrument_id e \<notin> ste_instrument_id ` set (sr_entries R) \<Longrightarrow> ste_delisted_at e = None \<Longrightarrow>
   record_rows keyed (sr_entries (append_entry e R)) =
   insert (recall_key keyed e, ste_instrument_id e, ste_symbol e, True) (record_rows keyed (sr_entries R))"
  by (auto simp: record_rows_def append_entry_def)

lemma append_entry_held: "ste_instrument_id e \<in> ste_instrument_id ` set (sr_entries R) \<Longrightarrow>
   sr_entries (append_entry e R) =
     map (\<lambda>e'. if ste_instrument_id e' = ste_instrument_id e then e'\<lparr>ste_delisted_at := None\<rparr> else e') (sr_entries R)"
  by (auto simp: append_entry_def)

lemma rows_append_entry_held:
  "ste_instrument_id e \<in> ste_instrument_id ` set (sr_entries R) \<Longrightarrow>
   record_rows keyed (sr_entries (append_entry e R)) =
   (\<lambda>(k, i, s, p). (k, i, s, i = ste_instrument_id e \<or> p)) ` record_rows keyed (sr_entries R)"
  unfolding record_rows_def image_image append_entry_held set_map
  by (intro image_cong) (auto simp: recall_key_def entry_key_def split: option.split)

lemma row_of_entry: "e \<in> set es \<Longrightarrow>
    (recall_key keyed e, ste_instrument_id e, ste_symbol e, ste_delisted_at e = None) \<in> record_rows keyed es"
  by (auto simp: record_rows_def)

lemma row_of_minted: "(k, m) \<in> set ms \<Longrightarrow>
    (k, mi_instrument_id m, mi_symbol m, mi_recorded_published m) \<in> minted_rows ms"
  by (force simp: minted_rows_def)

text \<open>The record after any beginning of the line of \<open>e\<close>.\<close>

lemma written_down_append:
  assumes set: "written_down r bs" and e: "appendable R e" "record_load bs = Inr l" "R = ld_record l"
    and p: "prefix p (line_of (is_keyed r) e)"
  shows "\<exists>l'. record_load (bs @ p) = Inr l' \<and>
    ld_record l' = (if p = line_of (is_keyed r) e then append_entry e R else R) \<and>
    (p = line_of (is_keyed r) e \<longrightarrow> \<not> ld_torn l' \<and> ld_version l' = ld_version l)"
proof -
  obtain l2 where l2: "record_load bs = Inr l2" "\<not> ld_torn l2"
      "ld_version l2 = layout_version (rc_id_allocation (rg_config r)) (is_keyed r)"
      "sr_keyed (ld_record l2) \<noteq> None \<longleftrightarrow> is_keyed r"
    using set by (rule written_down_sound) blast
  then have l: "\<not> ld_torn l" "ld_version l \<noteq> FORMAT_VERSION_V1" "sr_keyed R \<noteq> None \<longleftrightarrow> is_keyed r"
    using e(2,3) layout_not_v1 by auto
  have "record_load (bs @ p) = Inr (if p = line_of (is_keyed r) e
      then l\<lparr>ld_record := append_entry e R, ld_appended := ld_appended l + 1, ld_complete := ld_complete l + length p\<rparr>
      else l\<lparr>ld_torn := (p \<noteq> [])\<rparr>)"
    using record_append_prefix [OF e(2) l(1,2), of e p] e(1,3) p l(3) by auto
  then show ?thesis
    using l(1) e(3) by auto
qed

definition fresh_id :: "'s registry \<Rightarrow> bytes \<Rightarrow> u32 \<Rightarrow> bytes \<Rightarrow> bool" where
  "fresh_id r k i symb \<longleftrightarrow>
     (if is_derived (rc_id_allocation (rg_config r))
      then own_derivation (rc_id_allocation (rg_config r)) k symb = Some i \<and> rg_next_id r \<le> i \<and>
        i \<notin> (\<lambda>(k, m). mi_instrument_id m) ` set (rg_minted r)
      else i = rg_next_id r \<and> rg_next_id r \<noteq> - 1)"

definition next_after :: "'s registry \<Rightarrow> u32" where
  "next_after r = (if is_derived (rc_id_allocation (rg_config r)) then rg_next_id r else rg_next_id r + 1)"

lemma less_next: 
  fixes n :: u32
  assumes "n \<noteq> - 1"
  shows "n < n + 1"
proof -
  have unat_n: "unat n < 2 ^ LENGTH(32)" by (rule unsigned_less)
  have "unat n \<noteq> unat (- 1 :: u32)"
    using assms by (simp only: word_unat_eq_iff not_False_eq_True)
  then have "unat n + 1 < 2 ^ 32"
    using unat_n by (simp add: unsigned_minus_1_eq_mask mask_eq_exp_minus_1)
  then show ?thesis
    by (simp add: word_less_nat_alt unat_word_ariths)
qed

subsection \<open>What has been published\<close>

text \<open>
  \<open>issued\<close> are the identifiers that were ever published, each with the key it was published for, and
  none with two. A book is safe for them when it gives none of them to another key, and will not: an issued identifier
  is below the counter, or the book holds it and never forgets. \<open>keep\<close> says that nothing is ever
  forgotten.
\<close>

type_synonym issues = "(u32 \<times> bytes) set"

definition book_safe :: "bool \<Rightarrow> issues \<Rightarrow> (bytes \<times> u32) set \<Rightarrow> u32 \<Rightarrow> bool \<Rightarrow> bool" where
  "book_safe keep issued rel next_id derived \<longleftrightarrow>
     (\<forall>i k k'. (i, k) \<in> issued \<longrightarrow> (i, k') \<in> issued \<longrightarrow> k = k') \<and> (\<forall>i k. (i, k) \<in> issued \<longrightarrow>
     (\<forall>k'. (k', i) \<in> rel \<longrightarrow> k' = k) \<and> (i < next_id \<or> derived \<and> (k, i) \<in> rel) \<and> (keep \<longrightarrow> (k, i) \<in> rel))"

lemma book_safe_derived: "book_safe keep I rel n False \<Longrightarrow> book_safe keep I rel n derived"
  by (auto simp: book_safe_def)

lemma book_safe_none [simp]: "book_safe keep {} rel n derived"
  by (simp add: book_safe_def)

lemma book_safe_issue:
  assumes "book_safe keep I rel n derived" "(k, i) \<in> rel" "i < n \<or> derived" "\<And>k'. (k', i) \<in> rel \<Longrightarrow> k' = k"
  shows "book_safe keep (insert (i, k) I) rel n derived"
  using assms unfolding book_safe_def by blast

lemma book_safe_new:
  assumes "book_safe keep I rel n derived" "n \<le> n'" "n \<le> i" "derived \<longrightarrow> i \<notin> snd ` rel"
  shows "book_safe keep I (insert (k, i) rel) n' derived"
proof -
  have "i' \<noteq> i" if "(i', k') \<in> I" for i' k'
    using assms that unfolding book_safe_def by (metis image_eqI leD snd_conv)
  then show ?thesis
    using assms(1) order.strict_trans2 [OF _ assms(2)] unfolding book_safe_def by blast
qed

lemma book_safe_forget:
  assumes "book_safe keep I rel n derived" "rel' \<subseteq> rel" "rel' = rel \<or> \<not> derived \<and> \<not> keep"
  shows "book_safe keep I rel' n derived"
  using assms unfolding book_safe_def by blast

subsection \<open>The book and where it is placed\<close>

definition derived_of :: "'s registry \<Rightarrow> bool" where
  "derived_of r \<longleftrightarrow> is_derived (rc_id_allocation (rg_config r))"

definition in_use_ok :: "'s registry \<Rightarrow> bool" where
  "in_use_ok r \<longleftrightarrow> (derived_of r \<longrightarrow> (\<forall>(k, m) \<in> set (rg_minted r). rg_in_use r (mi_instrument_id m) \<noteq> None))"

definition book :: "bool \<Rightarrow> issues \<Rightarrow> 's registry \<Rightarrow> bool" where
  "book keep I r \<longleftrightarrow> config_ok (rg_config r) \<and> (keep \<longrightarrow> rc_forget_delisted_after (rg_config r) = None) \<and>
     minted_ok (is_keyed r) (rc_id_allocation (rg_config r)) (rg_next_id r) (rg_minted r) \<and> in_use_ok r \<and>
     book_safe keep I (holdings (minted_rows (rg_minted r))) (rg_next_id r) (derived_of r)"

definition placed :: "'s registry \<Rightarrow> bytes option \<Rightarrow> bool" where
  "placed r c \<longleftrightarrow> (if rg_base_written r then \<exists>bs. c = Some bs \<and> written_down r bs else c = None \<and> rg_minted r = [])"

definition ledger :: "bool \<Rightarrow> issues \<Rightarrow> 's registry \<Rightarrow> bytes option \<Rightarrow> bool" where
  "ledger keep I r c \<longleftrightarrow> book keep I r \<and> placed r c \<and> (c = None \<longrightarrow> I = {})"

text \<open>What a store may hold between two runs of the publisher, or after a failed write.\<close>

definition disk_safe :: "identity \<Rightarrow> bool \<Rightarrow> issues \<Rightarrow> bytes option \<Rightarrow> bool" where
  "disk_safe ident keep I c \<longleftrightarrow> (case c of None \<Rightarrow> I = {} | Some bs \<Rightarrow> \<exists>l. record_load bs = Inr l \<and>
     (sr_keyed (ld_record l) \<noteq> None \<longleftrightarrow> ident = VenueKeyIdentity) \<and>
     book_safe keep I (holdings (record_rows (ident = VenueKeyIdentity) (sr_entries (ld_record l))))
       (sr_next_id (ld_record l)) (is_derived (sr_allocation (ld_record l))))"

lemma agrees_disk:
  assumes "record_load bs = Inr l" "agrees r (ld_record l)"
    "book_safe keep I (holdings (minted_rows (rg_minted r))) (rg_next_id r) (derived_of r)"
  shows "disk_safe (rc_identity (rg_config r)) keep I (Some bs)"
proof -
  have "sr_keyed (ld_record l) \<noteq> None \<longleftrightarrow> is_keyed r"
    using assms(2) unfolding agrees_def by (metis keyed_field_None(1))
  then show ?thesis
    using assms by (simp add: disk_safe_def agrees_def derived_of_def flip: is_keyed_def)
qed

lemma ledger_disk: "ledger keep I r c \<Longrightarrow> disk_safe (rc_identity (rg_config r)) keep I c"
  by (cases c) (auto simp: ledger_def book_def placed_def written_down_def disk_safe_def [of _ _ _ None]
      split: if_splits intro: agrees_disk)

text \<open>What the book and its placing depend on.\<close>

lemma ledger_cong:
  assumes "rg_config r' = rg_config r" "rg_next_id r' = rg_next_id r" "rg_in_use r' = rg_in_use r"
    "rg_base_written r' = rg_base_written r" "rg_minted r' = rg_minted r"
  shows "book keep I r' = book keep I r" "placed r' c = placed r c" "ledger keep I r' c = ledger keep I r c"
proof -
  have "is_keyed r' = is_keyed r" "keyed_field r' = keyed_field r" "derived_of r' = derived_of r"
    using assms(1) by (simp_all add: is_keyed_def keyed_field_def derived_of_def)
  then show "book keep I r' = book keep I r" "placed r' c = placed r c"
    by (simp_all add: book_def placed_def in_use_ok_def written_down_def agrees_def assms)
  then show "ledger keep I r' c = ledger keep I r c" by (simp add: ledger_def)
qed

lemma holdings_minted: "(k, i) \<in> holdings (minted_rows ms) \<longleftrightarrow> (\<exists>m. (k, m) \<in> set ms \<and> mi_instrument_id m = i)"
  by (force simp: holdings_def minted_rows_def)

lemma minted_ok_unique:
  assumes "minted_ok keyed a n ms"
  shows "(k, i) \<in> holdings (minted_rows ms) \<Longrightarrow> (k', i) \<in> holdings (minted_rows ms) \<Longrightarrow> k = k'"
    "(k, i) \<in> holdings (minted_rows ms) \<Longrightarrow> (k, i') \<in> holdings (minted_rows ms) \<Longrightarrow> i = i'"
    "(k, i) \<in> holdings (minted_rows ms) \<Longrightarrow> i < n \<or> is_derived a"
proof -
  have d: "distinct (map fst ms)" "distinct (map (\<lambda>(k, m). mi_instrument_id m) ms)"
    using assms by (simp_all add: minted_ok_def)
  show "(k, i) \<in> holdings (minted_rows ms) \<Longrightarrow> (k', i) \<in> holdings (minted_rows ms) \<Longrightarrow> k = k'"
    using d(2) unfolding distinct_map inj_on_def holdings_minted by force
  show "(k, i) \<in> holdings (minted_rows ms) \<Longrightarrow> (k, i') \<in> holdings (minted_rows ms) \<Longrightarrow> i = i'"
    using d(1) unfolding holdings_minted by (metis eq_key_imp_eq_value)
  show "(k, i) \<in> holdings (minted_rows ms) \<Longrightarrow> i < n \<or> is_derived a"
    using assms unfolding holdings_minted
    by (cases a) (auto simp: minted_ok_def mint_ok_def own_derivation_def)
qed

subsection \<open>A base\<close>

lemma kept_mem: "(k, m) \<in> set (kept_minted fo r) \<longleftrightarrow> k \<notin> set fo \<and>
    (\<exists>m'. (k, m') \<in> set (rg_minted r) \<and> m = m'\<lparr>mi_recorded_published := stands_published r (k, m')\<rparr>)"
  by (force simp: kept_minted_def)

lemma kept_holdings: "holdings (minted_rows (kept_minted fo r)) =
    {(k, i) \<in> holdings (minted_rows (rg_minted r)). k \<notin> set fo}"
proof -
  have "(k, i) \<in> holdings (minted_rows (kept_minted fo r)) \<longleftrightarrow>
      (k, i) \<in> holdings (minted_rows (rg_minted r)) \<and> k \<notin> set fo" for k i
    unfolding holdings_minted kept_mem by force
  then show ?thesis by auto
qed

text \<open>The registry a base written for it leaves.\<close>

definition rebased :: "bytes list \<Rightarrow> 's registry \<Rightarrow> 's \<Rightarrow> 's registry" where
  "rebased fo r s = r\<lparr>rg_store := s, rg_minted := kept_minted fo r,
     rg_base_entries := length (sr_entries (base_record None fo r)),
     rg_compaction_at := max (length (sr_entries (base_record None fo r))) COMPACTION_FLOOR,
     rg_base_written := True, rg_appended := 0\<rparr>"

lemma write_base_rebased: "write_base S None fo r = (case ss_store S (record_encode (base_record None fo r)) (rg_store r) of
    (Inl e, s) \<Rightarrow> (Inl e, r\<lparr>rg_store := s\<rparr>) | (Inr _, s) \<Rightarrow> (Inr (), rebased fo r s))"
  unfolding write_base_def Let_def rebased_def kept_minted_def by (rule refl)

lemma rebased_fields [simp]:
  "rg_config (rebased fo r s) = rg_config r" "rg_next_id (rebased fo r s) = rg_next_id r"
  "rg_in_use (rebased fo r s) = rg_in_use r" "rg_base_written (rebased fo r s)"
  "rg_minted (rebased fo r s) = kept_minted fo r" "rg_store (rebased fo r s) = s"
  "is_keyed (rebased fo r s) = is_keyed r" "keyed_field (rebased fo r s) = keyed_field r"
  "derived_of (rebased fo r s) = derived_of r"
  by (simp_all add: rebased_def is_keyed_def keyed_field_def derived_of_def)

definition may_forget :: "bool \<Rightarrow> bytes list \<Rightarrow> 's registry \<Rightarrow> bool" where
  "may_forget keep fo r \<longleftrightarrow> fo = [] \<or> \<not> derived_of r \<and> \<not> keep"

lemma forgettable_may: "book keep I r \<Longrightarrow> may_forget keep (forgettable now r) r"
  by (auto simp: book_def may_forget_def forgettable_def config_ok_def derived_of_def split: option.splits)

lemma book_rebased:
  assumes "book keep I r" "may_forget keep fo r"
  shows "book keep I (rebased fo r s)"
proof -
  let ?rel = "holdings (minted_rows (rg_minted r))"
  have "book_safe keep I (holdings (minted_rows (kept_minted fo r))) (rg_next_id r) (derived_of r)"
    unfolding kept_holdings
  proof (rule book_safe_forget)
    show "book_safe keep I ?rel (rg_next_id r) (derived_of r)"
      using assms(1) by (simp add: book_def)
    show "{(k, i) \<in> ?rel. k \<notin> set fo} = ?rel \<or> \<not> derived_of r \<and> \<not> keep"
      using assms(2) by (auto simp: may_forget_def)
  qed auto
  moreover have "in_use_ok (rebased fo r s)"
    using assms(1) by (auto simp: book_def in_use_ok_def kept_minted_def)
  ultimately show ?thesis
    using assms(1) minted_ok_kept [of "is_keyed r" _ _ r fo] by (simp add: book_def)
qed

lemma placed_rebased:
  assumes "book keep I r"
  shows "placed (rebased fo r s) (Some (record_encode (base_record None fo r)))"
proof -
  have ok: "minted_ok (is_keyed r) (rc_id_allocation (rg_config r)) (rg_next_id r) (rg_minted r)" "config_ok (rg_config r)"
    using assms by (simp_all add: book_def)
  have wf: "record_wf (base_record None fo r)" by (rule base_record_wf [OF ok])
  have version: "layout_version (sr_allocation (base_record None fo r)) (sr_keyed (base_record None fo r) \<noteq> None) =
      layout_version (rc_id_allocation (rg_config r)) (is_keyed r)"
    by (simp only: base_record_fields keyed_field_None(1))
  from base_loads [OF wf] obtain l where l: "record_load (record_encode (base_record None fo r)) = Inr l"
      "\<not> ld_torn l" "ld_version l = layout_version (rc_id_allocation (rg_config r)) (is_keyed r)"
      "ld_record l = in_id_order (base_record None fo r)"
    unfolding version by (elim exE conjE)
  have "agrees (rebased fo r s) (in_id_order (base_record None fo r))"
    unfolding agrees_def in_id_order_rows in_id_order_fields rebased_fields(7,8)
    unfolding base_rows [OF ok, of fo] unfolding rebased_fields base_record_fields by (intro conjI refl)
  then have "agrees (rebased fo r s) (ld_record l)" by (simp only: l(4))
  then have "written_down (rebased fo r s) (record_encode (base_record None fo r))"
    unfolding written_down_def rebased_fields using l(1-3) by blast
  then show ?thesis
    by (simp only: placed_def rebased_fields if_True) blast
qed

context durable_store
begin

text \<open>Writing a base for what is minted, from whatever safe record is there.\<close>

lemma write_base_ledger:
  assumes b: "book keep I r" "may_forget keep fo r" and s: "ok (rg_store r)" "content (rg_store r) \<noteq> None"
    "disk_safe (rc_identity (rg_config r)) keep I (content (rg_store r))" and w: "write_base S None fo r = (x, r')"
  shows "ok (rg_store r') \<and> rg_config r' = rg_config r \<and>
    disk_safe (rc_identity (rg_config r)) keep I (content (rg_store r')) \<and>
    (case x of Inr _ \<Rightarrow> ledger keep I r' (content (rg_store r')) \<and> rg_minted r' = kept_minted fo r
     | Inl (NotReplaced _) \<Rightarrow> r' = r\<lparr>rg_store := rg_store r'\<rparr> \<and> content (rg_store r') = content (rg_store r)
     | Inl _ \<Rightarrow> True)"
proof -
  let ?bs = "record_encode (base_record None fo r)"
  obtain y s' where y: "ss_store S ?bs (rg_store r) = (y, s')" by fastforce
  note law = store [OF s(1) y]
  have new: "ledger keep I (rebased fo r s') (Some ?bs)"
    using book_rebased [OF b] placed_rebased [OF b(1)] by (simp add: ledger_def)
  then have "disk_safe (rc_identity (rg_config r)) keep I (Some ?bs)"
    using ledger_disk by fastforce
  note safe = this
  show ?thesis
  proof (cases y)
    case (Inr u)
    then have "x = Inr ()" "r' = rebased fo r s'"
      using w by (simp_all add: write_base_rebased y)
    then show ?thesis
      using law new safe Inr by simp
  next
    case (Inl e)
    then have r': "x = Inl e" "r' = r\<lparr>rg_store := s'\<rparr>"
      using w by (simp_all add: write_base_rebased y)
    have "ok s'" "content s' = content (rg_store r) \<or> content s' = Some ?bs"
      "\<And>e'. e = NotReplaced e' \<Longrightarrow> content s' = content (rg_store r)"
      using law Inl by (simp_all split: state_error.splits)
    then show ?thesis
      using r' s(3) safe by (auto split: state_error.split)
  qed
qed

end

subsection \<open>A mint\<close>

definition mint_of :: "u32 \<Rightarrow> bytes \<Rightarrow> minted_id" where
  "mint_of i symb = \<lparr>mi_instrument_id = i, mi_symbol = symb, mi_recorded_published = True, mi_last_published_s = 0\<rparr>"

lemma mint_of_fields [simp]: "mi_instrument_id (mint_of i symb) = i" "mi_symbol (mint_of i symb) = symb"
    "mi_recorded_published (mint_of i symb)"
  by (simp_all add: mint_of_def)

definition minted_with :: "u32 \<Rightarrow> bytes \<Rightarrow> bytes \<Rightarrow> 's registry \<Rightarrow> 's registry" where
  "minted_with i key symb r = r\<lparr>rg_minted := AList.update key (mint_of i symb) (rg_minted r),
     rg_in_use := (if derived_of r then (rg_in_use r)(i \<mapsto> key) else rg_in_use r), rg_next_id := next_after r\<rparr>"

text \<open>What makes a mint of \<open>i\<close> for \<open>key\<close> one the record takes.\<close>

definition mintable :: "u32 \<Rightarrow> bytes \<Rightarrow> bytes \<Rightarrow> 's registry \<Rightarrow> bool" where
  "mintable i key symb r \<longleftrightarrow> key \<notin> fst ` set (rg_minted r) \<and> fresh_id r key i symb \<and>
     mint_ok (is_keyed r) (rc_id_allocation (rg_config r)) (next_after r) key i symb"

lemma update_absent: "k \<notin> fst ` set ms \<Longrightarrow> AList.update k v ms = ms @ [(k, v)]"
  by (induction ms) auto

lemma minted_rows_append [simp]: "minted_rows (ms @ [(k, m)]) =
    insert (k, mi_instrument_id m, mi_symbol m, mi_recorded_published m) (minted_rows ms)"
  by (simp add: minted_rows_def)

lemma holdings_insert [simp]: "holdings (insert (k, i, symb, p) rows) = insert (k, i) (holdings rows)"
  by (simp add: holdings_def)

lemma next_after_le:
  assumes "fresh_id r k i symb"
  shows "rg_next_id r \<le> next_after r" "rg_next_id r \<le> i" "\<not> derived_of r \<Longrightarrow> i < next_after r"
  using assms less_next [of "rg_next_id r"] by (auto simp: fresh_id_def next_after_def derived_of_def split: if_splits)

lemma minted_ids: "snd ` holdings (minted_rows ms) = (\<lambda>(k, m). mi_instrument_id m) ` set ms"
  by (simp add: holdings_def minted_rows_def image_image case_prod_beta)

lemma fresh_unheld:
  assumes "minted_ok (is_keyed r) (rc_id_allocation (rg_config r)) (rg_next_id r) (rg_minted r)" "fresh_id r k i symb"
  shows "i \<notin> (\<lambda>(k, m). mi_instrument_id m) ` set (rg_minted r)"
  using assms by (cases "rc_id_allocation (rg_config r)")
    (auto simp: fresh_id_def minted_ok_def mint_ok_def own_derivation_def)

lemma minted_ok_mint:
  assumes "minted_ok (is_keyed r) (rc_id_allocation (rg_config r)) (rg_next_id r) (rg_minted r)" "mintable i k symb r"
  shows "minted_ok (is_keyed r) (rc_id_allocation (rg_config r)) (next_after r) (rg_minted r @ [(k, mint_of i symb)])"
proof -
  have fresh: "fresh_id r k i symb" using assms(2) by (simp add: mintable_def)
  show ?thesis
    using assms fresh_unheld [OF assms(1) fresh] mint_ok_next [OF _ next_after_le(1) [OF fresh]]
    by (auto simp: minted_ok_def mintable_def mint_of_def image_iff)
qed

lemma minted_with_fields:
  assumes "mintable i k symb r"
  shows "rg_minted (minted_with i k symb r) = rg_minted r @ [(k, mint_of i symb)]"
    "rg_next_id (minted_with i k symb r) = next_after r" "rg_config (minted_with i k symb r) = rg_config r"
    "rg_store (minted_with i k symb r) = rg_store r" "rg_base_written (minted_with i k symb r) = rg_base_written r"
    "is_keyed (minted_with i k symb r) = is_keyed r" "keyed_field (minted_with i k symb r) = keyed_field r"
    "derived_of (minted_with i k symb r) = derived_of r"
  using assms by (simp_all add: minted_with_def mintable_def update_absent is_keyed_def keyed_field_def derived_of_def)

lemma book_mint:
  assumes b: "book keep I r" and m: "mintable i k symb r"
  shows "book keep (insert (i, k) I) (minted_with i k symb r)"
proof -
  let ?rel = "holdings (minted_rows (rg_minted r))"
  note f = minted_with_fields [OF m]
  have ok: "minted_ok (is_keyed r) (rc_id_allocation (rg_config r)) (rg_next_id r) (rg_minted r)"
    using b by (simp add: book_def)
  have fresh: "fresh_id r k i symb" using m by (simp add: mintable_def)
  note new = minted_ok_mint [OF ok m]
  have rel: "holdings (minted_rows (rg_minted r @ [(k, mint_of i symb)])) = insert (k, i) ?rel"
    by (simp add: mint_of_def)
  have "book_safe keep I (insert (k, i) ?rel) (next_after r) (derived_of r)"
    using b fresh_unheld [OF ok fresh] next_after_le [OF fresh]
    by (intro book_safe_new [where n = "rg_next_id r"]) (simp_all add: book_def minted_ids)
  then have "book_safe keep (insert (i, k) I) (insert (k, i) ?rel) (next_after r) (derived_of r)"
    using minted_ok_unique(1) [OF new] next_after_le(3) [OF fresh] unfolding rel
    by (intro book_safe_issue) auto
  moreover have "in_use_ok (minted_with i k symb r)"
    using b by (auto simp: in_use_ok_def book_def f(1) f(8)) (auto simp: minted_with_def mint_of_def)
  ultimately show ?thesis
    using b new by (simp add: book_def f rel)
qed

lemma book_mono: "book keep I' r \<Longrightarrow> I \<subseteq> I' \<Longrightarrow> book keep I r"
  unfolding book_def book_safe_def by blast

lemma agrees_ids: "agrees r R \<Longrightarrow> ste_instrument_id ` set (sr_entries R) = (\<lambda>(k, m). mi_instrument_id m) ` set (rg_minted r)"
  unfolding agrees_def record_rows_def minted_rows_def
  by (drule conjunct2)+ (drule arg_cong [of _ _ "\<lambda>rows. (\<lambda>(k, i, s, p). i) ` rows"],
    simp add: image_image case_prod_beta)

lemma agrees_keys: "agrees r R \<Longrightarrow> recall_key (is_keyed r) ` set (sr_entries R) = fst ` set (rg_minted r)"
  unfolding agrees_def record_rows_def minted_rows_def
  by (drule conjunct2)+ (drule arg_cong [of _ _ "\<lambda>rows. fst ` rows"], simp add: image_image case_prod_beta)

lemma mint_appendable:
  assumes a: "agrees r R" "config_ok (rg_config r)" and m: "mintable i k symb r"
    and ok: "minted_ok (is_keyed r) (rc_id_allocation (rg_config r)) (rg_next_id r) (rg_minted r)"
  shows "appendable R (entry_for (is_keyed r) k i symb None)"
    "agrees (minted_with i k symb r) (append_entry (entry_for (is_keyed r) k i symb None) R)"
proof -
  let ?e = "entry_for (is_keyed r) k i symb None"
  have fresh: "fresh_id r k i symb" "mint_ok (is_keyed r) (rc_id_allocation (rg_config r)) (next_after r) k i symb"
      "k \<notin> fst ` set (rg_minted r)"
    using m by (simp_all add: mintable_def)
  have derived: "rc_id_allocation (rg_config r) = DerivedKey \<longrightarrow> is_keyed r"
    using a(2) by (simp add: config_ok_def is_keyed_def)
  note e = mint_ok_entry [OF fresh(2) derived, of None]
  have unheld: "ste_instrument_id ?e \<notin> ste_instrument_id ` set (sr_entries R)"
    using fresh_unheld [OF ok fresh(1)] agrees_ids [OF a(1)] by simp
  have same: "sr_next_id R = rg_next_id r" "sr_allocation R = rc_id_allocation (rg_config r)"
      "sr_keyed R \<noteq> None \<longleftrightarrow> is_keyed r" "sr_keyed R = keyed_field r" "sr_source_id R = rc_source_id (rg_config r)"
      "record_rows (is_keyed r) (sr_entries R) = minted_rows (rg_minted r)"
    using a(1) by (simp_all add: agrees_def)
  show "appendable R ?e"
    using e unheld fresh(1,3) agrees_keys [OF a(1)] derivation_for [OF derived, of k i symb None]
    unfolding appendable_def same(1-3) by (auto simp: fresh_id_def split: if_splits)
  have "sr_next_id (append_entry ?e R) = next_after r"
    using unheld by (simp add: append_entry_def next_after_def same)
  moreover have "record_rows (is_keyed r) (sr_entries (append_entry ?e R)) =
      minted_rows (rg_minted r @ [(k, mint_of i symb)])"
    using rows_append_entry_new [OF unheld, of "is_keyed r"] e(2) same(6) by (simp add: mint_of_def)
  ultimately show "agrees (minted_with i k symb r) (append_entry ?e R)"
    by (simp add: agrees_def minted_with_fields [OF m] same)
qed

subsection \<open>A restatement\<close>

definition restated :: "bytes \<Rightarrow> 's registry \<Rightarrow> 's registry" where
  "restated key r = r\<lparr>rg_minted := AList.map_entry key (\<lambda>m. m\<lparr>mi_recorded_published := True\<rparr>) (rg_minted r)\<rparr>"

lemma map_entry_map: "distinct (map fst ms) \<Longrightarrow>
    AList.map_entry k f ms = map (\<lambda>(k', m). (k', if k' = k then f m else m)) ms"
proof (induction ms)
  case (Cons p ms)
  then show ?case
    by (cases p) (force simp: comp_def intro!: map_idI [symmetric] split: prod.split)
qed simp

lemma minted_rows_map: "minted_rows (map (\<lambda>(k, m). (k, g k m)) ms) =
    (\<lambda>(k, m). (k, mi_instrument_id (g k m), mi_symbol (g k m), mi_recorded_published (g k m))) ` set ms"
  by (induction ms) (auto simp: minted_rows_def)

lemma minted_rows_plain: "minted_rows ms =
    (\<lambda>(k, m). (k, mi_instrument_id m, mi_symbol m, mi_recorded_published m)) ` set ms"
  by (simp add: minted_rows_def)

text \<open>A change of the minted identifiers that keeps identifiers and symbols.\<close>

lemma map_entry_keeps:
  assumes "distinct (map fst ms)" "\<And>m. mi_instrument_id (f m) = mi_instrument_id m" "\<And>m. mi_symbol (f m) = mi_symbol m"
  shows "minted_ok keyed a n (AList.map_entry k f ms) = minted_ok keyed a n ms"
    "holdings (minted_rows (AList.map_entry k f ms)) = holdings (minted_rows ms)"
    "(\<lambda>(k, m). mi_instrument_id m) ` set (AList.map_entry k f ms) = (\<lambda>(k, m). mi_instrument_id m) ` set ms"
    "(\<And>m. mi_recorded_published (f m) = mi_recorded_published m) \<Longrightarrow>
      minted_rows (AList.map_entry k f ms) = minted_rows ms"
proof -
  let ?g = "\<lambda>(k', m). (k', if k' = k then f m else m)"
  have same: "mi_instrument_id (if b then f m else m) = mi_instrument_id m"
      "mi_symbol (if b then f m else m) = mi_symbol m" for b m
    by (simp_all add: assms(2,3))
  have each: "map fst (map ?g ms) = map fst ms"
      "map (\<lambda>(k, m). mi_instrument_id m) (map ?g ms) = map (\<lambda>(k, m). mi_instrument_id m) ms"
    by (auto simp: assms(2))
  have ball: "(\<forall>(k, m) \<in> set (map ?g ms). mint_ok keyed a n k (mi_instrument_id m) (mi_symbol m)) \<longleftrightarrow>
      (\<forall>(k, m) \<in> set ms. mint_ok keyed a n k (mi_instrument_id m) (mi_symbol m))"
    unfolding set_map ball_simps(9) by (intro ball_cong) (auto simp: same simp del: if_split)
  show "minted_ok keyed a n (AList.map_entry k f ms) = minted_ok keyed a n ms"
    unfolding minted_ok_def map_entry_map [OF assms(1)] each ball by (rule refl)
  show "holdings (minted_rows (AList.map_entry k f ms)) = holdings (minted_rows ms)"
    unfolding map_entry_map [OF assms(1)] minted_rows_map unfolding minted_rows_plain holdings_def image_image
    by (intro image_cong [OF refl]) (auto simp: assms(2))
  show "(\<lambda>(k, m). mi_instrument_id m) ` set (AList.map_entry k f ms) = (\<lambda>(k, m). mi_instrument_id m) ` set ms"
    unfolding map_entry_map [OF assms(1)] set_map image_image by (intro image_cong) (auto simp: assms(2))
  assume "\<And>m. mi_recorded_published (f m) = mi_recorded_published m"
  then have published: "mi_recorded_published (if b then f m else m) = mi_recorded_published m" for b m
    by simp
  show "minted_rows (AList.map_entry k f ms) = minted_rows ms"
    unfolding map_entry_map [OF assms(1)] minted_rows_map unfolding minted_rows_plain same published
    by (rule refl)
qed

lemma restated_rows:
  assumes ok: "minted_ok keyed a n (rg_minted r)" and m: "(k, m) \<in> set (rg_minted r)"
  shows "minted_rows (rg_minted (restated k r)) =
    (\<lambda>(k', i, s, p). (k', i, s, i = mi_instrument_id m \<or> p)) ` minted_rows (rg_minted r)"
proof -
  have minted: "rg_minted (restated k r) = AList.map_entry k (\<lambda>m. m\<lparr>mi_recorded_published := True\<rparr>) (rg_minted r)"
    by (simp add: restated_def)
  have d: "distinct (map fst (rg_minted r))" "distinct (map (\<lambda>(k, m). mi_instrument_id m) (rg_minted r))"
    using ok by (simp_all add: minted_ok_def)
  have "k' = k \<longleftrightarrow> mi_instrument_id m' = mi_instrument_id m" if "(k', m') \<in> set (rg_minted r)" for k' m'
  proof -
    have held: "(k', mi_instrument_id m') \<in> holdings (minted_rows (rg_minted r))"
        "(k, mi_instrument_id m) \<in> holdings (minted_rows (rg_minted r))"
      using m that by (auto simp: holdings_minted)
    show ?thesis
      using minted_ok_unique(1,2) [OF ok held(1)] held(2) by metis
  qed
  then show ?thesis
    unfolding minted map_entry_map [OF d(1)] minted_rows_map unfolding minted_rows_plain image_image
    by (intro image_cong [OF refl]) (auto split: if_splits)
qed

lemma restated_fields [simp]:
  "rg_config (restated k r) = rg_config r" "rg_next_id (restated k r) = rg_next_id r"
  "rg_store (restated k r) = rg_store r" "rg_base_written (restated k r) = rg_base_written r"
  "rg_in_use (restated k r) = rg_in_use r" "is_keyed (restated k r) = is_keyed r"
  "keyed_field (restated k r) = keyed_field r" "derived_of (restated k r) = derived_of r"
  by (simp_all add: restated_def is_keyed_def keyed_field_def derived_of_def)

lemma book_minted_map:
  assumes b: "book keep I r" and f: "\<And>m. mi_instrument_id (f m) = mi_instrument_id m" "\<And>m. mi_symbol (f m) = mi_symbol m"
  shows "book keep I (r\<lparr>rg_minted := AList.map_entry k f (rg_minted r)\<rparr>)"
proof -
  have "distinct (map fst (rg_minted r))"
    using b by (simp add: book_def minted_ok_def)
  note keeps = map_entry_keeps [OF this, of f, OF f]
  have "in_use_ok (r\<lparr>rg_minted := AList.map_entry k f (rg_minted r)\<rparr>) \<longleftrightarrow> (derived_of r \<longrightarrow>
      (\<forall>i \<in> (\<lambda>(k, m). mi_instrument_id m) ` set (AList.map_entry k f (rg_minted r)). rg_in_use r i \<noteq> None))"
    by (auto simp: in_use_ok_def derived_of_def)
  also have "\<dots> \<longleftrightarrow> in_use_ok r"
    unfolding keeps(3) by (auto simp: in_use_ok_def)
  finally show ?thesis
    using b keeps(1,2) by (simp add: book_def is_keyed_def derived_of_def)
qed

lemma book_restated: "book keep I r \<Longrightarrow> book keep I (restated k r)"
  unfolding restated_def by (rule book_minted_map) simp_all

lemma restate_appendable:
  assumes a: "agrees r R" "config_ok (rg_config r)" and m: "(k, m) \<in> set (rg_minted r)"
    and ok: "minted_ok (is_keyed r) (rc_id_allocation (rg_config r)) (rg_next_id r) (rg_minted r)"
    and sound: "list_all (entry_sound (is_keyed r)) (sr_entries R)"
  shows "appendable R (entry_for (is_keyed r) k (mi_instrument_id m) (mi_symbol m) None)"
    "agrees (restated k r) (append_entry (entry_for (is_keyed r) k (mi_instrument_id m) (mi_symbol m) None) R)"
proof -
  let ?e = "entry_for (is_keyed r) k (mi_instrument_id m) (mi_symbol m) None"
  have mint: "mint_ok (is_keyed r) (rc_id_allocation (rg_config r)) (rg_next_id r) k (mi_instrument_id m) (mi_symbol m)"
    using ok m by (auto simp: minted_ok_def)
  have derived: "rc_id_allocation (rg_config r) = DerivedKey \<longrightarrow> is_keyed r"
    using a(2) by (simp add: config_ok_def is_keyed_def)
  note e = mint_ok_entry [OF mint derived, of None]
  have same: "sr_next_id R = rg_next_id r" "sr_allocation R = rc_id_allocation (rg_config r)"
      "sr_keyed R \<noteq> None \<longleftrightarrow> is_keyed r" "sr_keyed R = keyed_field r" "sr_source_id R = rc_source_id (rg_config r)"
      "record_rows (is_keyed r) (sr_entries R) = minted_rows (rg_minted r)"
    using a(1) by (simp_all add: agrees_def)
  have "(k, mi_instrument_id m, mi_symbol m, mi_recorded_published m) \<in> record_rows (is_keyed r) (sr_entries R)"
    using row_of_minted [OF m] same(6) by simp
  then obtain e' where e': "e' \<in> set (sr_entries R)" "recall_key (is_keyed r) e' = k"
      "ste_instrument_id e' = mi_instrument_id m" "ste_symbol e' = mi_symbol m"
    unfolding record_rows_def by auto
  have "entry_key e' = entry_key ?e"
  proof (cases "is_keyed r")
    case True
    then show ?thesis using e'(2) e(2) by (simp add: recall_key_def)
  next
    case False
    then have "ste_venue_key e' = None"
      using sound e'(1) by (auto simp: list_all_iff entry_sound_def)
    then show ?thesis using False e'(4) by (simp add: entry_key_def entry_for_def key_field_def)
  qed
  moreover have held: "ste_instrument_id ?e \<in> ste_instrument_id ` set (sr_entries R)"
    using e'(1,3) by (metis entry_for_simps(1) image_eqI)
  ultimately show "appendable R ?e"
    using e e' unfolding appendable_def same(3) by auto
  have "record_rows (is_keyed r) (sr_entries (append_entry ?e R)) = minted_rows (rg_minted (restated k r))"
    using rows_append_entry_held [OF held, of "is_keyed r"] restated_rows [OF ok m] same(6) by simp
  moreover have "sr_next_id (append_entry ?e R) = rg_next_id r"
    using held by (simp add: append_entry_def same)
  ultimately show "agrees (restated k r) (append_entry ?e R)"
    by (simp add: agrees_def same)
qed

subsection \<open>Appending to the store\<close>

context durable_store
begin

text \<open>
  An append that the record takes, for a registry \<open>q\<close> that agrees with it: written down when it
  returns, and the old record or the new one when it fails.
\<close>

lemma append_ledger:
  assumes led: "placed r (content (rg_store r))" "rg_base_written r" "ok (rg_store r)"
    and books: "book keep I r" "book keep I q" "rg_config q = rg_config r" "rg_base_written q"
    and e: "\<And>R. agrees r R \<Longrightarrow> list_all (entry_sound (is_keyed r)) (sr_entries R) \<Longrightarrow>
      appendable R e \<and> agrees q (append_entry e R)"
    and w: "ss_append S (line_of (is_keyed r) e) (rg_store r) = (x, s')"
  shows "ok s'" "disk_safe (rc_identity (rg_config r)) keep I (content s')" "x = Inr u \<Longrightarrow> placed q (content s')"
    "content s' \<noteq> None"
proof -
  obtain bs where bs: "content (rg_store r) = Some bs" "written_down r bs"
    using led by (auto simp: placed_def)
  then obtain l where l: "record_load bs = Inr l" "agrees r (ld_record l)"
      "ld_version l = layout_version (rc_id_allocation (rg_config r)) (is_keyed r)"
      "entries_sound (is_keyed r) (rc_id_allocation (rg_config r)) (rg_next_id r) (sr_entries (ld_record l))"
    by (auto elim: written_down_sound)
  have new: "appendable (ld_record l) e" "agrees q (append_entry e (ld_record l))"
    using e [OF l(2)] l(4) by (simp_all add: entries_sound_def)
  note law = append [OF led(3) bs(1) w]
  obtain p where p: "prefix p (line_of (is_keyed r) e)" "content s' = Some (bs @ p)"
      "x = Inr u \<longrightarrow> p = line_of (is_keyed r) e"
    using law by (cases x) auto
  obtain l' where l': "record_load (bs @ p) = Inr l'"
      "ld_record l' = (if p = line_of (is_keyed r) e then append_entry e (ld_record l) else ld_record l)"
      "p = line_of (is_keyed r) e \<longrightarrow> \<not> ld_torn l' \<and> ld_version l' = ld_version l"
    using written_down_append [OF bs(2) new(1) l(1) refl p(1)] by blast
  show "ok s'" using law by simp
  show "content s' \<noteq> None" using p(2) by simp
  have "agrees q (ld_record l') \<or> agrees r (ld_record l')"
    using l'(2) new(2) l(2) by (cases "p = line_of (is_keyed r) e") simp_all
  then show "disk_safe (rc_identity (rg_config r)) keep I (content s')"
    using agrees_disk [OF l'(1)] books unfolding p(2) book_def by metis
  show "placed q (content s')" if "x = Inr u"
  proof -
    have "p = line_of (is_keyed r) e" using p(3) that by simp
    then have "written_down q (bs @ p)"
      using l' l(3) new(2) books(3) unfolding written_down_def is_keyed_def by auto
    then show ?thesis using books(4) p(2) by (simp add: placed_def)
  qed
qed

end

end
