(* ===== verification/Registry_Life.thy ===== *)
theory Registry_Life
  imports Registry_Ledger
begin

section \<open>The life of a registry\<close>

text \<open>
  Every run of the publisher over one state directory: the registry is opened, offered instruments,
  polled and ticked, stopped and opened again, and any call to the store may fail or be where the
  process ends. Whatever happens, an identifier that was published for a key is never published for
  another, and where nothing is ever forgotten the key keeps it.
\<close>

subsection \<open>Writing an identifier down\<close>

lemma book_cong:
  assumes "rg_config r' = rg_config r" "rg_next_id r' = rg_next_id r" "rg_in_use r' = rg_in_use r"
    "rg_minted r' = rg_minted r"
  shows "book keep I r' = book keep I r"
  using assms by (simp add: book_def in_use_ok_def is_keyed_def derived_of_def)

text \<open>The first base is written with the first mint.\<close>

lemma first_base:
  assumes "config_ok (rg_config r)" "rg_minted r = []" "mintable i key symb r"
  defines "R \<equiv> base_record (Some (i, key, symb, next_after r)) [] r"
  shows "record_wf R" "agrees (minted_with i key symb r) (in_id_order R)" "sr_keyed R = keyed_field r"
    "sr_allocation R = rc_id_allocation (rg_config r)"
proof -
  have R: "R = \<lparr>sr_source_id = rc_source_id (rg_config r), sr_next_id = next_after r,
      sr_entries = [entry_for (is_keyed r) key i symb None], sr_allocation = rc_id_allocation (rg_config r),
      sr_keyed = keyed_field r\<rparr>"
    using assms(2) by (simp add: R_def base_record_def keyed_field_def entry_for_def)
  have derived: "rc_id_allocation (rg_config r) = DerivedKey \<longrightarrow> is_keyed r"
    using assms(1) by (simp add: config_ok_def is_keyed_def)
  have "mint_ok (is_keyed r) (rc_id_allocation (rg_config r)) (next_after r) key i symb"
    using assms(3) by (simp add: mintable_def)
  note e = mint_ok_entry [OF this derived, of None]
  show "record_wf R"
    using e(1,3) config_ok_unkeyed [OF assms(1)] unfolding record_wf_def R by simp
  have "record_rows (is_keyed r) (sr_entries R) = {(key, i, symb, True)}"
    using e(2) by (simp add: R record_rows_def)
  then show "agrees (minted_with i key symb r) (in_id_order R)"
    by (simp add: agrees_def minted_with_fields [OF assms(3)] assms(2)) (simp add: R minted_rows_def)
  show "sr_keyed R = keyed_field r" "sr_allocation R = rc_id_allocation (rg_config r)"
    by (simp_all add: R)
qed

lemma agrees_written:
  assumes "record_wf R" "agrees q (in_id_order R)"
  shows "written_down q (record_encode R)"
proof -
  have same: "sr_allocation R = rc_id_allocation (rg_config q)" "sr_keyed R = keyed_field q"
    using assms(2) by (simp_all add: agrees_def)
  from base_loads [OF assms(1)] obtain l where "record_load (record_encode R) = Inr l" "\<not> ld_torn l"
      "ld_version l = layout_version (rc_id_allocation (rg_config q)) (is_keyed q)" "ld_record l = in_id_order R"
    unfolding same keyed_field_None(1) by (elim exE conjE)
  then show ?thesis
    using assms(2) unfolding written_down_def by metis
qed

context durable_store
begin

text \<open>A mint, appended or with the first base.\<close>

lemma persist_mint:
  assumes led: "ledger keep I r (content (rg_store r))" "ok (rg_store r)" and m: "mintable i key symb r"
    and p: "persist S i key symb (next_after r) r = (x, r')"
  shows "ok (rg_store r') \<and> rg_config r' = rg_config r \<and> disk_safe (rc_identity (rg_config r)) keep I (content (rg_store r')) \<and>
    (case x of Inr _ \<Rightarrow> ledger keep (insert (i, key) I) (minted_with i key symb r') (content (rg_store r')) \<and>
        rg_base_written r'
     | Inl _ \<Rightarrow> rg_fault r' \<noteq> None)"
proof (cases "rg_base_written r")
  case True
  have b: "book keep I r" "placed r (content (rg_store r))" using led(1) by (simp_all add: ledger_def)
  have ok: "minted_ok (is_keyed r) (rc_id_allocation (rg_config r)) (rg_next_id r) (rg_minted r)" "config_ok (rg_config r)"
    using b(1) by (simp_all add: book_def)
  let ?e = "entry_for (is_keyed r) key i symb None" and ?q = "minted_with i key symb r"
  have new: "book keep (insert (i, key) I) ?q" by (rule book_mint [OF b(1) m])
  have line: "line_of (is_keyed r) ?e = (if is_keyed r then encode_keyed_line i symb (venue_key_field key symb) else encode_line i symb)"
    using m by (intro line_of_entry) (auto simp: mintable_def)
  obtain y s' where y: "ss_append S (line_of (is_keyed r) ?e) (rg_store r) = (y, s')" by fastforce
  note law = append_ledger [OF b(2) True led(2) b(1) book_mono [OF new subset_insertI] minted_with_fields(3) [OF m] _ _ y]
  have a: "ok s'" "disk_safe (rc_identity (rg_config r)) keep I (content s')" "y = Inr u \<Longrightarrow> placed ?q (content s')"
      "content s' \<noteq> None" for u
    using law mint_appendable [OF _ ok(2) m ok(1)] minted_with_fields(5) [OF m] True by blast+
  show ?thesis
  proof (cases y)
    case (Inl e)
    then have "x = Inl Unpersistable" "r' = r\<lparr>rg_store := s', rg_fault := Some e\<rparr>"
      using p True y by (simp_all add: persist_def line Let_def)
    then show ?thesis using a by simp
  next
    case (Inr u)
    then have r': "x = Inr ()" "r' = r\<lparr>rg_store := s', rg_appended := rg_appended r + 1\<rparr>"
      using p True y by (simp_all add: persist_def line Let_def)
    have "ledger keep (insert (i, key) I) (minted_with i key symb r') (content s') =
        ledger keep (insert (i, key) I) ?q (content s')"
      by (rule ledger_cong) (simp_all add: r' minted_with_def derived_of_def next_after_def)
    then show ?thesis
      using a Inr new r' True by (simp add: ledger_def)
  qed
next
  case False
  have none: "book keep I r" "content (rg_store r) = None" "rg_minted r = []" "I = {}"
    using led(1) False by (auto simp: ledger_def placed_def)
  let ?R = "base_record (Some (i, key, symb, next_after r)) [] r"
  have "config_ok (rg_config r)" using none(1) by (simp add: book_def)
  note R = first_base [OF this none(3) m]
  obtain y s' where y: "ss_store S (record_encode ?R) (rg_store r) = (y, s')" by fastforce
  have law: "ok s'" "content s' = None \<or> content s' = Some (record_encode ?R)" "y = Inr u \<Longrightarrow> content s' = Some (record_encode ?R)" for u
    using store [OF led(2) y] none(2) by (auto split: sum.splits state_error.splits)
  have new: "written_down (minted_with i key symb r) (record_encode ?R)"
    by (rule agrees_written [OF R(1,2)])
  have safe: "disk_safe (rc_identity (rg_config r)) keep I (content s')"
  proof (cases "content s'")
    case (Some bs)
    then obtain l where l: "record_load bs = Inr l" "agrees (minted_with i key symb r) (ld_record l)"
      using law(2) new by (auto simp: written_down_def)
    then show ?thesis
      using agrees_disk [OF l, of keep I] none(4) Some by (simp add: minted_with_fields(3) [OF m])
  qed (simp add: disk_safe_def none(4))
  show ?thesis
  proof (cases y)
    case (Inl e)
    then have "x = Inl Unpersistable" "r' = r\<lparr>rg_store := s', rg_fault := Some e\<rparr>"
      using p False y by (simp_all add: persist_def write_base_def Let_def)
    then show ?thesis using law safe by simp
  next
    case (Inr u)
    then have r': "x = Inr ()" "rg_store r' = s'" "rg_config r' = rg_config r" "rg_next_id r' = rg_next_id r"
        "rg_in_use r' = rg_in_use r" "rg_minted r' = rg_minted r" "rg_base_written r'"
      using p False y none(3) by (auto simp add: persist_def write_base_def Let_def)
    have "book keep (insert (i, key) I) (minted_with i key symb r') = book keep (insert (i, key) I) (minted_with i key symb r)"
      by (rule book_cong) (simp_all add: r' minted_with_def derived_of_def next_after_def)
    moreover have "written_down (minted_with i key symb r') bs = written_down (minted_with i key symb r) bs" for bs
      by (simp add: written_down_def agrees_def is_keyed_def keyed_field_def r' minted_with_def derived_of_def next_after_def)
    moreover have "rg_base_written (minted_with i key symb r')"
      by (simp add: r' minted_with_def)
    ultimately show ?thesis
      using r' law Inr new safe book_mint [OF none(1) m] by (simp add: ledger_def placed_def)
  qed
qed

text \<open>A restatement, appended.\<close>

lemma persist_restate:
  assumes led: "ledger keep I r (content (rg_store r))" "ok (rg_store r)" and m: "(key, m) \<in> set (rg_minted r)"
    and p: "persist S (mi_instrument_id m) key (mi_symbol m) n r = (x, r')"
  shows "ok (rg_store r') \<and> rg_config r' = rg_config r \<and> disk_safe (rc_identity (rg_config r)) keep I (content (rg_store r')) \<and>
    (case x of Inr _ \<Rightarrow> ledger keep I (restated key r') (content (rg_store r')) \<and> rg_base_written r'
     | Inl _ \<Rightarrow> rg_fault r' \<noteq> None)"
proof -
  have written: "rg_base_written r"
    using led(1) m by (auto simp: ledger_def placed_def split: if_splits)
  have b: "book keep I r" "placed r (content (rg_store r))" using led(1) by (simp_all add: ledger_def)
  have ok: "minted_ok (is_keyed r) (rc_id_allocation (rg_config r)) (rg_next_id r) (rg_minted r)" "config_ok (rg_config r)"
    using b(1) by (simp_all add: book_def)
  let ?e = "entry_for (is_keyed r) key (mi_instrument_id m) (mi_symbol m) None"
  have line: "line_of (is_keyed r) ?e = (if is_keyed r
      then encode_keyed_line (mi_instrument_id m) (mi_symbol m) (venue_key_field key (mi_symbol m))
      else encode_line (mi_instrument_id m) (mi_symbol m))"
    using ok(1) m by (intro line_of_entry) (auto simp: minted_ok_def)
  obtain y s' where y: "ss_append S (line_of (is_keyed r) ?e) (rg_store r) = (y, s')" by fastforce
  note law = append_ledger [OF b(2) written led(2) b(1) book_restated [OF b(1), of key] restated_fields(1) _ _ y]
  have a: "ok s'" "disk_safe (rc_identity (rg_config r)) keep I (content s')" "y = Inr u \<Longrightarrow> placed (restated key r) (content s')"
      "content s' \<noteq> None" for u
    using law restate_appendable [OF _ ok(2) m ok(1)] restated_fields(4) [of key r] written by blast+
  show ?thesis
  proof (cases y)
    case (Inl e)
    then have "x = Inl Unpersistable" "r' = r\<lparr>rg_store := s', rg_fault := Some e\<rparr>"
      using p written y by (simp_all add: persist_def line Let_def)
    then show ?thesis using a by simp
  next
    case (Inr u)
    then have r': "x = Inr ()" "r' = r\<lparr>rg_store := s', rg_appended := rg_appended r + 1\<rparr>"
      using p written y by (simp_all add: persist_def line Let_def)
    have "ledger keep I (restated key r') (content s') = ledger keep I (restated key r) (content s')"
      by (rule ledger_cong) (simp_all add: r' restated_def)
    then show ?thesis
      using a Inr b(1) r' written by (auto simp: ledger_def book_restated)
  qed
qed

lemma record_id_ledger:
  assumes led: "ledger keep I r (content (rg_store r))" "ok (rg_store r)"
    and i: "i = instrument_id_for r (map_of (rg_minted r) key) key symb" "i \<noteq> 0"
      "map_of (rg_minted r) key = None \<longrightarrow> derived_of r \<longrightarrow> rg_next_id r \<le> i \<and> rg_in_use r i = None"
    and key: "length symb = SYMBOL_LEN" "if is_keyed r then is_venue_key key else key = symb"
    and w: "record_id S (map_of (rg_minted r) key) i key symb r = (x, r')"
  shows "ok (rg_store r') \<and> rg_config r' = rg_config r \<and>
    disk_safe (rc_identity (rg_config r)) keep I (content (rg_store r')) \<and>
    (case x of Inr _ \<Rightarrow> ledger keep (insert (i, key) I) r' (content (rg_store r')) \<and> rg_base_written r'
     | Inl _ \<Rightarrow> rg_fault r' \<noteq> None \<or> r' = r)"
proof (cases "map_of (rg_minted r) key")
  case None
  show ?thesis
  proof (cases "derived_of r \<or> rg_next_id r \<noteq> - 1")
    case False
    then have "checked_add (rg_next_id r) 1 = None"
      by (simp add: checked_add_def unsigned_minus_1_eq_mask mask_eq_exp_minus_1)
    then have "x = Inl IdSpaceExhausted" "r' = r"
      using w False None by (simp_all add: record_id_def derived_of_def)
    then show ?thesis using led ledger_disk [OF led(1)] by simp
  next
    case True
    have unheld: "key \<notin> fst ` set (rg_minted r)" using None by (simp add: map_of_eq_None_iff)
    have derived_id: "derived_of r \<Longrightarrow> own_derivation (rc_id_allocation (rg_config r)) key symb = Some i"
      using i(1) None by (cases "rc_id_allocation (rg_config r)")
        (simp_all add: derived_of_def own_derivation_def instrument_id_for_def)
    have unused: "derived_of r \<Longrightarrow> i \<notin> (\<lambda>(k, m). mi_instrument_id m) ` set (rg_minted r)"
      using led(1) i(3) None by (auto simp: ledger_def book_def in_use_ok_def)
    have sequential: "\<not> derived_of r \<Longrightarrow> i = rg_next_id r"
      using i(1) None by (cases "rc_id_allocation (rg_config r)") (simp_all add: instrument_id_for_def derived_of_def)
    have fresh: "fresh_id r key i symb"
      using True i(3) None derived_id unused sequential by (auto simp: fresh_id_def derived_of_def)
    moreover have "mint_ok (is_keyed r) (rc_id_allocation (rg_config r)) (next_after r) key i symb"
      using derived_id next_after_le(3) [OF fresh] i(2) key by (cases "derived_of r") (auto simp: mint_ok_def)
    ultimately have m: "mintable i key symb r"
      using unheld by (simp add: mintable_def)
    have nxt: "(if is_derived (rc_id_allocation (rg_config r)) then Some (rg_next_id r) else checked_add (rg_next_id r) 1) =
        Some (next_after r)"
      using True less_next [of "rg_next_id r"]
      by (auto simp: next_after_def derived_of_def checked_add_def word_less_nat_alt unat_word_ariths)
    obtain y r1 where y: "persist S i key symb (next_after r) r = (y, r1)" by fastforce
    note p = persist_mint [OF led m y]
    show ?thesis
    proof (cases y)
      case (Inl e)
      then have "x = Inl e" "r' = r1"
        using w None nxt y by (simp_all add: record_id_def Let_def)
      then show ?thesis using p Inl by simp
    next
      case (Inr u)
      have same: "rg_config r1 = rg_config r" "rg_next_id r1 = rg_next_id r"
        using p y by (auto simp: persist_def write_base_def Let_def split: if_splits prod.splits sum.splits)
      then have "derived_of r1 = derived_of r" "next_after r1 = next_after r"
        by (simp_all add: derived_of_def next_after_def)
      then have "r' = minted_with i key symb r1" "x = Inr ()"
        using w None nxt y Inr by (simp_all add: record_id_def Let_def minted_with_def mint_of_def derived_of_def)
      moreover have "rg_store (minted_with i key symb r1) = rg_store r1" "rg_config (minted_with i key symb r1) = rg_config r1"
          "rg_base_written (minted_with i key symb r1) = rg_base_written r1"
        by (simp_all add: minted_with_def)
      ultimately show ?thesis
        using p Inr same by simp
    qed
  qed
next
  case (Some m)
  have m: "(key, m) \<in> set (rg_minted r)" and i_m: "i = mi_instrument_id m"
    using Some i(1) by (auto simp: instrument_id_for_def dest: map_of_SomeD)
  have ok: "minted_ok (is_keyed r) (rc_id_allocation (rg_config r)) (rg_next_id r) (rg_minted r)"
    using led(1) by (simp add: ledger_def book_def)
  have held: "(key, i) \<in> holdings (minted_rows (rg_minted r))"
    using m i_m by (auto simp: holdings_minted)
  have issue: "book keep (insert (i, key) I) q" if "book keep I q" "rg_config q = rg_config r" "rg_next_id q = rg_next_id r"
      "holdings (minted_rows (rg_minted q)) = holdings (minted_rows (rg_minted r))" for q
    using that held minted_ok_unique [OF ok]
    by (auto simp: book_def derived_of_def intro!: book_safe_issue)
  have written: "rg_base_written r"
    using led(1) m by (auto simp: ledger_def placed_def split: if_splits)
  then have stored: "content (rg_store r) \<noteq> None"
    using led(1) by (auto simp: ledger_def placed_def)
  show ?thesis
  proof (cases "mi_recorded_published m")
    case True
    then have "x = Inr ()" "r' = r" using w Some by (simp_all add: record_id_def)
    then show ?thesis
      using led issue [of r] written stored ledger_disk [OF led(1)] by (simp add: ledger_def)
  next
    case False
    obtain y r1 where y: "persist S i key (mi_symbol m) (rg_next_id r) r = (y, r1)" by fastforce
    note p = persist_restate [OF led m y [unfolded i_m]]
    show ?thesis
    proof (cases y)
      case (Inl e)
      then have "x = Inl e" "r' = r1" using w Some False y by (simp_all add: record_id_def)
      then show ?thesis using p Inl by simp
    next
      case (Inr u)
      then have r': "x = Inr ()" "r' = restated key r1"
        using w Some False y by (simp_all add: record_id_def restated_def)
      have same: "rg_config r1 = rg_config r" "rg_next_id r1 = rg_next_id r" "rg_minted r1 = rg_minted r"
        using p y written by (auto simp: persist_def Let_def split: if_splits prod.splits sum.splits)
      have "distinct (map fst (rg_minted r1))" using ok same(3) by (simp add: minted_ok_def)
      then have "holdings (minted_rows (rg_minted (restated key r1))) = holdings (minted_rows (rg_minted r))"
        using map_entry_keeps(2) [of "rg_minted r1" "\<lambda>m. m\<lparr>mi_recorded_published := True\<rparr>" key] same(3)
        by (simp add: restated_def)
      then have "book keep I (restated key r1) \<Longrightarrow> book keep (insert (i, key) I) (restated key r1)"
        by (intro issue) (simp_all add: same)
      then show ?thesis
        using p Inr r' by (auto simp: ledger_def placed_def)
    qed
  qed
qed

subsection \<open>Compacting and opening\<close>

lemma compact_base:
  assumes b: "book keep I r" "content (rg_store r) \<noteq> None" "ok (rg_store r)"
    "disk_safe (rc_identity (rg_config r)) keep I (content (rg_store r))" and w: "compact S opening r = (x, r')"
  shows "ok (rg_store r') \<and> rg_config r' = rg_config r \<and>
    disk_safe (rc_identity (rg_config r)) keep I (content (rg_store r')) \<and>
    (case x of Inl _ \<Rightarrow> True
     | Inr rewritten \<Rightarrow> if rewritten then ledger keep I r' (content (rg_store r'))
         else (\<exists>n. r' = r\<lparr>rg_store := rg_store r', rg_compaction_at := n\<rparr>) \<and>
           content (rg_store r') = content (rg_store r))"
proof -
  define fo where "fo = (if opening \<or> compaction_due r then forgettable (now_s (rg_clock r)) r else [])"
  have may: "may_forget keep fo r"
    using forgettable_may [OF b(1)] by (simp add: fo_def may_forget_def)
  obtain y r1 where y: "write_base S None fo r = (y, r1)" by fastforce
  note base = write_base_ledger [OF b(1) may b(3,2,4) y]
  show ?thesis
  proof (cases "\<not> compaction_due r \<and> fo = []")
    case True
    then have "x = Inr False" "r' = r" using w by (auto simp: compact_def Let_def fo_def split: if_splits)
    moreover have "\<exists>n. r = r\<lparr>rg_compaction_at := n\<rparr>" by (rule exI [of _ "rg_compaction_at r"]) simp
    ultimately show ?thesis using b by simp
  next
    case False
    then have w': "(x, r') = (case write_base S None fo r of (Inr _, r) \<Rightarrow> (Inr True, r)
       | (Inl (NotReplaced e), r) \<Rightarrow>
           (Inr False, r\<lparr>rg_compaction_at := rg_appended r + max (rg_base_entries r) COMPACTION_FLOOR\<rparr>)
       | (Inl e, r) \<Rightarrow> (Inl e, r))"
      using w unfolding compact_def Let_def fo_def [symmetric] by (metis (no_types, lifting))
    show ?thesis
    proof (cases "\<exists>e. y = Inl (NotReplaced e)")
      case True
      then have x: "x = Inr False" "\<exists>n. r' = r1\<lparr>rg_compaction_at := n\<rparr>"
        using w' y by auto
      moreover have r1: "r1 = r\<lparr>rg_store := rg_store r1\<rparr>" "content (rg_store r1) = content (rg_store r)" "ok (rg_store r1)"
        using base True by auto
      ultimately obtain n where "r' = r\<lparr>rg_store := rg_store r1, rg_compaction_at := n\<rparr>" by metis
      then show ?thesis
        using x(1) r1(2,3) b(4) by auto
    next
      case False
      then show ?thesis
        using base w' y by (auto split: sum.splits state_error.splits)
    qed
  qed
qed

lemma compact_ledger:
  assumes led: "ledger keep I r (content (rg_store r))" "ok (rg_store r)" "rg_base_written r"
    and w: "compact S opening r = (x, r')"
  shows "ok (rg_store r') \<and> rg_config r' = rg_config r \<and>
    disk_safe (rc_identity (rg_config r)) keep I (content (rg_store r')) \<and>
    (case x of Inr b \<Rightarrow> ledger keep I r' (content (rg_store r')) | Inl _ \<Rightarrow> True)"
proof -
  have "book keep I r" "content (rg_store r) \<noteq> None"
    using led by (auto simp: ledger_def placed_def)
  note base = compact_base [OF this led(2) ledger_disk [OF led(1)] w]
  have "ledger keep I (r\<lparr>rg_store := s, rg_compaction_at := n\<rparr>) c = ledger keep I r c" for s n c
    by (rule ledger_cong) simp_all
  then show ?thesis
    using base led(1) by (auto split: sum.splits if_splits) metis+
qed

end

lemma fold_update: "distinct (map key es) \<Longrightarrow> (\<forall>e \<in> set es. key e \<notin> fst ` set acc) \<Longrightarrow>
    fold (\<lambda>e. AList.update (key e) (v e)) es acc = acc @ map (\<lambda>e. (key e, v e)) es"
proof (induction es arbitrary: acc)
  case (Cons e es)
  then have "AList.update (key e) (v e) acc = acc @ [(key e, v e)]"
    by (intro update_absent) simp
  moreover have "\<forall>e' \<in> set es. key e' \<noteq> key e"
    using Cons.prems(1) imageI [of _ "set es" key] by (metis distinct.simps(2) list.simps(9) list.set_map)
  ultimately show ?case
    using Cons.prems Cons.IH [of "acc @ [(key e, v e)]"] by (auto simp: image_iff)
qed simp

lemma foldl_held: "m i \<noteq> None \<or> i \<in> f ` set es \<Longrightarrow> foldl (\<lambda>m e. m(f e \<mapsto> g e)) m es i \<noteq> None"
  by (induction es arbitrary: m) auto

text \<open>The minted identifiers a record is read into.\<close>

definition minted_entry :: "clock \<Rightarrow> state_entry \<Rightarrow> minted_id" where
  "minted_entry clk e = \<lparr>mi_instrument_id = ste_instrument_id e, mi_symbol = ste_symbol e,
     mi_recorded_published = (ste_delisted_at e = None),
     mi_last_published_s = (case ste_delisted_at e of None \<Rightarrow> stamp_s clk | Some at \<Rightarrow> at)\<rparr>"

lemma registry_of_fields [simp]:
  "rg_config (registry_of c s clk l) = c" "rg_store (registry_of c s clk l) = s"
  "rg_clock (registry_of c s clk l) = clk" "rg_base_written (registry_of c s clk l) \<longleftrightarrow> l \<noteq> None"
  "rg_slots (registry_of c s clk l) = []" "rg_handles (registry_of c s clk l) = Map.empty"
  "rg_fault (registry_of c s clk l) = None" "rg_phase (registry_of c s clk l) = Seeding"
  "is_keyed (registry_of c s clk l) \<longleftrightarrow> rc_identity c = VenueKeyIdentity"
  "derived_of (registry_of c s clk l) = is_derived (rc_id_allocation c)"
  "rg_next_id (registry_of c s clk (Some l')) = sr_next_id (ld_record l')"
  "rg_minted (registry_of c s clk None) = []"
  by (simp_all add: registry_of_def Let_def is_keyed_def derived_of_def empty_record_def)

lemma registry_of_minted:
  assumes "distinct (map (recall_key (rc_identity c = VenueKeyIdentity)) (sr_entries (ld_record l)))"
  shows "rg_minted (registry_of c s clk (Some l)) =
    map (\<lambda>e. (recall_key (rc_identity c = VenueKeyIdentity) e, minted_entry clk e)) (sr_entries (ld_record l))"
  using fold_update [OF assms, of "[]" "minted_entry clk"]
  by (simp add: registry_of_def Let_def minted_entry_def)

lemma check_record_facts:
  assumes "check_record c R = Inr ()"
  shows "sr_source_id R = rc_source_id c"
    "is_derived (sr_allocation R) \<Longrightarrow> sr_allocation R = rc_id_allocation c"
    "sr_keyed R \<noteq> None \<Longrightarrow> rc_identity c = VenueKeyIdentity \<and> sr_keyed R = Some (rc_venue_keys c)"
proof -
  show "sr_source_id R = rc_source_id c"
    using assms by (auto simp: check_record_def split: if_splits)
  show "is_derived (sr_allocation R) \<Longrightarrow> sr_allocation R = rc_id_allocation c"
    using assms by (cases "rc_id_allocation c") (auto simp: check_record_def split: if_splits)
  show "sr_keyed R \<noteq> None \<Longrightarrow> rc_identity c = VenueKeyIdentity \<and> sr_keyed R = Some (rc_venue_keys c)"
    using assms by (auto simp: check_record_def check_keys_def split: if_splits identity.splits)
qed

lemma entry_mint_ok:
  assumes "entry_sound keyed e" "id_admitted a n e" "is_derived a \<longrightarrow> a = a'" "a' = DerivedKey \<longrightarrow> keyed"
  shows "mint_ok keyed a' n (recall_key keyed e) (ste_instrument_id e) (ste_symbol e)"
  using assms by (cases a; cases a'; cases "ste_venue_key e")
    (auto simp: mint_ok_def entry_sound_def id_admitted_def own_derivation_def recall_key_def entry_key_def)

lemma book_registry_of:
  assumes c: "config_ok c" "keep \<longrightarrow> rc_forget_delisted_after c = None" "check_record c (ld_record l) = Inr ()"
    and l: "record_load bs = Inr l" and safe: "disk_safe (rc_identity c) keep I (Some bs)"
  shows "book keep I (registry_of c s clk (Some l))"
    "minted_rows (rg_minted (registry_of c s clk (Some l))) = record_rows (rc_identity c = VenueKeyIdentity) (sr_entries (ld_record l))"
    "sr_keyed (ld_record l) = keyed_field (registry_of c s clk (Some l))"
proof -
  let ?K = "rc_identity c = VenueKeyIdentity" and ?R = "ld_record l" and ?r = "registry_of c s clk (Some l)"
  have keyed: "sr_keyed ?R \<noteq> None \<longleftrightarrow> ?K"
    using safe l by (simp add: disk_safe_def)
  then show "sr_keyed ?R = keyed_field ?r"
    using check_record_facts(3) [OF c(3)] by (cases "sr_keyed ?R") (simp_all add: keyed_field_def)
  have sound: "entries_sound ?K (sr_allocation ?R) (sr_next_id ?R) (sr_entries ?R)"
    using loads_sound [OF l] keyed by simp
  then have d: "distinct (map (recall_key ?K) (sr_entries ?R))" "distinct (map ste_instrument_id (sr_entries ?R))"
    by (simp_all add: entries_sound_def)
  note minted = registry_of_minted [OF d(1), of s clk]
  show rows: "minted_rows (rg_minted ?r) = record_rows ?K (sr_entries ?R)"
    unfolding minted minted_rows_def record_rows_def set_map image_image
    by (intro image_cong [OF refl]) (simp add: minted_entry_def)
  have "mint_ok ?K (rc_id_allocation c) (sr_next_id ?R) (recall_key ?K e) (ste_instrument_id e) (ste_symbol e)"
    if "e \<in> set (sr_entries ?R)" for e
    using sound that check_record_facts(2) [OF c(3)] c(1)
    by (intro entry_mint_ok [where a = "sr_allocation ?R"]) (auto simp: entries_sound_def list_all_iff config_ok_def)
  then have "minted_ok ?K (rc_id_allocation c) (sr_next_id ?R) (rg_minted ?r)"
    using d unfolding minted minted_ok_def by (auto simp: comp_def minted_entry_def)
  moreover have "in_use_ok ?r"
    unfolding in_use_ok_def minted
    by (auto simp: registry_of_def Let_def derived_of_def minted_entry_def intro!: foldl_held [THEN not_None_eq [THEN iffD1]])
  moreover have "book_safe keep I (holdings (minted_rows (rg_minted ?r))) (sr_next_id ?R) (is_derived (rc_id_allocation c))"
    using safe l check_record_facts(2) [OF c(3)] unfolding rows
    by (cases "is_derived (sr_allocation ?R)") (auto simp: disk_safe_def intro: book_safe_derived)
  ultimately show "book keep I ?r"
    using c(1,2) by (simp add: book_def)
qed

context durable_store
begin

text \<open>The rewrite, the compaction or the cut of an opening.\<close>

lemma settle_ledger:
  assumes b: "book keep I r" "ok (rg_store r)" "content (rg_store r) = Some bs" "rg_base_written r"
    and l: "record_load bs = Inr l" "minted_rows (rg_minted r) = record_rows (is_keyed r) (sr_entries (ld_record l))"
      "sr_keyed (ld_record l) = keyed_field r" "sr_next_id (ld_record l) = rg_next_id r"
      "sr_source_id (ld_record l) = rc_source_id (rg_config r)"
    and safe: "disk_safe (rc_identity (rg_config r)) keep I (Some bs)" and w: "settle S l r = (x, r')"
  shows "ok (rg_store r') \<and> rg_config r' = rg_config r \<and>
    disk_safe (rc_identity (rg_config r)) keep I (content (rg_store r')) \<and>
    (case x of Inr _ \<Rightarrow> ledger keep I r' (content (rg_store r')) | Inl _ \<Rightarrow> True)"
proof (cases "needs_rewrite l (rc_identity (rg_config r)) \<or> sr_allocation (ld_record l) \<noteq> rc_id_allocation (rg_config r)")
  case True
  obtain y r1 where y: "write_base S None (forgettable (now_s (rg_clock r)) r) r = (y, r1)" by fastforce
  note base = write_base_ledger [OF b(1) forgettable_may [OF b(1)] b(2) _ _ y, unfolded b(3), OF _ safe]
  have "(x = Inr () \<and> y = Inr () \<or> (\<exists>e. x = Inl e)) \<and> r' = r1"
    using w True y by (auto simp: settle_def split: sum.splits)
  then show ?thesis
    using base by auto
next
  case False
  obtain y r1 where y: "compact S True r = (y, r1)" by fastforce
  have "content (rg_store r) \<noteq> None" using b(3) by simp
  note base = compact_base [OF b(1) this b(2) _ y, unfolded b(3), OF safe]
  let ?l = "l\<lparr>ld_torn := False\<rparr>"
  have agree: "agrees r (ld_record l)" "ld_version l = layout_version (rc_id_allocation (rg_config r)) (is_keyed r)"
    using False l(2-5) by (simp_all add: agrees_def needs_rewrite_def is_keyed_def)
  have led: "ledger keep I (r\<lparr>rg_store := s, rg_compaction_at := n\<rparr>) (Some c)" if "record_load c = Inr ?l" for c s n
  proof -
    have "written_down r c" using that agree by (auto simp: written_down_def)
    then have "ledger keep I r (Some c)" using b(1,4) by (simp add: ledger_def placed_def)
    moreover have "ledger keep I (r\<lparr>rg_store := s, rg_compaction_at := n\<rparr>) (Some c) = ledger keep I r (Some c)"
      by (rule ledger_cong) simp_all
    ultimately show ?thesis by simp
  qed
  consider e where "y = Inl e" | "y = Inr True" | "y = Inr False" by (cases y) auto
  then show ?thesis
  proof cases
    case (1 e)
    then have "x = Inl (StateUnusable e)" "r' = r1" using w False y by (simp_all add: settle_def)
    then show ?thesis using base by simp
  next
    case 2
    then have "x = Inr ()" "r' = r1" using w False y by (simp_all add: settle_def)
    then show ?thesis using base 2 by simp
  next
    case 3
    then obtain n where r1: "r1 = r\<lparr>rg_store := rg_store r1, rg_compaction_at := n\<rparr>"
        "content (rg_store r1) = Some bs" "ok (rg_store r1)"
      using base by auto
    show ?thesis
    proof (cases "ld_torn l")
      case False
      then have "x = Inr ()" "r' = r1" "?l = l" using w \<open>\<not> (_ \<or> _)\<close> y 3 by (simp_all add: settle_def)
      then show ?thesis
        using base 3 led [of bs n "rg_store r1"] l(1) r1 by simp
    next
      case True
      obtain z s' where z: "ss_truncate S (ld_complete l) (rg_store r1) = (z, s')" by fastforce
      note cut = record_cut [OF l(1)]
      note law = truncate [OF r1(3,2) cut(1) z]
      have "disk_safe (rc_identity (rg_config r)) keep I (Some (take (ld_complete l) bs))"
        using safe l(1) cut(2) by (simp add: disk_safe_def)
      then have "ok s'" "disk_safe (rc_identity (rg_config r)) keep I (content s')"
        using law safe by (auto split: sum.splits)
      moreover have "r' = r1\<lparr>rg_store := s'\<rparr>" "z = Inr u \<Longrightarrow> x = Inr ()" "z = Inl e \<Longrightarrow> \<exists>e. x = Inl e" for u e
        using w \<open>\<not> (_ \<or> _)\<close> y 3 True z by (auto simp: settle_def split: sum.splits)
      moreover have "r1\<lparr>rg_store := s'\<rparr> = r\<lparr>rg_store := s', rg_compaction_at := n\<rparr>"
        by (subst r1(1)) simp
      ultimately show ?thesis
        using law led [OF cut(2)] by (cases z) auto
    qed
  qed
qed

lemma claim_content:
  "ok s \<Longrightarrow> ss_claim S s = (x, s') \<Longrightarrow> ok s' \<and> content s' = content s"
  "ok s \<Longrightarrow> ss_load S s = (y, s') \<Longrightarrow> ok s' \<and> content s' = content s \<and> (\<forall>c. y = Inr c \<longrightarrow> c = content s)"
  using claim [of s x s'] load [of s y s'] by (blast, cases y, auto)

lemma open_ledger:
  assumes s: "ok s" "disk_safe (rc_identity c) keep I (content s)" and c: "keep \<longrightarrow> rc_forget_delisted_after c = None"
    and w: "registry_open S c clk clk' s = (x, s')"
  shows "ok s' \<and> disk_safe (rc_identity c) keep I (content s') \<and>
    (case x of Inl _ \<Rightarrow> True | Inr r \<Rightarrow> rg_store r = s' \<and> rg_config r = c \<and> ledger keep I r (content s'))"
proof (cases "check_config c")
  case (Inl e)
  then show ?thesis using s w by (auto simp: registry_open_def)
next
  case (Inr u)
  then have conf: "config_ok c" by (simp add: check_config_ok)
  obtain y1 s1 where y1: "ss_claim S s = (y1, s1)" by fastforce
  obtain y2 s2 where y2: "ss_load S s1 = (y2, s2)" by fastforce
  have s1: "ok s1" "content s1 = content s" and s2: "ok s2" "content s2 = content s" "\<And>c. y2 = Inr c \<Longrightarrow> c = content s"
    using claim_content(1) [OF s(1) y1] claim_content(2) [OF _ y2] by auto
  show ?thesis
  proof (cases "\<exists>b. y1 = Inr () \<and> y2 = Inr b")
    case False
    then have "x = Inl e \<Longrightarrow> s' = s1 \<or> s' = s2" "x \<noteq> Inr r" for e r
      using w Inr y1 y2 by (auto simp: registry_open_def split: sum.splits state_error.splits)
    then show ?thesis using s s1 s2 by (cases x) auto
  next
    case True
    then obtain b where b: "y1 = Inr ()" "y2 = Inr b" "content s = b" using s2(3) by auto
    show ?thesis
    proof (cases b)
      case None
      have none: "minted_ok k a n []" "I = {}" for k a n
        using s(2) b(3) None by (simp_all add: minted_ok_def disk_safe_def)
      have "ledger keep I (registry_of c s2 clk None\<lparr>rg_clock := clk'\<rparr>) None =
          ledger keep I (registry_of c s2 clk None) None"
        by (rule ledger_cong) simp_all
      moreover have "ledger keep I (registry_of c s2 clk None) None"
        using conf c none by (simp add: ledger_def book_def placed_def in_use_ok_def)
      ultimately show ?thesis
        using w Inr y1 y2 b s2 None s(2)
        by (auto simp: registry_open_def split: sum.splits)
    next
      case (Some bs)
      show ?thesis
      proof (cases "\<exists>l. record_load bs = Inr l \<and> check_record c (ld_record l) = Inr ()")
        case False
        then have "s' = s2" "\<exists>e. x = Inl e"
          using w Inr y1 y2 b Some by (auto simp: registry_open_def split: sum.splits)
        then show ?thesis using s2 s(2) by auto
      next
        case True
        then obtain l where l: "record_load bs = Inr l" "check_record c (ld_record l) = Inr ()" by auto
        let ?r = "registry_of c s2 clk (Some l)"
        let ?q = "?r\<lparr>rg_clock := clk'\<rparr>"
        obtain z r where z: "settle S l ?q = (z, r)" by fastforce
        have safe: "disk_safe (rc_identity c) keep I (Some bs)" using s(2) b(3) Some by simp
        note of = book_registry_of [OF conf c l(2,1) safe, of s2 clk]
        have "book keep I ?q = book keep I ?r" by (rule book_cong) simp_all
        moreover have "is_keyed ?q = is_keyed ?r" "keyed_field ?q = keyed_field ?r"
          by (simp_all add: is_keyed_def keyed_field_def)
        ultimately have "ok (rg_store r) \<and> rg_config r = rg_config ?q \<and>
            disk_safe (rc_identity (rg_config ?q)) keep I (content (rg_store r)) \<and>
            (case z of Inr _ \<Rightarrow> ledger keep I r (content (rg_store r)) | Inl _ \<Rightarrow> True)"
          using of l safe s2 b(3) Some check_record_facts(1) [OF l(2)]
          by (intro settle_ledger [OF _ _ _ _ l(1) _ _ _ _ _ z]) simp_all
        moreover have "s' = rg_store r" "x = map_sum id (\<lambda>_. r) z"
          using w Inr y1 y2 b Some l z by (auto simp: registry_open_def split: sum.splits)
        ultimately show ?thesis by (cases z) simp_all
      qed
    qed
  qed
qed

end

subsection \<open>Operations that write nothing\<close>

definition slot_ids :: "'s registry \<Rightarrow> u32 option list" where
  "slot_ids r = map (map_option (\<lambda>e. idef_instrument_id (pb_definition e))) (rg_slots r)"

text \<open>Every instrument that is published has been issued.\<close>

definition live :: "issues \<Rightarrow> 's registry \<Rightarrow> bool" where
  "live I r \<longleftrightarrow> (\<forall>n i k. n < length (slot_ids r) \<longrightarrow> slot_ids r ! n = Some i \<longrightarrow> rg_slot_keys r ! n = Some k \<longrightarrow> (i, k) \<in> I)"

definition same_ledger :: "'s registry \<Rightarrow> 's registry \<Rightarrow> bool" where
  "same_ledger r r' \<longleftrightarrow> rg_config r' = rg_config r \<and> rg_next_id r' = rg_next_id r \<and> rg_in_use r' = rg_in_use r \<and>
     rg_base_written r' = rg_base_written r \<and> rg_minted r' = rg_minted r \<and> rg_store r' = rg_store r \<and>
     rg_fault r' = rg_fault r"

definition same_book :: "'s registry \<Rightarrow> 's registry \<Rightarrow> bool" where
  "same_book r r' \<longleftrightarrow> same_ledger r r' \<and> slot_ids r' = slot_ids r \<and> rg_slot_keys r' = rg_slot_keys r"

lemma set_text_id:
  "set_symbol d v = (d', f) \<Longrightarrow> idef_instrument_id d' = idef_instrument_id d"
  "set_leg set_leg1 leg d = (d', g) \<Longrightarrow> idef_instrument_id d' = idef_instrument_id d"
  "set_leg set_leg2 leg d = (d', g) \<Longrightarrow> idef_instrument_id d' = idef_instrument_id d"
  by (auto simp: set_symbol_def set_leg_def set_leg1_def set_leg2_def Let_def split: option.splits prod.splits)

lemma compose_id: "compose spec i src = Inr co \<Longrightarrow> idef_instrument_id (co_definition co) = i"
  by (auto simp: compose_def Let_def dest!: set_text_id split: if_splits option.splits prod.splits)

lemma same_book_refl [simp]: "same_book r r"
  by (simp add: same_book_def same_ledger_def)

lemma same_book_simps [simp]:
  "same_book r (set_changed i q) = same_book r q" "same_book r (update_counts g q) = same_book r q"
  "same_book r (update_set i f q) = same_book r q" "same_book r (count_refusal x q) = same_book r q"
  "same_book r (count_fits fs q) = same_book r q" "same_book r (remember_unknown_shard n q) = same_book r q"
  "same_book r (remember_unavailable k s j q) = same_book r q"
  by (simp_all add: same_book_def same_ledger_def slot_ids_def)

lemma same_book_slots:
  "map (map_option (\<lambda>e. idef_instrument_id (pb_definition e))) xs = slot_ids q \<Longrightarrow> same_book r (q\<lparr>rg_slots := xs\<rparr>) = same_book r q"
  by (simp add: same_book_def same_ledger_def slot_ids_def)

lemma same_book_update_slot:
  assumes "registry_slot q h = Some e" "idef_instrument_id (pb_definition (f e)) = idef_instrument_id (pb_definition e)"
  shows "same_book r (update_slot h f q) = same_book r q"
proof -
  note u = update_slot_fields [OF assms(1)]
  have "map (map_option (\<lambda>e. idef_instrument_id (pb_definition e))) ((rg_slots q)[unat h := Some (f e)]) = slot_ids q"
    using u(1,2) assms(2) by (simp add: slot_ids_def map_update list_update_same_conv)
  then show ?thesis by (simp add: u(3) same_book_slots)
qed

lemma same_book_reoffer: "same_book r (reoffer h shard spec r)"
proof (cases "registry_slot r h")
  case (Some e)
  have slot: "registry_slot (count_fits fs r) h = Some e" for fs
    using Some unfolding registry_slot_def report_frames by assumption
  show ?thesis
    using Some compose_id by (auto simp: reoffer_def same_book_update_slot [OF slot] split: sum.split)
qed (simp add: reoffer_def)

lemma same_book_state_strike: "same_book r (snd (state_strike h stated r))"
proof (cases "registry_slot r h")
  case (Some e)
  have "same_book r (replace_strike h e k r)" for k
    by (simp add: replace_strike_def Let_def same_book_update_slot [OF Some])
  then have "same_book r (snd (restate_strike h e stated r))"
    by (auto simp: restate_strike_def Let_def same_book_update_slot [OF Some] split: sum.split option.split)
  then show ?thesis
    using Some by (auto simp: state_strike_def split: prod.split sum.split)
qed (simp add: state_strike_def)

lemma same_but_defined_ids:
  assumes "same_but_defined xs ys"
  shows "map (map_option (\<lambda>e. idef_instrument_id (pb_definition e))) ys = map (map_option (\<lambda>e. idef_instrument_id (pb_definition e))) xs"
proof -
  let ?id = "\<lambda>e. idef_instrument_id (pb_definition e)"
  have undef: "map (map_option ?id) (map (map_option undefined_entry) zs) = map (map_option ?id) zs" for zs
    by (simp add: option.map_comp comp_def undefined_entry_def)
  show ?thesis
    using arg_cong [OF assms [unfolded same_but_defined_def], of "map (map_option ?id)"] unfolding undef by (rule sym)
qed

lemma same_book_definition_tick: "same_book r (snd (definition_tick shard r))"
proof -
  have "same_book r (r\<lparr>rg_slots := wk_slots (walk_passes k index seq w)\<rparr>)" if "wk_slots w = rg_slots r"
    for k index seq and w :: tick_walk
    using same_but_defined_ids [OF walk_passes_slots [of w k index seq]] that
    by (subst same_book_slots) (simp_all add: slot_ids_def del: walk_passes.simps)
  then show ?thesis
    by (auto simp: definition_tick_def Let_def simp del: walk_passes.simps split: option.split)
qed

lemma same_book_strike_changes: "same_book r (snd (strike_changes shard r))"
  by (auto simp: strike_changes_def Let_def split: option.split)

lemma same_book_phases [simp]:
  "same_book r (end_poll r)" "same_book r (r\<lparr>rg_polling := b\<rparr>)" "same_book r (seeding_complete r)"
  "same_book r (begin_shutdown r)" "same_book r (r\<lparr>rg_clock := c\<rparr>)"
  by (simp_all add: same_book_def same_ledger_def slot_ids_def end_poll_def seeding_complete_def begin_shutdown_def)

subsection \<open>A running registry\<close>

lemma nth_cleared: "n < length xs \<Longrightarrow> xs[i := None] ! n = Some z \<Longrightarrow> xs ! n = Some z"
  by (cases "i = n") auto

context durable_store
begin

definition run_ok :: "identity \<Rightarrow> bool \<Rightarrow> issues \<Rightarrow> 's registry \<Rightarrow> bool" where
  "run_ok ident keep I r \<longleftrightarrow> ok (rg_store r) \<and> rc_identity (rg_config r) = ident \<and> slots_ok r \<and> live I r \<and>
     disk_safe ident keep I (content (rg_store r)) \<and>
     (rg_fault r = None \<longrightarrow> ledger keep I r (content (rg_store r)))"

lemma run_ok_same:
  assumes "run_ok ident keep I r" "same_book r r'" "slots_ok r'"
  shows "run_ok ident keep I r'"
proof -
  have "ledger keep I r' c = ledger keep I r c" for c
    using assms(2) by (intro ledger_cong) (simp_all add: same_book_def same_ledger_def)
  then show ?thesis
    using assms by (simp add: run_ok_def live_def same_book_def same_ledger_def)
qed

lemma run_ok_withdraw:
  assumes r: "run_ok ident keep I r"
  shows "run_ok ident keep I (withdraw h r)"
proof (cases "registry_slot r h")
  case None
  then show ?thesis using r by (simp add: withdraw_unheld)
next
  case (Some e)
  have ok: "slots_ok r" using r by (simp add: run_ok_def)
  let ?f = "\<lambda>m. m\<lparr>mi_last_published_s := stamp_s (rg_clock r)\<rparr>"
  obtain key where w: "slots_ok (withdraw h r)" "rg_minted (withdraw h r) = AList.map_entry key ?f (rg_minted r)"
      "rg_slots (withdraw h r) = (rg_slots r)[unat h := None]"
      "rg_slot_keys (withdraw h r) = (rg_slot_keys r)[unat h := None]"
    using withdraw_slots [OF ok Some] by metis
  let ?q = "r\<lparr>rg_minted := AList.map_entry key ?f (rg_minted r)\<rparr>"
  have fields: "rg_config (withdraw h r) = rg_config r" "rg_next_id (withdraw h r) = rg_next_id r"
      "rg_in_use (withdraw h r) = rg_in_use r" "rg_base_written (withdraw h r) = rg_base_written r"
      "rg_store (withdraw h r) = rg_store r" "rg_fault (withdraw h r) = rg_fault r"
    using Some by (simp_all add: withdraw_def Let_def)
  have "ledger keep I (withdraw h r) c" if led: "ledger keep I r c" for c
  proof -
    have d: "distinct (map fst (rg_minted r))" using led by (simp add: ledger_def book_def minted_ok_def)
    have rows: "minted_rows (AList.map_entry key ?f (rg_minted r)) = minted_rows (rg_minted r)"
      by (rule map_entry_keeps(4) [OF d]) simp_all
    have "placed ?q c = placed r c"
      using rows map_entry_map [OF d, of key ?f]
      by (auto simp: placed_def written_down_def agrees_def is_keyed_def keyed_field_def)
    moreover have "book keep I ?q"
      using led by (intro book_minted_map) (simp_all add: ledger_def)
    ultimately have "ledger keep I ?q c" using led by (simp add: ledger_def)
    moreover have "ledger keep I (withdraw h r) c = ledger keep I ?q c"
      by (rule ledger_cong) (simp_all add: fields w(2))
    ultimately show ?thesis by simp
  qed
  moreover have "length (rg_slot_keys r) = length (rg_slots r)"
    using ok by (simp add: slots_ok_def slots_agree_def)
  then have "live I (withdraw h r)"
    using r w(3,4) by (auto simp: run_ok_def live_def slot_ids_def dest!: nth_cleared [rotated])
  ultimately show ?thesis
    using r w(1) by (simp add: run_ok_def fields)
qed

lemma admit_refused_cases:
  assumes "registry_admit S key symb shard spec r = (Inl refusal, r')"
  defines "i \<equiv> instrument_id_for r (map_of (rg_minted r) key) key symb"
  shows "r' = r \<or> r' = remember_unavailable key symb i r \<or>
    record_id S (map_of (rg_minted r) key) i key symb r = (Inl refusal, r') \<and> rg_fault r = None \<and> i \<noteq> 0 \<and>
    (map_of (rg_minted r) key = None \<longrightarrow> derived_of r \<longrightarrow> rg_next_id r \<le> i \<and> rg_in_use r i = None)"
  using assms(1) unfolding i_def
  by (auto simp: registry_admit_def Let_def derived_of_def not_less split: if_splits sum.splits prod.splits)

text \<open>What is written down of an instrument is its key and its symbol field.\<close>

definition key_ok :: "'s registry \<Rightarrow> bytes \<Rightarrow> bytes \<Rightarrow> bool" where
  "key_ok r key symb \<longleftrightarrow> length symb = SYMBOL_LEN \<and> (if is_keyed r then is_venue_key key else key = symb)"

lemma run_ok_refused:
  assumes r: "run_ok ident keep I r" "key_ok r key symb"
    and w: "registry_admit S key symb shard spec r = (Inl refusal, r')"
  shows "run_ok ident keep I r'"
proof -
  have ok: "slots_ok r'" using admit_refused_slots [OF w] r(1) by (simp add: run_ok_def)
  let ?i = "instrument_id_for r (map_of (rg_minted r) key) key symb"
  consider "same_book r r'"
    | "record_id S (map_of (rg_minted r) key) ?i key symb r = (Inl refusal, r')" "rg_fault r = None" "?i \<noteq> 0"
      "map_of (rg_minted r) key = None \<longrightarrow> derived_of r \<longrightarrow> rg_next_id r \<le> ?i \<and> rg_in_use r ?i = None"
    using admit_refused_cases [OF w] by auto
  then show ?thesis
  proof cases
    case 1
    then show ?thesis using run_ok_same [OF r(1) _ ok] by simp
  next
    case 2
    have led: "ledger keep I r (content (rg_store r))" "ok (rg_store r)"
      using r(1) 2(2) by (simp_all add: run_ok_def)
    have key: "length symb = SYMBOL_LEN" "if is_keyed r then is_venue_key key else key = symb"
      using r(2) by (simp_all add: key_ok_def)
    note rec = record_id_ledger [OF led refl 2(3,4) key 2(1)]
    have "slot_ids r' = slot_ids r" "rg_slot_keys r' = rg_slot_keys r"
      using record_id_slots [OF 2(1)] by (simp_all add: same_slots_def slot_ids_def)
    then show ?thesis
      using rec r(1) ok led by (auto simp: run_ok_def live_def)
  qed
qed

lemma run_ok_admitted:
  assumes r: "run_ok ident keep I r" "key_ok r key symb" "rg_handles r key = None" "shard < length (rg_sets r)"
      "length (rg_slots r) < 2 ^ 32"
    and w: "registry_admit S key symb shard spec r = (Inr h, r')"
  shows "\<exists>e. registry_slot r' h = Some e \<and> rg_slot_keys r' ! unat h = Some key \<and>
    run_ok ident keep (insert (idef_instrument_id (pb_definition e), key) I) r'"
proof -
  have ok: "slots_ok r" and ok': "slots_ok r'"
    using r(1) slots_ok_admit [OF _ r(3-5) w] by (simp_all add: run_ok_def)
  from w obtain i composed r1 r2 r3 res where a: "rg_fault r = None" "i = instrument_id_for r (map_of (rg_minted r) key) key symb"
      "map_of (rg_minted r) key = None \<longrightarrow> is_derived (rc_id_allocation (rg_config r)) \<longrightarrow>
         i \<noteq> 0 \<and> rg_next_id r \<le> i \<and> rg_in_use r i = None" "i \<noteq> 0"
      "compose spec i (rc_source_id (rg_config r)) = Inr composed"
      "record_id S (map_of (rg_minted r) key) i key symb r = (Inr (), r1)" "publish key shard composed r1 = (h, r2)"
      "compact S False r2 = (res, r3)" "r' = (case res of Inl e \<Rightarrow> r3\<lparr>rg_fault := Some e\<rparr> | Inr _ \<Rightarrow> r3)"
    by (rule admitE)
  let ?I = "insert (i, key) I"
  have led: "ledger keep I r (content (rg_store r))" "ok (rg_store r)"
    using r(1) a(1) by (simp_all add: run_ok_def)
  have key: "length symb = SYMBOL_LEN" "if is_keyed r then is_venue_key key else key = symb"
    using r(2) by (simp_all add: key_ok_def)
  have "map_of (rg_minted r) key = None \<longrightarrow> derived_of r \<longrightarrow> rg_next_id r \<le> i \<and> rg_in_use r i = None"
    using a(3) by (simp add: derived_of_def)
  note rec = record_id_ledger [OF led a(2,4) this key a(6)]
  have same1: "same_slots r r1" by (rule record_id_slots [OF a(6)])
  have ok1: "slots_ok r1" "length (rg_slots r1) < 2 ^ 32"
    using ok same_slots_ok [OF same1] same1 r(5) by (simp_all add: same_slots_def)
  note p = publish_slots [OF ok1(1) a(7) ok1(2)]
  have "ledger keep ?I r2 c = ledger keep ?I r1 c" for c
    by (rule ledger_cong) (simp_all add: p(7,9-11,14))
  then have led2: "ledger keep ?I r2 (content (rg_store r2))" "ok (rg_store r2)" "rg_base_written r2"
    using rec by (simp_all add: p(8,14))
  note comp = compact_ledger [OF led2 a(8)]
  have same3: "same_slots r2 r3" by (rule compact_slots [OF a(8)])
  let ?e = "\<lparr>pb_shard = shard, pb_definition = co_definition composed, pb_strike = None, pb_defined = False\<rparr>"
  have slots: "rg_slots r' = rg_slots r @ [Some ?e]" "rg_slot_keys r' = rg_slot_keys r @ [Some key]"
      "unat h = length (rg_slots r)" "rg_store r' = rg_store r3" "rg_config r' = rg_config r"
    using p same1 same3 by (simp_all add: a(9) same_slots_def split: sum.split)
  have len: "length (rg_slot_keys r) = length (rg_slots r)"
    using ok by (simp add: slots_ok_def slots_agree_def)
  have id: "idef_instrument_id (pb_definition ?e) = i" using compose_id [OF a(5)] by simp
  have "live ?I r'"
    using r(1) id len by (auto simp: run_ok_def live_def slot_ids_def slots(1,2) nth_append less_Suc_eq)
  moreover have "rg_fault r' = None \<longrightarrow> ledger keep ?I r' (content (rg_store r'))"
    using comp by (simp add: a(9) split: sum.splits)
  ultimately have "run_ok ident keep ?I r'"
    using comp r(1) ok' rec by (simp add: run_ok_def slots(4,5) p(7))
  moreover have "registry_slot r' h = Some ?e" "rg_slot_keys r' ! unat h = Some key"
    using len by (simp_all add: registry_slot_def slots nth_append)
  ultimately show ?thesis using id by auto
qed

text \<open>An instrument the registry already publishes has been issued.\<close>

lemma run_ok_held:
  assumes "run_ok ident keep I r" "rg_handles r key = Some h"
  shows "\<exists>e. registry_slot r h = Some e \<and> rg_slot_keys r ! unat h = Some key \<and>
    (idef_instrument_id (pb_definition e), key) \<in> I"
proof -
  have ok: "slots_agree (rg_slots r) (rg_slot_keys r) (rg_handles r) (rg_instruments r)" "live I r"
    using assms(1) by (simp_all add: run_ok_def slots_ok_def)
  then have h: "unat h < length (rg_slots r)" "rg_slot_keys r ! unat h = Some key"
    using assms(2) unfolding slots_agree_def by metis+
  then obtain e where "rg_slots r ! unat h = Some e"
    using ok(1) unfolding slots_agree_def by (metis not_Some_eq)
  then show ?thesis
    using h ok(2) by (auto simp: registry_slot_def live_def slot_ids_def)
qed

lemma offered_key_ok: "offered_key r spec = Inr key \<Longrightarrow> is_venue_key key"
  by (auto simp: offered_key_def Let_def split: if_splits)

lemma run_ok_offer:
  assumes r: "run_ok ident keep I r" "length (rg_slots r) < 2 ^ 32"
    and w: "registry_offer S shard spec r = (x, r')"
  shows "case x of Inl _ \<Rightarrow> run_ok ident keep I r'
    | Inr h \<Rightarrow> \<exists>e key. registry_slot r' h = Some e \<and> rg_slot_keys r' ! unat h = Some key \<and>
        run_ok ident keep (insert (idef_instrument_id (pb_definition e), key) I) r'"
proof -
  have ok: "slots_ok r" using r(1) by (simp add: run_ok_def)
  have counted: "run_ok ident keep I q \<Longrightarrow> run_ok ident keep I (count_refusal c q)" for c q
    by (rule run_ok_same) (auto simp: run_ok_def)
  let ?symb = "fst (symbol_field (sp_symbol spec))"
  show ?thesis
  proof (cases "shard_index r shard")
    case None
    then have "x = Inl UnknownShard" "r' = count_refusal UnknownShard (remember_unknown_shard shard r)"
      using w by (simp_all add: registry_offer_def)
    then show ?thesis using r(1) ok by (simp add: counted run_ok_same)
  next
    case (Some index)
    show ?thesis
    proof (cases "if is_keyed r then offered_key r spec else Inr ?symb")
      case (Inl c)
      then have "x = Inl c" "r' = count_refusal c r" using w Some by (simp_all add: registry_offer_def Let_def)
      then show ?thesis using counted r(1) by simp
    next
      case (Inr key)
      then have key: "key_ok r key ?symb"
        using offered_key_ok [of r spec key] by (auto simp: key_ok_def symbol_field_def split: if_splits)
      show ?thesis
      proof (cases "rg_handles r key")
        case (Some h)
        then have x: "x = Inr h" "r' = reoffer h index spec r"
          using w \<open>shard_index r shard = _\<close> Inr by (simp_all add: registry_offer_def Let_def)
        have same: "same_book r r'" "slots_ok r'"
          using same_book_reoffer slots_ok_reoffer [OF ok] by (simp_all add: x)
        note run = run_ok_same [OF r(1) same]
        have "rg_handles r' = rg_handles r"
          by (auto simp: x reoffer_def update_slot_def split: option.split sum.split)
        then obtain e where "registry_slot r' h = Some e" "rg_slot_keys r' ! unat h = Some key"
            "(idef_instrument_id (pb_definition e), key) \<in> I"
          using run_ok_held [OF run, of key h] Some by auto
        then show ?thesis using run x(1) by (auto simp: insert_absorb)
      next
        case None
        obtain y q where y: "registry_admit S key ?symb index spec r = (y, q)" by fastforce
        have x: "x = y" "r' = (case y of Inl c \<Rightarrow> count_refusal c q | Inr _ \<Rightarrow> q)"
          using w \<open>shard_index r shard = _\<close> Inr None y by (auto simp: registry_offer_def Let_def split: sum.splits)
        show ?thesis
        proof (cases y)
          case (Inl c)
          then show ?thesis using x counted run_ok_refused [OF r(1) key] y by simp
        next
          case (Inr h)
          then show ?thesis
            using x run_ok_admitted [OF r(1) key None shard_index_bound [OF ok \<open>shard_index r shard = _\<close>] r(2), of spec h q] y
            by (simp, blast)
        qed
      qed
    qed
  qed
qed

end

lemma settle_slots:
  assumes "settle S l r = (x, r')"
  shows "same_slots r r'"
proof -
  have stored: "same_slots r (q\<lparr>rg_store := s\<rparr>) = same_slots r q" for q s
    by (simp add: same_slots_def)
  show ?thesis
    using assms write_base_slots compact_slots
    by (auto simp: settle_def stored split: prod.splits sum.splits if_splits)
qed

lemma opened_slots:
  assumes "registry_open S c clk clk' s = (Inr r, s')"
  shows "slots_ok r" "rg_slots r = []"
proof -
  have clocked: "slots_ok (registry_of c s clk l\<lparr>rg_clock := clk'\<rparr>)" for s l
    by (simp add: slots_ok_registry_of)
  have "slots_ok r' \<and> rg_slots r' = []"
    if "settle S l (registry_of c s clk (Some l)\<lparr>rg_clock := clk'\<rparr>) = (x, r')" for l s x r'
    using settle_slots [OF that] same_slots_ok [OF settle_slots [OF that]] clocked by (simp add: same_slots_def)
  then show "slots_ok r" "rg_slots r = []"
    using assms clocked
    by (auto simp: registry_open_def split: sum.splits prod.splits state_error.splits option.splits)
qed

subsection \<open>Every life of a state directory\<close>

datatype 's process = Stopped 's | Running "'s registry"

text \<open>
  \<open>content\<close> is the record the store holds. A directory starts with none; between runs the store may
  be any that holds the same record. A process may stop at any time, also at a call to the store that
  failed: such a call leaves what the failure leaves. \<open>keep\<close> restricts the configurations to those
  that forget nothing. The table of slots is never full, which its 32-bit handles allow for.
\<close>

inductive life :: "'s state_store \<Rightarrow> ('s \<Rightarrow> bytes option) \<Rightarrow> ('s \<Rightarrow> bool) \<Rightarrow> identity \<Rightarrow> bool \<Rightarrow>
    issues \<Rightarrow> 's process \<Rightarrow> bool"
  for S :: "'s state_store" and content :: "'s \<Rightarrow> bytes option" and ok :: "'s \<Rightarrow> bool" and ident :: identity and keep :: bool
where
  first: "ok s \<Longrightarrow> content s = None \<Longrightarrow> life S content ok ident keep {} (Stopped s)"
| moved: "life S content ok ident keep I (Stopped s) \<Longrightarrow> ok s' \<Longrightarrow> content s' = content s \<Longrightarrow>
    life S content ok ident keep I (Stopped s')"
| opened: "life S content ok ident keep I (Stopped s) \<Longrightarrow> rc_identity c = ident \<Longrightarrow>
    (keep \<longrightarrow> rc_forget_delisted_after c = None) \<Longrightarrow> registry_open S c clk clk' s = (Inr r, s') \<Longrightarrow>
    life S content ok ident keep I (Running r)"
| unopened: "life S content ok ident keep I (Stopped s) \<Longrightarrow> rc_identity c = ident \<Longrightarrow>
    (keep \<longrightarrow> rc_forget_delisted_after c = None) \<Longrightarrow> registry_open S c clk clk' s = (Inl e, s') \<Longrightarrow>
    life S content ok ident keep I (Stopped s')"
| stopped: "life S content ok ident keep I (Running r) \<Longrightarrow> ok s' \<Longrightarrow> content s' = content (rg_store r) \<Longrightarrow>
    life S content ok ident keep I (Stopped s')"
| offered: "life S content ok ident keep I (Running r) \<Longrightarrow> length (rg_slots r) < 2 ^ 32 \<Longrightarrow>
    registry_offer S shard spec r = (Inr h, r') \<Longrightarrow> registry_slot r' h = Some e \<Longrightarrow>
    rg_slot_keys r' ! unat h = Some key \<Longrightarrow>
    life S content ok ident keep (insert (idef_instrument_id (pb_definition e), key) I) (Running r')"
| declined: "life S content ok ident keep I (Running r) \<Longrightarrow> length (rg_slots r) < 2 ^ 32 \<Longrightarrow>
    registry_offer S shard spec r = (Inl x, r') \<Longrightarrow> life S content ok ident keep I (Running r')"
| withdrawn: "life S content ok ident keep I (Running r) \<Longrightarrow> life S content ok ident keep I (Running (withdraw h r))"
| struck: "life S content ok ident keep I (Running r) \<Longrightarrow>
    life S content ok ident keep I (Running (snd (state_strike h strike r)))"
| polling: "life S content ok ident keep I (Running r) \<Longrightarrow> life S content ok ident keep I (Running (r\<lparr>rg_polling := True\<rparr>))"
| polled: "life S content ok ident keep I (Running r) \<Longrightarrow> life S content ok ident keep I (Running (end_poll r))"
| ticked: "life S content ok ident keep I (Running r) \<Longrightarrow>
    life S content ok ident keep I (Running (snd (definition_tick shard r)))"
| told: "life S content ok ident keep I (Running r) \<Longrightarrow>
    life S content ok ident keep I (Running (snd (strike_changes shard r)))"
| seeded: "life S content ok ident keep I (Running r) \<Longrightarrow> life S content ok ident keep I (Running (seeding_complete r))"
| closing: "life S content ok ident keep I (Running r) \<Longrightarrow> life S content ok ident keep I (Running (begin_shutdown r))"
| timed: "life S content ok ident keep I (Running r) \<Longrightarrow> life S content ok ident keep I (Running (r\<lparr>rg_clock := clk\<rparr>))"

context durable_store
begin

definition process_ok :: "identity \<Rightarrow> bool \<Rightarrow> issues \<Rightarrow> 's process \<Rightarrow> bool" where
  "process_ok ident keep I p \<longleftrightarrow> (case p of
     Stopped s \<Rightarrow> ok s \<and> disk_safe ident keep I (content s) | Running r \<Rightarrow> run_ok ident keep I r)"

lemma process_ok_simps [simp]:
  "process_ok ident keep I (Stopped s) \<longleftrightarrow> ok s \<and> disk_safe ident keep I (content s)"
  "process_ok ident keep I (Running r) \<longleftrightarrow> run_ok ident keep I r"
  by (simp_all add: process_ok_def)

lemma run_ok_steps:
  assumes "run_ok ident keep I r"
  shows "run_ok ident keep I (snd (state_strike h strike r))" "run_ok ident keep I (r\<lparr>rg_polling := b\<rparr>)"
    "run_ok ident keep I (end_poll r)" "run_ok ident keep I (snd (definition_tick shard r))"
    "run_ok ident keep I (snd (strike_changes shard r))" "run_ok ident keep I (seeding_complete r)"
    "run_ok ident keep I (begin_shutdown r)" "run_ok ident keep I (r\<lparr>rg_clock := clk\<rparr>)"
proof -
  have ok: "slots_ok r" using assms by (simp add: run_ok_def)
  note same = run_ok_same [OF assms]
  show "run_ok ident keep I (snd (state_strike h strike r))"
    by (rule same [OF same_book_state_strike slots_ok_state_strike [OF ok]])
  show "run_ok ident keep I (end_poll r)" by (rule same [OF _ slots_ok_end_poll [OF ok]]) simp
  show "run_ok ident keep I (snd (definition_tick shard r))"
    by (rule same [OF same_book_definition_tick slots_ok_definition_tick [OF ok]])
  show "run_ok ident keep I (snd (strike_changes shard r))"
    by (rule same [OF same_book_strike_changes slots_ok_strike_changes [OF ok]])
  show "run_ok ident keep I (r\<lparr>rg_polling := b\<rparr>)" "run_ok ident keep I (seeding_complete r)"
    "run_ok ident keep I (begin_shutdown r)" "run_ok ident keep I (r\<lparr>rg_clock := clk\<rparr>)"
    using ok by (simp_all add: same)
qed

lemma run_ok_opened:
  assumes "ok s" "disk_safe (rc_identity c) keep I (content s)" "keep \<longrightarrow> rc_forget_delisted_after c = None"
    and w: "registry_open S c clk clk' s = (Inr r, s')"
  shows "run_ok (rc_identity c) keep I r"
proof -
  have "slots_ok r \<and> rg_slots r = []"
    using opened_slots [OF w] by blast
  then show ?thesis
    using open_ledger [OF assms] by (auto simp: run_ok_def live_def slot_ids_def)
qed

lemma life_ok: "life S content ok ident keep I p \<Longrightarrow> process_ok ident keep I p"
proof (induction rule: life.induct)
  case (opened I s c clk clk' r s')
  then show ?case using run_ok_opened [of s c keep I clk clk' r s'] by simp
next
  case (unopened I s c clk clk' e s')
  then show ?case using open_ledger [of s c keep I clk clk' "Inl e" s'] by simp
next
  case (offered I r shard spec h r' e key)
  then show ?case using run_ok_offer [of ident keep I r shard spec "Inr h" r'] by auto
next
  case (declined I r shard spec x r')
  then show ?case using run_ok_offer [of ident keep I r shard spec "Inl x" r'] by simp
next
  case (stopped I r s')
  then show ?case by (simp add: run_ok_def)
qed (simp_all add: disk_safe_def [of _ _ _ None] run_ok_withdraw run_ok_steps)

text \<open>What a life never does.\<close>

lemma disk_safe_functional:
  assumes "disk_safe ident keep I c"
  shows "(i, k) \<in> I \<Longrightarrow> (i, k') \<in> I \<Longrightarrow> k = k'" "keep \<Longrightarrow> (i, k) \<in> I \<Longrightarrow> (i', k) \<in> I \<Longrightarrow> i = i'"
proof -
  show "(i, k) \<in> I \<Longrightarrow> (i, k') \<in> I \<Longrightarrow> k = k'"
    using assms unfolding disk_safe_def book_safe_def by (cases c) auto
next
  assume keep: keep "(i, k) \<in> I" "(i', k) \<in> I"
  then obtain bs l where l: "c = Some bs" "record_load bs = Inr l" "sr_keyed (ld_record l) \<noteq> None \<longleftrightarrow> ident = VenueKeyIdentity"
      "book_safe keep I (holdings (record_rows (ident = VenueKeyIdentity) (sr_entries (ld_record l))))
        (sr_next_id (ld_record l)) (is_derived (sr_allocation (ld_record l)))"
    using assms by (auto simp: disk_safe_def split: option.splits)
  let ?K = "ident = VenueKeyIdentity"
  have "distinct (map (recall_key ?K) (sr_entries (ld_record l)))"
    using loads_sound [OF l(2)] l(3) by (simp add: entries_sound_def)
  then have "inj_on (recall_key ?K) (set (sr_entries (ld_record l)))"
    by (simp add: distinct_map)
  moreover have "(k, i) \<in> holdings (record_rows ?K (sr_entries (ld_record l)))"
      "(k, i') \<in> holdings (record_rows ?K (sr_entries (ld_record l)))"
    using l(4) keep unfolding book_safe_def by blast+
  ultimately show "i = i'"
    by (auto simp: holdings_def record_rows_def dest: inj_onD)
qed

lemma process_ok_disk: "process_ok ident keep I p \<Longrightarrow> \<exists>c. disk_safe ident keep I c"
  by (cases p) (auto simp: run_ok_def)

lemma life_ids:
  assumes "life S content ok ident keep I p"
  shows "(i, k) \<in> I \<Longrightarrow> (i, k') \<in> I \<Longrightarrow> k = k'" "keep \<Longrightarrow> (i, k) \<in> I \<Longrightarrow> (i', k) \<in> I \<Longrightarrow> i = i'"
  using disk_safe_functional process_ok_disk [OF life_ok [OF assms]] by blast+

lemma life_slots: "life S content ok ident keep I (Running r) \<Longrightarrow> slots_ok r"
  using life_ok by (fastforce simp: run_ok_def)

end

end
