(* ===== verification/Registry_Runs.thy ===== *)
theory Registry_Runs
  imports Registry_Life
begin

section \<open>What holds over every run\<close>

text \<open>
  The properties of the registry over its own file store, whatever the store's calls answer and
  wherever a process ends, and the first run of an example publisher, which shows that they speak of
  something.
\<close>

subsection \<open>An example run\<close>

definition example_config :: registry_config where
  "example_config = \<lparr>rc_source_id = 7, rc_shards = [default_shard 1],
     rc_selection = \<lparr>pol_bootstrap_top_n = 4, pol_max_published = 8, pol_warn_published_above = 6\<rparr>,
     rc_schedule = schedule_new (10 ^ 9) 1400 2, rc_forget_delisted_after = None,
     rc_id_allocation = Sequential, rc_identity = SymbolIdentity, rc_venue_keys = SymbolKeys\<rparr>"

definition example_spec :: instrument_spec where
  "example_spec = \<lparr>sp_symbol = ascii_bytes ''BTC'', sp_venue_key = None, sp_leg1 = None, sp_leg2 = None,
     sp_asset_class = CryptoSpot, sp_price_exponent = 0, sp_qty_exponent = 0, sp_market_model = Clob,
     sp_tick_size = ScalarFixed 1 0, sp_lot_size = ScalarFixed 1 0, sp_contract_value = None,
     sp_quoted_per_contract = None, sp_expiry_ns = None, sp_settle_type = NotApplicable, sp_price_bound = Unbounded\<rparr>"

definition example_directory :: file_store where
  "example_directory = \<lparr>fst_dir = Map.empty, fst_data = (\<lambda>i. []), fst_unused = 0, fst_held_elsewhere = False,
     fst_claim = False, fst_appending = None, fst_outcomes = []\<rparr>"

definition example_opened :: "file_store registry" where
  "example_opened = registry_of example_config (snd (file_claim example_directory)) manual_clock_new None"

lemma example_composes: "\<exists>co. compose example_spec 1 7 = Inr co"
proof -
  have "(case compose example_spec 1 7 of Inl e \<Rightarrow> False | Inr co \<Rightarrow> True)"
    by code_simp
  then show ?thesis by (auto split: sum.splits)
qed

lemma quiet_calls:
  "fst_outcomes s = [] \<Longrightarrow> \<exists>s'. file_replace bs s = (Inr (), s')"
  "fst_outcomes s = [] \<Longrightarrow> fst_dir s RECORD = None \<Longrightarrow> file_load s = (Inr None, s)"
  "fst_outcomes s = [] \<Longrightarrow> \<not> fst_held_elsewhere s \<Longrightarrow> \<exists>s'. file_claim s = (Inr (), s') \<and> fst_outcomes s' = [] \<and>
     (fst_dir s RECORD = None \<longrightarrow> fst_dir s' RECORD = None)"
  by (auto simp: file_replace_def write_pending_def create_file_def write_end_def simple_call_def rename_file_def
      sync_dir_def state_result_def io_then_def io_call_def Let_def file_load_def file_claim_def made_def
      write_data_def split: option.split prod.split)

lemma quiet_persist:
  assumes "fst_outcomes (rg_store r) = []" "\<not> rg_base_written r"
  shows "\<exists>q. persist file_state_store i key symb n r = (Inr (), q)"
proof -
  obtain s' where "file_replace (record_encode (base_record (Some (i, key, symb, n)) [] r)) (rg_store r) = (Inr (), s')"
    using quiet_calls(1) [OF assms(1)] by blast
  then show ?thesis
    using assms(2) by (simp add: persist_def write_base_def file_state_store_def Let_def)
qed

text \<open>The first instrument offered to a registry that has just been opened on an empty directory.\<close>

lemma example_offered:
  fixes clk clk' :: clock
  assumes "fst_outcomes s = []"
  defines "r \<equiv> registry_of example_config s clk None\<lparr>rg_clock := clk'\<rparr>"
  shows "\<exists>h r'. registry_offer file_state_store ''default'' example_spec r = (Inr h, r')"
proof -
  let ?symb = "fst (symbol_field (ascii_bytes ''BTC''))"
  have r: "rg_config r = example_config" "rg_store r = s" "rg_minted r = []" "rg_phase r = Seeding" "rg_fault r = None"
      "rg_published r = 0" "rg_next_id r = 1" "rg_handles r = Map.empty" "\<not> rg_base_written r"
      "is_keyed r = False"
    by (simp_all add: r_def is_keyed_def registry_of_def Let_def empty_record_def FIRST_INSTRUMENT_ID_def example_config_def)
  obtain co where co: "compose example_spec 1 7 = Inr co" using example_composes by blast
  obtain q where q: "persist file_state_store 1 ?symb ?symb 2 r = (Inr (), q)"
    using quiet_persist [of r] assms(1) r(2,9) by blast
  let ?q = "q\<lparr>rg_minted := AList.update ?symb (mint_of 1 ?symb) (rg_minted q), rg_next_id := 2\<rparr>"
  have rec: "record_id file_state_store None 1 ?symb ?symb r = (Inr (), q\<lparr>rg_minted := AList.update ?symb (mint_of 1 ?symb) (rg_minted q), rg_in_use := rg_in_use q, rg_next_id := 2\<rparr>)"
    using q by (simp add: record_id_def r example_config_def checked_add_def mint_of_def)
  obtain h q2 where pub: "publish ?symb 0 co (q\<lparr>rg_minted := AList.update ?symb (mint_of 1 ?symb) (rg_minted q), rg_in_use := rg_in_use q, rg_next_id := 2\<rparr>) = (h, q2)"
    by fastforce
  have "\<exists>r'. registry_admit file_state_store ?symb ?symb 0 example_spec r = (Inr h, r')"
    using co rec pub
    by (auto simp: registry_admit_def r instrument_id_for_def example_config_def Let_def
        split: prod.splits sum.splits)
  then show ?thesis
    by (auto simp: registry_offer_def shard_index_def r example_config_def default_shard_def example_spec_def Let_def)
qed

lemma offer_keeps_config:
  assumes "slots_ok r" "length (rg_slots r) < 2 ^ 32" "registry_offer S shard spec r = (Inr h, r')"
  shows "rg_config r' = rg_config r"
proof -
  have admit: "rg_config q = rg_config r" if "registry_admit S key symb index spec r = (Inr h, q)" for key symb index q
  proof -
    from that obtain i composed r1 r2 r3 res where a: "record_id S (map_of (rg_minted r) key) i key symb r = (Inr (), r1)"
        "publish key index composed r1 = (h, r2)" "compact S False r2 = (res, r3)"
        "q = (case res of Inl e \<Rightarrow> r3\<lparr>rg_fault := Some e\<rparr> | Inr _ \<Rightarrow> r3)"
      by (rule admitE)
    note same = record_id_slots [OF a(1)] compact_slots [OF a(3)]
    have "slots_ok r1" "length (rg_slots r1) < 2 ^ 32"
      using assms(1,2) same_slots_ok [OF same(1)] same(1) by (simp_all add: same_slots_def)
    then have "rg_config r2 = rg_config r1" using publish_slots(7) a(2) by blast
    then show ?thesis
      using same a(4) by (simp add: same_slots_def split: sum.splits)
  qed
  have "rg_config (reoffer g index spec r) = rg_config r" for g index
    using same_book_reoffer [of r g index spec] by (simp add: same_book_def same_ledger_def)
  then show ?thesis
    using assms(3) admit
    by (auto simp: registry_offer_def Let_def split: option.splits sum.splits prod.splits)
qed

lemma example_life: "\<exists>i k r. life file_state_store file_record file_ok SymbolIdentity True {(i, k)} (Running r) \<and>
    rg_config r = example_config"
proof -
  let ?s = example_directory
  obtain s1 where s1: "file_claim ?s = (Inr (), s1)" "fst_outcomes s1 = []" "fst_dir s1 RECORD = None"
    using quiet_calls(3) [of ?s] by (auto simp: example_directory_def)
  let ?r = "registry_of example_config s1 manual_clock_new None\<lparr>rg_clock := manual_clock_new\<rparr>"
  have opened: "registry_open file_state_store example_config manual_clock_new manual_clock_new ?s = (Inr ?r, s1)"
    using s1 quiet_calls(2) [OF s1(2,3)]
    by (simp add: registry_open_def file_state_store_def check_config_def example_config_def default_shard_def
        check_record_def check_keys_def empty_record_def)
  obtain h r' where w: "registry_offer file_state_store ''default'' example_spec ?r = (Inr h, r')"
    using example_offered [OF s1(2)] by blast
  have life: "life file_state_store file_record file_ok SymbolIdentity True {} (Running ?r)"
    by (rule life.opened [OF life.first _ _ opened])
      (simp_all add: example_directory_def file_ok_def file_record_def example_config_def)
  have room: "length (rg_slots ?r) < 2 ^ 32" by simp
  have "fil.run_ok SymbolIdentity True {} ?r" using fil.life_ok [OF life] by simp
  from fil.run_ok_offer [OF this room w]
  obtain e key where "registry_slot r' h = Some e" "rg_slot_keys r' ! unat h = Some key" by auto
  moreover have "rg_config r' = example_config"
    using offer_keeps_config [OF _ room w] fil.life_slots [OF life] by simp
  ultimately show ?thesis
    using life.offered [OF life room w] by blast
qed

subsection \<open>The properties\<close>





text \<open>
  C13. Over the same runs, what a running registry publishes is one set: each shard's count and its
  count of pending strikes are those of the slots, their sum is the total, a key's live handle is
  exactly the slot that holds the key, and the lowering's instrument table holds exactly the
  published slots.
\<close>

theorem published_set_consistent:
  assumes "life file_state_store file_record file_ok ident keep issued (Running r)"
    "n < length (rc_shards (rg_config r))"
  shows "ps_published (rg_sets r ! n) = tally (on_shard n) (rg_slots r) \<and>
    ps_strikes_pending (rg_sets r ! n) = tally (pending_on n) (rg_slots r) \<and>
    rg_published r = tally (\<lambda>e. True) (rg_slots r) \<and>
    (rg_handles r k = Some h \<longleftrightarrow> registry_slot r h \<noteq> None \<and> rg_slot_keys r ! unat h = Some k) \<and>
    (registry_slot r h = None \<longleftrightarrow> table_slot (rg_instruments r) h = None)"
proof -
  have ok: "slots_agree (rg_slots r) (rg_slot_keys r) (rg_handles r) (rg_instruments r)"
      "sets_count (rg_slots r) (rg_sets r)" "rg_published r = tally (\<lambda>e. True) (rg_slots r)"
      "length (rg_sets r) = length (rc_shards (rg_config r))"
    using fil.life_slots [OF assms(1)] by (simp_all add: slots_ok_def)
  have "rg_handles r k = Some h \<longleftrightarrow> registry_slot r h \<noteq> None \<and> rg_slot_keys r ! unat h = Some k"
    using ok(1) unfolding slots_agree_def registry_slot_def by (metis option.distinct(1))
  moreover have "registry_slot r h = None \<longleftrightarrow> table_slot (rg_instruments r) h = None"
    using ok(1) by (auto simp: slots_agree_def registry_slot_def table_slot_def)
  ultimately show ?thesis
    using ok assms(2) by (simp add: sets_count_def)
qed

theorem published_set_consistent_witness:
  "\<exists>issued r. life file_state_store file_record file_ok SymbolIdentity True issued (Running r) \<and> issued \<noteq> {} \<and>
     ps_published (rg_sets r ! 0) = tally (on_shard 0) (rg_slots r)"
proof -
  obtain i k r where life: "life file_state_store file_record file_ok SymbolIdentity True {(i, k)} (Running r)"
      and "rg_config r = example_config"
    using example_life by blast
  then have "ps_published (rg_sets r ! 0) = tally (on_shard 0) (rg_slots r)"
    using published_set_consistent [OF life, of 0 k 0] by (simp add: example_config_def)
  then show ?thesis using life by blast
qed

text \<open>
  C39. The file store refines the durable record: a replacement that returns leaves the whole of the
  new record, one that says it replaced nothing leaves the old one, any other failure leaves one of
  the two; an append leaves the record with the line, or when it fails with a beginning of the line.
\<close>

theorem file_store_is_durable:
  assumes "file_ok s" "file_record s = Some c"
  shows "(case file_replace bs s of (x, s') \<Rightarrow> file_ok s' \<and>
      (case x of Inr _ \<Rightarrow> file_record s' = Some bs
       | Inl (NotReplaced _) \<Rightarrow> file_record s' = Some c
       | Inl _ \<Rightarrow> file_record s' = Some c \<or> file_record s' = Some bs)) \<and>
    (case file_append line s of (x, s') \<Rightarrow> file_ok s' \<and>
      (case x of Inr _ \<Rightarrow> file_record s' = Some (c @ line)
       | Inl _ \<Rightarrow> \<exists>p. prefix p line \<and> file_record s' = Some (c @ p)))"
proof -
  obtain x s1 y s2 where calls: "file_replace bs s = (x, s1)" "file_append line s = (y, s2)" by fastforce
  then have "ss_store file_state_store bs s = (x, s1)" "ss_append file_state_store line s = (y, s2)"
    by (simp_all add: file_state_store_def)
  from fil.store [OF assms(1) this(1)] fil.append [OF assms this(2)] show ?thesis
    using assms(2) unfolding calls prod.case by (simp only: conj_assoc)
qed

definition recorded_directory :: file_store where
  "recorded_directory = \<lparr>fst_dir = [RECORD \<mapsto> 0], fst_data = (\<lambda>i. [1]), fst_unused = 1, fst_held_elsewhere = False,
     fst_claim = True, fst_appending = Some 0, fst_outcomes = []\<rparr>"

theorem file_store_is_durable_witness:
  "file_ok recorded_directory \<and> file_record recorded_directory = Some [1] \<and>
    file_ok (snd (file_append [2] recorded_directory))"
proof -
  have "file_ok recorded_directory" "file_record recorded_directory = Some [1]"
    by (auto simp: recorded_directory_def file_ok_def file_record_def split: if_splits)
  then show ?thesis
    using file_store_is_durable [of recorded_directory "[1]" "[]" "[2]"] by (simp add: case_prod_beta)
qed

end
