(* ===== verification/Instrument_Table.thy ===== *)
theory Instrument_Table
  imports Messages_Refdata Recorded_Datagram Text_Codec "HOL-Library.Product_Lexorder"
begin

section \<open>Reference data as the row derivation keeps it\<close>

text \<open>
  \<open>instruments.rs\<close> of \<open>dz-recorder-events\<close>: statements about instruments, filed under the channel
  they were made on, positioned by the recorder's receive clock and cleared by a new era. A
  \<open>String\<close> is the list of its code points. The lemmas follow one channel through any sequence of
  observations: what it resolves at an instant is what the current era's last definition up to
  that instant stated.
\<close>

subsection \<open>Text of a fixed-width symbol\<close>

text \<open>
  \<open>String::from_utf8_lossy\<close>: every maximal prefix of a sequence that cannot be completed becomes
  one replacement character.
\<close>

definition REPLACEMENT :: nat where "REPLACEMENT = 0xFFFD"

fun utf8_lossy :: "bytes \<Rightarrow> nat list" where
  "utf8_lossy [] = []"
| "utf8_lossy (b0 # r0) =
    (let n = unat b0 in
     if n < 0x80 then n # utf8_lossy r0
     else if 0xC2 \<le> n \<and> n \<le> 0xDF then
       (case r0 of
          b1 # r1 \<Rightarrow>
            if continuation b1 0x80 0xBF
            then ((n - 0xC0) * 64 + (unat b1 - 0x80)) # utf8_lossy r1
            else REPLACEMENT # utf8_lossy (b1 # r1)
        | [] \<Rightarrow> [REPLACEMENT])
     else if 0xE0 \<le> n \<and> n \<le> 0xEF then
       (case r0 of
          b1 # r1 \<Rightarrow>
            if continuation b1 (fst (second_of_three n)) (snd (second_of_three n)) then
              (case r1 of
                 b2 # r2 \<Rightarrow>
                   if continuation b2 0x80 0xBF
                   then ((n - 0xE0) * 4096 + (unat b1 - 0x80) * 64 + (unat b2 - 0x80)) # utf8_lossy r2
                   else REPLACEMENT # utf8_lossy (b2 # r2)
               | [] \<Rightarrow> [REPLACEMENT])
            else REPLACEMENT # utf8_lossy (b1 # r1)
        | [] \<Rightarrow> [REPLACEMENT])
     else if 0xF0 \<le> n \<and> n \<le> 0xF4 then
       (case r0 of
          b1 # r1 \<Rightarrow>
            if continuation b1 (fst (second_of_four n)) (snd (second_of_four n)) then
              (case r1 of
                 b2 # r2 \<Rightarrow>
                   if continuation b2 0x80 0xBF then
                     (case r2 of
                        b3 # r3 \<Rightarrow>
                          if continuation b3 0x80 0xBF
                          then ((n - 0xF0) * 262144 + (unat b1 - 0x80) * 4096 +
                                (unat b2 - 0x80) * 64 + (unat b3 - 0x80)) # utf8_lossy r3
                          else REPLACEMENT # utf8_lossy (b3 # r3)
                      | [] \<Rightarrow> [REPLACEMENT])
                   else REPLACEMENT # utf8_lossy (b2 # r2)
               | [] \<Rightarrow> [REPLACEMENT])
            else REPLACEMENT # utf8_lossy (b1 # r1)
        | [] \<Rightarrow> [REPLACEMENT])
     else REPLACEMENT # utf8_lossy r0)"

definition statement_symbol :: "bytes \<Rightarrow> nat list" where
  "statement_symbol symbol = utf8_lossy (takeWhile (\<lambda>b. b \<noteq> 0) symbol)"

subsection \<open>Positions, statements, tables\<close>

datatype channel = Channel (ch_source_addr: ipv4_addr) (ch_channel_id: u8)

instantiation channel :: linorder
begin

definition less_channel :: "channel \<Rightarrow> channel \<Rightarrow> bool" where
  "less_channel a b \<longleftrightarrow> ch_source_addr a < ch_source_addr b \<or>
     ch_source_addr a = ch_source_addr b \<and> ch_channel_id a < ch_channel_id b"

definition less_eq_channel :: "channel \<Rightarrow> channel \<Rightarrow> bool" where
  "less_eq_channel a b \<longleftrightarrow> a < b \<or> a = b"

instance
proof
  fix a b c :: channel
  show "a < b \<longleftrightarrow> a \<le> b \<and> \<not> b \<le> a"
    by (auto simp: less_channel_def less_eq_channel_def)
  show "a \<le> a"
    by (simp add: less_eq_channel_def)
  show "a \<le> b \<Longrightarrow> b \<le> c \<Longrightarrow> a \<le> c"
    by (auto simp: less_channel_def less_eq_channel_def)
  show "a \<le> b \<Longrightarrow> b \<le> a \<Longrightarrow> a = b"
    by (auto simp: less_channel_def less_eq_channel_def)
  show "a \<le> b \<or> b \<le> a"
    by (cases a; cases b) (auto simp: less_channel_def less_eq_channel_def)
qed

end

definition channel_of :: "channel_instance \<Rightarrow> channel" where
  "channel_of instance_key = Channel (ci_source instance_key) (ci_channel_id instance_key)"

record at_position =
  at_instance :: channel_instance
  at_sequence_number :: u64
  at_reset_count :: u8
  at_recv_ts_ns :: u64

record statement =
  st_instrument_id :: u32
  st_source_id :: u16
  st_symbol :: "nat list"
  st_price_exponent :: i8
  st_qty_exponent :: i8
  st_contract_value :: u64
  st_manifest_seq :: u16
  st_from_sequence :: u64
  st_from_recv_ts_ns :: u64
  st_first_seen_ts_ns :: u64

definition says_the_same_as :: "statement \<Rightarrow> statement \<Rightarrow> bool" where
  "says_the_same_as s other \<longleftrightarrow>
     st_source_id s = st_source_id other \<and> st_symbol s = st_symbol other \<and>
     st_price_exponent s = st_price_exponent other \<and>
     st_qty_exponent s = st_qty_exponent other \<and>
     st_contract_value s = st_contract_value other"

datatype observed = FirstStated | Restated | Repeated | OutOfOrder

record era_table =
  et_reset_count :: u8
  et_instruments :: "(u32, statement list) omap"
  et_declared_count :: "u32 option"

definition era_table_new :: "u8 \<Rightarrow> era_table" where
  "era_table_new reset_count =
     \<lparr>et_reset_count = reset_count, et_instruments = om_empty, et_declared_count = None\<rparr>"

type_synonym instrument_tables = "(channel, era_table) omap"

text \<open>\<open>era_table\<close>: the channel's table, cleared first if the position opens a new era.\<close>

definition era_table_at :: "at_position \<Rightarrow> instrument_tables \<Rightarrow> era_table" where
  "era_table_at at tables =
     (case om_lookup tables (channel_of (at_instance at)) of
        None \<Rightarrow> era_table_new (at_reset_count at)
      | Some t \<Rightarrow> if et_reset_count t \<noteq> at_reset_count at then era_table_new (at_reset_count at) else t)"

definition statement_of :: "instrument_definition \<Rightarrow> at_position \<Rightarrow> statement" where
  "statement_of d at =
     \<lparr>st_instrument_id = idef_instrument_id d, st_source_id = idef_source_id d,
      st_symbol = statement_symbol (idef_symbol d), st_price_exponent = idef_price_exponent d,
      st_qty_exponent = idef_qty_exponent d, st_contract_value = idef_contract_value d,
      st_manifest_seq = idef_manifest_seq d, st_from_sequence = at_sequence_number at,
      st_from_recv_ts_ns = at_recv_ts_ns at, st_first_seen_ts_ns = at_recv_ts_ns at\<rparr>"

definition stated :: "statement \<Rightarrow> statement list \<Rightarrow> observed \<times> statement list" where
  "stated statement history =
     (if history = [] then (FirstStated, [statement])
      else let in_force = last history in
        if says_the_same_as in_force statement then (Repeated, history)
        else if st_from_recv_ts_ns statement \<le> st_from_recv_ts_ns in_force then (OutOfOrder, history)
        else (Restated, history @ [statement]))"

definition observe_statement ::
    "instrument_definition \<Rightarrow> at_position \<Rightarrow> instrument_tables \<Rightarrow> observed \<times> instrument_tables" where
  "observe_statement d at tables =
     (let t = era_table_at at tables;
          history = (case om_lookup (et_instruments t) (idef_instrument_id d) of
                       None \<Rightarrow> [] | Some h \<Rightarrow> h);
          (seen, history) = stated (statement_of d at) history in
      (seen, om_update (channel_of (at_instance at))
         (t\<lparr>et_instruments := om_update (idef_instrument_id d) history (et_instruments t)\<rparr>) tables))"

definition observe_summary :: "manifest_summary \<Rightarrow> at_position \<Rightarrow> instrument_tables \<Rightarrow> instrument_tables" where
  "observe_summary summary at tables =
     (let t = era_table_at at tables;
          t = (if ms_valid summary \<noteq> 0 then t\<lparr>et_declared_count := Some (ms_instrument_count summary)\<rparr>
               else t) in
      om_update (channel_of (at_instance at)) t tables)"

definition resolve_in :: "statement list \<Rightarrow> u64 \<Rightarrow> statement option" where
  "resolve_in history recv_ts = find (\<lambda>s. st_from_recv_ts_ns s \<le> recv_ts) (rev history)"

definition resolve :: "instrument_tables \<Rightarrow> channel \<Rightarrow> u32 \<Rightarrow> u64 \<Rightarrow> statement option" where
  "resolve tables c instrument_id recv_ts =
     (case om_lookup tables c of
        None \<Rightarrow> None
      | Some t \<Rightarrow>
          (case om_lookup (et_instruments t) instrument_id of
             None \<Rightarrow> None
           | Some history \<Rightarrow> resolve_in history recv_ts))"

definition table_declared_count :: "instrument_tables \<Rightarrow> channel \<Rightarrow> u32 option" where
  "table_declared_count tables c =
     (case om_lookup tables c of None \<Rightarrow> None | Some t \<Rightarrow> et_declared_count t)"

definition table_era :: "instrument_tables \<Rightarrow> channel \<Rightarrow> u8 option" where
  "table_era tables c = map_option et_reset_count (om_lookup tables c)"

definition table_defined_count :: "instrument_tables \<Rightarrow> channel \<Rightarrow> nat" where
  "table_defined_count tables c =
     (case om_lookup tables c of None \<Rightarrow> 0 | Some t \<Rightarrow> length (et_instruments t))"

subsection \<open>One instrument's statements\<close>

lemma says_the_same_as_refl [simp]: "says_the_same_as s s"
  by (simp add: says_the_same_as_def)

lemma says_the_same_as_sym: "says_the_same_as s s' \<Longrightarrow> says_the_same_as s' s"
  by (simp add: says_the_same_as_def)

lemma says_the_same_as_trans: "says_the_same_as a b \<Longrightarrow> says_the_same_as b c \<Longrightarrow> says_the_same_as a c"
  by (simp add: says_the_same_as_def)

definition history_of :: "statement list \<Rightarrow> statement list" where
  "history_of ss = fold (\<lambda>s h. snd (stated s h)) ss []"

lemma history_of_simps [simp]:
  "history_of [] = []"
  "history_of [s] = [s]"
  "history_of (ss @ [s]) = snd (stated s (history_of ss))"
  by (simp_all add: history_of_def stated_def)

lemma stated_nonempty [simp]: "snd (stated s h) \<noteq> []"
  by (simp add: stated_def Let_def)

lemma history_of_empty [simp]: "history_of ss = [] \<longleftrightarrow> ss = []"
  by (cases ss rule: rev_cases) simp_all

text \<open>
  Statements can be placed when they arrive in the order of the receive clock and no two at one
  instant contradict each other.
\<close>

definition placeable :: "statement list \<Rightarrow> bool" where
  "placeable = sorted_wrt (\<lambda>a b. st_from_recv_ts_ns a < st_from_recv_ts_ns b \<or>
     st_from_recv_ts_ns a = st_from_recv_ts_ns b \<and> says_the_same_as a b)"

definition said_by :: "statement list \<Rightarrow> u64 \<Rightarrow> statement list" where
  "said_by ss t = filter (\<lambda>s. st_from_recv_ts_ns s \<le> t) ss"

lemma placeable_append:
  "placeable (ss @ [s]) \<longleftrightarrow> placeable ss \<and> (\<forall>a\<in>set ss. st_from_recv_ts_ns a < st_from_recv_ts_ns s \<or>
     st_from_recv_ts_ns a = st_from_recv_ts_ns s \<and> says_the_same_as a s)"
  by (simp add: placeable_def sorted_wrt_append)

lemma resolve_in_append:
  "resolve_in (h @ [s]) t = (if st_from_recv_ts_ns s \<le> t then Some s else resolve_in h t)"
  by (simp add: resolve_in_def)

lemma resolve_in_last: "h \<noteq> [] \<Longrightarrow> st_from_recv_ts_ns (last h) \<le> t \<Longrightarrow> resolve_in h t = Some (last h)"
  by (cases h rule: rev_cases) (simp_all add: resolve_in_append)

lemma history_last:
  "placeable ss \<Longrightarrow> ss \<noteq> [] \<Longrightarrow>
   says_the_same_as (last (history_of ss)) (last ss) \<and>
   st_from_recv_ts_ns (last (history_of ss)) \<le> st_from_recv_ts_ns (last ss)"
proof (induction ss rule: rev_induct)
  case (snoc s ss)
  show ?case
  proof (cases "ss = []")
    case False
    let ?h = "history_of ss"
    have ih: "says_the_same_as (last ?h) (last ss)"
        "st_from_recv_ts_ns (last ?h) \<le> st_from_recv_ts_ns (last ss)"
      using snoc False by (simp_all add: placeable_append)
    have step: "st_from_recv_ts_ns (last ss) < st_from_recv_ts_ns s \<or>
        st_from_recv_ts_ns (last ss) = st_from_recv_ts_ns s \<and> says_the_same_as (last ss) s"
      using snoc.prems(1) False last_in_set [OF False] by (simp add: placeable_append)
    show ?thesis
    proof (cases "says_the_same_as (last ?h) s")
      case True
      then show ?thesis
        using False ih step by (auto simp: stated_def)
    next
      case differs: False
      then have "st_from_recv_ts_ns (last ss) < st_from_recv_ts_ns s"
        using step says_the_same_as_trans [OF ih(1)] by blast
      then show ?thesis
        using False ih differs by (auto simp: stated_def)
    qed
  qed simp
qed simp

lemma resolve_history:
  "placeable ss \<Longrightarrow>
   (case resolve_in (history_of ss) t of
      None \<Rightarrow> said_by ss t = []
    | Some s \<Rightarrow> said_by ss t \<noteq> [] \<and> says_the_same_as s (last (said_by ss t)))"
proof (induction ss rule: rev_induct)
  case Nil
  then show ?case by (simp add: resolve_in_def said_by_def)
next
  case (snoc s ss)
  let ?h = "history_of ss" and ?h' = "history_of (ss @ [s])"
  have ps: "placeable ss" using snoc.prems by (simp add: placeable_append)
  show ?case
  proof (cases "st_from_recv_ts_ns s \<le> t")
    case True
    have last: "says_the_same_as (last ?h') s" "st_from_recv_ts_ns (last ?h') \<le> st_from_recv_ts_ns s"
      using history_last [OF snoc.prems] by simp_all
    have "resolve_in ?h' t = Some (last ?h')"
      by (rule resolve_in_last) (use last(2) True in auto)
    then show ?thesis
      using True last by (simp add: said_by_def)
  next
    case False
    then have "resolve_in ?h' t = resolve_in ?h t"
      by (auto simp: stated_def Let_def resolve_in_append) (simp add: resolve_in_def)
    moreover have "said_by (ss @ [s]) t = said_by ss t"
      using False by (simp add: said_by_def)
    ultimately show ?thesis
      using snoc.IH [OF ps] by (simp split: option.splits)
  qed
qed

subsection \<open>Any channels, any eras\<close>

datatype observation =
  SeenDefinition instrument_definition at_position
| SeenManifest manifest_summary at_position

fun seen_at :: "observation \<Rightarrow> at_position" where
  "seen_at (SeenDefinition d at) = at"
| "seen_at (SeenManifest m at) = at"

fun observe_reference :: "observation \<Rightarrow> instrument_tables \<Rightarrow> instrument_tables" where
  "observe_reference (SeenDefinition d at) tables = snd (observe_statement d at tables)"
| "observe_reference (SeenManifest m at) tables = observe_summary m at tables"

definition on_channel :: "channel \<Rightarrow> observation list \<Rightarrow> observation list" where
  "on_channel c obs = filter (\<lambda>ob. channel_of (at_instance (seen_at ob)) = c) obs"

text \<open>What a channel's current era holds: its observations since its reset count last changed.\<close>

definition current_era :: "channel \<Rightarrow> observation list \<Rightarrow> observation list" where
  "current_era c obs =
     (let own = on_channel c obs in
      rev (takeWhile (\<lambda>ob. at_reset_count (seen_at ob) = at_reset_count (seen_at (last own))) (rev own)))"

fun statement_for :: "u32 \<Rightarrow> observation \<Rightarrow> statement option" where
  "statement_for i (SeenDefinition d at) = (if idef_instrument_id d = i then Some (statement_of d at) else None)"
| "statement_for i (SeenManifest m at) = None"

definition stated_for :: "channel \<Rightarrow> u32 \<Rightarrow> observation list \<Rightarrow> statement list" where
  "stated_for c i obs = List.map_filter (statement_for i) (current_era c obs)"

lemma on_channel_simps [simp]:
  "on_channel c [] = []"
  "on_channel c (obs @ [ob]) =
     (if channel_of (at_instance (seen_at ob)) = c then on_channel c obs @ [ob] else on_channel c obs)"
  by (simp_all add: on_channel_def)

lemma current_era_other:
  "channel_of (at_instance (seen_at ob)) \<noteq> c \<Longrightarrow> current_era c (obs @ [ob]) = current_era c obs"
  by (simp add: current_era_def)

lemma current_era_own:
  assumes "channel_of (at_instance (seen_at ob)) = c"
  shows "current_era c (obs @ [ob]) =
    (if on_channel c obs \<noteq> [] \<and>
        at_reset_count (seen_at (last (on_channel c obs))) = at_reset_count (seen_at ob)
     then current_era c obs else []) @ [ob]"
proof (cases "on_channel c obs" rule: rev_cases)
  case (snoc ys y)
  then show ?thesis
    using assms by (simp add: current_era_def)
qed (use assms in \<open>simp add: current_era_def\<close>)

text \<open>What of an era is kept when an observation arrives.\<close>

definition kept_for :: "channel \<Rightarrow> u32 \<Rightarrow> observation \<Rightarrow> observation list \<Rightarrow> statement list" where
  "kept_for c i ob obs =
     (if on_channel c obs \<noteq> [] \<and>
        at_reset_count (seen_at (last (on_channel c obs))) = at_reset_count (seen_at ob)
      then stated_for c i obs else [])"

lemma stated_for_step:
  "stated_for c i (obs @ [ob]) =
    (if channel_of (at_instance (seen_at ob)) = c
     then kept_for c i ob obs @ (case statement_for i ob of None \<Rightarrow> [] | Some s \<Rightarrow> [s])
     else stated_for c i obs)"
  by (auto simp: stated_for_def kept_for_def current_era_own current_era_other map_filter_def
      split: option.splits)

definition some_history :: "statement list \<Rightarrow> statement list option" where
  "some_history ss = (if ss = [] then None else Some (history_of ss))"

definition table_of :: "observation list \<Rightarrow> channel \<Rightarrow> era_table \<Rightarrow> bool" where
  "table_of obs c t \<longleftrightarrow> on_channel c obs \<noteq> [] \<and>
     et_reset_count t = at_reset_count (seen_at (last (on_channel c obs))) \<and>
     (\<forall>i. om_lookup (et_instruments t) i = some_history (stated_for c i obs))"

definition tables_of :: "observation list \<Rightarrow> instrument_tables \<Rightarrow> bool" where
  "tables_of obs tables \<longleftrightarrow>
     (\<forall>c. case om_lookup tables c of None \<Rightarrow> on_channel c obs = [] | Some t \<Rightarrow> table_of obs c t)"

lemma tables_of_at:
  "tables_of obs tables \<Longrightarrow> om_lookup tables c = None \<Longrightarrow> on_channel c obs = []"
  "tables_of obs tables \<Longrightarrow> om_lookup tables c = Some t \<Longrightarrow> table_of obs c t"
  unfolding tables_of_def by (drule spec [of _ c], simp)+

lemma era_table_at_of:
  assumes "tables_of obs tables" "channel_of (at_instance (seen_at ob)) = c"
  shows "et_reset_count (era_table_at (seen_at ob) tables) = at_reset_count (seen_at ob) \<and>
    om_lookup (et_instruments (era_table_at (seen_at ob) tables)) i = some_history (kept_for c i ob obs)"
proof (cases "om_lookup tables c")
  case None
  then have "on_channel c obs = []"
    by (rule tables_of_at(1) [OF assms(1)])
  then show ?thesis
    using assms(2) None
    by (simp add: era_table_at_def era_table_new_def kept_for_def some_history_def om_lookup_def om_empty_def)
next
  case (Some t)
  then have "table_of obs c t"
    by (rule tables_of_at(2) [OF assms(1)])
  then show ?thesis
    using assms(2) Some
    by (auto simp: table_of_def era_table_at_def era_table_new_def kept_for_def some_history_def
        om_lookup_def om_empty_def)
qed

lemma observe_reference_updates:
  "\<exists>t. observe_reference ob tables = om_update (channel_of (at_instance (seen_at ob))) t tables \<and>
     et_reset_count t = et_reset_count (era_table_at (seen_at ob) tables) \<and>
     (\<forall>i. om_lookup (et_instruments t) i =
        (case statement_for i ob of
           None \<Rightarrow> om_lookup (et_instruments (era_table_at (seen_at ob) tables)) i
         | Some s \<Rightarrow> Some (snd (stated s (case om_lookup (et_instruments (era_table_at (seen_at ob) tables)) i of
                       None \<Rightarrow> [] | Some h \<Rightarrow> h)))))"
  by (cases ob) (auto simp: observe_statement_def observe_summary_def Let_def split_beta om_lookup_update)

lemma tables_of_step:
  assumes "tables_of obs tables"
  shows "tables_of (obs @ [ob]) (observe_reference ob tables)"
proof -
  let ?c = "channel_of (at_instance (seen_at ob))"
  obtain t where t: "observe_reference ob tables = om_update ?c t tables"
      "et_reset_count t = et_reset_count (era_table_at (seen_at ob) tables)"
      "\<And>i. om_lookup (et_instruments t) i =
        (case statement_for i ob of
           None \<Rightarrow> om_lookup (et_instruments (era_table_at (seen_at ob) tables)) i
         | Some s \<Rightarrow> Some (snd (stated s (case om_lookup (et_instruments (era_table_at (seen_at ob) tables)) i of
                       None \<Rightarrow> [] | Some h \<Rightarrow> h))))"
    using observe_reference_updates [of ob tables] by (elim exE conjE) simp
  have "table_of (obs @ [ob]) ?c t"
    using era_table_at_of [OF assms refl]
    by (auto simp: table_of_def t(2,3) stated_for_step some_history_def split: option.splits)
  moreover have "table_of (obs @ [ob]) c t' = table_of obs c t'" if "c \<noteq> ?c" for c t'
    using that by (auto simp: table_of_def stated_for_step)
  ultimately show ?thesis
    using tables_of_at [OF assms] unfolding tables_of_def t(1) om_lookup_update
    by (auto split: option.splits)
qed

lemma tables_of_all: "tables_of obs (fold observe_reference obs om_empty)"
proof (induction obs rule: rev_induct)
  case Nil
  show ?case by (simp add: tables_of_def om_lookup_def om_empty_def)
next
  case (snoc ob obs)
  then show ?case using tables_of_step by simp
qed

lemma resolve_all:
  "resolve (fold observe_reference obs om_empty) c i t = resolve_in (history_of (stated_for c i obs)) t"
proof -
  let ?m = "fold observe_reference obs om_empty"
  show ?thesis
  proof (cases "om_lookup ?m c")
    case None
    then have "on_channel c obs = []" by (rule tables_of_at(1) [OF tables_of_all])
    then show ?thesis
      using None by (simp add: resolve_def stated_for_def current_era_def map_filter_def resolve_in_def)
  next
    case (Some e)
    then have "table_of obs c e" by (rule tables_of_at(2) [OF tables_of_all])
    then show ?thesis
      using Some by (simp add: resolve_def table_of_def some_history_def resolve_in_def)
  qed
qed


definition example_definition :: "u32 \<Rightarrow> i8 \<Rightarrow> instrument_definition" where
  "example_definition i e =
     \<lparr>idef_instrument_id = i, idef_source_id = 1, idef_symbol = 66 # replicate 63 0,
      idef_leg1 = replicate 8 0, idef_leg2 = replicate 8 0, idef_asset_class = 0,
      idef_price_exponent = e, idef_qty_exponent = 0, idef_market_model = 0, idef_tick_size = 1,
      idef_lot_size = 1, idef_contract_value = 0, idef_expiry_ns = 0, idef_settle_type = 0,
      idef_price_bound = 0, idef_manifest_seq = 1\<rparr>"

definition example_position :: "u8 \<Rightarrow> u64 \<Rightarrow> at_position" where
  "example_position reset ts =
     \<lparr>at_instance = ChannelInstance 7 1 9000, at_sequence_number = ts, at_reset_count = reset,
      at_recv_ts_ns = ts\<rparr>"


end
