(* ===== verification/Consumer_Book.thy ===== *)
theory Consumer_Book
  imports Instrument_Table Messages_Tob Messages_Mbp
begin

unbundle bit_operations_syntax

section \<open>The consumer's book\<close>

text \<open>
  \<open>book.rs\<close> of \<open>dz-recorder-events\<close>: every instrument's book as the messages of a channel leave
  it, and whether that book can be believed. A side is an ordered map keyed by the price as the
  signed number it is. An optional \<open>Change\<close> is what a message did to the visible top or to the
  certainty of it.
\<close>

subsection \<open>Tops, certainty, books\<close>

record book_side =
  sd_price_raw :: "i64 option"
  sd_qty_raw :: "u64 option"
  sd_source_count :: "u16 option"

definition side_absent :: book_side where
  "side_absent = \<lparr>sd_price_raw = None, sd_qty_raw = None, sd_source_count = None\<rparr>"

definition side_is_absent :: "book_side \<Rightarrow> bool" where
  "side_is_absent s \<longleftrightarrow> sd_price_raw s = None \<and> sd_qty_raw s = None"

record top_of_book =
  tp_bid :: book_side
  tp_ask :: book_side

definition top_default :: top_of_book where
  "top_default = \<lparr>tp_bid = side_absent, tp_ask = side_absent\<rparr>"

datatype uncertain_reason = ReasonNone | ReasonGap | ReasonInstrumentReset | ReasonNoAnchor

datatype book_status = Unstated | AwaitingSnapshot | BuildingSnapshot | Ready | GapStatus

record certainty =
  ct_certain :: bool
  ct_since :: "u64 option"
  ct_reason :: uncertain_reason

definition certainty_known :: certainty where
  "certainty_known = \<lparr>ct_certain = True, ct_since = None, ct_reason = ReasonNone\<rparr>"

definition certainty_unknown :: "u64 \<Rightarrow> uncertain_reason \<Rightarrow> certainty" where
  "certainty_unknown since reason = \<lparr>ct_certain = False, ct_since = Some since, ct_reason = reason\<rparr>"

definition certainty_unanchored :: "uncertain_reason \<Rightarrow> certainty" where
  "certainty_unanchored reason = \<lparr>ct_certain = False, ct_since = None, ct_reason = reason\<rparr>"

type_synonym levels = "(int, u64) omap"

record instrument_book =
  ib_bids :: levels
  ib_asks :: levels
  ib_top :: top_of_book
  ib_established :: bool
  ib_certainty :: "certainty option"
  ib_awaiting_anchor :: "u64 option"
  ib_said_no_anchor :: bool
  ib_open_cycles :: u32

definition instrument_book_default :: instrument_book where
  "instrument_book_default =
     \<lparr>ib_bids = om_empty, ib_asks = om_empty, ib_top = top_default, ib_established = False,
      ib_certainty = None, ib_awaiting_anchor = None, ib_said_no_anchor = False, ib_open_cycles = 0\<rparr>"

definition book_state :: "instrument_book \<Rightarrow> book_status" where
  "book_state b =
     (if \<not> ib_established b then
        if ib_awaiting_anchor b \<noteq> None then AwaitingSnapshot
        else if ib_open_cycles b > 0 then BuildingSnapshot
        else Unstated
      else case ib_certainty b of
          None \<Rightarrow> Ready
        | Some c \<Rightarrow> if ct_certain c then Ready
            else if ct_reason c = ReasonGap then GapStatus
            else Unstated)"

record open_cycle =
  oc_instrument_id :: u32
  oc_anchor_seq :: u64
  oc_total_levels :: u32
  oc_bids :: levels
  oc_asks :: levels
  oc_levels :: u32

record book_refused =
  br_incomplete_cycle :: u64
  br_stale_cycle :: u64
  br_unclosed_cycle :: u64

definition book_refused_zero :: book_refused where
  "book_refused_zero = \<lparr>br_incomplete_cycle = 0, br_stale_cycle = 0, br_unclosed_cycle = 0\<rparr>"

record book_change =
  bk_top :: top_of_book
  bk_certainty :: certainty
  bk_from_anchor :: bool

record consumer_book =
  cb_books :: "(channel \<times> u32, instrument_book) omap"
  cb_cycles :: "(channel \<times> u32, open_cycle) omap"
  cb_last_sequence :: "(channel_instance, u64) omap"
  cb_refused :: book_refused

definition consumer_book_new :: consumer_book where
  "consumer_book_new =
     \<lparr>cb_books = om_empty, cb_cycles = om_empty, cb_last_sequence = om_empty,
      cb_refused = book_refused_zero\<rparr>"

subsection \<open>Sides and tops\<close>

definition side_of_quote :: "i64 \<Rightarrow> u64 \<Rightarrow> u16 \<Rightarrow> book_side" where
  "side_of_quote price_raw qty_raw source_count =
     (if price_raw = 0 \<and> qty_raw = 0 then side_absent
      else \<lparr>sd_price_raw = Some price_raw, sd_qty_raw = Some qty_raw,
            sd_source_count = Some source_count\<rparr>)"

definition put_level :: "i64 \<Rightarrow> u64 \<Rightarrow> levels \<Rightarrow> levels" where
  "put_level price qty side =
     (if qty = 0 then om_remove (sint price) side else om_update (sint price) qty side)"

definition apply_level :: "level_update \<Rightarrow> instrument_book \<Rightarrow> instrument_book" where
  "apply_level l b =
     (if lu_side l = SIDE_BID
      then b\<lparr>ib_bids := put_level (lu_price_raw l) (lu_qty_raw l) (ib_bids b)\<rparr>
      else b\<lparr>ib_asks := put_level (lu_price_raw l) (lu_qty_raw l) (ib_asks b)\<rparr>)"

definition clear_side :: "i64 option \<Rightarrow> bool \<Rightarrow> levels \<Rightarrow> levels" where
  "clear_side from_price is_bid side =
     (case from_price of
        None \<Rightarrow> om_empty
      | Some bound \<Rightarrow>
          filter (\<lambda>(price, q). if is_bid then price > sint bound else price < sint bound) side)"

definition side_of_level :: "int \<times> u64 \<Rightarrow> book_side" where
  "side_of_level l = \<lparr>sd_price_raw = Some (word_of_int (fst l)), sd_qty_raw = Some (snd l),
     sd_source_count = None\<rparr>"

definition top_of_levels :: "levels \<Rightarrow> levels \<Rightarrow> top_of_book" where
  "top_of_levels bids asks =
     \<lparr>tp_bid = (if bids = [] then side_absent else side_of_level (last bids)),
      tp_ask = (if asks = [] then side_absent else side_of_level (hd asks))\<rparr>"

definition recompute_top :: "instrument_book \<Rightarrow> instrument_book" where
  "recompute_top b = b\<lparr>ib_top := top_of_levels (ib_bids b) (ib_asks b)\<rparr>"

definition book_changed ::
    "top_of_book \<times> certainty option \<Rightarrow> instrument_book \<Rightarrow> book_change option" where
  "book_changed was b =
     (let now = (case ib_certainty b of None \<Rightarrow> certainty_known | Some c \<Rightarrow> c);
          top_moved = fst was \<noteq> ib_top b;
          certainty_moved = snd was \<noteq> ib_certainty b in
      if \<not> top_moved \<and> \<not> certainty_moved then None
      else if \<not> ib_established b \<and> ib_top b = top_default \<and> \<not> certainty_moved then None
      else Some \<lparr>bk_top = ib_top b, bk_certainty = now, bk_from_anchor = False\<rparr>)"

subsection \<open>The operations\<close>

definition book_at :: "channel \<Rightarrow> u32 \<Rightarrow> consumer_book \<Rightarrow> instrument_book" where
  "book_at c i cb = (case om_lookup (cb_books cb) (c, i) of None \<Rightarrow> instrument_book_default | Some b \<Rightarrow> b)"

definition put_book :: "channel \<Rightarrow> u32 \<Rightarrow> instrument_book \<Rightarrow> consumer_book \<Rightarrow> consumer_book" where
  "put_book c i b cb = cb\<lparr>cb_books := om_update (c, i) b (cb_books cb)\<rparr>"

text \<open>The mark a gap leaves on one book, with the change it makes; \<open>None\<close> where it makes none.\<close>

definition unknowable :: "u64 \<Rightarrow> instrument_book \<Rightarrow> (book_change \<times> instrument_book) option" where
  "unknowable missing_from b =
     (if \<not> ib_established b then None
      else if (case ib_certainty b of None \<Rightarrow> False | Some c \<Rightarrow> \<not> ct_certain c) then None
      else let c = certainty_unknown missing_from ReasonGap in
        Some (\<lparr>bk_top = ib_top b, bk_certainty = c, bk_from_anchor = False\<rparr>, b\<lparr>ib_certainty := Some c\<rparr>))"

fun mark_gap :: "channel \<Rightarrow> u64 \<Rightarrow> (channel \<times> u32, instrument_book) omap \<Rightarrow>
    (u32 \<times> book_change) list \<times> (channel \<times> u32, instrument_book) omap" where
  "mark_gap c missing_from [] = ([], [])"
| "mark_gap c missing_from (((c', i), b) # books) =
     (let (changes, books) = mark_gap c missing_from books in
      if c' \<noteq> c then (changes, ((c', i), b) # books)
      else case unknowable missing_from b of
          None \<Rightarrow> (changes, ((c', i), b) # books)
        | Some (change, b) \<Rightarrow> ((i, change) # changes, ((c', i), b) # books))"

definition observe_sequence :: "channel_instance \<Rightarrow> port_role \<Rightarrow> u64 \<Rightarrow> consumer_book \<Rightarrow>
    (u32 \<times> book_change) list \<times> consumer_book" where
  "observe_sequence k role sequence_number cb =
     (case om_lookup (cb_last_sequence cb) k of
        None \<Rightarrow> ([], cb\<lparr>cb_last_sequence := om_update k sequence_number (cb_last_sequence cb)\<rparr>)
      | Some previous \<Rightarrow>
          if sequence_number \<le> previous then ([], cb)
          else
            let cb = cb\<lparr>cb_last_sequence := om_update k sequence_number (cb_last_sequence cb)\<rparr> in
            if sequence_number = previous + 1 then ([], cb)
            else if role \<noteq> Mktdata then ([], cb)
            else let (changes, books) = mark_gap (channel_of k) (previous + 1) (cb_books cb) in
              (changes, cb\<lparr>cb_books := books\<rparr>))"

definition book_quote :: "channel \<Rightarrow> quote \<Rightarrow> consumer_book \<Rightarrow> book_change option \<times> consumer_book" where
  "book_quote c q cb =
     (let top = \<lparr>tp_bid = side_of_quote (q_bid_price q) (q_bid_qty q) (q_bid_source_count q),
                 tp_ask = side_of_quote (q_ask_price q) (q_ask_qty q) (q_ask_source_count q)\<rparr>;
          b = book_at c (q_instrument_id q) cb;
          was = (ib_top b, ib_certainty b);
          b = b\<lparr>ib_top := top, ib_established := True, ib_certainty := Some certainty_known,
                ib_awaiting_anchor := None\<rparr> in
      (book_changed was b, put_book c (q_instrument_id q) b cb))"

definition book_level :: "channel \<Rightarrow> level_update \<Rightarrow> consumer_book \<Rightarrow> book_change option \<times> consumer_book" where
  "book_level c l cb =
     (let b = book_at c (lu_instrument_id l) cb in
      if \<not> ib_established b then
        if ib_said_no_anchor b then (None, put_book c (lu_instrument_id l) b cb)
        else
          let ct = certainty_unanchored ReasonNoAnchor;
              b = b\<lparr>ib_said_no_anchor := True, ib_certainty := Some ct\<rparr> in
          (Some \<lparr>bk_top = top_default, bk_certainty = ct, bk_from_anchor = False\<rparr>,
           put_book c (lu_instrument_id l) b cb)
      else
        let was = (ib_top b, ib_certainty b);
            b = recompute_top (apply_level l b) in
        (book_changed was b, put_book c (lu_instrument_id l) b cb))"

definition book_clear_levels :: "channel \<Rightarrow> book_clear \<Rightarrow> consumer_book \<Rightarrow> book_change option \<times> consumer_book" where
  "book_clear_levels c m cb =
     (let b = book_at c (bc_instrument_id m) cb in
      if \<not> ib_established b then (None, put_book c (bc_instrument_id m) b cb)
      else
        let was = (ib_top b, ib_certainty b);
            from = (if bc_scope m = SCOPE_FROM_PRICE then Some (bc_from_price_raw m) else None);
            b = (if bc_clear_side m = CLEAR_BID \<or> bc_clear_side m = CLEAR_BOTH
                 then b\<lparr>ib_bids := clear_side from True (ib_bids b)\<rparr> else b);
            b = (if bc_clear_side m = CLEAR_ASK \<or> bc_clear_side m = CLEAR_BOTH
                 then b\<lparr>ib_asks := clear_side from False (ib_asks b)\<rparr> else b);
            b = recompute_top b in
        (book_changed was b, put_book c (bc_instrument_id m) b cb))"

definition book_reset :: "channel \<Rightarrow> instrument_reset \<Rightarrow> consumer_book \<Rightarrow> book_change option \<times> consumer_book" where
  "book_reset c m cb =
     (let b = book_at c (ir_instrument_id m) cb;
          was = (ib_top b, ib_certainty b);
          b = b\<lparr>ib_bids := om_empty, ib_asks := om_empty, ib_top := top_default,
                ib_established := False, ib_said_no_anchor := False,
                ib_awaiting_anchor := Some (ir_new_anchor_seq m),
                ib_certainty := Some (certainty_unknown (ir_new_anchor_seq m) ReasonInstrumentReset)\<rparr> in
      (book_changed was b, put_book c (ir_instrument_id m) b cb))"

definition cycle_closed :: "channel \<Rightarrow> u32 \<Rightarrow> consumer_book \<Rightarrow> consumer_book" where
  "cycle_closed c i cb =
     (case om_lookup (cb_books cb) (c, i) of
        None \<Rightarrow> cb
      | Some b \<Rightarrow> put_book c i (b\<lparr>ib_open_cycles := sat_sub (ib_open_cycles b) 1\<rparr>) cb)"

definition book_snapshot_begin :: "channel \<Rightarrow> snapshot_begin \<Rightarrow> consumer_book \<Rightarrow> consumer_book" where
  "book_snapshot_begin c m cb =
     (let displaced = om_lookup (cb_cycles cb) (c, sb_snapshot_id m);
          cb = cb\<lparr>cb_cycles := om_update (c, sb_snapshot_id m)
            \<lparr>oc_instrument_id = sb_instrument_id m, oc_anchor_seq = sb_anchor_seq m,
             oc_total_levels = sb_total_levels m, oc_bids = om_empty, oc_asks = om_empty,
             oc_levels = 0\<rparr> (cb_cycles cb)\<rparr>;
          cb = (case displaced of None \<Rightarrow> cb | Some d \<Rightarrow> cycle_closed c (oc_instrument_id d) cb);
          b = book_at c (sb_instrument_id m) cb in
      put_book c (sb_instrument_id m) (b\<lparr>ib_open_cycles := ib_open_cycles b + 1\<rparr>) cb)"

definition cycle_level :: "snapshot_level \<Rightarrow> open_cycle \<Rightarrow> open_cycle" where
  "cycle_level m cy =
     (let cy = cy\<lparr>oc_levels := oc_levels cy + 1\<rparr> in
      if sl_side m = SIDE_BID
      then cy\<lparr>oc_bids := om_update (sint (sl_price_raw m)) (sl_qty_raw m) (oc_bids cy)\<rparr>
      else cy\<lparr>oc_asks := om_update (sint (sl_price_raw m)) (sl_qty_raw m) (oc_asks cy)\<rparr>)"

definition book_snapshot_level :: "channel \<Rightarrow> snapshot_level \<Rightarrow> consumer_book \<Rightarrow> consumer_book" where
  "book_snapshot_level c m cb =
     (case om_lookup (cb_cycles cb) (c, sl_snapshot_id m) of
        None \<Rightarrow> cb
      | Some cy \<Rightarrow> cb\<lparr>cb_cycles := om_update (c, sl_snapshot_id m) (cycle_level m cy) (cb_cycles cb)\<rparr>)"

definition book_snapshot_end :: "channel \<Rightarrow> snapshot_end \<Rightarrow> consumer_book \<Rightarrow> book_change option \<times> consumer_book" where
  "book_snapshot_end c m cb =
     (case om_lookup (cb_cycles cb) (c, se_snapshot_id m) of
        None \<Rightarrow> (None, cb)
      | Some cy \<Rightarrow>
          let cb = cb\<lparr>cb_cycles := om_remove (c, se_snapshot_id m) (cb_cycles cb)\<rparr>;
              cb = cycle_closed c (oc_instrument_id cy) cb;
              refused = cb_refused cb in
          if oc_levels cy \<noteq> oc_total_levels cy
          then (None, cb\<lparr>cb_refused := refused\<lparr>br_incomplete_cycle := br_incomplete_cycle refused + 1\<rparr>\<rparr>)
          else if (case om_lookup (cb_books cb) (c, oc_instrument_id cy) of
                     None \<Rightarrow> False
                   | Some b \<Rightarrow> (case ib_awaiting_anchor b of
                                 None \<Rightarrow> False | Some awaiting \<Rightarrow> oc_anchor_seq cy < awaiting))
          then (None, cb\<lparr>cb_refused := refused\<lparr>br_stale_cycle := br_stale_cycle refused + 1\<rparr>\<rparr>)
          else
            let b = book_at c (oc_instrument_id cy) cb;
                was = (ib_top b, ib_certainty b);
                b = recompute_top (b\<lparr>ib_bids := oc_bids cy, ib_asks := oc_asks cy,
                      ib_established := True, ib_said_no_anchor := False,
                      ib_awaiting_anchor := None, ib_certainty := Some certainty_known\<rparr>) in
            (map_option (\<lambda>ch. ch\<lparr>bk_from_anchor := True\<rparr>) (book_changed was b),
             put_book c (oc_instrument_id cy) b cb))"

definition book_close_object :: "consumer_book \<Rightarrow> consumer_book" where
  "book_close_object cb =
     (let refused = cb_refused cb;
          stranded = map (\<lambda>((c, _), cy). (c, oc_instrument_id cy)) (cb_cycles cb);
          cb = cb\<lparr>cb_refused := refused\<lparr>br_unclosed_cycle :=
                 br_unclosed_cycle refused + word_of_nat (length (cb_cycles cb))\<rparr>,
               cb_cycles := om_empty\<rparr> in
      fold (\<lambda>(c, i). cycle_closed c i) stranded cb)"

definition depth_and_status :: "consumer_book \<Rightarrow> channel \<Rightarrow> u32 \<Rightarrow> u32 \<times> book_status" where
  "depth_and_status cb c i =
     (case om_lookup (cb_books cb) (c, i) of
        None \<Rightarrow> (0, Unstated)
      | Some b \<Rightarrow>
          let levels = length (ib_bids b) + length (ib_asks b) in
          (if levels < 2 ^ 32 then word_of_nat levels else - 1, book_state b))"

subsection \<open>Keys of a top\<close>

definition KEY_OFFSET :: u64 where "KEY_OFFSET = 0xcbf29ce484222325"
definition KEY_PRIME :: u64 where "KEY_PRIME = 0x100000001b3"

definition eat :: "bytes \<Rightarrow> u64 \<Rightarrow> u64" where
  "eat bs hash = fold (\<lambda>b hash. (hash XOR ucast b) * KEY_PRIME) bs hash"

definition to_be :: "'a::len word \<Rightarrow> bytes" where
  "to_be w = rev (to_le w)"

definition fold_side :: "book_side \<Rightarrow> u64 \<Rightarrow> u64" where
  "fold_side s hash =
     (if side_is_absent s then eat [0] hash
      else
        let hash = eat [1] hash;
            hash = eat (to_be (case sd_price_raw s of None \<Rightarrow> 0 | Some p \<Rightarrow> p)) hash;
            hash = eat (to_be (case sd_qty_raw s of None \<Rightarrow> 0 | Some q \<Rightarrow> q)) hash in
        case sd_source_count s of
          None \<Rightarrow> eat [0] hash
        | Some count \<Rightarrow> eat (to_be count) (eat [1] hash))"

definition fold_top :: "u64 \<Rightarrow> top_of_book \<Rightarrow> u64" where
  "fold_top hash t = fold fold_side [tp_bid t, tp_ask t] hash"

definition as_stated :: "book_side \<Rightarrow> book_side" where
  "as_stated s = s\<lparr>sd_source_count :=
     (case sd_source_count s of None \<Rightarrow> None | Some count \<Rightarrow> if count \<noteq> 0 then Some count else None)\<rparr>"

definition as_both_observers_state_it :: "top_of_book \<Rightarrow> top_of_book" where
  "as_both_observers_state_it t = \<lparr>tp_bid = as_stated (tp_bid t), tp_ask = as_stated (tp_ask t)\<rparr>"

definition book_key :: "top_of_book \<Rightarrow> u64" where
  "book_key t = fold_top KEY_OFFSET (as_both_observers_state_it t)"

definition state_key :: "u8 \<Rightarrow> u32 \<Rightarrow> top_of_book \<Rightarrow> u64" where
  "state_key channel_id instrument_id t =
     fold_top (eat (to_be instrument_id) (eat [channel_id] KEY_OFFSET)) t"

end
