(* ===== verification/Book_Trust.thy ===== *)
theory Book_Trust
  imports Consumer_Book
begin

section \<open>What a consumer's book is, and when it may be believed\<close>

text \<open>
  Runs of the operations of \<open>Consumer_Book\<close> from an empty book. The lemmas look at one
  instrument of one channel: what every operation does to its book, the count of the cycles open
  for it, the invariant of its status, and the history that makes it certain.
\<close>

datatype book_op =
  Arrival channel_instance port_role u64
| QuoteOp channel quote
| LevelOp channel level_update
| ClearOp channel book_clear
| ResetOp channel instrument_reset
| BeginOp channel snapshot_begin
| SnapLevelOp channel snapshot_level
| EndOp channel snapshot_end

fun book_step :: "book_op \<Rightarrow> consumer_book \<Rightarrow> consumer_book" where
  "book_step (Arrival k role n) cb = snd (observe_sequence k role n cb)"
| "book_step (QuoteOp c q) cb = snd (book_quote c q cb)"
| "book_step (LevelOp c l) cb = snd (book_level c l cb)"
| "book_step (ClearOp c m) cb = snd (book_clear_levels c m cb)"
| "book_step (ResetOp c m) cb = snd (book_reset c m cb)"
| "book_step (BeginOp c m) cb = book_snapshot_begin c m cb"
| "book_step (SnapLevelOp c m) cb = book_snapshot_level c m cb"
| "book_step (EndOp c m) cb = snd (book_snapshot_end c m cb)"

definition book_run :: "book_op list \<Rightarrow> consumer_book" where
  "book_run ops = fold book_step ops consumer_book_new"

lemma book_run_simps [simp]:
  "book_run [] = consumer_book_new"
  "book_run (ops @ [x]) = book_step x (book_run ops)"
  by (simp_all add: book_run_def)

subsection \<open>What an operation does to one book\<close>

lemma book_at_new [simp]: "book_at c i consumer_book_new = instrument_book_default"
  by (simp add: book_at_def consumer_book_new_def om_lookup_def om_empty_def)

lemma book_at_put [simp]:
  "book_at c i (put_book c' i' b cb) = (if c = c' \<and> i = i' then b else book_at c i cb)"
  by (auto simp: book_at_def put_book_def om_lookup_update)

lemma put_book_fields [simp]:
  "cb_cycles (put_book c i b cb) = cb_cycles cb"
  "cb_last_sequence (put_book c i b cb) = cb_last_sequence cb"
  "cb_refused (put_book c i b cb) = cb_refused cb"
  by (simp_all add: put_book_def)

lemma book_at_cong: "cb_books cb = cb_books cb' \<Longrightarrow> book_at c i cb = book_at c i cb'"
  by (simp add: book_at_def)

lemma book_at_cycles [simp]:
  "book_at c i (cb\<lparr>cb_cycles := y\<rparr>) = book_at c i cb"
  "book_at c i (cb\<lparr>cb_last_sequence := z\<rparr>) = book_at c i cb"
  "book_at c i (cb\<lparr>cb_refused := r\<rparr>) = book_at c i cb"
  by (simp_all add: book_at_def)

lemma cycle_closed_fields [simp]:
  "cb_cycles (cycle_closed c i cb) = cb_cycles cb"
  "cb_last_sequence (cycle_closed c i cb) = cb_last_sequence cb"
  "cb_refused (cycle_closed c i cb) = cb_refused cb"
  by (simp_all add: cycle_closed_def split: option.splits)

lemma book_at_closed:
  "book_at c i (cycle_closed c' i' cb) =
    (if c = c' \<and> i = i'
     then (book_at c i cb)\<lparr>ib_open_cycles := sat_sub (ib_open_cycles (book_at c i cb)) 1\<rparr>
     else book_at c i cb)"
proof (cases "om_lookup (cb_books cb) (c', i')")
  case None
  have "sat_sub (0 :: u32) 1 = 0" by (simp add: sat_sub_def)
  then show ?thesis
    using None by (auto simp: cycle_closed_def book_at_def instrument_book_default_def)
next
  case (Some b)
  then show ?thesis
    by (auto simp: cycle_closed_def) (simp_all add: book_at_def)
qed

text \<open>The part of a book that holes, anchors and resets decide.\<close>

definition holed :: "u64 \<Rightarrow> instrument_book \<Rightarrow> instrument_book" where
  "holed m b = (case unknowable m b of None \<Rightarrow> b | Some (ch, b') \<Rightarrow> b')"

lemma holed_default: "holed m instrument_book_default = instrument_book_default"
  by (simp add: holed_def unknowable_def instrument_book_default_def)

lemma mark_gap_lookup:
  "om_lookup (snd (mark_gap c m books)) (c', i) =
     map_option (\<lambda>b. if c' = c then holed m b else b) (om_lookup books (c', i))"
  by (induction c m books rule: mark_gap.induct)
    (auto simp: om_lookup_def holed_def split_beta Let_def split: option.splits)

text \<open>A number that leaves a hole behind it.\<close>

definition leaves_hole :: "channel_instance \<Rightarrow> u64 \<Rightarrow> consumer_book \<Rightarrow> bool" where
  "leaves_hole k n cb \<longleftrightarrow>
     (case om_lookup (cb_last_sequence cb) k of
        None \<Rightarrow> False | Some previous \<Rightarrow> previous < n \<and> n \<noteq> previous + 1)"

definition mark_of :: "channel_instance \<Rightarrow> consumer_book \<Rightarrow> u64" where
  "mark_of k cb = (case om_lookup (cb_last_sequence cb) k of None \<Rightarrow> 0 | Some p \<Rightarrow> p)"

lemma book_at_arrival:
  "book_at c i (snd (observe_sequence k role n cb)) =
    (if role = Mktdata \<and> leaves_hole k n cb \<and> channel_of k = c
     then holed (mark_of k cb + 1) (book_at c i cb) else book_at c i cb)"
proof (cases "role = Mktdata \<and> leaves_hole k n cb")
  case True
  then obtain p where p: "om_lookup (cb_last_sequence cb) k = Some p" "p < n" "n \<noteq> p + 1"
    by (auto simp: leaves_hole_def split: option.splits)
  have "book_at c i (snd (observe_sequence k role n cb)) =
      (case map_option (\<lambda>b. if c = channel_of k then holed (p + 1) b else b) (om_lookup (cb_books cb) (c, i)) of
         None \<Rightarrow> instrument_book_default | Some b \<Rightarrow> b)"
    using p True by (simp add: observe_sequence_def Let_def split_beta book_at_def mark_gap_lookup)
  then show ?thesis
    using True p holed_default by (auto simp: book_at_def mark_of_def split: option.splits)
next
  case False
  then show ?thesis
    by (auto simp: observe_sequence_def leaves_hole_def Let_def split: option.splits if_splits)
qed

text \<open>The cycle an end closes, and whether it is applied.\<close>

definition applied_cycle :: "channel \<Rightarrow> snapshot_end \<Rightarrow> consumer_book \<Rightarrow> open_cycle option" where
  "applied_cycle c m cb =
     (case om_lookup (cb_cycles cb) (c, se_snapshot_id m) of
        None \<Rightarrow> None
      | Some cy \<Rightarrow>
          if oc_levels cy = oc_total_levels cy \<and>
             (case ib_awaiting_anchor (book_at c (oc_instrument_id cy) cb) of
                None \<Rightarrow> True | Some awaiting \<Rightarrow> awaiting \<le> oc_anchor_seq cy)
          then Some cy else None)"

definition cycle_owner :: "channel \<Rightarrow> u32 \<Rightarrow> consumer_book \<Rightarrow> u32 option" where
  "cycle_owner c snapshot_id cb = map_option oc_instrument_id (om_lookup (cb_cycles cb) (c, snapshot_id))"

definition anchored_on :: "open_cycle \<Rightarrow> instrument_book \<Rightarrow> instrument_book" where
  "anchored_on cy b =
     recompute_top (b\<lparr>ib_bids := oc_bids cy, ib_asks := oc_asks cy, ib_established := True,
       ib_said_no_anchor := False, ib_awaiting_anchor := None, ib_certainty := Some certainty_known\<rparr>)"

definition one_fewer :: "instrument_book \<Rightarrow> instrument_book" where
  "one_fewer b = b\<lparr>ib_open_cycles := sat_sub (ib_open_cycles b) 1\<rparr>"

lemma awaiting_lookup:
  "(case om_lookup (cb_books cb) (c, i) of
      None \<Rightarrow> False
    | Some b \<Rightarrow> (case ib_awaiting_anchor b of None \<Rightarrow> False | Some a \<Rightarrow> x < a)) \<longleftrightarrow>
   \<not> (case ib_awaiting_anchor (book_at c i cb) of None \<Rightarrow> True | Some a \<Rightarrow> a \<le> x)"
  by (auto simp: book_at_def instrument_book_default_def not_le split: option.splits)

lemma book_at_end:
  "book_at c i (snd (book_snapshot_end c' m cb)) =
    (if c = c' \<and> cycle_owner c (se_snapshot_id m) cb = Some i
     then case applied_cycle c m cb of
         None \<Rightarrow> one_fewer (book_at c i cb)
       | Some cy \<Rightarrow> anchored_on cy (one_fewer (book_at c i cb))
     else book_at c i cb)"
proof (cases "om_lookup (cb_cycles cb) (c', se_snapshot_id m)")
  case None
  then show ?thesis
    by (auto simp: book_snapshot_end_def cycle_owner_def)
next
  case (Some cy)
  let ?cb = "cycle_closed c' (oc_instrument_id cy)
      (cb\<lparr>cb_cycles := om_remove (c', se_snapshot_id m) (cb_cycles cb)\<rparr>)"
  have aw: "(case ib_awaiting_anchor (book_at c' (oc_instrument_id cy) ?cb) of
        None \<Rightarrow> True | Some a \<Rightarrow> a \<le> x) =
      (case ib_awaiting_anchor (book_at c' (oc_instrument_id cy) cb) of None \<Rightarrow> True | Some a \<Rightarrow> a \<le> x)" for x
    by (simp add: book_at_closed)
  show ?thesis
    using Some
    by (auto simp: book_snapshot_end_def cycle_owner_def applied_cycle_def awaiting_lookup aw
        book_at_closed one_fewer_def anchored_on_def Let_def)
qed

lemma book_at_begin:
  "book_at c i (book_snapshot_begin c' m cb) =
    (let b = (if c = c' \<and> cycle_owner c (sb_snapshot_id m) cb = Some i
              then one_fewer (book_at c i cb) else book_at c i cb) in
     if c = c' \<and> i = sb_instrument_id m then b\<lparr>ib_open_cycles := ib_open_cycles b + 1\<rparr> else b)"
  by (cases "om_lookup (cb_cycles cb) (c', sb_snapshot_id m)")
    (auto simp: book_snapshot_begin_def Let_def cycle_owner_def book_at_closed one_fewer_def)

lemma book_at_snapshot_level [simp]: "book_at c i (book_snapshot_level c' m cb) = book_at c i cb"
  by (simp add: book_snapshot_level_def split: option.splits)


subsection \<open>High-water marks\<close>

fun arrival_on :: "channel_instance \<Rightarrow> book_op \<Rightarrow> u64 option" where
  "arrival_on k (Arrival k' role n) = (if k' = k then Some n else None)"
| "arrival_on k x = None"

definition arrivals :: "channel_instance \<Rightarrow> book_op list \<Rightarrow> u64 list" where
  "arrivals k ops = List.map_filter (arrival_on k) ops"

lemma arrivals_simps [simp]:
  "arrivals k [] = []"
  "arrivals k (ops @ [x]) = arrivals k ops @ (case arrival_on k x of None \<Rightarrow> [] | Some n \<Rightarrow> [n])"
  by (simp_all add: arrivals_def map_filter_def split: option.splits)

lemma last_sequence_step:
  "om_lookup (cb_last_sequence (book_step x cb)) k =
    (case arrival_on k x of
       None \<Rightarrow> om_lookup (cb_last_sequence cb) k
     | Some n \<Rightarrow> Some (case om_lookup (cb_last_sequence cb) k of None \<Rightarrow> n | Some p \<Rightarrow> max p n))"
proof (cases x)
  case (Arrival k' role n)
  then show ?thesis
    by (auto simp: observe_sequence_def Let_def split_beta om_lookup_update max_def split: option.splits)
next
  case (EndOp c m)
  then show ?thesis
    by (simp add: book_snapshot_end_def Let_def split: option.splits)
qed (simp_all add: book_quote_def book_level_def book_clear_levels_def book_reset_def book_snapshot_begin_def
      book_snapshot_level_def Let_def split: option.splits)

lemma last_sequence_run:
  "om_lookup (cb_last_sequence (book_run ops)) k =
    (if arrivals k ops = [] then None else Some (Max (set (arrivals k ops))))"
proof (induction ops rule: rev_induct)
  case Nil
  show ?case by (simp add: consumer_book_new_def om_lookup_def om_empty_def)
next
  case (snoc x ops)
  show ?case
    by (cases "arrival_on k x") (simp_all add: last_sequence_step snoc.IH max.commute)
qed

text \<open>An arrival that leaves a hole: above everything its instance has carried, and not next.\<close>

definition hole_at :: "channel \<Rightarrow> book_op \<Rightarrow> book_op list \<Rightarrow> bool" where
  "hole_at c x seen \<longleftrightarrow>
     (case x of
        Arrival k role n \<Rightarrow> role = Mktdata \<and> channel_of k = c \<and> arrivals k seen \<noteq> [] \<and>
          list_all (\<lambda>p. unat p + 1 < unat n) (arrivals k seen)
      | _ \<Rightarrow> False)"

lemma above_next: "m < n \<and> n \<noteq> m + 1 \<longleftrightarrow> unat m + 1 < unat n" for m n :: u64
proof (cases "unat m < unat n")
  case True
  then have "unat (m + 1) = unat m + 1"
    using unat_bound [of n] by (simp add: unat_word_ariths)
  then show ?thesis
    using True by (auto simp: word_less_nat_alt word_unat_eq_iff)
qed (simp add: word_less_nat_alt)

lemma leaves_hole_run:
  "leaves_hole k n (book_run seen) \<longleftrightarrow>
     arrivals k seen \<noteq> [] \<and> list_all (\<lambda>p. unat p + 1 < unat n) (arrivals k seen)"
proof (cases "arrivals k seen = []")
  case False
  let ?m = "Max (set (arrivals k seen))"
  have "?m < n \<and> n \<noteq> ?m + 1 \<longleftrightarrow> unat ?m + 1 < unat n"
    by (rule above_next)
  moreover have "unat ?m + 1 < unat n \<longleftrightarrow> (\<forall>p\<in>set (arrivals k seen). unat p + 1 < unat n)"
  proof
    assume a: "unat ?m + 1 < unat n"
    show "\<forall>p\<in>set (arrivals k seen). unat p + 1 < unat n"
    proof
      fix p assume "p \<in> set (arrivals k seen)"
      then have "p \<le> ?m" by simp
      then show "unat p + 1 < unat n" using a by (simp add: word_le_nat_alt)
    qed
  next
    assume "\<forall>p\<in>set (arrivals k seen). unat p + 1 < unat n"
    then show "unat ?m + 1 < unat n" using False by (simp add: Max_in)
  qed
  ultimately show ?thesis
    using False by (simp add: leaves_hole_def last_sequence_run list_all_iff)
qed (simp add: leaves_hole_def last_sequence_run)

subsection \<open>Anchors, resets and what they decide\<close>

definition anchors :: "channel \<Rightarrow> u32 \<Rightarrow> book_op \<Rightarrow> book_op list \<Rightarrow> bool" where
  "anchors c i x seen \<longleftrightarrow>
     (case x of
        QuoteOp c' q \<Rightarrow> c' = c \<and> q_instrument_id q = i
      | EndOp c' m \<Rightarrow> c' = c \<and>
          (case applied_cycle c m (book_run seen) of None \<Rightarrow> False | Some cy \<Rightarrow> oc_instrument_id cy = i)
      | _ \<Rightarrow> False)"

definition disowns :: "channel \<Rightarrow> u32 \<Rightarrow> book_op \<Rightarrow> bool" where
  "disowns c i x \<longleftrightarrow> (case x of ResetOp c' m \<Rightarrow> c' = c \<and> ir_instrument_id m = i | _ \<Rightarrow> False)"

definition believed :: "instrument_book \<Rightarrow> bool" where
  "believed b \<longleftrightarrow> ib_established b \<and> ib_certainty b = Some certainty_known"

definition sound_book :: "instrument_book \<Rightarrow> bool" where
  "sound_book b \<longleftrightarrow>
     (if ib_established b
      then ib_awaiting_anchor b = None \<and>
        (ib_certainty b = Some certainty_known \<or> (\<exists>n. ib_certainty b = Some (certainty_unknown n ReasonGap)))
      else ib_certainty b \<noteq> Some certainty_known)"

lemma certainty_simps [simp]:
  "ct_certain certainty_known" "\<not> ct_certain (certainty_unknown n r)" "\<not> ct_certain (certainty_unanchored r)"
  "certainty_unknown n r \<noteq> certainty_known" "certainty_unanchored r \<noteq> certainty_known"
  "ct_reason (certainty_unknown n r) = r"
  by (simp_all add: certainty_known_def certainty_unknown_def certainty_unanchored_def)

lemma recompute_top_fields [simp]:
  "ib_established (recompute_top b) = ib_established b" "ib_certainty (recompute_top b) = ib_certainty b"
  "ib_awaiting_anchor (recompute_top b) = ib_awaiting_anchor b" "ib_open_cycles (recompute_top b) = ib_open_cycles b"
  "ib_bids (recompute_top b) = ib_bids b" "ib_asks (recompute_top b) = ib_asks b"
  by (simp_all add: recompute_top_def)

lemma apply_level_fields [simp]:
  "ib_established (apply_level l b) = ib_established b" "ib_certainty (apply_level l b) = ib_certainty b"
  "ib_awaiting_anchor (apply_level l b) = ib_awaiting_anchor b" "ib_open_cycles (apply_level l b) = ib_open_cycles b"
  by (simp_all add: apply_level_def)

lemma holed_fields [simp]:
  "ib_established (holed m b) = ib_established b"
  "ib_awaiting_anchor (holed m b) = ib_awaiting_anchor b" "ib_open_cycles (holed m b) = ib_open_cycles b"
  "ib_bids (holed m b) = ib_bids b" "ib_asks (holed m b) = ib_asks b" "ib_top (holed m b) = ib_top b"
  by (auto simp: holed_def unknowable_def Let_def)

lemma one_fewer_fields [simp]:
  "ib_established (one_fewer b) = ib_established b" "ib_certainty (one_fewer b) = ib_certainty b"
  "ib_awaiting_anchor (one_fewer b) = ib_awaiting_anchor b"
  "ib_bids (one_fewer b) = ib_bids b" "ib_asks (one_fewer b) = ib_asks b" "ib_top (one_fewer b) = ib_top b"
  by (simp_all add: one_fewer_def)

lemma anchored_on_fields [simp]:
  "ib_established (anchored_on cy b)" "ib_certainty (anchored_on cy b) = Some certainty_known"
  "ib_awaiting_anchor (anchored_on cy b) = None" "ib_open_cycles (anchored_on cy b) = ib_open_cycles b"
  "ib_bids (anchored_on cy b) = oc_bids cy" "ib_asks (anchored_on cy b) = oc_asks cy"
  "ib_top (anchored_on cy b) = top_of_levels (oc_bids cy) (oc_asks cy)"
  by (simp_all add: anchored_on_def) (simp add: recompute_top_def)

lemma holed_believed: "sound_book b \<Longrightarrow> \<not> believed (holed m b) \<and> sound_book (holed m b)"
  by (auto simp: sound_book_def believed_def holed_def unknowable_def Let_def split: if_splits option.splits)

lemma applied_owner:
  "applied_cycle c m cb = Some cy \<Longrightarrow> cycle_owner c (se_snapshot_id m) cb = Some (oc_instrument_id cy)"
  by (auto simp: applied_cycle_def cycle_owner_def split: option.splits if_splits)

lemma step_sound:
  assumes "sound_book (book_at c i (book_run seen))"
  shows "sound_book (book_at c i (book_step x (book_run seen))) \<and>
    (ib_established (book_at c i (book_step x (book_run seen))) \<longleftrightarrow>
       anchors c i x seen \<or> ib_established (book_at c i (book_run seen)) \<and> \<not> disowns c i x) \<and>
    (believed (book_at c i (book_step x (book_run seen))) \<longleftrightarrow>
       anchors c i x seen \<or> believed (book_at c i (book_run seen)) \<and> \<not> (disowns c i x \<or> hole_at c x seen))"
proof (cases x)
  case (Arrival k role n)
  then show ?thesis
    using assms holed_believed [OF assms]
    by (auto simp: book_at_arrival anchors_def disowns_def hole_at_def leaves_hole_run)
next
  case (EndOp c' m)
  show ?thesis
  proof (cases "applied_cycle c' m (book_run seen)")
    case None
    then show ?thesis
      using assms EndOp by (auto simp: book_at_end anchors_def disowns_def hole_at_def sound_book_def believed_def)
  next
    case (Some cy)
    then show ?thesis
      using assms EndOp applied_owner [OF Some]
      by (auto simp: book_at_end anchors_def disowns_def hole_at_def sound_book_def believed_def)
  qed
next
  case (BeginOp c' m)
  then show ?thesis
    using assms by (auto simp: book_at_begin anchors_def disowns_def hole_at_def sound_book_def believed_def Let_def)
qed (use assms in \<open>auto simp: anchors_def disowns_def hole_at_def sound_book_def believed_def Let_def
      book_quote_def book_level_def book_clear_levels_def book_reset_def\<close>)

text \<open>A state entered by one kind of step and left by another holds after the last entry not left.\<close>

definition entered_since ::
    "('a \<Rightarrow> 'a list \<Rightarrow> bool) \<Rightarrow> ('a \<Rightarrow> 'a list \<Rightarrow> bool) \<Rightarrow> 'a list \<Rightarrow> bool" where
  "entered_since enters leaves xs \<longleftrightarrow>
     (\<exists>pre x post. xs = pre @ x # post \<and> enters x pre \<and>
        \<not> (\<exists>p y q. post = p @ y # q \<and> leaves y (pre @ x # p)))"

lemma entered_since_Nil [simp]: "\<not> entered_since enters leaves []"
  by (simp add: entered_since_def)

lemma entered_since_snoc:
  "entered_since enters leaves (xs @ [z]) \<longleftrightarrow>
     enters z xs \<or> entered_since enters leaves xs \<and> \<not> leaves z xs"
proof
  assume "entered_since enters leaves (xs @ [z])"
  then obtain pre x post where s: "xs @ [z] = pre @ x # post" "enters x pre"
      "\<not> (\<exists>p y q. post = p @ y # q \<and> leaves y (pre @ x # p))"
    unfolding entered_since_def by (elim exE conjE)
  show "enters z xs \<or> entered_since enters leaves xs \<and> \<not> leaves z xs"
  proof (cases post rule: rev_cases)
    case Nil
    then show ?thesis using s by simp
  next
    case (snoc ys y)
    then have xs: "xs = pre @ x # ys" "y = z" using s(1) by simp_all
    have "\<not> leaves z xs" using s(3) snoc xs by blast
    moreover have "\<not> (\<exists>p y q. ys = p @ y # q \<and> leaves y (pre @ x # p))"
      using s(3) snoc by fastforce
    ultimately show ?thesis
      using xs s(2) unfolding entered_since_def by blast
  qed
next
  assume "enters z xs \<or> entered_since enters leaves xs \<and> \<not> leaves z xs"
  then show "entered_since enters leaves (xs @ [z])"
  proof
    assume "enters z xs"
    then show ?thesis
      unfolding entered_since_def by (intro exI [of _ xs] exI [of _ z] exI [of _ "[]"]) simp
  next
    assume a: "entered_since enters leaves xs \<and> \<not> leaves z xs"
    then obtain pre x post where s: "xs = pre @ x # post" "enters x pre"
        "\<not> (\<exists>p y q. post = p @ y # q \<and> leaves y (pre @ x # p))"
      unfolding entered_since_def by (elim exE conjE)
    have "\<not> (\<exists>p y q. post @ [z] = p @ y # q \<and> leaves y (pre @ x # p))"
    proof
      assume "\<exists>p y q. post @ [z] = p @ y # q \<and> leaves y (pre @ x # p)"
      then obtain p y q where b: "post @ [z] = p @ y # q" "leaves y (pre @ x # p)"
        by (elim exE conjE)
      then show False
        using a s by (cases q rule: rev_cases) auto
    qed
    then show ?thesis
      using s(1,2) unfolding entered_since_def
      by (intro exI [of _ pre] exI [of _ x] exI [of _ "post @ [z]"]) simp
  qed
qed

definition established_by :: "channel \<Rightarrow> u32 \<Rightarrow> book_op list \<Rightarrow> bool" where
  "established_by c i = entered_since (anchors c i) (\<lambda>x seen. disowns c i x)"

definition believed_by :: "channel \<Rightarrow> u32 \<Rightarrow> book_op list \<Rightarrow> bool" where
  "believed_by c i = entered_since (anchors c i) (\<lambda>x seen. disowns c i x \<or> hole_at c x seen)"

lemma book_run_sound:
  "sound_book (book_at c i (book_run ops)) \<and>
   (ib_established (book_at c i (book_run ops)) \<longleftrightarrow> established_by c i ops) \<and>
   (believed (book_at c i (book_run ops)) \<longleftrightarrow> believed_by c i ops)"
proof (induction ops rule: rev_induct)
  case Nil
  show ?case
    by (simp add: sound_book_def believed_def instrument_book_default_def established_by_def believed_by_def)
next
  case (snoc x ops)
  then show ?case
    using step_sound [of c i ops x]
    by (simp add: established_by_def believed_by_def entered_since_snoc)
qed

subsection \<open>Cycles open for an instrument\<close>

definition cycle_open_for :: "channel \<Rightarrow> u32 \<Rightarrow> consumer_book \<Rightarrow> u32 set" where
  "cycle_open_for c i cb = {snapshot_id. cycle_owner c snapshot_id cb = Some i}"

lemma open_for_finite [simp]: "finite (cycle_open_for c i cb)"
  by simp

lemma cycles_put [simp]:
  "cb_cycles (snd (observe_sequence k role n cb)) = cb_cycles cb"
  "cb_cycles (snd (book_quote c q cb)) = cb_cycles cb"
  "cb_cycles (snd (book_level c l cb)) = cb_cycles cb"
  "cb_cycles (snd (book_clear_levels c m cb)) = cb_cycles cb"
  "cb_cycles (snd (book_reset c r cb)) = cb_cycles cb"
  by (simp_all add: observe_sequence_def book_quote_def book_level_def book_clear_levels_def book_reset_def
      Let_def split_beta split: option.splits)

lemma cycles_end [simp]:
  "cb_cycles (snd (book_snapshot_end c m cb)) = om_remove (c, se_snapshot_id m) (cb_cycles cb)"
proof (cases "om_lookup (cb_cycles cb) (c, se_snapshot_id m)")
  case None
  then have "om_remove (c, se_snapshot_id m) (cb_cycles cb) = cb_cycles cb"
    by (force simp: om_lookup_def om_remove_def map_of_eq_None_iff intro!: filter_True)
  then show ?thesis using None by (simp add: book_snapshot_end_def)
qed (simp add: book_snapshot_end_def Let_def split: option.splits)

definition fresh_cycle :: "snapshot_begin \<Rightarrow> open_cycle" where
  "fresh_cycle m = \<lparr>oc_instrument_id = sb_instrument_id m, oc_anchor_seq = sb_anchor_seq m,
     oc_total_levels = sb_total_levels m, oc_bids = om_empty, oc_asks = om_empty, oc_levels = 0\<rparr>"

lemma cycles_begin [simp]:
  "cb_cycles (book_snapshot_begin c m cb) = om_update (c, sb_snapshot_id m) (fresh_cycle m) (cb_cycles cb)"
  by (simp add: book_snapshot_begin_def fresh_cycle_def Let_def split: option.splits)

lemma cycle_owner_step:
  "cycle_owner c snapshot_id (book_step x cb) =
    (case x of
       BeginOp c' m \<Rightarrow> if c' = c \<and> sb_snapshot_id m = snapshot_id then Some (sb_instrument_id m)
         else cycle_owner c snapshot_id cb
     | EndOp c' m \<Rightarrow> if c' = c \<and> se_snapshot_id m = snapshot_id then None else cycle_owner c snapshot_id cb
     | _ \<Rightarrow> cycle_owner c snapshot_id cb)"
proof (cases x)
  case (SnapLevelOp c' m)
  then show ?thesis
    by (auto simp: cycle_owner_def book_snapshot_level_def om_lookup_update cycle_level_def Let_def
        split: option.splits)
qed (auto simp: cycle_owner_def om_lookup_update om_lookup_remove fresh_cycle_def)

lemma open_for_begin:
  "cycle_open_for c i (book_step (BeginOp c' m) cb) =
    (if c' = c then (if sb_instrument_id m = i then insert (sb_snapshot_id m) (cycle_open_for c i cb)
                     else cycle_open_for c i cb - {sb_snapshot_id m})
     else cycle_open_for c i cb)"
  by (auto simp: cycle_open_for_def cycle_owner_step simp del: book_step.simps)

lemma open_for_end:
  "cycle_open_for c i (book_step (EndOp c' m) cb) =
    (if c' = c then cycle_open_for c i cb - {se_snapshot_id m} else cycle_open_for c i cb)"
  by (auto simp: cycle_open_for_def cycle_owner_step simp del: book_step.simps)

lemma open_for_same:
  "(case x of BeginOp c' m \<Rightarrow> False | EndOp c' m \<Rightarrow> False | _ \<Rightarrow> True) \<Longrightarrow>
   cycle_open_for c i (book_step x cb) = cycle_open_for c i cb"
  by (cases x) (simp_all add: cycle_open_for_def cycle_owner_step del: book_step.simps)

lemma open_for_new [simp]: "cycle_open_for c i consumer_book_new = {}"
  by (simp add: cycle_open_for_def cycle_owner_def consumer_book_new_def om_lookup_def om_empty_def)

lemma open_for_bound: "card (cycle_open_for c i (book_run ops)) \<le> length ops"
proof (induction ops rule: rev_induct)
  case (snoc x ops)
  have "card (cycle_open_for c i (book_step x (book_run ops))) \<le> card (cycle_open_for c i (book_run ops)) + 1"
    by (cases x) (auto simp: open_for_begin open_for_end open_for_same card_insert_if card_Diff_singleton_if
        simp del: book_step.simps)
  then show ?case using snoc by simp
qed simp

lemma open_cycles_same:
  "(case x of BeginOp c' m \<Rightarrow> False | EndOp c' m \<Rightarrow> False | _ \<Rightarrow> True) \<Longrightarrow>
   ib_open_cycles (book_at c i (book_step x cb)) = ib_open_cycles (book_at c i cb)"
  by (cases x) (auto simp: book_at_arrival book_quote_def book_level_def book_clear_levels_def book_reset_def Let_def)

lemma unat_fewer: "unat (ib_open_cycles (one_fewer b)) = unat (ib_open_cycles b) - 1"
  by (simp add: one_fewer_def unat_sat_sub)

lemma open_cycles_counted:
  "length ops < 2 ^ 32 \<Longrightarrow>
   unat (ib_open_cycles (book_at c i (book_run ops))) = card (cycle_open_for c i (book_run ops))"
proof (induction ops rule: rev_induct)
  case Nil
  show ?case by (simp add: instrument_book_default_def)
next
  case (snoc x ops)
  let ?cb = "book_run ops"
  have ih: "unat (ib_open_cycles (book_at c i ?cb)) = card (cycle_open_for c i ?cb)"
    using snoc by simp
  have bound: "card (cycle_open_for c i ?cb) + 1 < 2 ^ 32"
    using open_for_bound [of c i ops] snoc.prems by simp
  have up: "unat (w + 1) = unat w + 1" if "unat w + 1 < 2 ^ 32" for w :: u32
    using that by (simp add: unat_word_ariths)
  have one: "card (cycle_open_for c i ?cb) \<ge> 1" if "cycle_owner c sid ?cb = Some i" for sid
  proof -
    have "sid \<in> cycle_open_for c i ?cb" using that by (simp add: cycle_open_for_def)
    then show ?thesis by (metis One_nat_def Suc_leI card_gt_0_iff empty_iff open_for_finite)
  qed
  show ?case
  proof (cases x)
    case (BeginOp c' m)
    show ?thesis
    proof (cases "c' = c")
      case True
      have mem: "sb_snapshot_id m \<in> cycle_open_for c i ?cb \<longleftrightarrow> cycle_owner c (sb_snapshot_id m) ?cb = Some i"
        by (simp add: cycle_open_for_def)
      show ?thesis
        using True BeginOp ih bound one [of "sb_snapshot_id m"]
        by (auto simp: book_at_begin open_for_begin [simplified] mem Let_def unat_fewer up
            card_insert_if card_Diff_singleton_if)
    qed (use BeginOp ih in \<open>simp add: book_at_begin open_for_begin [simplified] Let_def\<close>)
  next
    case (EndOp c' m)
    show ?thesis
    proof (cases "c' = c")
      case True
      have mem: "se_snapshot_id m \<in> cycle_open_for c i ?cb \<longleftrightarrow> cycle_owner c (se_snapshot_id m) ?cb = Some i"
        by (simp add: cycle_open_for_def)
      show ?thesis
        using True EndOp ih
        by (auto simp: book_at_end open_for_end [simplified] mem unat_fewer card_Diff_singleton_if
            split: option.splits)
    qed (use EndOp ih in \<open>simp add: book_at_end open_for_end [simplified]\<close>)
  qed (use ih open_for_same [of x c i ?cb] open_cycles_same [of x c i ?cb] in \<open>simp_all del: book_step.simps\<close>)
qed


subsection \<open>The status of a book\<close>

definition reset_seen :: "channel \<Rightarrow> u32 \<Rightarrow> book_op list \<Rightarrow> bool" where
  "reset_seen c i ops \<longleftrightarrow> list_ex (disowns c i) ops"

lemma awaiting_step:
  assumes "sound_book (book_at c i (book_run ops))"
  shows "ib_awaiting_anchor (book_at c i (book_step x (book_run ops))) \<noteq> None \<longleftrightarrow>
    \<not> anchors c i x ops \<and> (disowns c i x \<or> ib_awaiting_anchor (book_at c i (book_run ops)) \<noteq> None)"
proof (cases x)
  case (EndOp c' m)
  show ?thesis
  proof (cases "applied_cycle c' m (book_run ops)")
    case None
    then show ?thesis
      using EndOp by (auto simp: book_at_end anchors_def disowns_def)
  next
    case (Some cy)
    then show ?thesis
      using EndOp applied_owner [OF Some] by (auto simp: book_at_end anchors_def disowns_def)
  qed
qed (auto simp: book_at_arrival book_at_begin anchors_def disowns_def Let_def
      book_quote_def book_level_def book_clear_levels_def book_reset_def)

lemma awaiting_run:
  "ib_awaiting_anchor (book_at c i (book_run ops)) \<noteq> None \<longleftrightarrow>
     \<not> established_by c i ops \<and> reset_seen c i ops"
proof (induction ops rule: rev_induct)
  case Nil
  show ?case by (simp add: instrument_book_default_def reset_seen_def)
next
  case (snoc x ops)
  have sound: "sound_book (book_at c i (book_run ops))"
    using book_run_sound [of c i ops] by simp
  show ?case
    unfolding book_run_simps awaiting_step [OF sound] snoc.IH established_by_def entered_since_snoc
      reset_seen_def by auto
qed

lemma book_state_run:
  assumes "length ops < 2 ^ 32"
  shows "book_state (book_at c i (book_run ops)) =
    (if established_by c i ops then if believed_by c i ops then Ready else GapStatus
     else if reset_seen c i ops then AwaitingSnapshot
     else if cycle_open_for c i (book_run ops) \<noteq> {} then BuildingSnapshot
     else Unstated)"
proof -
  let ?b = "book_at c i (book_run ops)"
  have s: "sound_book ?b" "ib_established ?b \<longleftrightarrow> established_by c i ops" "believed ?b \<longleftrightarrow> believed_by c i ops"
    using book_run_sound [of c i ops] by simp_all
  have "ib_open_cycles ?b > 0 \<longleftrightarrow> card (cycle_open_for c i (book_run ops)) > 0"
    unfolding open_cycles_counted [OF assms, of c i, symmetric] by (simp add: word_less_nat_alt)
  then have o: "ib_open_cycles ?b > 0 \<longleftrightarrow> cycle_open_for c i (book_run ops) \<noteq> {}"
    by (simp add: card_gt_0_iff)
  show ?thesis
  proof (cases "ib_established ?b")
    case True
    then show ?thesis
      using s by (auto simp: book_state_def believed_def sound_book_def)
  next
    case False
    then show ?thesis
      using s(2) o awaiting_run [of c i ops] by (auto simp: book_state_def)
  qed
qed

lemma depth_status_run:
  "snd (depth_and_status cb c i) = book_state (book_at c i cb)"
  by (cases "om_lookup (cb_books cb) (c, i)")
    (simp_all add: depth_and_status_def book_at_def instrument_book_default_def book_state_def Let_def)


text \<open>
  C22. The status reported beside a message is exactly the history's: ready or gap where the book
  was anchored and not disowned since, according to whether a hole was seen; awaiting a snapshot
  where it was disowned; building where a cycle of it is open; and nothing otherwise.
\<close>

theorem book_status_exactly:
  assumes "length ops < 2 ^ 32"
  shows "snd (depth_and_status (book_run ops) c i) =
    (if established_by c i ops then if believed_by c i ops then Ready else GapStatus
     else if reset_seen c i ops then AwaitingSnapshot
     else if \<exists>snapshot_id. cycle_owner c snapshot_id (book_run ops) = Some i then BuildingSnapshot
     else Unstated)"
  using book_state_run [OF assms, of c i] by (simp add: depth_status_run cycle_open_for_def)

end
