(* ===== verification/Book_Levels.thy ===== *)
theory Book_Levels
  imports Book_Trust
begin

section \<open>The levels a consumer's book holds\<close>

text \<open>
  Which price levels a book holds after any run of operations, what its top then is, and what a
  snapshot cycle does to the deltas that arrived while it was open.
\<close>

subsection \<open>One side\<close>

lemma put_level_lookup:
  "om_lookup (put_level price qty side) p =
    (if p = sint price then (if qty = 0 then None else Some qty) else om_lookup side p)"
  by (simp add: put_level_def om_lookup_update om_lookup_remove)

lemma clear_side_lookup:
  "om_lookup (clear_side from_price is_bid side) p =
    (case from_price of
       None \<Rightarrow> None
     | Some bound \<Rightarrow> if (if is_bid then p > sint bound else p < sint bound) then om_lookup side p else None)"
  by (induction side) (auto simp: clear_side_def om_lookup_def om_empty_def split: option.splits)

lemma om_ok_filter: "om_ok m \<Longrightarrow> om_ok (filter P m)"
  by (induction m) (auto simp: om_ok_def)

lemma om_ok_empty [simp]: "om_ok om_empty"
  by (simp add: om_ok_def om_empty_def)

lemma om_ok_put_level: "om_ok side \<Longrightarrow> om_ok (put_level price qty side)"
  by (simp add: put_level_def om_ok_update om_remove_def om_ok_filter)

lemma om_ok_clear_side: "om_ok side \<Longrightarrow> om_ok (clear_side f b side)"
  by (simp add: clear_side_def om_ok_filter split: option.splits)

lemma om_dom: "dom (om_lookup m) = fst ` set m"
proof -
  have "om_lookup m = map_of m" by (rule ext) (simp add: om_lookup_def)
  then show ?thesis by (simp add: dom_map_of_conv_image_fst)
qed

lemma om_last_max:
  fixes m :: "('k::linorder, 'v) omap"
  assumes "om_ok m" "m \<noteq> []"
  shows "last m = (Max (dom (om_lookup m)), the (om_lookup m (Max (dom (om_lookup m)))))"
proof -
  obtain ys y where m: "m = ys @ [y]" using assms(2) by (cases m rule: rev_cases) auto
  have less: "\<forall>x\<in>fst ` set ys. x < fst y"
    using assms(1) by (auto simp: m om_ok_def sorted_wrt_append)
  then have "Max (insert (fst y) (fst ` set ys)) = fst y"
    by (intro Max_eqI) (auto intro: less_imp_le)
  moreover have "map_of ys (fst y) = None"
    using less by (auto simp: map_of_eq_None_iff)
  ultimately show ?thesis
    unfolding om_dom by (cases y) (simp add: m om_lookup_def map_add_def)
qed

lemma om_hd_min:
  fixes m :: "('k::linorder, 'v) omap"
  assumes "om_ok m" "m \<noteq> []"
  shows "hd m = (Min (dom (om_lookup m)), the (om_lookup m (Min (dom (om_lookup m)))))"
proof -
  obtain y ys where m: "m = y # ys" using assms(2) by (cases m) auto
  have "\<forall>x\<in>fst ` set ys. fst y < x"
    using assms(1) by (auto simp: m om_ok_def)
  then have "Min (insert (fst y) (fst ` set ys)) = fst y"
    by (intro Min_eqI) (auto intro: less_imp_le)
  then show ?thesis
    unfolding om_dom by (cases y) (simp add: m om_lookup_def)
qed

lemma om_length_dom: "om_ok m \<Longrightarrow> length m = card (dom (om_lookup m))"
proof -
  assume "om_ok m"
  then have "distinct (map fst m)"
    by (auto simp: om_ok_def strict_sorted_iff)
  then show ?thesis
    unfolding om_dom by (metis distinct_card length_map set_map)
qed

subsection \<open>Where a level comes from and what takes it away\<close>

definition side_levels :: "bool \<Rightarrow> instrument_book \<Rightarrow> levels" where
  "side_levels bid b = (if bid then ib_bids b else ib_asks b)"

definition cycle_levels :: "bool \<Rightarrow> open_cycle \<Rightarrow> levels" where
  "cycle_levels bid cy = (if bid then oc_bids cy else oc_asks cy)"

definition states_level :: "channel \<Rightarrow> u32 \<Rightarrow> bool \<Rightarrow> int \<Rightarrow> u64 \<Rightarrow> book_op \<Rightarrow> book_op list \<Rightarrow> bool" where
  "states_level c i bid p q x seen \<longleftrightarrow>
     (case x of
        LevelOp c' l \<Rightarrow> c' = c \<and> lu_instrument_id l = i \<and> established_by c i seen \<and>
          (lu_side l = SIDE_BID) = bid \<and> sint (lu_price_raw l) = p \<and> lu_qty_raw l = q \<and> q \<noteq> 0
      | EndOp c' m \<Rightarrow> c' = c \<and>
          (case applied_cycle c m (book_run seen) of
             None \<Rightarrow> False
           | Some cy \<Rightarrow> oc_instrument_id cy = i \<and> om_lookup (cycle_levels bid cy) p = Some q)
      | _ \<Rightarrow> False)"

definition covers :: "book_clear \<Rightarrow> bool \<Rightarrow> bool" where
  "covers m bid \<longleftrightarrow>
     bc_clear_side m = (if bid then CLEAR_BID else CLEAR_ASK) \<or> bc_clear_side m = CLEAR_BOTH"

definition reaches :: "book_clear \<Rightarrow> bool \<Rightarrow> int \<Rightarrow> bool" where
  "reaches m bid p \<longleftrightarrow> bc_scope m \<noteq> SCOPE_FROM_PRICE \<or>
     (if bid then p \<le> sint (bc_from_price_raw m) else sint (bc_from_price_raw m) \<le> p)"

definition drops_level :: "channel \<Rightarrow> u32 \<Rightarrow> bool \<Rightarrow> int \<Rightarrow> book_op \<Rightarrow> book_op list \<Rightarrow> bool" where
  "drops_level c i bid p x seen \<longleftrightarrow>
     (case x of
        LevelOp c' l \<Rightarrow> c' = c \<and> lu_instrument_id l = i \<and> established_by c i seen \<and>
          (lu_side l = SIDE_BID) = bid \<and> sint (lu_price_raw l) = p
      | ClearOp c' m \<Rightarrow> c' = c \<and> bc_instrument_id m = i \<and> established_by c i seen \<and>
          covers m bid \<and> reaches m bid p
      | ResetOp c' m \<Rightarrow> c' = c \<and> ir_instrument_id m = i
      | EndOp c' m \<Rightarrow> c' = c \<and>
          (case applied_cycle c m (book_run seen) of None \<Rightarrow> False | Some cy \<Rightarrow> oc_instrument_id cy = i)
      | _ \<Rightarrow> False)"

lemma side_levels_simps [simp]:
  "side_levels bid (holed m b) = side_levels bid b"
  "side_levels bid (one_fewer b) = side_levels bid b"
  "side_levels bid (anchored_on cy b) = cycle_levels bid cy"
  "side_levels bid (recompute_top b) = side_levels bid b"
  by (simp_all add: side_levels_def cycle_levels_def)

lemma side_levels_apply:
  "side_levels bid (apply_level l b) =
    (if (lu_side l = SIDE_BID) = bid then put_level (lu_price_raw l) (lu_qty_raw l) (side_levels bid b)
     else side_levels bid b)"
  by (auto simp: side_levels_def apply_level_def)

lemma side_levels_clear:
  "side_levels bid (book_at c i (snd (book_clear_levels c' m cb))) =
    (if c = c' \<and> bc_instrument_id m = i \<and> ib_established (book_at c i cb) \<and> covers m bid
     then clear_side (if bc_scope m = SCOPE_FROM_PRICE then Some (bc_from_price_raw m) else None) bid
            (side_levels bid (book_at c i cb))
     else side_levels bid (book_at c i cb))"
proof -
  have "CLEAR_BID \<noteq> CLEAR_ASK" "CLEAR_BID \<noteq> CLEAR_BOTH" "CLEAR_ASK \<noteq> CLEAR_BOTH"
    by (simp_all add: CLEAR_BID_def CLEAR_ASK_def CLEAR_BOTH_def)
  then show ?thesis
    by (auto simp: book_clear_levels_def covers_def side_levels_def Let_def)
qed

lemma level_step:
  "om_lookup (side_levels bid (book_at c i (book_step x (book_run seen)))) p = Some q \<longleftrightarrow>
    states_level c i bid p q x seen \<or>
    om_lookup (side_levels bid (book_at c i (book_run seen))) p = Some q \<and> \<not> drops_level c i bid p x seen"
proof -
  have est: "ib_established (book_at c i (book_run seen)) \<longleftrightarrow> established_by c i seen"
    using book_run_sound [of c i seen] by simp
  show ?thesis
  proof (cases x)
    case (LevelOp c' l)
    then show ?thesis
      using est by (auto simp: states_level_def drops_level_def book_level_def Let_def side_levels_apply
          put_level_lookup) (auto simp: side_levels_def)
  next
    case (ClearOp c' m)
    then show ?thesis
      using est side_levels_clear [of bid c i c' m "book_run seen"]
      by (auto simp: states_level_def drops_level_def clear_side_lookup reaches_def not_less not_le)
  next
    case (EndOp c' m)
    show ?thesis
    proof (cases "applied_cycle c' m (book_run seen)")
      case None
      then show ?thesis
        using EndOp by (auto simp: book_at_end states_level_def drops_level_def)
    next
      case (Some cy)
      then show ?thesis
        using EndOp applied_owner [OF Some] by (auto simp: book_at_end states_level_def drops_level_def)
    qed
  qed (auto simp: states_level_def drops_level_def book_at_arrival book_at_begin book_quote_def book_reset_def
      Let_def side_levels_def one_fewer_def om_lookup_def om_empty_def)
qed

lemma levels_run:
  "om_lookup (side_levels bid (book_at c i (book_run ops))) p = Some q \<longleftrightarrow>
     entered_since (states_level c i bid p q) (drops_level c i bid p) ops"
proof (induction ops rule: rev_induct)
  case Nil
  show ?case
    by (simp add: instrument_book_default_def side_levels_def om_lookup_def om_empty_def)
next
  case (snoc x ops)
  then show ?case
    by (simp add: level_step entered_since_snoc)
qed

text \<open>
  C7. A book holds a quantity at a price exactly when an update or an applied snapshot cycle
  stated it and since then nothing restated the price, cleared it, reset the book or replaced it
  by another cycle; updates and clears count only where the book was established.
\<close>

theorem levels_held_exactly:
  "om_lookup (if bid then ib_bids (book_at c i (book_run ops)) else ib_asks (book_at c i (book_run ops))) p = Some q \<longleftrightarrow>
   (\<exists>pre x post. ops = pre @ x # post \<and> states_level c i bid p q x pre \<and>
      \<not> (\<exists>a y b. post = a @ y # b \<and> drops_level c i bid p y (pre @ x # a)))"
  using levels_run [of bid c i ops p q] unfolding entered_since_def side_levels_def by (cases bid) simp_all

subsection \<open>The top is the best level\<close>

definition quoted :: "channel \<Rightarrow> u32 \<Rightarrow> book_op \<Rightarrow> bool" where
  "quoted c i x \<longleftrightarrow> (case x of QuoteOp c' q \<Rightarrow> c' = c \<and> q_instrument_id q = i | _ \<Rightarrow> False)"

definition cycles_ordered :: "consumer_book \<Rightarrow> bool" where
  "cycles_ordered cb \<longleftrightarrow>
     (\<forall>k cy. om_lookup (cb_cycles cb) k = Some cy \<longrightarrow> om_ok (oc_bids cy) \<and> om_ok (oc_asks cy))"

lemma cycles_ordered_step: "cycles_ordered cb \<Longrightarrow> cycles_ordered (book_step x cb)"
proof (cases x)
  case (SnapLevelOp c m)
  assume a: "cycles_ordered cb"
  show ?thesis
  proof (cases "om_lookup (cb_cycles cb) (c, sl_snapshot_id m)")
    case None
    then show ?thesis using a SnapLevelOp by (simp add: book_snapshot_level_def)
  next
    case (Some cy)
    then have "om_ok (oc_bids cy) \<and> om_ok (oc_asks cy)" using a by (simp add: cycles_ordered_def)
    then have "om_ok (oc_bids (cycle_level m cy)) \<and> om_ok (oc_asks (cycle_level m cy))"
      by (simp add: cycle_level_def om_ok_update Let_def)
    then show ?thesis
      using a Some SnapLevelOp by (simp add: cycles_ordered_def book_snapshot_level_def om_lookup_update)
  qed
qed (auto simp: cycles_ordered_def om_lookup_update om_lookup_remove fresh_cycle_def)

lemma cycles_ordered_run: "cycles_ordered (book_run ops)"
  by (induction ops rule: rev_induct)
    (simp_all add: cycles_ordered_step, simp add: cycles_ordered_def consumer_book_new_def om_lookup_def om_empty_def)

definition depth_book :: "instrument_book \<Rightarrow> bool" where
  "depth_book b \<longleftrightarrow> om_ok (ib_bids b) \<and> om_ok (ib_asks b) \<and> ib_top b = top_of_levels (ib_bids b) (ib_asks b)"

lemma depth_book_recompute: "om_ok (ib_bids b) \<Longrightarrow> om_ok (ib_asks b) \<Longrightarrow> depth_book (recompute_top b)"
  by (simp add: depth_book_def) (simp add: recompute_top_def)

lemma top_of_no_levels: "top_of_levels om_empty om_empty = top_default"
  by (simp add: top_of_levels_def top_default_def om_empty_def)

lemma depth_book_step:
  assumes d: "depth_book (book_at c i (book_run seen))" and q: "\<not> quoted c i x"
  shows "depth_book (book_at c i (book_step x (book_run seen)))"
proof (cases x)
  case (LevelOp c' l)
  have "depth_book (recompute_top (apply_level l (book_at c i (book_run seen))))"
    by (rule depth_book_recompute) (use d in \<open>simp_all add: depth_book_def apply_level_def om_ok_put_level\<close>)
  then show ?thesis
    using d LevelOp by (auto simp: book_level_def Let_def) (simp add: depth_book_def)
next
  case (ClearOp c' m)
  show ?thesis
    using d ClearOp by (auto simp: book_clear_levels_def Let_def depth_book_def om_ok_clear_side recompute_top_def)
next
  case (EndOp c' m)
  show ?thesis
  proof (cases "applied_cycle c' m (book_run seen)")
    case None
    then show ?thesis
      using EndOp d by (auto simp: book_at_end depth_book_def)
  next
    case (Some cy)
    then have "om_ok (oc_bids cy) \<and> om_ok (oc_asks cy)"
      using cycles_ordered_run [of seen] by (auto simp: cycles_ordered_def applied_cycle_def split: option.splits if_splits)
    then show ?thesis
      using EndOp d Some by (auto simp: book_at_end depth_book_def)
  qed
qed (use d q in \<open>auto simp: quoted_def book_at_arrival book_at_begin book_quote_def book_reset_def Let_def
      depth_book_def one_fewer_def top_of_no_levels\<close>)

lemma depth_book_run: "\<not> list_ex (quoted c i) ops \<Longrightarrow> depth_book (book_at c i (book_run ops))"
proof (induction ops rule: rev_induct)
  case Nil
  show ?case by (simp add: depth_book_def instrument_book_default_def top_of_no_levels)
next
  case (snoc x ops)
  then show ?case using depth_book_step [of c i ops x] by simp
qed

text \<open>The best level of a side, as a book states it.\<close>

definition best_of :: "bool \<Rightarrow> levels \<Rightarrow> book_side" where
  "best_of bid side =
     (if dom (om_lookup side) = {} then side_absent
      else let best = (if bid then Max (dom (om_lookup side)) else Min (dom (om_lookup side))) in
        side_of_level (best, the (om_lookup side best)))"

lemma best_of_ordered:
  assumes "om_ok side"
  shows "best_of bid side =
    (if side = [] then side_absent else side_of_level (if bid then last side else hd side))"
proof (cases "side = []")
  case False
  then have "dom (om_lookup side) \<noteq> {}" by (simp add: om_dom)
  then show ?thesis
    unfolding best_of_def Let_def if_not_P [OF \<open>dom (om_lookup side) \<noteq> {}\<close>]
    using False om_last_max [OF assms False] om_hd_min [OF assms False] by (simp split: if_splits)
qed (unfold best_of_def om_dom, simp)

lemma top_is_best:
  "depth_book b \<Longrightarrow> ib_top b = \<lparr>tp_bid = best_of True (ib_bids b), tp_ask = best_of False (ib_asks b)\<rparr>"
  by (simp add: depth_book_def top_of_levels_def best_of_ordered)

lemma depth_of_book:
  assumes "depth_book (book_at c i cb)"
  shows "unat (fst (depth_and_status cb c i)) =
    min (card (dom (om_lookup (ib_bids (book_at c i cb)))) + card (dom (om_lookup (ib_asks (book_at c i cb))))) (2 ^ 32 - 1)"
proof (cases "om_lookup (cb_books cb) (c, i)")
  case None
  then show ?thesis
    by (simp add: depth_and_status_def book_at_def instrument_book_default_def om_dom om_empty_def)
next
  case (Some b)
  have "unat (- 1 :: u32) = 4294967295"
    by (simp add: unsigned_minus_1_eq_mask mask_eq_exp_minus_1)
  then show ?thesis
    using Some assms
    by (simp add: depth_and_status_def book_at_def Let_def depth_book_def unat_of_nat del: of_nat_add flip: om_length_dom)
qed

text \<open>
  C23. The top of a book no quote has spoken for is the highest bid and the lowest ask among the
  levels it holds, absent where a side holds none, and the depth reported is the number of the
  levels of both sides, up to the top of the counter.
\<close>

theorem top_is_the_best_level:
  assumes "\<not> list_ex (quoted c i) ops"
  shows "ib_top (book_at c i (book_run ops)) =
      \<lparr>tp_bid = best_of True (ib_bids (book_at c i (book_run ops))),
       tp_ask = best_of False (ib_asks (book_at c i (book_run ops)))\<rparr> \<and>
    unat (fst (depth_and_status (book_run ops) c i)) =
      min (card (dom (om_lookup (ib_bids (book_at c i (book_run ops))))) +
           card (dom (om_lookup (ib_asks (book_at c i (book_run ops)))))) (2 ^ 32 - 1)"
  using top_is_best depth_of_book depth_book_run [OF assms] by simp

subsection \<open>Deltas that arrive while a cycle is open\<close>

definition delta :: "book_op \<Rightarrow> bool" where
  "delta x \<longleftrightarrow> (case x of Arrival k role n \<Rightarrow> True | LevelOp c l \<Rightarrow> True | ClearOp c m \<Rightarrow> True | _ \<Rightarrow> False)"

lemma delta_frame:
  "delta x \<Longrightarrow> cb_cycles (book_step x (book_run seen)) = cb_cycles (book_run seen) \<and>
   ib_awaiting_anchor (book_at c i (book_step x (book_run seen))) = ib_awaiting_anchor (book_at c i (book_run seen))"
  by (cases x) (auto simp: delta_def book_at_arrival book_level_def book_clear_levels_def Let_def)

lemma delta_applied: "delta x \<Longrightarrow> applied_cycle c m (book_run (seen @ [x])) = applied_cycle c m (book_run seen)"
  by (simp add: applied_cycle_def delta_frame cong: option.case_cong)

lemma deltas_applied:
  "list_all delta ds \<Longrightarrow> applied_cycle c m (book_run (seen @ ds)) = applied_cycle c m (book_run seen)"
proof (induction ds rule: rev_induct)
  case (snoc x ds)
  then show ?case using delta_applied [of x c m "seen @ ds"] by simp
qed simp

text \<open>
  C35. A cycle that is applied leaves the book certain at exactly the levels the cycle stated,
  whatever updates and clears of the book were applied while the cycle was open and whatever
  holes were left in the numbering meanwhile: it is not what followed its anchor that is kept.
\<close>

theorem applied_cycle_discards_deltas:
  assumes "applied_cycle c m (book_run seen) = Some cy" "list_all delta ds"
  shows "ib_bids (book_at c (oc_instrument_id cy) (book_run (seen @ ds @ [EndOp c m]))) = oc_bids cy \<and>
    ib_asks (book_at c (oc_instrument_id cy) (book_run (seen @ ds @ [EndOp c m]))) = oc_asks cy \<and>
    ib_certainty (book_at c (oc_instrument_id cy) (book_run (seen @ ds @ [EndOp c m]))) = Some certainty_known"
proof -
  have a: "applied_cycle c m (book_run (seen @ ds)) = Some cy"
    using assms by (simp add: deltas_applied)
  have "book_run (seen @ ds @ [EndOp c m]) = snd (book_snapshot_end c m (book_run (seen @ ds)))"
    using book_run_simps(2) [of "seen @ ds" "EndOp c m"] by simp
  then show ?thesis
    using a applied_owner [OF a] by (simp add: book_at_end)
qed

subsection \<open>Concrete runs\<close>

definition ex_channel :: channel where "ex_channel = Channel 7 1"
definition ex_mktdata :: channel_instance where "ex_mktdata = ChannelInstance 7 1 9000"

definition ex_level :: "i64 \<Rightarrow> u64 \<Rightarrow> book_op" where
  "ex_level price qty = LevelOp ex_channel
     \<lparr>lu_instrument_id = 5, lu_source_id = 1, lu_side = 0, lu_action = 1, lu_per_instrument_seq = 1,
      lu_price_raw = price, lu_qty_raw = qty, lu_timestamp_ns = 0, lu_order_count = 1, lu_level_index = 0,
      lu_update_reason = 0, lu_level_flags = 0\<rparr>"

definition ex_end :: snapshot_end where
  "ex_end = \<lparr>se_instrument_id = 5, se_anchor_seq = 10, se_snapshot_id = 1\<rparr>"

definition ex_cycle :: "book_op list" where
  "ex_cycle =
     [Arrival ex_mktdata Mktdata 10,
      BeginOp ex_channel \<lparr>sb_instrument_id = 5, sb_anchor_seq = 10, sb_total_levels = 1,
        sb_snapshot_id = 1, sb_last_instrument_seq = 0, sb_timestamp_ns = 0, sb_depth_bound = 0\<rparr>,
      SnapLevelOp ex_channel \<lparr>sl_snapshot_id = 1, sl_price_raw = 100, sl_qty_raw = 3,
        sl_order_count = 1, sl_side = 0, sl_level_flags = 0\<rparr>]"

lemmas book_run_defs = book_run_def consumer_book_new_def om_empty_def om_lookup_def om_remove_def book_at_def
  put_book_def observe_sequence_def book_level_def book_snapshot_begin_def book_snapshot_level_def
  book_snapshot_end_def cycle_level_def cycle_closed_def instrument_book_default_def apply_level_def
  put_level_def recompute_top_def book_changed_def SIDE_BID_def certainty_unanchored_def
  top_default_def side_absent_def sat_sub_def top_of_levels_def side_of_level_def certainty_known_def

lemma ex_cycle_run:
  "book_run ex_cycle =
     \<lparr>cb_books = [((Channel 7 1, 5), instrument_book_default\<lparr>ib_open_cycles := 1\<rparr>)],
      cb_cycles = [((Channel 7 1, 1),
        \<lparr>oc_instrument_id = 5, oc_anchor_seq = 10, oc_total_levels = 1, oc_bids = [(100, 3)], oc_asks = [],
         oc_levels = 1\<rparr>)],
      cb_last_sequence = [(ChannelInstance 7 1 9000, 10)], cb_refused = book_refused_zero\<rparr>"
  by (simp add: ex_cycle_def ex_channel_def ex_mktdata_def book_run_defs Let_def)

lemma ex_cycle_applied:
  "applied_cycle ex_channel ex_end (book_run ex_cycle) = Some
     \<lparr>oc_instrument_id = 5, oc_anchor_seq = 10, oc_total_levels = 1, oc_bids = [(100, 3)], oc_asks = [],
      oc_levels = 1\<rparr>"
  by (simp add: applied_cycle_def ex_cycle_run ex_channel_def ex_end_def om_lookup_def book_at_def
      instrument_book_default_def)

text \<open>
  The delta at 11 and the datagram 12 that never arrived both follow the anchor at 10, and the
  book reads certain without either.
\<close>

theorem applied_cycle_discards_deltas_witness:
  "ib_bids (book_at ex_channel 5 (book_run (ex_cycle @
       [Arrival ex_mktdata Mktdata 11, ex_level 101 7, Arrival ex_mktdata Mktdata 13] @ [EndOp ex_channel ex_end]))) =
     [(100, 3)] \<and>
   ib_certainty (book_at ex_channel 5 (book_run (ex_cycle @
       [Arrival ex_mktdata Mktdata 11, ex_level 101 7, Arrival ex_mktdata Mktdata 13] @ [EndOp ex_channel ex_end]))) =
     Some certainty_known"
  using applied_cycle_discards_deltas [OF ex_cycle_applied,
      of "[Arrival ex_mktdata Mktdata 11, ex_level 101 7, Arrival ex_mktdata Mktdata 13]"]
  by (simp add: delta_def ex_level_def)

theorem top_is_the_best_level_witness:
  "tp_bid (ib_top (book_at ex_channel 5 (book_run (ex_cycle @ [EndOp ex_channel ex_end])))) =
     \<lparr>sd_price_raw = Some 100, sd_qty_raw = Some 3, sd_source_count = None\<rparr>"
proof -
  have "ib_bids (book_at ex_channel 5 (book_run (ex_cycle @ [EndOp ex_channel ex_end]))) = [(100, 3)]"
    using applied_owner [OF ex_cycle_applied] by (simp add: book_at_end ex_cycle_applied)
  moreover have "\<not> list_ex (quoted ex_channel 5) (ex_cycle @ [EndOp ex_channel ex_end])"
    by (simp add: quoted_def ex_cycle_def)
  ultimately show ?thesis
    using top_is_the_best_level [of ex_channel 5 "ex_cycle @ [EndOp ex_channel ex_end]"]
    by (simp add: best_of_def om_dom om_lookup_def side_of_level_def)
qed

theorem book_status_exactly_witness:
  "snd (depth_and_status (book_run ex_cycle) ex_channel 5) = BuildingSnapshot"
proof -
  have "\<not> established_by ex_channel 5 ex_cycle"
    using book_run_sound [of ex_channel 5 ex_cycle]
    by (simp add: ex_cycle_run book_at_def om_lookup_def ex_channel_def instrument_book_default_def)
  moreover have "\<not> reset_seen ex_channel 5 ex_cycle"
    by (simp add: reset_seen_def ex_cycle_def disowns_def)
  moreover have "cycle_owner ex_channel 1 (book_run ex_cycle) = Some 5"
    by (simp add: cycle_owner_def ex_cycle_run om_lookup_def ex_channel_def)
  moreover have "length ex_cycle < 2 ^ 32"
    by (simp add: ex_cycle_def)
  ultimately show ?thesis
    using book_status_exactly [of ex_cycle ex_channel 5] by auto
qed

end
