(* ===== verification/Archived_Refdata.thy ===== *)
theory Archived_Refdata
  imports Messages_Refdata Messages_Tob Messages_Mbp Ordered_Map Lowering Instrument_Table
    "HOL-Library.List_Lexorder"
begin

section \<open>The published set as an archive states it\<close>

text \<open>
  \<open>join.rs\<close>, \<open>refdata.rs\<close> and the \<open>Caveat\<close> of \<open>finding.rs\<close> of \<open>dz-recorder-relower\<close>: the key two
  copies of a message are joined on, and the reference data reconstructed from the definitions
  and manifests of one or more archives. A set is an ordered map to unit. The lemmas say which
  definition a symbol keeps and what the completeness check reports.
\<close>

subsection \<open>Join keys\<close>

datatype top_of_book_tie = UpdateFlags u8 | TradeId u64

datatype join_key =
  DepthKey u32 u32
| TopOfBookKey u32 u64 top_of_book_tie

definition key_of_quote :: "quote \<Rightarrow> join_key" where
  "key_of_quote q = TopOfBookKey (q_instrument_id q) (q_source_timestamp_ns q) (UpdateFlags (q_update_flags q))"

definition key_of_trade :: "trade \<Rightarrow> join_key" where
  "key_of_trade t = TopOfBookKey (t_instrument_id t) (t_source_timestamp_ns t) (TradeId (t_trade_id t))"

definition key_of_level :: "level_update \<Rightarrow> join_key" where
  "key_of_level l = DepthKey (lu_instrument_id l) (lu_per_instrument_seq l)"

definition key_of_clear :: "book_clear \<Rightarrow> join_key" where
  "key_of_clear c = DepthKey (bc_instrument_id c) (bc_per_instrument_seq c)"

fun key_instrument_id :: "join_key \<Rightarrow> u32" where
  "key_instrument_id (DepthKey i s) = i"
| "key_instrument_id (TopOfBookKey i t tie) = i"

text \<open>The derived order: depth before top of book, then the fields in turn.\<close>

instantiation top_of_book_tie :: linorder
begin

fun tie_rank :: "top_of_book_tie \<Rightarrow> nat \<times> nat" where
  "tie_rank (UpdateFlags f) = (0, unat f)"
| "tie_rank (TradeId t) = (1, unat t)"

definition less_top_of_book_tie :: "top_of_book_tie \<Rightarrow> top_of_book_tie \<Rightarrow> bool" where
  "less_top_of_book_tie a b \<longleftrightarrow> tie_rank a < tie_rank b"

definition less_eq_top_of_book_tie :: "top_of_book_tie \<Rightarrow> top_of_book_tie \<Rightarrow> bool" where
  "less_eq_top_of_book_tie a b \<longleftrightarrow> tie_rank a \<le> tie_rank b"

instance
proof
  fix a b c :: top_of_book_tie
  have inj: "tie_rank a = tie_rank b \<longleftrightarrow> a = b" for a b
    by (cases a; cases b) (auto simp: word_unat_eq_iff)
  show "a < b \<longleftrightarrow> a \<le> b \<and> \<not> b \<le> a" "a \<le> a" "a \<le> b \<Longrightarrow> b \<le> c \<Longrightarrow> a \<le> c"
    "a \<le> b \<Longrightarrow> b \<le> a \<Longrightarrow> a = b" "a \<le> b \<or> b \<le> a"
    using inj by (auto simp: less_top_of_book_tie_def less_eq_top_of_book_tie_def order.strict_iff_order)
qed

end

instantiation join_key :: linorder
begin

fun key_rank :: "join_key \<Rightarrow> nat \<times> nat \<times> nat \<times> nat \<times> nat" where
  "key_rank (DepthKey i s) = (0, unat i, unat s, 0, 0)"
| "key_rank (TopOfBookKey i t tie) = (1, unat i, unat t, tie_rank tie)"

definition less_join_key :: "join_key \<Rightarrow> join_key \<Rightarrow> bool" where
  "less_join_key a b \<longleftrightarrow> key_rank a < key_rank b"

definition less_eq_join_key :: "join_key \<Rightarrow> join_key \<Rightarrow> bool" where
  "less_eq_join_key a b \<longleftrightarrow> key_rank a \<le> key_rank b"

instance
proof
  fix a b c :: join_key
  have tie: "tie_rank x = tie_rank y \<longleftrightarrow> x = y" for x y
    by (cases x; cases y) (auto simp: word_unat_eq_iff)
  have inj: "key_rank a = key_rank b \<longleftrightarrow> a = b" for a b
    by (cases a; cases b) (auto simp: word_unat_eq_iff tie)
  show "a < b \<longleftrightarrow> a \<le> b \<and> \<not> b \<le> a" "a \<le> a" "a \<le> b \<Longrightarrow> b \<le> c \<Longrightarrow> a \<le> c"
    "a \<le> b \<Longrightarrow> b \<le> a \<Longrightarrow> a = b" "a \<le> b \<or> b \<le> a"
    using inj by (auto simp: less_join_key_def less_eq_join_key_def order.strict_iff_order)
qed

end

subsection \<open>Caveats\<close>

datatype caveat =
  ReferenceDataIncomplete u8 u16 u32 nat
| ScaleRestated u32 "i8 \<times> i8" "i8 \<times> i8"
| SymbolRepublishedUnderANewId u32 u32
| IdSharedByTwoSymbols u32
| ContractFactorNotOnTheWire u32
| EraChangeInsideWindow u8
| WindowMayNotStartAtEraBoundary u32 u32
| InstrumentAdmittedInsideWindow u32 u64
| AmbiguousJoinKey join_key nat nat

definition push_once :: "caveat \<Rightarrow> caveat list \<Rightarrow> caveat list" where
  "push_once c cs = (if c \<in> set cs then cs else cs @ [c])"

subsection \<open>The reconstruction\<close>

type_synonym 'a oset = "('a, unit) omap"

definition oset_insert :: "'a::linorder \<Rightarrow> 'a oset \<Rightarrow> 'a oset" where
  "oset_insert x s = om_update x () s"

record archived_instrument =
  ai_instrument_id :: u32
  ai_symbol :: bytes
  ai_price_exponent :: i8
  ai_qty_exponent :: i8
  ai_source_id :: u16
  ai_contract_value :: u64
  ai_manifest_seq :: u16

definition archived_symbol_text :: "archived_instrument \<Rightarrow> nat list" where
  "archived_symbol_text a = statement_symbol (ai_symbol a)"

record manifest_state =
  mf_manifest_seq :: u16
  mf_instrument_count :: u32

record archived_refdata =
  ar_by_symbol :: "(bytes, archived_instrument) omap"
  ar_by_id :: "(u32, bytes) omap"
  ar_defined_on :: "(u8, bytes oset) omap"
  ar_manifests :: "(u8, manifest_state) omap"
  ar_caveats :: "caveat list"

definition archived_refdata_new :: archived_refdata where
  "archived_refdata_new =
     \<lparr>ar_by_symbol = om_empty, ar_by_id = om_empty, ar_defined_on = om_empty, ar_manifests = om_empty,
      ar_caveats = []\<rparr>"

definition entry_or :: "'v \<Rightarrow> ('k, 'v) omap \<Rightarrow> 'k \<Rightarrow> 'v" where
  "entry_or v m k = (case om_lookup m k of None \<Rightarrow> v | Some w \<Rightarrow> w)"

definition archived_of :: "instrument_definition \<Rightarrow> archived_instrument" where
  "archived_of d =
     \<lparr>ai_instrument_id = idef_instrument_id d, ai_symbol = idef_symbol d,
      ai_price_exponent = idef_price_exponent d, ai_qty_exponent = idef_qty_exponent d,
      ai_source_id = idef_source_id d, ai_contract_value = idef_contract_value d,
      ai_manifest_seq = idef_manifest_seq d\<rparr>"

definition archive_definition :: "instrument_definition \<Rightarrow> u8 \<Rightarrow> archived_refdata \<Rightarrow> archived_refdata" where
  "archive_definition d channel_id r =
     (let r = r\<lparr>ar_defined_on := om_update channel_id
            (oset_insert (idef_symbol d) (entry_or om_empty (ar_defined_on r) channel_id)) (ar_defined_on r)\<rparr> in
      case om_lookup (ar_by_symbol r) (idef_symbol d) of
        Some existing \<Rightarrow>
          let r = (if ai_price_exponent existing \<noteq> idef_price_exponent d \<or>
                      ai_qty_exponent existing \<noteq> idef_qty_exponent d
                   then r\<lparr>ar_caveats := push_once (ScaleRestated (ai_instrument_id existing)
                          (ai_price_exponent existing, ai_qty_exponent existing)
                          (idef_price_exponent d, idef_qty_exponent d)) (ar_caveats r)\<rparr>
                   else r) in
          if ai_instrument_id existing \<noteq> idef_instrument_id d
          then r\<lparr>ar_caveats := push_once (SymbolRepublishedUnderANewId (ai_instrument_id existing)
                   (idef_instrument_id d)) (ar_caveats r)\<rparr>
          else r
      | None \<Rightarrow>
          let archived = archived_of d;
              r = (if ai_contract_value archived \<noteq> 0
                   then r\<lparr>ar_caveats := push_once (ContractFactorNotOnTheWire (ai_instrument_id archived))
                          (ar_caveats r)\<rparr>
                   else r);
              r = (case om_lookup (ar_by_id r) (ai_instrument_id archived) of
                     None \<Rightarrow> r
                   | Some previous \<Rightarrow>
                       if previous \<noteq> ai_symbol archived
                       then r\<lparr>ar_caveats := push_once (IdSharedByTwoSymbols (ai_instrument_id archived))
                              (ar_caveats r)\<rparr>
                       else r) in
          r\<lparr>ar_by_id := om_update (ai_instrument_id archived) (ai_symbol archived) (ar_by_id r),
            ar_by_symbol := om_update (ai_symbol archived) archived (ar_by_symbol r)\<rparr>)"

definition archive_manifest :: "manifest_summary \<Rightarrow> u8 \<Rightarrow> archived_refdata \<Rightarrow> archived_refdata" where
  "archive_manifest s channel_id r =
     (if ms_valid s \<noteq> 1 then r
      else
        let stated = \<lparr>mf_manifest_seq = ms_manifest_seq s, mf_instrument_count = ms_instrument_count s\<rparr>;
            held = entry_or stated (ar_manifests r) channel_id;
            held = (if ms_manifest_seq s > mf_manifest_seq held then stated else held) in
        r\<lparr>ar_manifests := om_update channel_id held (ar_manifests r)\<rparr>)"

definition incomplete_caveats :: "archived_refdata \<Rightarrow> caveat list" where
  "incomplete_caveats r = concat (map (\<lambda>(channel_id, state).
     let reconstructed = length (entry_or om_empty (ar_defined_on r) channel_id) in
     if unat (mf_instrument_count state) \<noteq> reconstructed
     then [ReferenceDataIncomplete channel_id (mf_manifest_seq state) (mf_instrument_count state) reconstructed]
     else []) (ar_manifests r))"

definition archive_finalise :: "archived_refdata \<Rightarrow> archived_refdata" where
  "archive_finalise r = r\<lparr>ar_caveats := ar_caveats r @ incomplete_caveats r\<rparr>"

definition archived_by_symbol :: "archived_refdata \<Rightarrow> bytes \<Rightarrow> archived_instrument option" where
  "archived_by_symbol r symbol = om_lookup (ar_by_symbol r) (fst (pad_text SYMBOL_LEN symbol))"

definition archived_symbol_of :: "archived_refdata \<Rightarrow> u32 \<Rightarrow> nat list option" where
  "archived_symbol_of r i =
     (case om_lookup (ar_by_id r) i of
        None \<Rightarrow> None
      | Some symbol \<Rightarrow> map_option archived_symbol_text (om_lookup (ar_by_symbol r) symbol))"

definition declared_instrument_count :: "archived_refdata \<Rightarrow> u8 \<Rightarrow> u32 option" where
  "declared_instrument_count r channel_id = map_option mf_instrument_count (om_lookup (ar_manifests r) channel_id)"

definition archived_source_ids :: "archived_refdata \<Rightarrow> u16 list" where
  "archived_source_ids r = map (\<lambda>(symbol, a). ai_source_id a) (ar_by_symbol r)"

definition as_instrument :: "archived_instrument \<Rightarrow> instrument" where
  "as_instrument a =
     \<lparr>in_instrument_id = ai_instrument_id a, in_price_exponent = ai_price_exponent a,
      in_qty_exponent = ai_qty_exponent a, in_quoted_per_contract = None\<rparr>"

end
