(* ===== verification/Row_Types.thy ===== *)
theory Row_Types
  imports Consumer_Book Wire_Capture
begin

section \<open>Rows\<close>

text \<open>
  The rows of \<open>rows.rs\<close> of \<open>dz-recorder-rows\<close> that the market data derivation writes, with their
  labels. \<open>Nanos\<close> is its count of nanoseconds; a \<open>String\<close> that comes from configuration is a
  \<open>string\<close>, a symbol is the list of its code points.
\<close>

datatype row_derivation = DerivationArchive | DerivationLive

datatype port_role_label = LabelMktdata | LabelRefdata | LabelSnapshot

datatype recv_ts_kind_label = LabelKernelSoftware | LabelApplicationFallback

fun recv_ts_kind_label_from :: "recv_ts_kind \<Rightarrow> recv_ts_kind_label" where
  "recv_ts_kind_label_from KernelSoftware = LabelKernelSoftware"
| "recv_ts_kind_label_from ApplicationFallback = LabelApplicationFallback"

datatype message_type_label =
  LabelQuote | LabelTrade | LabelLevelUpdate | LabelBookClear | LabelInstrumentReset
| LabelSnapshotBegin | LabelSnapshotLevel | LabelSnapshotEnd

definition absent_if_sentinel :: "u16 \<Rightarrow> u16 option" where
  "absent_if_sentinel v = (if v \<noteq> 0xFFFF then Some v else None)"

record event_row =
  ev_recv_ts :: u64
  ev_send_ts :: u64
  ev_upstream_ts :: "u64 option"
  ev_recv_ts_kind :: recv_ts_kind_label
  ev_site :: string
  ev_recorder :: string
  ev_env :: string
  ev_feed :: string
  ev_port_role :: port_role_label
  ev_source_addr :: ipv4_addr
  ev_channel_id :: u8
  ev_dst_port :: u16
  ev_sequence_number :: u64
  ev_reset_count :: u8
  ev_segment_seq :: u64
  ev_message_index :: u8
  ev_source_id :: u16
  ev_instrument_id :: u32
  ev_symbol :: "nat list"
  ev_price_exp :: i8
  ev_qty_exp :: i8
  ev_per_instrument_seq :: "u32 option"
  ev_message_type :: message_type_label
  ev_side_raw :: "u8 option"
  ev_action_raw :: "u8 option"
  ev_reason_raw :: "u8 option"
  ev_flags_raw :: "u8 option"
  ev_price_raw :: "i64 option"
  ev_qty_raw :: "u64 option"
  ev_order_count :: "u16 option"
  ev_level_index :: "u16 option"
  ev_bid_px_raw :: "i64 option"
  ev_bid_qty_raw :: "u64 option"
  ev_bid_source_count :: "u16 option"
  ev_ask_px_raw :: "i64 option"
  ev_ask_qty_raw :: "u64 option"
  ev_ask_source_count :: "u16 option"
  ev_trade_id :: "u64 option"
  ev_cumulative_volume :: "u64 option"
  ev_snapshot_id :: "u32 option"
  ev_anchor_seq :: "u64 option"
  ev_total_levels :: "u32 option"
  ev_levels_seen :: "u32 option"
  ev_depth_bound :: "u32 option"
  ev_book_levels_after :: u32
  ev_status_after :: book_status
  ev_object_key :: string
  ev_object_sha256 :: string
  ev_derivation :: row_derivation
  ev_datagram_index :: u64

record instrument_row =
  iw_site :: string
  iw_recorder :: string
  iw_env :: string
  iw_feed :: string
  iw_port_role :: port_role_label
  iw_source_addr :: ipv4_addr
  iw_channel_id :: u8
  iw_dst_port :: u16
  iw_source_id :: u16
  iw_instrument_id :: u32
  iw_from_sequence :: u64
  iw_reset_count :: u8
  iw_symbol :: "nat list"
  iw_price_exp :: i8
  iw_qty_exp :: i8
  iw_contract_value :: u64
  iw_first_seen_ts :: u64
  iw_last_seen_ts :: u64
  iw_manifest_seq :: "u16 option"
  iw_declared_count :: "u32 option"
  iw_object_key :: string
  iw_derivation :: row_derivation

record book_top_row =
  bt_recv_ts :: u64
  bt_send_ts :: u64
  bt_site :: string
  bt_recorder :: string
  bt_env :: string
  bt_feed :: string
  bt_observation :: string
  bt_source_addr :: ipv4_addr
  bt_channel_id :: u8
  bt_dst_port :: u16
  bt_source_id :: u16
  bt_instrument_id :: u32
  bt_symbol :: "nat list"
  bt_sequence_number :: u64
  bt_message_index :: u8
  bt_reset_count :: u8
  bt_segment_seq :: u64
  bt_bid_px_raw :: "i64 option"
  bt_bid_qty_raw :: "u64 option"
  bt_bid_source_count :: "u16 option"
  bt_ask_px_raw :: "i64 option"
  bt_ask_qty_raw :: "u64 option"
  bt_ask_source_count :: "u16 option"
  bt_price_exp :: i8
  bt_qty_exp :: i8
  bt_state_key :: u64
  bt_book_key :: u64
  bt_from_anchor :: u8
  bt_book_certain :: u8
  bt_uncertain_since :: "u64 option"
  bt_uncertain_reason :: uncertain_reason
  bt_object_key :: string
  bt_derivation :: row_derivation

end
