(* ===== verification/Event_Derivation.thy ===== *)
theory Event_Derivation
  imports Row_Types
begin

section \<open>The fold from an archive to market data rows\<close>

text \<open>
  \<open>derive.rs\<close> of \<open>dz-recorder-events\<close>: the messages of an archive, merged back into archive order,
  folded against reference data, a book and the attribution of snapshot levels that outlive the
  call. A message no definition resolves is refused and counted.
\<close>

subsection \<open>Inputs, outputs, state\<close>

record event_input =
  ei_site :: string
  ei_recorder :: string
  ei_env :: string
  ei_feed :: string
  ei_object_key :: string
  ei_object_sha256 :: string
  ei_segment_seq :: u64
  ei_magic :: u16
  ei_observation :: string
  ei_persist_snapshot_levels :: bool
  ei_derivation :: row_derivation

record events_refused =
  rf_unresolved_instrument :: u64
  rf_orphan_snapshot_level :: u64
  rf_out_of_order_definition :: u64

record derived_events =
  de_event :: "event_row list"
  de_instrument :: "instrument_row list"
  de_book_top :: "book_top_row list"
  de_refused :: events_refused
  de_book_refused :: book_refused

definition derived_events_default :: derived_events where
  "derived_events_default =
     \<lparr>de_event = [], de_instrument = [], de_book_top = [],
      de_refused = \<lparr>rf_unresolved_instrument = 0, rf_orphan_snapshot_level = 0,
        rf_out_of_order_definition = 0\<rparr>, de_book_refused = book_refused_zero\<rparr>"

record attributed_cycle =
  ac_instrument_id :: u32
  ac_upstream_ts :: u64
  ac_levels :: u32
  ac_ended :: bool

type_synonym attributed_cycles = "(channel_instance \<times> u32, attributed_cycle) omap"

record seen_statement =
  ss_statement :: statement
  ss_port_role :: port_role
  ss_last_seen_ts_ns :: u64
  ss_reset_count :: u8

record derivation_state =
  ds_table :: instrument_tables
  ds_cycles :: attributed_cycles
  ds_book :: consumer_book
  ds_datagrams :: u64
  ds_reported :: book_refused

definition derivation_state_new :: derivation_state where
  "derivation_state_new =
     \<lparr>ds_table = om_empty, ds_cycles = om_empty, ds_book = consumer_book_new, ds_datagrams = 0,
      ds_reported = book_refused_zero\<rparr>"

definition refused_since :: "book_refused \<Rightarrow> book_refused \<Rightarrow> book_refused" where
  "refused_since held reported =
     \<lparr>br_incomplete_cycle = sat_sub (br_incomplete_cycle held) (br_incomplete_cycle reported),
      br_stale_cycle = sat_sub (br_stale_cycle held) (br_stale_cycle reported),
      br_unclosed_cycle = sat_sub (br_unclosed_cycle held) (br_unclosed_cycle reported)\<rparr>"

definition refused_plus :: "book_refused \<Rightarrow> book_refused \<Rightarrow> book_refused" where
  "refused_plus a b =
     \<lparr>br_incomplete_cycle = br_incomplete_cycle a + br_incomplete_cycle b,
      br_stale_cycle = br_stale_cycle a + br_stale_cycle b,
      br_unclosed_cycle = br_unclosed_cycle a + br_unclosed_cycle b\<rparr>"

definition close_derivation :: "derivation_state \<Rightarrow> book_refused \<times> derivation_state" where
  "close_derivation st =
     (let b = book_close_object (ds_book st) in
      (refused_since (cb_refused b) (ds_reported st),
       st\<lparr>ds_book := b, ds_cycles := om_empty, ds_reported := cb_refused b\<rparr>))"

subsection \<open>Archive order\<close>

datatype decoded =
  DecodedMarket wire_message
| DecodedState state_message
| DecodedReference reference_message

fun decoded_provenance :: "decoded \<Rightarrow> wire_provenance" where
  "decoded_provenance (DecodedMarket m) = wi_provenance m"
| "decoded_provenance (DecodedState m) = wi_provenance m"
| "decoded_provenance (DecodedReference m) = wi_provenance m"

definition archive_position :: "decoded \<Rightarrow> u64 \<times> u8" where
  "archive_position d = (wp_datagram_index (decoded_provenance d), wp_message_index (decoded_provenance d))"

definition archive_ordered :: "wire_capture \<Rightarrow> decoded list" where
  "archive_ordered wc = sort_key archive_position
     (map DecodedReference (wc_reference wc) @ map DecodedMarket (wc_messages wc) @ map DecodedState (wc_state wc))"

subsection \<open>What a message is about\<close>

definition instance_of :: "wire_provenance \<Rightarrow> channel_instance" where
  "instance_of p = ChannelInstance (sa_ip (wp_src p)) (wp_channel_id p) (sa_port (wp_dst p))"

definition position_of :: "wire_provenance \<Rightarrow> at_position" where
  "position_of p =
     \<lparr>at_instance = instance_of p, at_sequence_number = wp_sequence_number p,
      at_reset_count = wp_reset_count p, at_recv_ts_ns = wp_recv_ts_ns p\<rparr>"

fun instrument_of_market :: "message_body \<Rightarrow> u32" where
  "instrument_of_market (BodyQuote q) = q_instrument_id q"
| "instrument_of_market (BodyTrade t) = t_instrument_id t"
| "instrument_of_market (BodyLevel l) = lu_instrument_id l"
| "instrument_of_market (BodyClear c) = bc_instrument_id c"

fun instrument_of_state ::
    "state_body \<Rightarrow> channel_instance \<Rightarrow> attributed_cycles \<Rightarrow> events_refused \<Rightarrow>
     u32 option \<times> attributed_cycles \<times> events_refused" where
  "instrument_of_state (StateReset m) k cycles rf = (Some (ir_instrument_id m), cycles, rf)"
| "instrument_of_state (StateBegin m) k cycles rf =
     (Some (sb_instrument_id m),
      om_update (k, sb_snapshot_id m)
        \<lparr>ac_instrument_id = sb_instrument_id m, ac_upstream_ts = sb_timestamp_ns m, ac_levels = 0,
         ac_ended = False\<rparr> cycles, rf)"
| "instrument_of_state (StateLevel m) k cycles rf =
     (case om_lookup cycles (k, sl_snapshot_id m) of
        None \<Rightarrow> (None, cycles, rf\<lparr>rf_orphan_snapshot_level := rf_orphan_snapshot_level rf + 1\<rparr>)
      | Some cy \<Rightarrow>
          (Some (ac_instrument_id cy),
           om_update (k, sl_snapshot_id m) (cy\<lparr>ac_levels := ac_levels cy + 1\<rparr>) cycles, rf))"
| "instrument_of_state (StateEnd m) k cycles rf =
     (Some (se_instrument_id m),
      (case om_lookup cycles (k, se_snapshot_id m) of
         None \<Rightarrow> cycles
       | Some cy \<Rightarrow> om_update (k, se_snapshot_id m) (cy\<lparr>ac_ended := True\<rparr>) cycles), rf)"

subsection \<open>Rows\<close>

fun role_label :: "port_role \<Rightarrow> port_role_label" where
  "role_label Mktdata = LabelMktdata"
| "role_label Refdata = LabelRefdata"
| "role_label Snapshot = LabelSnapshot"

definition base_row :: "event_input \<Rightarrow> wire_provenance \<Rightarrow> statement \<Rightarrow> event_row" where
  "base_row input p s =
     \<lparr>ev_recv_ts = wp_recv_ts_ns p, ev_send_ts = wp_send_timestamp_ns p, ev_upstream_ts = None,
      ev_recv_ts_kind = recv_ts_kind_label_from (wp_recv_ts_kind p), ev_site = ei_site input,
      ev_recorder = ei_recorder input, ev_env = ei_env input, ev_feed = ei_feed input,
      ev_port_role = role_label (wp_role p), ev_source_addr = sa_ip (wp_src p),
      ev_channel_id = wp_channel_id p, ev_dst_port = sa_port (wp_dst p),
      ev_sequence_number = wp_sequence_number p, ev_reset_count = wp_reset_count p,
      ev_segment_seq = ei_segment_seq input, ev_message_index = wp_message_index p,
      ev_source_id = st_source_id s, ev_instrument_id = st_instrument_id s, ev_symbol = st_symbol s,
      ev_price_exp = st_price_exponent s, ev_qty_exp = st_qty_exponent s, ev_per_instrument_seq = None,
      ev_message_type = LabelQuote, ev_side_raw = None, ev_action_raw = None, ev_reason_raw = None,
      ev_flags_raw = None, ev_price_raw = None, ev_qty_raw = None, ev_order_count = None,
      ev_level_index = None, ev_bid_px_raw = None, ev_bid_qty_raw = None, ev_bid_source_count = None,
      ev_ask_px_raw = None, ev_ask_qty_raw = None, ev_ask_source_count = None, ev_trade_id = None,
      ev_cumulative_volume = None, ev_snapshot_id = None, ev_anchor_seq = None, ev_total_levels = None,
      ev_levels_seen = None, ev_depth_bound = None, ev_book_levels_after = 0, ev_status_after = Unstated,
      ev_object_key = ei_object_key input, ev_object_sha256 = ei_object_sha256 input,
      ev_derivation = ei_derivation input, ev_datagram_index = wp_datagram_index p\<rparr>"

fun market_row :: "event_input \<Rightarrow> wire_provenance \<Rightarrow> statement \<Rightarrow> message_body \<Rightarrow> event_row" where
  "market_row input p s (BodyQuote q) = (base_row input p s)
     \<lparr>ev_message_type := LabelQuote, ev_upstream_ts := Some (q_source_timestamp_ns q),
      ev_flags_raw := Some (q_update_flags q), ev_bid_px_raw := Some (q_bid_price q),
      ev_bid_qty_raw := Some (q_bid_qty q), ev_bid_source_count := Some (q_bid_source_count q),
      ev_ask_px_raw := Some (q_ask_price q), ev_ask_qty_raw := Some (q_ask_qty q),
      ev_ask_source_count := Some (q_ask_source_count q)\<rparr>"
| "market_row input p s (BodyTrade t) = (base_row input p s)
     \<lparr>ev_message_type := LabelTrade, ev_upstream_ts := Some (t_source_timestamp_ns t),
      ev_side_raw := Some (t_aggressor_side t), ev_flags_raw := Some (t_trade_flags t),
      ev_price_raw := Some (t_trade_price t), ev_qty_raw := Some (t_trade_qty t),
      ev_trade_id := Some (t_trade_id t), ev_cumulative_volume := Some (t_cumulative_volume t)\<rparr>"
| "market_row input p s (BodyLevel l) = (base_row input p s)
     \<lparr>ev_message_type := LabelLevelUpdate, ev_upstream_ts := Some (lu_timestamp_ns l),
      ev_per_instrument_seq := Some (lu_per_instrument_seq l), ev_side_raw := Some (lu_side l),
      ev_action_raw := Some (lu_action l), ev_reason_raw := Some (lu_update_reason l),
      ev_flags_raw := Some (lu_level_flags l), ev_price_raw := Some (lu_price_raw l),
      ev_qty_raw := Some (lu_qty_raw l), ev_order_count := absent_if_sentinel (lu_order_count l),
      ev_level_index := absent_if_sentinel (lu_level_index l)\<rparr>"
| "market_row input p s (BodyClear c) = (base_row input p s)
     \<lparr>ev_message_type := LabelBookClear, ev_upstream_ts := Some (bc_timestamp_ns c),
      ev_per_instrument_seq := Some (bc_per_instrument_seq c), ev_side_raw := Some (bc_clear_side c),
      ev_action_raw := Some (bc_scope c), ev_reason_raw := Some (bc_clear_reason c),
      ev_price_raw := Some (bc_from_price_raw c)\<rparr>"

fun state_row ::
    "event_input \<Rightarrow> wire_provenance \<Rightarrow> statement \<Rightarrow> state_body \<Rightarrow> u32 \<Rightarrow> attributed_cycles \<Rightarrow> event_row" where
  "state_row input p s (StateReset m) i cycles = (base_row input p s)
     \<lparr>ev_instrument_id := i, ev_message_type := LabelInstrumentReset,
      ev_upstream_ts := Some (ir_timestamp_ns m), ev_reason_raw := Some (ir_reason m),
      ev_anchor_seq := Some (ir_new_anchor_seq m)\<rparr>"
| "state_row input p s (StateBegin m) i cycles = (base_row input p s)
     \<lparr>ev_instrument_id := i, ev_message_type := LabelSnapshotBegin,
      ev_upstream_ts := Some (sb_timestamp_ns m), ev_snapshot_id := Some (sb_snapshot_id m),
      ev_anchor_seq := Some (sb_anchor_seq m), ev_total_levels := Some (sb_total_levels m),
      ev_depth_bound := Some (sb_depth_bound m), ev_per_instrument_seq := Some (sb_last_instrument_seq m)\<rparr>"
| "state_row input p s (StateLevel m) i cycles =
     (let cycle = om_lookup cycles (instance_of p, sl_snapshot_id m) in (base_row input p s)
     \<lparr>ev_instrument_id := i, ev_message_type := LabelSnapshotLevel,
      ev_upstream_ts := map_option ac_upstream_ts cycle, ev_snapshot_id := Some (sl_snapshot_id m),
      ev_side_raw := Some (sl_side m), ev_flags_raw := Some (sl_level_flags m),
      ev_price_raw := Some (sl_price_raw m), ev_qty_raw := Some (sl_qty_raw m),
      ev_order_count := absent_if_sentinel (sl_order_count m),
      ev_level_index := (case cycle of None \<Rightarrow> None
        | Some cy \<Rightarrow> if unat (ac_levels cy) < 2 ^ 16 then Some (ucast (ac_levels cy)) else None)\<rparr>)"
| "state_row input p s (StateEnd m) i cycles = (base_row input p s)
     \<lparr>ev_instrument_id := i, ev_message_type := LabelSnapshotEnd,
      ev_snapshot_id := Some (se_snapshot_id m), ev_anchor_seq := Some (se_anchor_seq m),
      ev_levels_seen := map_option ac_levels (om_lookup cycles (instance_of p, se_snapshot_id m))\<rparr>"

definition after_the_book :: "consumer_book \<Rightarrow> channel \<Rightarrow> u32 \<Rightarrow> event_row \<Rightarrow> event_row" where
  "after_the_book b c i row =
     (let (levels, status) = depth_and_status b c i in
      row\<lparr>ev_book_levels_after := levels, ev_status_after := status\<rparr>)"

definition book_row :: "event_input \<Rightarrow> wire_provenance \<Rightarrow> statement \<Rightarrow> book_change \<Rightarrow> book_top_row" where
  "book_row input p s ch =
     \<lparr>bt_recv_ts = wp_recv_ts_ns p, bt_send_ts = wp_send_timestamp_ns p, bt_site = ei_site input,
      bt_recorder = ei_recorder input, bt_env = ei_env input, bt_feed = ei_feed input,
      bt_observation = ei_observation input, bt_source_addr = sa_ip (wp_src p),
      bt_channel_id = wp_channel_id p, bt_dst_port = sa_port (wp_dst p), bt_source_id = st_source_id s,
      bt_instrument_id = st_instrument_id s, bt_symbol = st_symbol s,
      bt_sequence_number = wp_sequence_number p, bt_message_index = wp_message_index p,
      bt_reset_count = wp_reset_count p, bt_segment_seq = ei_segment_seq input,
      bt_bid_px_raw = sd_price_raw (tp_bid (bk_top ch)), bt_bid_qty_raw = sd_qty_raw (tp_bid (bk_top ch)),
      bt_bid_source_count = sd_source_count (tp_bid (bk_top ch)),
      bt_ask_px_raw = sd_price_raw (tp_ask (bk_top ch)), bt_ask_qty_raw = sd_qty_raw (tp_ask (bk_top ch)),
      bt_ask_source_count = sd_source_count (tp_ask (bk_top ch)),
      bt_price_exp = st_price_exponent s, bt_qty_exp = st_qty_exponent s,
      bt_state_key = state_key (wp_channel_id p) (st_instrument_id s) (bk_top ch),
      bt_book_key = book_key (bk_top ch), bt_from_anchor = (if bk_from_anchor ch then 1 else 0),
      bt_book_certain = (if ct_certain (bk_certainty ch) then 1 else 0),
      bt_uncertain_since = ct_since (bk_certainty ch), bt_uncertain_reason = ct_reason (bk_certainty ch),
      bt_object_key = ei_object_key input, bt_derivation = ei_derivation input\<rparr>"

subsection \<open>The fold\<close>

record event_fold =
  ef_state :: derivation_state
  ef_seen :: "(channel_instance \<times> u32 \<times> u64, seen_statement) omap"
  ef_at_datagram :: "u64 option"
  ef_out :: derived_events

definition resolve_at :: "event_fold \<Rightarrow> wire_provenance \<Rightarrow> u32 \<Rightarrow> statement option" where
  "resolve_at f p i = resolve (ds_table (ef_state f)) (channel_of (instance_of p)) i (wp_recv_ts_ns p)"

definition push_event :: "event_row \<Rightarrow> event_fold \<Rightarrow> event_fold" where
  "push_event row f = f\<lparr>ef_out := (ef_out f)\<lparr>de_event := de_event (ef_out f) @ [row]\<rparr>\<rparr>"

definition push_top :: "event_input \<Rightarrow> wire_provenance \<Rightarrow> statement \<Rightarrow> book_change \<Rightarrow> event_fold \<Rightarrow> event_fold" where
  "push_top input p s ch f =
     f\<lparr>ef_out := (ef_out f)\<lparr>de_book_top := de_book_top (ef_out f) @ [book_row input p s ch]\<rparr>\<rparr>"

definition tally_refused :: "(events_refused \<Rightarrow> events_refused) \<Rightarrow> event_fold \<Rightarrow> event_fold" where
  "tally_refused g f = f\<lparr>ef_out := (ef_out f)\<lparr>de_refused := g (de_refused (ef_out f))\<rparr>\<rparr>"

definition unresolved_one :: "events_refused \<Rightarrow> events_refused" where
  "unresolved_one rf = rf\<lparr>rf_unresolved_instrument := rf_unresolved_instrument rf + 1\<rparr>"

definition with_book :: "consumer_book \<Rightarrow> event_fold \<Rightarrow> event_fold" where
  "with_book b f = f\<lparr>ef_state := (ef_state f)\<lparr>ds_book := b\<rparr>\<rparr>"

definition fold_book :: "event_fold \<Rightarrow> consumer_book" where
  "fold_book f = ds_book (ef_state f)"

text \<open>Once per datagram: its arrival, and a row for every book its number makes unknowable.\<close>

definition observe_arrival :: "event_input \<Rightarrow> wire_provenance \<Rightarrow> event_fold \<Rightarrow> event_fold" where
  "observe_arrival input p f =
     (if ef_at_datagram f = Some (wp_datagram_index p) then f
      else
        let f = f\<lparr>ef_at_datagram := Some (wp_datagram_index p)\<rparr>;
            (changes, b) = observe_sequence (instance_of p) (wp_role p) (wp_sequence_number p) (fold_book f) in
        fold (\<lambda>(i, ch) f. case resolve_at f p i of None \<Rightarrow> f | Some s \<Rightarrow> push_top input p s ch f)
          changes (with_book b f))"

definition note_seen :: "wire_provenance \<Rightarrow> instrument_definition \<Rightarrow> event_fold \<Rightarrow> event_fold" where
  "note_seen p d f =
     (case resolve_at f p (idef_instrument_id d) of
        None \<Rightarrow> f
      | Some s \<Rightarrow>
          let k = (instance_of p, idef_instrument_id d, st_from_sequence s) in
          f\<lparr>ef_seen := om_update k
              (case om_lookup (ef_seen f) k of
                 None \<Rightarrow> \<lparr>ss_statement = s, ss_port_role = wp_role p, ss_last_seen_ts_ns = wp_recv_ts_ns p,
                          ss_reset_count = wp_reset_count p\<rparr>
               | Some entry \<Rightarrow> entry\<lparr>ss_last_seen_ts_ns := wp_recv_ts_ns p\<rparr>) (ef_seen f)\<rparr>)"

fun derive_reference :: "wire_provenance \<Rightarrow> reference_body \<Rightarrow> event_fold \<Rightarrow> event_fold" where
  "derive_reference p (RefDefinition d) f =
     (let (seen, tables) = observe_statement d (position_of p) (ds_table (ef_state f));
          f = f\<lparr>ef_state := (ef_state f)\<lparr>ds_table := tables\<rparr>\<rparr>;
          f = (if seen = OutOfOrder
               then tally_refused (\<lambda>rf. rf\<lparr>rf_out_of_order_definition := rf_out_of_order_definition rf + 1\<rparr>) f
               else f) in
      note_seen p d f)"
| "derive_reference p (RefManifest m) f =
     f\<lparr>ef_state := (ef_state f)\<lparr>ds_table := observe_summary m (position_of p) (ds_table (ef_state f))\<rparr>\<rparr>"

fun apply_market :: "channel \<Rightarrow> message_body \<Rightarrow> consumer_book \<Rightarrow> book_change option \<times> consumer_book" where
  "apply_market c (BodyQuote q) b = book_quote c q b"
| "apply_market c (BodyLevel l) b = book_level c l b"
| "apply_market c (BodyClear m) b = book_clear_levels c m b"
| "apply_market c (BodyTrade t) b = (None, b)"

definition derive_market :: "event_input \<Rightarrow> wire_provenance \<Rightarrow> message_body \<Rightarrow> event_fold \<Rightarrow> event_fold" where
  "derive_market input p body f =
     (let c = channel_of (instance_of p); i = instrument_of_market body in
      case resolve_at f p i of
        None \<Rightarrow> tally_refused unresolved_one f
      | Some s \<Rightarrow>
          let row = market_row input p s body;
              (change, b) = apply_market c body (fold_book f);
              f = push_event (after_the_book b c i row) (with_book b f) in
          case change of None \<Rightarrow> f | Some ch \<Rightarrow> push_top input p s ch f)"

fun apply_state :: "channel \<Rightarrow> state_body \<Rightarrow> consumer_book \<Rightarrow> book_change option \<times> consumer_book" where
  "apply_state c (StateReset m) b = book_reset c m b"
| "apply_state c (StateBegin m) b = (None, book_snapshot_begin c m b)"
| "apply_state c (StateLevel m) b = (None, book_snapshot_level c m b)"
| "apply_state c (StateEnd m) b = book_snapshot_end c m b"

fun is_snapshot_level :: "state_body \<Rightarrow> bool" where
  "is_snapshot_level (StateLevel m) = True"
| "is_snapshot_level body = False"

definition derive_state :: "event_input \<Rightarrow> wire_provenance \<Rightarrow> state_body \<Rightarrow> event_fold \<Rightarrow> event_fold" where
  "derive_state input p body f =
     (let c = channel_of (instance_of p);
          (instrument_id, cycles, rf) =
            instrument_of_state body (instance_of p) (ds_cycles (ef_state f)) (de_refused (ef_out f));
          f = tally_refused (\<lambda>_. rf) (f\<lparr>ef_state := (ef_state f)\<lparr>ds_cycles := cycles\<rparr>\<rparr>) in
      case instrument_id of
        None \<Rightarrow> f
      | Some i \<Rightarrow>
          (case resolve_at f p i of
             None \<Rightarrow> tally_refused unresolved_one f
           | Some s \<Rightarrow>
               let row = (if \<not> is_snapshot_level body \<or> ei_persist_snapshot_levels input
                          then Some (state_row input p s body i cycles) else None);
                   (change, b) = apply_state c body (fold_book f);
                   f = with_book b f;
                   f = (case row of None \<Rightarrow> f | Some row \<Rightarrow> push_event (after_the_book b c i row) f) in
               case change of None \<Rightarrow> f | Some ch \<Rightarrow> push_top input p s ch f))"

fun shifted :: "u64 \<Rightarrow> decoded \<Rightarrow> wire_provenance" where
  "shifted offset d = (decoded_provenance d)
     \<lparr>wp_datagram_index := wp_datagram_index (decoded_provenance d) + offset\<rparr>"

definition derive_one :: "event_input \<Rightarrow> u64 \<Rightarrow> decoded \<Rightarrow> event_fold \<Rightarrow> event_fold" where
  "derive_one input offset d f =
     (let p = shifted offset d; f = observe_arrival input p f in
      case d of
        DecodedReference m \<Rightarrow> derive_reference p (wi_body m) f
      | DecodedMarket m \<Rightarrow> derive_market input p (wi_body m) f
      | DecodedState m \<Rightarrow> derive_state input p (wi_body m) f)"

definition instrument_row_of ::
    "event_input \<Rightarrow> instrument_tables \<Rightarrow> channel_instance \<Rightarrow> seen_statement \<Rightarrow> instrument_row" where
  "instrument_row_of input tables k entry =
     \<lparr>iw_site = ei_site input, iw_recorder = ei_recorder input, iw_env = ei_env input,
      iw_feed = ei_feed input, iw_port_role = role_label (ss_port_role entry), iw_source_addr = ci_source k,
      iw_channel_id = ci_channel_id k, iw_dst_port = ci_dst_port k,
      iw_source_id = st_source_id (ss_statement entry), iw_instrument_id = st_instrument_id (ss_statement entry),
      iw_from_sequence = st_from_sequence (ss_statement entry), iw_reset_count = ss_reset_count entry,
      iw_symbol = st_symbol (ss_statement entry), iw_price_exp = st_price_exponent (ss_statement entry),
      iw_qty_exp = st_qty_exponent (ss_statement entry),
      iw_contract_value = st_contract_value (ss_statement entry),
      iw_first_seen_ts = st_first_seen_ts_ns (ss_statement entry), iw_last_seen_ts = ss_last_seen_ts_ns entry,
      iw_manifest_seq = Some (st_manifest_seq (ss_statement entry)),
      iw_declared_count = table_declared_count tables (channel_of k), iw_object_key = ei_object_key input,
      iw_derivation = ei_derivation input\<rparr>"

definition drop_ended :: "attributed_cycles \<Rightarrow> attributed_cycles" where
  "drop_ended cycles = filter (\<lambda>(k, cy). \<not> ac_ended cy) cycles"

definition fold_messages :: "event_input \<Rightarrow> derivation_state \<Rightarrow> decoded list \<Rightarrow> event_fold" where
  "fold_messages input st ds = fold (derive_one input (ds_datagrams st)) ds
     \<lparr>ef_state = st, ef_seen = om_empty, ef_at_datagram = None, ef_out = derived_events_default\<rparr>"

definition finish_fold :: "event_input \<Rightarrow> u64 \<Rightarrow> event_fold \<Rightarrow> derived_events \<times> derivation_state" where
  "finish_fold input datagrams f =
     (let st = ef_state f;
          out = (ef_out f)\<lparr>de_book_refused := refused_since (cb_refused (ds_book st)) (ds_reported st),
            de_instrument := map (\<lambda>((k, i, n), entry). instrument_row_of input (ds_table st) k entry) (ef_seen f)\<rparr> in
      (out, st\<lparr>ds_cycles := drop_ended (ds_cycles st), ds_reported := cb_refused (ds_book st),
               ds_datagrams := ds_datagrams st + datagrams\<rparr>))"

definition derive_events_into ::
    "derivation_state \<Rightarrow> ('e + recorded_datagram) list \<Rightarrow> event_input \<Rightarrow>
     ('e relower_error + derived_events) \<times> derivation_state" where
  "derive_events_into st source input =
     (case absorb source (ei_magic input) wire_capture_new of
        (Inl e, wc) \<Rightarrow> (Inl e, st)
      | (Inr u, wc) \<Rightarrow>
          let (out, st) = finish_fold input (wc_datagrams wc) (fold_messages input st (archive_ordered wc)) in
          (Inr out, st))"

definition derive_events ::
    "('e + recorded_datagram) list \<Rightarrow> event_input \<Rightarrow> 'e relower_error + derived_events" where
  "derive_events source input =
     (case derive_events_into derivation_state_new source input of
        (Inl e, st) \<Rightarrow> Inl e
      | (Inr out, st) \<Rightarrow>
          Inr (out\<lparr>de_book_refused := refused_plus (de_book_refused out) (fst (close_derivation st))\<rparr>))"

end
