(* ===== verification/Derivation_Split.thy ===== *)
theory Derivation_Split
  imports Event_Derivation
begin

section \<open>Cutting a feed into windows\<close>

text \<open>
  The derivation over several windows with the state kept across the cuts, compared with one
  derivation over the whole: first the merge of the three files of messages is shown to be
  archive order, then two folds are related step by step.
\<close>

subsection \<open>What one message of a datagram is read as\<close>

definition read_as :: "(decode_error + 'm) \<Rightarrow> ('m \<Rightarrow> decoded) \<Rightarrow> decoded option" where
  "read_as r f = (case r of Inl e \<Rightarrow> None | Inr m \<Rightarrow> Some (f m))"

definition item_from :: "wire_provenance \<Rightarrow> 'b \<Rightarrow> 'b wire_item" where
  "item_from p body = \<lparr>wi_body = body, wi_provenance = p\<rparr>"

definition read_message :: "u8 \<Rightarrow> bytes \<Rightarrow> u8 \<Rightarrow> wire_provenance \<Rightarrow> decoded option" where
  "read_message type_id bs schema_version p =
     (if type_id = TYPE_ID quote_message then
        read_as (quote_decode bs) (\<lambda>q. DecodedMarket (item_from p (BodyQuote q)))
      else if type_id = TYPE_ID trade_message then
        read_as (trade_decode bs) (\<lambda>t. DecodedMarket (item_from p (BodyTrade t)))
      else if type_id = TYPE_ID level_update_message then
        read_as (level_update_decode bs) (\<lambda>l. DecodedMarket (item_from p (BodyLevel l)))
      else if type_id = TYPE_ID book_clear_message then
        read_as (book_clear_decode bs) (\<lambda>c. DecodedMarket (item_from p (BodyClear c)))
      else if type_id = TYPE_ID instrument_definition_message then
        read_as (instrument_definition_decode bs schema_version)
          (\<lambda>d. DecodedReference (item_from p (RefDefinition d)))
      else if type_id = TYPE_ID manifest_summary_message then
        read_as (manifest_summary_decode bs) (\<lambda>m. DecodedReference (item_from p (RefManifest m)))
      else if type_id = TYPE_HEARTBEAT \<or> type_id = TYPE_END_OF_SESSION then None
      else if type_id = TYPE_ID snapshot_begin_message then
        read_as (snapshot_begin_decode bs) (\<lambda>m. DecodedState (item_from p (StateBegin m)))
      else if type_id = TYPE_ID snapshot_level_message then
        read_as (snapshot_level_decode bs) (\<lambda>m. DecodedState (item_from p (StateLevel m)))
      else if type_id = TYPE_ID snapshot_end_message then
        read_as (snapshot_end_decode bs) (\<lambda>m. DecodedState (item_from p (StateEnd m)))
      else if type_id = TYPE_ID instrument_reset_message then
        read_as (instrument_reset_decode bs) (\<lambda>m. DecodedState (item_from p (StateReset m)))
      else None)"

fun market_of :: "decoded \<Rightarrow> wire_message option" where
  "market_of (DecodedMarket m) = Some m" | "market_of d = None"

fun state_of :: "decoded \<Rightarrow> state_message option" where
  "state_of (DecodedState m) = Some m" | "state_of d = None"

fun reference_of :: "decoded \<Rightarrow> reference_message option" where
  "reference_of (DecodedReference m) = Some m" | "reference_of d = None"

text \<open>A capture holds, in its three files, the messages of a list.\<close>

definition holds_after :: "wire_capture \<Rightarrow> decoded list \<Rightarrow> wire_capture \<Rightarrow> bool" where
  "holds_after wc ds wc' \<longleftrightarrow>
     wc_messages wc' = wc_messages wc @ List.map_filter market_of ds \<and>
     wc_state wc' = wc_state wc @ List.map_filter state_of ds \<and>
     wc_reference wc' = wc_reference wc @ List.map_filter reference_of ds"

lemma map_filter_list [simp]:
  "List.map_filter f [] = []"
  "List.map_filter f (x # xs) = (case f x of None \<Rightarrow> List.map_filter f xs | Some y \<Rightarrow> y # List.map_filter f xs)"
  "List.map_filter f (xs @ ys) = List.map_filter f xs @ List.map_filter f ys"
  by (auto simp: map_filter_def split: option.splits)

lemma holds_after_refl [simp]: "holds_after wc [] wc"
  by (simp add: holds_after_def)

lemma holds_after_trans: "holds_after wc ds wc' \<Longrightarrow> holds_after wc' es wc'' \<Longrightarrow> holds_after wc (ds @ es) wc''"
  by (simp add: holds_after_def)

lemma holds_after_frame:
  "wc_messages wc = wc_messages wc0 \<Longrightarrow> wc_state wc = wc_state wc0 \<Longrightarrow> wc_reference wc = wc_reference wc0 \<Longrightarrow>
   holds_after wc ds wc' \<Longrightarrow> holds_after wc0 ds wc'"
  by (simp add: holds_after_def)

abbreviation one_or_none :: "decoded option \<Rightarrow> decoded list" where
  "one_or_none d \<equiv> (case d of None \<Rightarrow> [] | Some d \<Rightarrow> [d])"

lemma read_holds:
  "holds_after wc (one_or_none (read_as r (\<lambda>m. DecodedMarket (item_from p (B m)))))
     (or_undecodable r (\<lambda>m. push_message (B m) (S m) p) wc)"
  "holds_after wc (one_or_none (read_as r (\<lambda>m. DecodedReference (item_from p (D m)))))
     (or_undecodable r (\<lambda>m wc. push_reference (D m) p (R m wc) wc) (skip_counting g wc))"
  "holds_after wc (one_or_none (read_as r (\<lambda>m. DecodedState (item_from p (E m)))))
     (or_undecodable r (\<lambda>m. push_state (E m) p) (skip_counting g wc))"
  "holds_after wc (one_or_none None) (skip_counting g wc)"
  by (cases r; simp add: read_as_def or_undecodable_def skip_counting_def holds_after_def push_message_def
      push_state_def push_reference_def item_from_def)+

lemma holds_if:
  "holds_after wc (one_or_none a) a' \<Longrightarrow> holds_after wc (one_or_none b) b' \<Longrightarrow>
   holds_after wc (one_or_none (if c then a else b)) (if c then a' else b')"
  by simp

lemma absorb_message_holds: "holds_after wc (one_or_none (read_message t bs v p)) (absorb_message t bs v p wc)"
  unfolding read_message_def absorb_message_def
  by (intro holds_if read_holds)

lemma or_undecodable_datagrams:
  "(\<And>m wc. wc_datagrams (f m wc) = wc_datagrams wc) \<Longrightarrow> wc_datagrams (or_undecodable r f wc) = wc_datagrams wc"
  by (cases r) (simp_all add: or_undecodable_def skip_counting_def)

lemma pushes_datagrams [simp]:
  "wc_datagrams (push_message b i p wc) = wc_datagrams wc" "wc_datagrams (push_state sb p wc) = wc_datagrams wc"
  "wc_datagrams (push_reference rb p r wc) = wc_datagrams wc" "wc_datagrams (skip_counting g wc) = wc_datagrams wc"
  by (simp_all add: push_message_def push_state_def push_reference_def skip_counting_def)

lemma absorb_message_datagrams: "wc_datagrams (absorb_message t b v p wc) = wc_datagrams wc"
  unfolding absorb_message_def by (simp only: or_undecodable_datagrams pushes_datagrams simp_thms split: if_split)

definition datagram_messages :: "u16 \<Rightarrow> u64 \<Rightarrow> recorded_datagram \<Rightarrow> decoded list" where
  "datagram_messages magic index dg =
     (case header_peek (rd_payload dg) of
        Inl e \<Rightarrow> []
      | Inr peeked \<Rightarrow>
          if hdr_magic peeked \<noteq> magic then []
          else case datagram_decode (rd_payload dg) magic of
              Inl e \<Rightarrow> []
            | Inr decoded \<Rightarrow>
                List.map_filter (\<lambda>(message_index, m). read_message (mr_type_id m) (mr_bytes m)
                    (hdr_schema_version (dg_header decoded)) (provenance_of dg (dg_header decoded) index message_index))
                  (enumerate 0 (walked decoded)))"

lemma absorb_fold_holds:
  "holds_after wc (List.map_filter (\<lambda>(n, m). read_message (t m) (b m) v (p n)) xs)
     (fold (\<lambda>(n, m). absorb_message (t m) (b m) v (p n)) xs wc)"
proof (induction xs arbitrary: wc)
  case (Cons x xs)
  obtain n m where x: "x = (n, m)" by (cases x)
  have "holds_after wc ((case read_message (t m) (b m) v (p n) of None \<Rightarrow> [] | Some d \<Rightarrow> [d]) @
      List.map_filter (\<lambda>(n, m). read_message (t m) (b m) v (p n)) xs)
      (fold (\<lambda>(n, m). absorb_message (t m) (b m) v (p n)) xs (absorb_message (t m) (b m) v (p n) wc))"
    by (rule holds_after_trans [OF absorb_message_holds Cons.IH])
  then show ?case
    by (cases "read_message (t m) (b m) v (p n)") (simp_all add: x)
qed simp

lemma absorb_datagram_holds: "holds_after wc (datagram_messages magic index dg) (absorb_datagram dg index magic wc)"
proof (cases "header_peek (rd_payload dg)")
  case (Inl e)
  then show ?thesis
    by (simp add: datagram_messages_def absorb_datagram_def skip_counting_def holds_after_def)
next
  case (Inr peeked)
  show ?thesis
  proof (cases "hdr_magic peeked = magic")
    case False
    then show ?thesis
      using Inr by (simp add: datagram_messages_def absorb_datagram_def skip_counting_def holds_after_def)
  next
    case True
    show ?thesis
    proof (cases "datagram_decode (rd_payload dg) magic")
      case (Inl e)
      then show ?thesis
        using Inr True by (simp add: datagram_messages_def absorb_datagram_def skip_counting_def holds_after_def Let_def)
    next
      case dec: (Inr decoded)
      show ?thesis
        unfolding datagram_messages_def absorb_datagram_def Let_def using Inr True dec
        by (simp, intro holds_after_frame [OF _ _ _ absorb_fold_holds]) simp_all
    qed
  qed
qed

fun messages_at :: "u16 \<Rightarrow> u64 \<Rightarrow> recorded_datagram list \<Rightarrow> decoded list" where
  "messages_at magic index [] = []"
| "messages_at magic index (dg # dgs) = datagram_messages magic index dg @ messages_at magic (index + 1) dgs"

lemma absorb_all_holds:
  fixes dgs :: "recorded_datagram list"
  shows "\<exists>wc'. absorb_all (map Inr dgs :: ('e + recorded_datagram) list) magic wc = (Inr (), wc') \<and>
     holds_after wc (messages_at magic (wc_datagrams wc) dgs) wc' \<and>
     wc_datagrams wc' = wc_datagrams wc + word_of_nat (length dgs)"
proof (induction dgs arbitrary: wc)
  case (Cons dg dgs)
  let ?wc = "absorb_datagram dg (wc_datagrams wc) magic (wc\<lparr>wc_datagrams := wc_datagrams wc + 1\<rparr>)"
  have fm: "wc_datagrams (fold (\<lambda>(n, m). absorb_message (t m) (b m) v (p n)) xs w) = wc_datagrams w"
    for t b v p w and xs :: "(nat \<times> message_ref) list"
    by (induction xs arbitrary: w) (auto simp: absorb_message_datagrams)
  have n: "wc_datagrams ?wc = wc_datagrams wc + 1"
    by (simp add: absorb_datagram_def Let_def fm split: sum.split)
  have first: "holds_after wc (datagram_messages magic (wc_datagrams wc) dg) ?wc"
    by (rule holds_after_frame [OF _ _ _ absorb_datagram_holds]) simp_all
  obtain wc' where rest: "absorb_all (map Inr dgs :: ('e + recorded_datagram) list) magic ?wc = (Inr (), wc')"
      "holds_after ?wc (messages_at magic (wc_datagrams ?wc) dgs) wc'"
      "wc_datagrams wc' = wc_datagrams ?wc + word_of_nat (length dgs)"
    using Cons.IH [of ?wc] by (elim exE conjE)
  show ?case
    using rest(1,3) holds_after_trans [OF first rest(2)] unfolding n
    by (intro exI [of _ wc'] conjI) simp_all
qed simp

lemma absorb_holds:
  fixes dgs :: "recorded_datagram list"
  shows "\<exists>wc'. absorb (map Inr dgs :: ('e + recorded_datagram) list) magic wire_capture_new = (Inr (), wc') \<and>
     wc_messages wc' = List.map_filter market_of (messages_at magic 0 dgs) \<and>
     wc_state wc' = List.map_filter state_of (messages_at magic 0 dgs) \<and>
     wc_reference wc' = List.map_filter reference_of (messages_at magic 0 dgs) \<and>
     wc_datagrams wc' = word_of_nat (length dgs)"
proof -
  obtain wc' where a: "absorb_all (map Inr dgs :: ('e + recorded_datagram) list) magic wire_capture_new = (Inr (), wc')"
      "holds_after wire_capture_new (messages_at magic (wc_datagrams wire_capture_new) dgs) wc'"
      "wc_datagrams wc' = wc_datagrams wire_capture_new + word_of_nat (length dgs)"
    using absorb_all_holds [of dgs magic wire_capture_new] by (elim exE conjE)
  have new: "wc_messages wire_capture_new = []" "wc_state wire_capture_new = []" "wc_reference wire_capture_new = []"
      "wc_datagrams wire_capture_new = 0"
    by (simp_all add: wire_capture_new_def)
  show ?thesis
    by (rule exI [of _ "wc'\<lparr>wc_refdata := archive_finalise (wc_refdata wc')\<rparr>"])
      (use a new in \<open>simp add: absorb_def holds_after_def\<close>)
qed

subsection \<open>The merge is archive order\<close>

lemma read_as_provenance:
  "read_as r (\<lambda>m. DecodedMarket (item_from p (B m))) = Some d \<Longrightarrow> decoded_provenance d = p"
  "read_as r (\<lambda>m. DecodedReference (item_from p (D m))) = Some d \<Longrightarrow> decoded_provenance d = p"
  "read_as r (\<lambda>m. DecodedState (item_from p (E m))) = Some d \<Longrightarrow> decoded_provenance d = p"
  by (auto simp: read_as_def item_from_def split: sum.splits)

lemma if_option_dest: "(if c then a else b) = Some d \<Longrightarrow> a = Some d \<or> b = Some d"
  by (simp split: if_splits)

lemma read_message_provenance: "read_message t bs v p = Some d \<Longrightarrow> decoded_provenance d = p"
  unfolding read_message_def
  by (elim if_option_dest [THEN disjE] read_as_provenance) simp_all

lemma walked_short: "datagram_decode buf magic = Inr d \<Longrightarrow> length (walked d) < 256"
  using datagram_decode_frames [of buf magic d] unat_bound [of "hdr_msg_count (dg_header d)"]
  by (auto simp: walked_def)

lemma position_less:
  "archive_position a < archive_position b \<longleftrightarrow>
     wp_datagram_index (decoded_provenance a) < wp_datagram_index (decoded_provenance b) \<or>
     wp_datagram_index (decoded_provenance a) = wp_datagram_index (decoded_provenance b) \<and>
     unat (wp_message_index (decoded_provenance a)) < unat (wp_message_index (decoded_provenance b))"
  by (auto simp: archive_position_def less_prod_def word_less_nat_alt word_le_nat_alt word_unat_eq_iff)

lemma messages_enumerated:
  "k + length ms \<le> 256 \<Longrightarrow>
   sorted_wrt (<) (map archive_position (List.map_filter
     (\<lambda>(n, m). read_message (mr_type_id m) (mr_bytes m) v (provenance_of dg h index n)) (enumerate k ms))) \<and>
   (\<forall>d\<in>set (List.map_filter
     (\<lambda>(n, m). read_message (mr_type_id m) (mr_bytes m) v (provenance_of dg h index n)) (enumerate k ms)).
     wp_datagram_index (decoded_provenance d) = index \<and> k \<le> unat (wp_message_index (decoded_provenance d)))"
proof (induction ms arbitrary: k)
  case (Cons m ms)
  let ?p = "provenance_of dg h index k"
  have ih: "sorted_wrt (<) (map archive_position (List.map_filter
     (\<lambda>(n, m). read_message (mr_type_id m) (mr_bytes m) v (provenance_of dg h index n)) (enumerate (Suc k) ms)))"
    "\<forall>d\<in>set (List.map_filter
     (\<lambda>(n, m). read_message (mr_type_id m) (mr_bytes m) v (provenance_of dg h index n)) (enumerate (Suc k) ms)).
     wp_datagram_index (decoded_provenance d) = index \<and> Suc k \<le> unat (wp_message_index (decoded_provenance d))"
    using Cons.IH [of "Suc k"] Cons.prems by simp_all
  have k: "unat (wp_message_index ?p) = k" "wp_datagram_index ?p = index"
    using Cons.prems by (simp_all add: provenance_of_def unat_of_nat)
  show ?case
  proof (cases "read_message (mr_type_id m) (mr_bytes m) v ?p")
    case None
    then show ?thesis using ih by (auto intro: Suc_leD)
  next
    case (Some d)
    then have "decoded_provenance d = ?p" by (rule read_message_provenance)
    then show ?thesis
      using ih Some k by (auto simp: position_less Suc_le_eq)
  qed
qed simp

lemma datagram_messages_sorted:
  "sorted_wrt (<) (map archive_position (datagram_messages magic index dg)) \<and>
   (\<forall>d\<in>set (datagram_messages magic index dg). wp_datagram_index (decoded_provenance d) = index)"
proof -
  have "sorted_wrt (<) (map archive_position (List.map_filter (\<lambda>(n, m). read_message (mr_type_id m) (mr_bytes m)
        (hdr_schema_version (dg_header decoded)) (provenance_of dg (dg_header decoded) index n))
        (enumerate 0 (walked decoded)))) \<and>
    (\<forall>d\<in>set (List.map_filter (\<lambda>(n, m). read_message (mr_type_id m) (mr_bytes m)
        (hdr_schema_version (dg_header decoded)) (provenance_of dg (dg_header decoded) index n))
        (enumerate 0 (walked decoded))). wp_datagram_index (decoded_provenance d) = index)"
    if "datagram_decode (rd_payload dg) magic = Inr decoded" for decoded
    using messages_enumerated [of 0 "walked decoded"] walked_short [OF that] by simp
  then show ?thesis
    unfolding datagram_messages_def
    by (cases "header_peek (rd_payload dg)"; cases "datagram_decode (rd_payload dg) magic") simp_all
qed

lemma messages_at_index:
  "unat index + length dgs < 2 ^ 64 \<Longrightarrow> d \<in> set (messages_at magic index dgs) \<Longrightarrow>
   index \<le> wp_datagram_index (decoded_provenance d) \<and>
   unat (wp_datagram_index (decoded_provenance d)) < unat index + length dgs"
proof (induction dgs arbitrary: index)
  case (Cons dg dgs)
  have succ: "unat (index + 1) = unat index + 1"
    using Cons.prems(1) by (simp add: unat_word_ariths)
  consider "d \<in> set (datagram_messages magic index dg)" | "d \<in> set (messages_at magic (index + 1) dgs)"
    using Cons.prems(2) by auto
  then show ?case
  proof cases
    case 1
    then show ?thesis using datagram_messages_sorted [of magic index dg] by simp
  next
    case 2
    then show ?thesis using Cons.IH [of "index + 1"] Cons.prems(1) succ by (simp add: word_le_nat_alt)
  qed
qed simp

lemma messages_at_sorted:
  "unat index + length dgs < 2 ^ 64 \<Longrightarrow> sorted_wrt (<) (map archive_position (messages_at magic index dgs))"
proof (induction dgs arbitrary: index)
  case (Cons dg dgs)
  have succ: "unat (index + 1) = unat index + 1"
    using Cons.prems by (simp add: unat_word_ariths)
  have "archive_position a < archive_position b"
    if "a \<in> set (datagram_messages magic index dg)" "b \<in> set (messages_at magic (index + 1) dgs)" for a b
  proof -
    have "wp_datagram_index (decoded_provenance a) = index"
      using datagram_messages_sorted that(1) by blast
    moreover have "unat index < unat (wp_datagram_index (decoded_provenance b))"
      using messages_at_index [OF _ that(2)] Cons.prems succ by (simp add: word_le_nat_alt)
    ultimately show ?thesis
      by (simp add: position_less word_less_nat_alt)
  qed
  then show ?case
    using datagram_messages_sorted [of magic index dg] Cons.IH [of "index + 1"] Cons.prems succ
    by (auto simp: sorted_wrt_append)
qed simp

lemma sort_key_of_sorted:
  fixes f :: "'a \<Rightarrow> 'b::linorder"
  assumes "sorted_wrt (<) (map f xs)" "set ys = set xs" "distinct (map f ys)"
  shows "sort_key f ys = xs"
proof -
  have xs: "sorted (map f xs)" "distinct (map f xs)"
    using assms(1) by (simp_all add: strict_sorted_iff)
  have "map f (sort_key f ys) = map f xs"
  proof (rule sorted_distinct_set_unique)
    show "distinct (map f (sort_key f ys))"
      using assms(3) by (simp add: distinct_map)
  qed (use xs assms(2) in simp_all)
  moreover have "inj_on f (set (sort_key f ys) \<union> set xs)"
    using xs(2) assms(2) by (simp add: distinct_map)
  ultimately show ?thesis
    by (rule map_inj_on)
qed

lemma map_filter_files:
  "map DecodedMarket (List.map_filter market_of ds) = filter (\<lambda>d. market_of d \<noteq> None) ds"
  "map DecodedState (List.map_filter state_of ds) = filter (\<lambda>d. state_of d \<noteq> None) ds"
  "map DecodedReference (List.map_filter reference_of ds) = filter (\<lambda>d. reference_of d \<noteq> None) ds"
  by (induction ds) (auto elim: market_of.elims state_of.elims reference_of.elims split: option.splits)

lemma archive_ordered_messages:
  assumes "sorted_wrt (<) (map archive_position ds)"
    "wc_messages wc = List.map_filter market_of ds" "wc_state wc = List.map_filter state_of ds"
    "wc_reference wc = List.map_filter reference_of ds"
  shows "archive_ordered wc = ds"
proof -
  let ?ys = "filter (\<lambda>d. reference_of d \<noteq> None) ds @ filter (\<lambda>d. market_of d \<noteq> None) ds @
    filter (\<lambda>d. state_of d \<noteq> None) ds"
  have kinds: "reference_of d \<noteq> None \<or> market_of d \<noteq> None \<or> state_of d \<noteq> None"
      "reference_of d = Some r \<Longrightarrow> market_of d = None" "reference_of d = Some r \<Longrightarrow> state_of d = None"
      "market_of d = Some m \<Longrightarrow> state_of d = None" for d r m
    by (cases d; simp)+
  have dist: "distinct (map archive_position ds)"
    using assms(1) by (simp add: strict_sorted_iff)
  then have inj: "inj_on archive_position (set ds)"
    by (simp add: distinct_map)
  have ys: "set ?ys = set ds"
    using kinds(1) by auto
  have "distinct ?ys"
    using dist by (auto simp: distinct_map dest: kinds(2-4))
  then have "distinct (map archive_position ?ys)"
    unfolding distinct_map using inj ys by simp
  then have "sort_key archive_position ?ys = ds"
    by (rule sort_key_of_sorted [OF assms(1) ys])
  then show ?thesis
    by (simp only: archive_ordered_def assms map_filter_files)
qed

subsection \<open>Numbering from where the derivation has reached\<close>

fun reindexed :: "u64 \<Rightarrow> decoded \<Rightarrow> decoded" where
  "reindexed offset (DecodedMarket m) = DecodedMarket (m\<lparr>wi_provenance := shifted offset (DecodedMarket m)\<rparr>)"
| "reindexed offset (DecodedState m) = DecodedState (m\<lparr>wi_provenance := shifted offset (DecodedState m)\<rparr>)"
| "reindexed offset (DecodedReference m) = DecodedReference (m\<lparr>wi_provenance := shifted offset (DecodedReference m)\<rparr>)"

lemma read_as_reindexed:
  "read_as r (\<lambda>m. DecodedMarket (item_from (p\<lparr>wp_datagram_index := wp_datagram_index p + o'\<rparr>) (B m))) =
     map_option (reindexed o') (read_as r (\<lambda>m. DecodedMarket (item_from p (B m))))"
  "read_as r (\<lambda>m. DecodedReference (item_from (p\<lparr>wp_datagram_index := wp_datagram_index p + o'\<rparr>) (D m))) =
     map_option (reindexed o') (read_as r (\<lambda>m. DecodedReference (item_from p (D m))))"
  "read_as r (\<lambda>m. DecodedState (item_from (p\<lparr>wp_datagram_index := wp_datagram_index p + o'\<rparr>) (E m))) =
     map_option (reindexed o') (read_as r (\<lambda>m. DecodedState (item_from p (E m))))"
  by (cases r; simp add: read_as_def item_from_def)+

lemma map_option_if: "map_option f (if c then a else b) = (if c then map_option f a else map_option f b)"
  by simp

lemma read_message_reindexed:
  "read_message t b v (p\<lparr>wp_datagram_index := wp_datagram_index p + o'\<rparr>) =
     map_option (reindexed o') (read_message t b v p)"
  unfolding read_message_def by (simp only: map_option_if read_as_reindexed option.map)

lemma datagram_messages_reindexed:
  "datagram_messages magic (index + o') dg = map (reindexed o') (datagram_messages magic index dg)"
proof -
  have p: "provenance_of dg h (index + o') n =
      (provenance_of dg h index n)\<lparr>wp_datagram_index := wp_datagram_index (provenance_of dg h index n) + o'\<rparr>" for h n
    by (simp add: provenance_of_def)
  have "List.map_filter (\<lambda>(n, m). read_message (mr_type_id m) (mr_bytes m) v (provenance_of dg h (index + o') n)) xs =
      map (reindexed o') (List.map_filter (\<lambda>(n, m). read_message (mr_type_id m) (mr_bytes m) v (provenance_of dg h index n)) xs)"
    for h v and xs :: "(nat \<times> message_ref) list"
  proof (induction xs)
    case (Cons x xs)
    then show ?case
      by (cases x) (simp add: p read_message_reindexed split: option.split)
  qed simp
  then show ?thesis
    by (simp add: datagram_messages_def split: sum.split)
qed

lemma messages_at_reindexed:
  "messages_at magic (index + o') dgs = map (reindexed o') (messages_at magic index dgs)"
proof (induction dgs arbitrary: index)
  case (Cons dg dgs)
  then show ?case
    using Cons.IH [of "index + 1"] by (simp add: datagram_messages_reindexed algebra_simps)
qed simp

lemma messages_at_append:
  "messages_at magic index (xs @ ys) = messages_at magic index xs @ messages_at magic (index + word_of_nat (length xs)) ys"
  by (induction xs arbitrary: index) (simp_all add: algebra_simps)

lemma derive_one_reindexed: "derive_one input o' d f = derive_one input 0 (reindexed o' d) f"
  by (cases d) (simp_all add: derive_one_def Let_def)

lemma fold_reindexed: "fold (derive_one input o') ds f = fold (derive_one input 0) (map (reindexed o') ds) f"
proof (induction ds arbitrary: f)
  case (Cons d ds)
  then show ?case using derive_one_reindexed [of input o' d f] by simp
qed simp

definition start_fold :: "derivation_state \<Rightarrow> event_fold" where
  "start_fold st = \<lparr>ef_state = st, ef_seen = om_empty, ef_at_datagram = None, ef_out = derived_events_default\<rparr>"

lemma derive_events_into_fold:
  fixes dgs :: "recorded_datagram list"
  assumes "length dgs < 2 ^ 64"
  shows "derive_events_into st (map Inr dgs :: ('e + recorded_datagram) list) input =
    (let (out, st') = finish_fold input (word_of_nat (length dgs))
       (fold (derive_one input 0) (messages_at (ei_magic input) (ds_datagrams st) dgs) (start_fold st)) in (Inr out, st'))"
proof -
  let ?ms = "messages_at (ei_magic input) 0 dgs"
  obtain wc where wc: "absorb (map Inr dgs :: ('e + recorded_datagram) list) (ei_magic input) wire_capture_new = (Inr (), wc)"
      "wc_messages wc = List.map_filter market_of ?ms" "wc_state wc = List.map_filter state_of ?ms"
      "wc_reference wc = List.map_filter reference_of ?ms" "wc_datagrams wc = word_of_nat (length dgs)"
    using absorb_holds [of dgs "ei_magic input"] by (elim exE conjE)
  have "archive_ordered wc = ?ms"
    by (rule archive_ordered_messages [OF messages_at_sorted wc(2-4)]) (use assms in simp)
  moreover have "map (reindexed (ds_datagrams st)) ?ms = messages_at (ei_magic input) (ds_datagrams st) dgs"
    using messages_at_reindexed [of "ei_magic input" 0 "ds_datagrams st" dgs] by simp
  ultimately show ?thesis
    by (simp add: derive_events_into_def wc(1,5) fold_messages_def fold_reindexed [of input "ds_datagrams st" ?ms]
        start_fold_def)
qed

end
