(* ===== verification/Derivation_Windows.thy ===== *)
theory Derivation_Windows
  imports Derivation_Split Book_Trust
begin

section \<open>A feed derived window by window\<close>

text \<open>
  The state one derivation hands to the next is enough: a feed cut into windows yields the rows
  of the feed derived whole. The one thing a cut can change is what becomes of a snapshot message
  that arrives for a cycle already ended, which the code attributes within a window only; such
  messages are excluded by \<open>tidy\<close>.
\<close>

subsection \<open>Cycles already ended\<close>

definition is_ended :: "attributed_cycles \<Rightarrow> channel_instance \<times> u32 \<Rightarrow> bool" where
  "is_ended cycles k = (case om_lookup cycles k of None \<Rightarrow> False | Some cy \<Rightarrow> ac_ended cy)"

fun late_body :: "attributed_cycles \<Rightarrow> channel_instance \<Rightarrow> state_body \<Rightarrow> bool" where
  "late_body cycles k (StateLevel m) = is_ended cycles (k, sl_snapshot_id m)"
| "late_body cycles k (StateEnd m) = is_ended cycles (k, se_snapshot_id m)"
| "late_body cycles k body = False"

definition no_refusals :: events_refused where
  "no_refusals = \<lparr>rf_unresolved_instrument = 0, rf_orphan_snapshot_level = 0, rf_out_of_order_definition = 0\<rparr>"

fun late :: "attributed_cycles \<Rightarrow> decoded \<Rightarrow> bool" where
  "late cycles (DecodedState m) = late_body cycles (instance_of (wi_provenance m)) (wi_body m)"
| "late cycles d = False"

fun cycles_step :: "decoded \<Rightarrow> attributed_cycles \<Rightarrow> attributed_cycles" where
  "cycles_step (DecodedState m) cycles =
     fst (snd (instrument_of_state (wi_body m) (instance_of (wi_provenance m)) cycles no_refusals))"
| "cycles_step d cycles = cycles"

fun tidy :: "attributed_cycles \<Rightarrow> decoded list \<Rightarrow> bool" where
  "tidy cycles [] = True"
| "tidy cycles (d # ds) = (\<not> late cycles d \<and> tidy (cycles_step d cycles) ds)"

lemma tidy_append: "tidy cycles (xs @ ys) \<longleftrightarrow> tidy cycles xs \<and> tidy (fold cycles_step xs cycles) ys"
  by (induction xs arbitrary: cycles) simp_all

definition cycles_agree :: "attributed_cycles \<Rightarrow> attributed_cycles \<Rightarrow> bool" where
  "cycles_agree g h \<longleftrightarrow> (\<forall>k. om_lookup h k = om_lookup g k \<or> om_lookup h k = None \<and> is_ended g k)"

lemma cycles_agree_at:
  "cycles_agree g h \<Longrightarrow> \<not> is_ended g k \<Longrightarrow> om_lookup h k = om_lookup g k"
  unfolding cycles_agree_def by (drule spec [of _ k]) simp

lemma cycles_agree_update: "cycles_agree g h \<Longrightarrow> cycles_agree (om_update k v g) (om_update k v h)"
  by (auto simp: cycles_agree_def is_ended_def om_lookup_update)

subsection \<open>Refusals add up\<close>

definition rf_plus :: "events_refused \<Rightarrow> events_refused \<Rightarrow> events_refused" where
  "rf_plus a b = \<lparr>rf_unresolved_instrument = rf_unresolved_instrument a + rf_unresolved_instrument b,
     rf_orphan_snapshot_level = rf_orphan_snapshot_level a + rf_orphan_snapshot_level b,
     rf_out_of_order_definition = rf_out_of_order_definition a + rf_out_of_order_definition b\<rparr>"

lemma rf_plus_none [simp]: "rf_plus r no_refusals = r" "rf_plus no_refusals r = r"
  by (simp_all add: rf_plus_def no_refusals_def)

lemma rf_plus_assoc: "rf_plus (rf_plus a b) c = rf_plus a (rf_plus b c)"
  by (simp add: rf_plus_def add.assoc)

text \<open>The key a level or an end is attributed through, and what the attribution does there.\<close>

lemma state_row_agree:
  "om_lookup g (instance_of p, sl_snapshot_id m) = om_lookup h (instance_of p, sl_snapshot_id m) \<Longrightarrow>
   state_row input p s (StateLevel m) i g = state_row input p s (StateLevel m) i h"
  "om_lookup g (instance_of p, se_snapshot_id e) = om_lookup h (instance_of p, se_snapshot_id e) \<Longrightarrow>
   state_row input p s (StateEnd e) i g = state_row input p s (StateEnd e) i h"
  by (simp_all only: state_row.simps)

lemma instrument_of_state_agree:
  assumes a: "cycles_agree g h" and l: "\<not> late_body g k body"
  shows "\<exists>i g' h' d. instrument_of_state body k g (rf_plus r rf) = (i, g', rf_plus r d) \<and>
    instrument_of_state body k h rf = (i, h', d) \<and> cycles_agree g' h' \<and>
    fst (snd (instrument_of_state body k g no_refusals)) = g' \<and>
    (\<forall>input p s j. instance_of p = k \<longrightarrow> state_row input p s body j g' = state_row input p s body j h')"
proof (cases body)
  case (StateReset m)
  then show ?thesis
    using a by (intro exI [of _ "Some (ir_instrument_id m)"] exI [of _ g] exI [of _ h] exI [of _ rf])
      (simp only: instrument_of_state.simps state_row.simps fst_conv snd_conv simp_thms)
next
  case (StateBegin m)
  then show ?thesis
    using cycles_agree_update [OF a]
    by (simp only: instrument_of_state.simps state_row.simps fst_conv snd_conv simp_thms prod.inject) blast
next
  case (StateLevel m)
  have same: "om_lookup h (k, sl_snapshot_id m) = om_lookup g (k, sl_snapshot_id m)"
    using cycles_agree_at [OF a] l StateLevel by simp
  show ?thesis
  proof (cases "om_lookup g (k, sl_snapshot_id m)")
    case None
    have "rf_plus r rf\<lparr>rf_orphan_snapshot_level := rf_orphan_snapshot_level (rf_plus r rf) + 1\<rparr> =
        rf_plus r (rf\<lparr>rf_orphan_snapshot_level := rf_orphan_snapshot_level rf + 1\<rparr>)"
      by (simp add: rf_plus_def add.assoc)
    then show ?thesis
      using a None same
      by (intro exI [of _ None] exI [of _ g] exI [of _ h]
          exI [of _ "rf\<lparr>rf_orphan_snapshot_level := rf_orphan_snapshot_level rf + 1\<rparr>"])
        (auto simp: StateLevel simp del: state_row.simps intro!: state_row_agree)
  next
    case (Some cy)
    let ?u = "om_update (k, sl_snapshot_id m) (cy\<lparr>ac_levels := ac_levels cy + 1\<rparr>)"
    show ?thesis
      using cycles_agree_update [OF a] Some same
      by (intro exI [of _ "Some (ac_instrument_id cy)"] exI [of _ "?u g"] exI [of _ "?u h"] exI [of _ rf])
        (auto simp: StateLevel om_lookup_update simp del: state_row.simps intro!: state_row_agree)
  qed
next
  case (StateEnd m)
  have same: "om_lookup h (k, se_snapshot_id m) = om_lookup g (k, se_snapshot_id m)"
    using cycles_agree_at [OF a] l StateEnd by simp
  show ?thesis
  proof (cases "om_lookup g (k, se_snapshot_id m)")
    case None
    then show ?thesis
      using a same
      by (intro exI [of _ "Some (se_instrument_id m)"] exI [of _ g] exI [of _ h] exI [of _ rf])
        (auto simp: StateEnd simp del: state_row.simps intro!: state_row_agree)
  next
    case (Some cy)
    let ?u = "om_update (k, se_snapshot_id m) (cy\<lparr>ac_ended := True\<rparr>)"
    show ?thesis
      using cycles_agree_update [OF a] Some same
      by (intro exI [of _ "Some (se_instrument_id m)"] exI [of _ "?u g"] exI [of _ "?u h"] exI [of _ rf])
        (auto simp: StateEnd om_lookup_update simp del: state_row.simps intro!: state_row_agree)
  qed
qed

subsection \<open>Two folds side by side\<close>

definition alongside ::
    "event_row list \<Rightarrow> book_top_row list \<Rightarrow> events_refused \<Rightarrow> event_fold \<Rightarrow> event_fold \<Rightarrow> bool" where
  "alongside E T r g h \<longleftrightarrow>
     ds_table (ef_state g) = ds_table (ef_state h) \<and> ds_book (ef_state g) = ds_book (ef_state h) \<and>
     cycles_agree (ds_cycles (ef_state g)) (ds_cycles (ef_state h)) \<and>
     de_event (ef_out g) = E @ de_event (ef_out h) \<and>
     de_book_top (ef_out g) = T @ de_book_top (ef_out h) \<and>
     de_refused (ef_out g) = rf_plus r (de_refused (ef_out h))"

lemma alongside_resolve: "alongside E T r g h \<Longrightarrow> resolve_at g p i = resolve_at h p i"
  by (simp add: alongside_def resolve_at_def)

lemma alongside_book: "alongside E T r g h \<Longrightarrow> fold_book g = fold_book h"
  by (simp add: alongside_def fold_book_def)

lemma alongside_push_event: "alongside E T r g h \<Longrightarrow> alongside E T r (push_event row g) (push_event row h)"
  by (simp add: alongside_def push_event_def)

lemma alongside_push_top: "alongside E T r g h \<Longrightarrow> alongside E T r (push_top input p s ch g) (push_top input p s ch h)"
  by (simp add: alongside_def push_top_def)

lemma alongside_with_book: "alongside E T r g h \<Longrightarrow> alongside E T r (with_book b g) (with_book b h)"
  by (simp add: alongside_def with_book_def)

lemma alongside_unresolved:
  "alongside E T r g h \<Longrightarrow> alongside E T r (tally_refused unresolved_one g) (tally_refused unresolved_one h)"
  by (simp add: alongside_def tally_refused_def unresolved_one_def rf_plus_def)

lemma alongside_seen [simp]:
  "alongside E T r (g\<lparr>ef_seen := a\<rparr>) h \<longleftrightarrow> alongside E T r g h"
  "alongside E T r g (h\<lparr>ef_seen := b\<rparr>) \<longleftrightarrow> alongside E T r g h"
  "alongside E T r (g\<lparr>ef_at_datagram := x\<rparr>) h \<longleftrightarrow> alongside E T r g h"
  "alongside E T r g (h\<lparr>ef_at_datagram := y\<rparr>) \<longleftrightarrow> alongside E T r g h"
  by (simp_all add: alongside_def)

lemma alongside_note_seen: "alongside E T r g h \<Longrightarrow> alongside E T r (note_seen p d g) (note_seen p d h)"
  using alongside_resolve [of E T r g h p "idef_instrument_id d"]
  by (simp add: note_seen_def Let_def split: option.split)

lemma alongside_reference:
  "alongside E T r g h \<Longrightarrow> alongside E T r (derive_reference p body g) (derive_reference p body h)"
proof (cases body)
  case (RefDefinition d)
  assume a: "alongside E T r g h"
  obtain seen tables where o: "observe_statement d (position_of p) (ds_table (ef_state h)) = (seen, tables)"
    by fastforce
  have "observe_statement d (position_of p) (ds_table (ef_state g)) = (seen, tables)"
    using a o by (simp add: alongside_def)
  then show ?thesis
    using a o RefDefinition
    by (auto simp: Let_def intro!: alongside_note_seen) (auto simp: alongside_def tally_refused_def rf_plus_def)
next
  case (RefManifest m)
  assume "alongside E T r g h"
  then show ?thesis using RefManifest by (simp add: alongside_def)
qed

lemma alongside_market:
  assumes "alongside E T r g h"
  shows "alongside E T r (derive_market input p body g) (derive_market input p body h)"
proof (cases "resolve_at h p (instrument_of_market body)")
  case None
  then show ?thesis
    using assms alongside_resolve [OF assms] by (simp add: derive_market_def alongside_unresolved)
next
  case (Some s)
  then show ?thesis
    using assms alongside_resolve [OF assms] alongside_book [OF assms]
    by (auto simp: derive_market_def Let_def split_beta split: option.split
        intro: alongside_push_event alongside_push_top alongside_with_book)
qed

lemma alongside_arrival:
  assumes a: "alongside E T r g h"
    and sync: "ef_at_datagram g = Some (wp_datagram_index p) \<longleftrightarrow> ef_at_datagram h = Some (wp_datagram_index p)"
  shows "alongside E T r (observe_arrival input p g) (observe_arrival input p h) \<and>
    ef_at_datagram (observe_arrival input p g) = Some (wp_datagram_index p) \<and>
    ef_at_datagram (observe_arrival input p h) = Some (wp_datagram_index p)"
proof -
  let ?push = "\<lambda>(i, ch) f. case resolve_at f p i of None \<Rightarrow> f | Some s \<Rightarrow> push_top input p s ch f"
  have push: "alongside E T r (fold ?push cs g) (fold ?push cs h) \<and>
      ef_at_datagram (fold ?push cs g) = ef_at_datagram g \<and> ef_at_datagram (fold ?push cs h) = ef_at_datagram h"
    if "alongside E T r g h" for cs g h
    using that
  proof (induction cs arbitrary: g h)
    case (Cons c cs)
    obtain i ch where c: "c = (i, ch)" by (cases c)
    have at: "ef_at_datagram (push_top input p s ch f) = ef_at_datagram f" for s f
      by (simp add: push_top_def)
    have "alongside E T r (?push c g) (?push c h)"
      using Cons.prems alongside_resolve [OF Cons.prems, of p i] alongside_push_top
      by (auto simp: c split: option.split)
    moreover have "ef_at_datagram (?push c g) = ef_at_datagram g" "ef_at_datagram (?push c h) = ef_at_datagram h"
      by (auto simp: c at split: option.split)
    ultimately show ?case
      using Cons.IH [of "?push c g" "?push c h"] by simp
  qed simp
  show ?thesis
  proof (cases "ef_at_datagram h = Some (wp_datagram_index p)")
    case True
    then show ?thesis using a sync by (simp add: observe_arrival_def)
  next
    case False
    let ?g = "g\<lparr>ef_at_datagram := Some (wp_datagram_index p)\<rparr>" and ?h = "h\<lparr>ef_at_datagram := Some (wp_datagram_index p)\<rparr>"
    obtain cs b where o: "observe_sequence (instance_of p) (wp_role p) (wp_sequence_number p) (fold_book ?h) = (cs, b)"
      by fastforce
    have same: "fold_book ?g = fold_book ?h"
      using alongside_book [OF a] by (simp add: fold_book_def)
    have "alongside E T r (with_book b ?g) (with_book b ?h)"
      using a by (intro alongside_with_book) simp
    then show ?thesis
      using False sync o same push [of "with_book b ?g" "with_book b ?h" cs]
      by (simp add: observe_arrival_def Let_def) (simp add: with_book_def)
  qed
qed

lemma alongside_cycles:
  assumes "alongside E T r g h" "cycles_agree g' h'" "de_refused (ef_out h) = rf"
  shows "alongside E T r
      (tally_refused (\<lambda>_. rf_plus r d) (g\<lparr>ef_state := (ef_state g)\<lparr>ds_cycles := g'\<rparr>\<rparr>))
      (tally_refused (\<lambda>_. d) (h\<lparr>ef_state := (ef_state h)\<lparr>ds_cycles := h'\<rparr>\<rparr>))"
  using assms by (simp add: alongside_def tally_refused_def)

lemma alongside_state:
  assumes a: "alongside E T r g h"
    and l: "\<not> late_body (ds_cycles (ef_state g)) (instance_of p) body"
  shows "alongside E T r (derive_state input p body g) (derive_state input p body h)"
proof -
  let ?k = "instance_of p" and ?rf = "de_refused (ef_out h)"
  have agree: "cycles_agree (ds_cycles (ef_state g)) (ds_cycles (ef_state h))"
    and rf: "de_refused (ef_out g) = rf_plus r ?rf"
    using a by (simp_all add: alongside_def)
  obtain i g' h' d where o: "instrument_of_state body ?k (ds_cycles (ef_state g)) (rf_plus r ?rf) = (i, g', rf_plus r d)"
      "instrument_of_state body ?k (ds_cycles (ef_state h)) ?rf = (i, h', d)" "cycles_agree g' h'"
      "\<forall>input p' s j. instance_of p' = ?k \<longrightarrow> state_row input p' s body j g' = state_row input p' s body j h'"
    using instrument_of_state_agree [OF agree l, of r ?rf] by (elim exE conjE)
  let ?g = "tally_refused (\<lambda>_. rf_plus r d) (g\<lparr>ef_state := (ef_state g)\<lparr>ds_cycles := g'\<rparr>\<rparr>)"
  let ?h = "tally_refused (\<lambda>_. d) (h\<lparr>ef_state := (ef_state h)\<lparr>ds_cycles := h'\<rparr>\<rparr>)"
  have gh: "alongside E T r ?g ?h"
    by (rule alongside_cycles [OF a o(3) refl])
  note same = alongside_resolve [OF gh] alongside_book [OF gh]
  have rows: "state_row input p s body j g' = state_row input p s body j h'" for s j
    using o(4) by blast
  show ?thesis
  proof (cases i)
    case None
    then show ?thesis using gh o(1,2) rf by (simp add: derive_state_def)
  next
    case (Some j)
    show ?thesis
    proof (cases "resolve_at ?h p j")
      case None
      then show ?thesis
        using gh Some o(1,2) rf same by (simp add: derive_state_def alongside_unresolved)
    next
      case res: (Some s)
      show ?thesis
        using gh Some res o(1,2) rf same rows
        by (auto simp: derive_state_def Let_def split_beta split: option.split simp del: state_row.simps
            intro: alongside_push_event alongside_push_top alongside_with_book)
    qed
  qed
qed

subsection \<open>What a step leaves alone\<close>

definition idle_fields :: "event_fold \<Rightarrow> u64 option \<times> u64 \<times> book_refused" where
  "idle_fields f = (ef_at_datagram f, ds_datagrams (ef_state f), ds_reported (ef_state f))"

lemma pushes_idle [simp]:
  "idle_fields (push_event row f) = idle_fields f" "idle_fields (push_top input p s ch f) = idle_fields f"
  "idle_fields (with_book b f) = idle_fields f" "idle_fields (tally_refused k f) = idle_fields f"
  "idle_fields (f\<lparr>ef_seen := sn\<rparr>) = idle_fields f" "idle_fields (note_seen p d f) = idle_fields f"
  by (simp_all add: idle_fields_def push_event_def push_top_def with_book_def tally_refused_def note_seen_def
      Let_def split: option.split)

lemma state_idle [simp]:
  "idle_fields (f\<lparr>ef_state := (ef_state f)\<lparr>ds_cycles := c\<rparr>\<rparr>) = idle_fields f"
  "idle_fields (f\<lparr>ef_state := (ef_state f)\<lparr>ds_table := t\<rparr>\<rparr>) = idle_fields f"
  by (simp_all add: idle_fields_def)

lemma body_idle:
  "idle_fields (derive_reference p rb f) = idle_fields f" "idle_fields (derive_market input p mb f) = idle_fields f"
  "idle_fields (derive_state input p sb f) = idle_fields f"
  by (cases rb) (auto simp: derive_market_def derive_state_def Let_def split_beta split: option.split)

lemma pushes_cycles [simp]:
  "ds_cycles (ef_state (push_event row f)) = ds_cycles (ef_state f)"
  "ds_cycles (ef_state (push_top input p s ch f)) = ds_cycles (ef_state f)"
  "ds_cycles (ef_state (with_book b f)) = ds_cycles (ef_state f)"
  "ds_cycles (ef_state (tally_refused k f)) = ds_cycles (ef_state f)"
  "ds_cycles (ef_state (note_seen p d f)) = ds_cycles (ef_state f)"
  by (simp_all add: push_event_def push_top_def with_book_def tally_refused_def note_seen_def Let_def split: option.split)

lemma fold_push_top:
  "ds_cycles (ef_state (fold (\<lambda>(i, ch) f. case resolve_at f p i of None \<Rightarrow> f | Some s \<Rightarrow> push_top input p s ch f) cs f)) =
     ds_cycles (ef_state f)"
  "idle_fields (fold (\<lambda>(i, ch) f. case resolve_at f p i of None \<Rightarrow> f | Some s \<Rightarrow> push_top input p s ch f) cs f) =
     idle_fields f"
  by (induction cs arbitrary: f) (auto split: option.split)

lemma arrival_idle:
  "ds_cycles (ef_state (observe_arrival input p f)) = ds_cycles (ef_state f)"
  "snd (idle_fields (observe_arrival input p f)) = snd (idle_fields f)"
  by (simp_all add: observe_arrival_def Let_def split_beta fold_push_top) (simp_all add: idle_fields_def)

lemma instrument_of_state_cycles:
  "fst (snd (instrument_of_state body k cycles rf)) = fst (snd (instrument_of_state body k cycles no_refusals))"
  by (cases body) (simp_all split: option.split)

lemma body_cycles:
  "ds_cycles (ef_state (derive_reference p rb f)) = ds_cycles (ef_state f)"
  "ds_cycles (ef_state (derive_market input p mb f)) = ds_cycles (ef_state f)"
  "ds_cycles (ef_state (derive_state input p sb f)) =
     fst (snd (instrument_of_state sb (instance_of p) (ds_cycles (ef_state f)) no_refusals))"
  using instrument_of_state_cycles [of sb "instance_of p" "ds_cycles (ef_state f)" "de_refused (ef_out f)"]
  by (cases rb; auto simp: derive_market_def derive_state_def Let_def split_beta split: option.split)+

definition index_of :: "decoded \<Rightarrow> u64" where
  "index_of d = wp_datagram_index (decoded_provenance d)"

lemma shifted_zero: "shifted 0 d = decoded_provenance d"
  by simp

lemma derive_one_alongside:
  assumes "alongside E T r g h" "\<not> late (ds_cycles (ef_state g)) d"
    "ef_at_datagram g = Some (index_of d) \<longleftrightarrow> ef_at_datagram h = Some (index_of d)"
  shows "alongside E T r (derive_one input 0 d g) (derive_one input 0 d h) \<and>
    ef_at_datagram (derive_one input 0 d g) = Some (index_of d) \<and>
    ef_at_datagram (derive_one input 0 d h) = Some (index_of d) \<and>
    ds_cycles (ef_state (derive_one input 0 d g)) = cycles_step d (ds_cycles (ef_state g)) \<and>
    snd (idle_fields (derive_one input 0 d h)) = snd (idle_fields h)"
proof -
  let ?p = "decoded_provenance d"
  let ?g = "observe_arrival input ?p g" and ?h = "observe_arrival input ?p h"
  have o: "alongside E T r ?g ?h" "ef_at_datagram ?g = Some (index_of d)" "ef_at_datagram ?h = Some (index_of d)"
    using alongside_arrival [OF assms(1), of ?p input] assms(3) by (simp_all add: index_of_def)
  have at: "ef_at_datagram f = fst (idle_fields f)" for f
    by (simp add: idle_fields_def)
  show ?thesis
  proof (cases d)
    case (DecodedReference m)
    then show ?thesis
      using o alongside_reference [OF o(1)] arrival_idle
      by (simp add: derive_one_def Let_def at body_idle body_cycles)
  next
    case (DecodedMarket m)
    then show ?thesis
      using o alongside_market [OF o(1)] arrival_idle
      by (simp add: derive_one_def Let_def at body_idle body_cycles)
  next
    case (DecodedState m)
    have "alongside E T r (derive_state input ?p (wi_body m) ?g) (derive_state input ?p (wi_body m) ?h)"
      by (rule alongside_state [OF o(1)]) (use assms(2) DecodedState in \<open>simp add: arrival_idle\<close>)
    then show ?thesis
      using o arrival_idle DecodedState
      by (simp add: derive_one_def Let_def at body_idle body_cycles)
  qed
qed

lemma fold_alongside:
  "alongside E T r g h \<Longrightarrow> tidy (ds_cycles (ef_state g)) ds \<Longrightarrow>
   (\<And>d. d \<in> set ds \<Longrightarrow> ef_at_datagram g = Some (index_of d) \<longleftrightarrow> ef_at_datagram h = Some (index_of d)) \<Longrightarrow>
   alongside E T r (fold (derive_one input 0) ds g) (fold (derive_one input 0) ds h) \<and>
   ds_cycles (ef_state (fold (derive_one input 0) ds g)) = fold cycles_step ds (ds_cycles (ef_state g)) \<and>
   ef_at_datagram (fold (derive_one input 0) ds g) = (if ds = [] then ef_at_datagram g else Some (index_of (last ds))) \<and>
   snd (idle_fields (fold (derive_one input 0) ds h)) = snd (idle_fields h)"
proof (induction ds arbitrary: g h)
  case (Cons d ds)
  let ?g = "derive_one input 0 d g" and ?h = "derive_one input 0 d h"
  have step: "alongside E T r ?g ?h" "ef_at_datagram ?g = Some (index_of d)" "ef_at_datagram ?h = Some (index_of d)"
      "ds_cycles (ef_state ?g) = cycles_step d (ds_cycles (ef_state g))" "snd (idle_fields ?h) = snd (idle_fields h)"
    using derive_one_alongside [OF Cons.prems(1), of d input] Cons.prems(2,3) by simp_all
  show ?case
    using Cons.IH [OF step(1)] Cons.prems(2) step(2-5) by simp
qed simp

lemma alongside_refl: "alongside [] [] no_refusals f f"
  by (simp add: alongside_def cycles_agree_def)

text \<open>The keys of the attribution map stay in order.\<close>

lemma instrument_of_state_ok: "om_ok cycles \<Longrightarrow> om_ok (fst (snd (instrument_of_state body k cycles rf)))"
  by (cases body) (simp_all add: om_ok_update split: option.split)

lemma derive_one_ok: "om_ok (ds_cycles (ef_state f)) \<Longrightarrow> om_ok (ds_cycles (ef_state (derive_one input 0 d f)))"
  by (cases d) (simp_all add: derive_one_def Let_def arrival_idle body_cycles instrument_of_state_ok)

lemma fold_ok: "om_ok (ds_cycles (ef_state f)) \<Longrightarrow> om_ok (ds_cycles (ef_state (fold (derive_one input 0) ds f)))"
  by (induction ds arbitrary: f) (simp_all add: derive_one_ok)

lemma drop_ended_lookup:
  assumes "om_ok cycles"
  shows "om_lookup (drop_ended cycles) k = (if is_ended cycles k then None else om_lookup cycles k)"
proof -
  have "distinct (map fst cycles)"
    using assms by (auto simp: om_ok_def strict_sorted_iff)
  then show ?thesis
  proof (induction cycles)
    case (Cons kc cycles)
    obtain k' cy where kc: "kc = (k', cy)" by (cases kc)
    have "k = k' \<Longrightarrow> map_of (filter (\<lambda>(k, cy). \<not> ac_ended cy) cycles) k' = None"
      using Cons.prems by (auto simp: kc map_of_eq_None_iff image_iff)
    then show ?case
      using Cons by (auto simp: kc drop_ended_def om_lookup_def is_ended_def)
  qed (simp add: drop_ended_def om_lookup_def is_ended_def)
qed

lemma drop_ended_ok: "om_ok cycles \<Longrightarrow> om_ok (drop_ended cycles)"
  unfolding drop_ended_def by (induction cycles) (auto simp: om_ok_def)

lemma drop_ended_agrees:
  assumes "om_ok h" "cycles_agree g h"
  shows "cycles_agree g (drop_ended h)"
  unfolding cycles_agree_def
proof
  fix k
  show "om_lookup (drop_ended h) k = om_lookup g k \<or> om_lookup (drop_ended h) k = None \<and> is_ended g k"
    using assms(2) [unfolded cycles_agree_def, THEN spec, of k] drop_ended_lookup [OF assms(1), of k]
    by (auto simp: is_ended_def split: option.splits)
qed

subsection \<open>Any number of windows\<close>

lemma derive_events_into_total:
  fixes dgs :: "recorded_datagram list"
  assumes "length dgs < 2 ^ 64"
  shows "\<exists>out st'. derive_events_into st (map Inr dgs :: ('e + recorded_datagram) list) input = (Inr out, st')"
  unfolding derive_events_into_fold [OF assms]
  by (cases "finish_fold input (word_of_nat (length dgs))
       (fold (derive_one input 0) (messages_at (ei_magic input) (ds_datagrams st) dgs) (start_fold st))") simp

fun derive_windows ::
    "derivation_state \<Rightarrow> recorded_datagram list list \<Rightarrow> event_input \<Rightarrow> derived_events list \<times> derivation_state" where
  "derive_windows st [] input = ([], st)"
| "derive_windows st (w # ws) input =
     (case derive_events_into st (map Inr w :: (unit + recorded_datagram) list) input of
        (Inl e, st) \<Rightarrow> ([], st)
      | (Inr out, st) \<Rightarrow> let (outs, st) = derive_windows st ws input in (out # outs, st))"

definition refusals :: "derived_events list \<Rightarrow> events_refused" where
  "refusals outs = fold (\<lambda>out r. rf_plus r (de_refused out)) outs no_refusals"

lemma refusals_shift: "fold (\<lambda>out r. rf_plus r (de_refused out)) outs r = rf_plus r (refusals outs)"
proof (induction outs arbitrary: r)
  case (Cons out outs)
  have "fold (\<lambda>out r. rf_plus r (de_refused out)) outs (rf_plus r (de_refused out)) =
      rf_plus (rf_plus r (de_refused out)) (refusals outs)"
    by (rule Cons.IH)
  moreover have "refusals (out # outs) = rf_plus (de_refused out) (refusals outs)"
    using Cons.IH [of "de_refused out"] by (simp add: refusals_def)
  ultimately show ?case by (simp add: rf_plus_assoc)
qed (simp add: refusals_def)

lemma refusals_Cons: "refusals (out # outs) = rf_plus (de_refused out) (refusals outs)"
  using refusals_shift [of outs "de_refused out"] by (simp add: refusals_def)

text \<open>A fold of the whole feed, and the state that windows up to the same point have handed on.\<close>

definition in_step :: "event_fold \<Rightarrow> derivation_state \<Rightarrow> bool" where
  "in_step g st \<longleftrightarrow>
     ds_table (ef_state g) = ds_table st \<and> ds_book (ef_state g) = ds_book st \<and>
     cycles_agree (ds_cycles (ef_state g)) (ds_cycles st) \<and> om_ok (ds_cycles st) \<and>
     (\<forall>x. ef_at_datagram g = Some x \<longrightarrow> unat x < unat (ds_datagrams st))"

lemma one_window:
  fixes w :: "recorded_datagram list"
  assumes s: "in_step g st" and n: "unat (ds_datagrams st) + length w < 2 ^ 64"
    and t: "tidy (ds_cycles (ef_state g)) (messages_at (ei_magic input) (ds_datagrams st) w)"
  defines "g' \<equiv> fold (derive_one input 0) (messages_at (ei_magic input) (ds_datagrams st) w) g"
  shows "\<exists>out st'. derive_events_into st (map Inr w :: ('e + recorded_datagram) list) input = (Inr out, st') \<and>
    in_step g' st' \<and> ds_datagrams st' = ds_datagrams st + word_of_nat (length w) \<and>
    de_event (ef_out g') = de_event (ef_out g) @ de_event out \<and>
    de_book_top (ef_out g') = de_book_top (ef_out g) @ de_book_top out \<and>
    de_refused (ef_out g') = rf_plus (de_refused (ef_out g)) (de_refused out) \<and>
    ds_cycles (ef_state g') = fold cycles_step (messages_at (ei_magic input) (ds_datagrams st) w) (ds_cycles (ef_state g))"
proof -
  let ?ms = "messages_at (ei_magic input) (ds_datagrams st) w" and ?h = "start_fold st"
  let ?h' = "fold (derive_one input 0) ?ms ?h"
  have idx: "ds_datagrams st \<le> index_of d \<and> unat (index_of d) < unat (ds_datagrams st) + length w"
    if "d \<in> set ?ms" for d
    using messages_at_index [OF n that] by (simp add: index_of_def)
  have "alongside (de_event (ef_out g)) (de_book_top (ef_out g)) (de_refused (ef_out g)) g ?h"
    using s by (simp add: in_step_def alongside_def start_fold_def derived_events_default_def
        no_refusals_def [symmetric])
  moreover have "ef_at_datagram g = Some (index_of d) \<longleftrightarrow> ef_at_datagram ?h = Some (index_of d)" if "d \<in> set ?ms" for d
    using s idx [OF that] by (auto simp: in_step_def start_fold_def word_le_nat_alt)
  ultimately have f: "alongside (de_event (ef_out g)) (de_book_top (ef_out g)) (de_refused (ef_out g)) g' ?h'"
      "ds_cycles (ef_state g') = fold cycles_step ?ms (ds_cycles (ef_state g))"
      "ef_at_datagram g' = (if ?ms = [] then ef_at_datagram g else Some (index_of (last ?ms)))"
      "snd (idle_fields ?h') = snd (idle_fields ?h)"
    using fold_alongside [of _ _ _ g ?h ?ms input] t unfolding g'_def by blast+
  obtain out st' where fin: "finish_fold input (word_of_nat (length w)) ?h' = (out, st')"
    by fastforce
  have res: "derive_events_into st (map Inr w :: ('e + recorded_datagram) list) input = (Inr out, st')"
    using derive_events_into_fold [of w st input] n fin by simp
  have dd: "ds_datagrams (ef_state ?h') = ds_datagrams st"
    using f(4) by (simp add: idle_fields_def start_fold_def)
  have ok: "om_ok (ds_cycles (ef_state ?h'))"
    by (rule fold_ok) (use s in \<open>simp add: start_fold_def in_step_def\<close>)
  have st': "ds_table st' = ds_table (ef_state ?h')" "ds_book st' = ds_book (ef_state ?h')"
      "ds_cycles st' = drop_ended (ds_cycles (ef_state ?h'))" "ds_datagrams st' = ds_datagrams st + word_of_nat (length w)"
      "de_event out = de_event (ef_out ?h')" "de_book_top out = de_book_top (ef_out ?h')"
      "de_refused out = de_refused (ef_out ?h')"
    using fin dd by (auto simp: finish_fold_def Let_def)
  have "unat (ds_datagrams st') = unat (ds_datagrams st) + length w"
    unfolding st'(4) using n by (simp add: unat_word_ariths unat_of_nat)
  moreover have "unat x < unat (ds_datagrams st) + length w" if "ef_at_datagram g' = Some x" for x
  proof (cases "?ms = []")
    case True
    then show ?thesis using that f(3) s by (auto simp: in_step_def)
  next
    case False
    then show ?thesis using that f(3) idx [OF last_in_set [OF False]] by simp
  qed
  ultimately have "in_step g' st'"
    using f(1) drop_ended_agrees [OF ok] drop_ended_ok [OF ok]
    by (simp add: in_step_def alongside_def st')
  then show ?thesis
    using res f(1,2) by (intro exI [of _ out] exI [of _ st']) (simp add: st' alongside_def)
qed

lemma windows_in_step:
  "in_step g st \<Longrightarrow> unat (ds_datagrams st) + length (concat ws) < 2 ^ 64 \<Longrightarrow>
   tidy (ds_cycles (ef_state g)) (messages_at (ei_magic input) (ds_datagrams st) (concat ws)) \<Longrightarrow>
   \<exists>outs st'. derive_windows st ws input = (outs, st') \<and>
     in_step (fold (derive_one input 0) (messages_at (ei_magic input) (ds_datagrams st) (concat ws)) g) st' \<and>
     de_event (ef_out (fold (derive_one input 0) (messages_at (ei_magic input) (ds_datagrams st) (concat ws)) g)) =
       de_event (ef_out g) @ concat (map de_event outs) \<and>
     de_book_top (ef_out (fold (derive_one input 0) (messages_at (ei_magic input) (ds_datagrams st) (concat ws)) g)) =
       de_book_top (ef_out g) @ concat (map de_book_top outs) \<and>
     de_refused (ef_out (fold (derive_one input 0) (messages_at (ei_magic input) (ds_datagrams st) (concat ws)) g)) =
       rf_plus (de_refused (ef_out g)) (refusals outs)"
proof (induction ws arbitrary: g st)
  case Nil
  then show ?case by (simp add: refusals_def)
next
  case (Cons w ws)
  let ?m = "ei_magic input" and ?b = "ds_datagrams st"
  let ?g' = "fold (derive_one input 0) (messages_at ?m ?b w) g"
  have split: "messages_at ?m ?b (concat (w # ws)) =
      messages_at ?m ?b w @ messages_at ?m (?b + word_of_nat (length w)) (concat ws)"
    by (simp add: messages_at_append)
  have t: "tidy (ds_cycles (ef_state g)) (messages_at ?m ?b w)"
      "tidy (fold cycles_step (messages_at ?m ?b w) (ds_cycles (ef_state g)))
         (messages_at ?m (?b + word_of_nat (length w)) (concat ws))"
    using Cons.prems(3) unfolding split tidy_append by simp_all
  have "unat ?b + length w < 2 ^ 64"
    using Cons.prems(2) by simp
  then obtain out st1 where one: "derive_events_into st (map Inr w :: (unit + recorded_datagram) list) input = (Inr out, st1)"
      "in_step ?g' st1" "ds_datagrams st1 = ?b + word_of_nat (length w)"
      "de_event (ef_out ?g') = de_event (ef_out g) @ de_event out"
      "de_book_top (ef_out ?g') = de_book_top (ef_out g) @ de_book_top out"
      "de_refused (ef_out ?g') = rf_plus (de_refused (ef_out g)) (de_refused out)"
      "ds_cycles (ef_state ?g') = fold cycles_step (messages_at ?m ?b w) (ds_cycles (ef_state g))"
    using one_window [OF Cons.prems(1) _ t(1)] by (elim meta_impE exE conjE)
  have "unat (ds_datagrams st1) = unat ?b + length w"
    unfolding one(3) using Cons.prems(2) by (simp add: unat_word_ariths unat_of_nat)
  then obtain outs st' where rest: "derive_windows st1 ws input = (outs, st')"
      "in_step (fold (derive_one input 0) (messages_at ?m (ds_datagrams st1) (concat ws)) ?g') st'"
      "de_event (ef_out (fold (derive_one input 0) (messages_at ?m (ds_datagrams st1) (concat ws)) ?g')) =
         de_event (ef_out ?g') @ concat (map de_event outs)"
      "de_book_top (ef_out (fold (derive_one input 0) (messages_at ?m (ds_datagrams st1) (concat ws)) ?g')) =
         de_book_top (ef_out ?g') @ concat (map de_book_top outs)"
      "de_refused (ef_out (fold (derive_one input 0) (messages_at ?m (ds_datagrams st1) (concat ws)) ?g')) =
         rf_plus (de_refused (ef_out ?g')) (refusals outs)"
    using Cons.IH [OF one(2)] Cons.prems(2) t(2) unfolding one(3,7) by (simp, elim exE conjE)
  show ?case
    using one(1) rest unfolding split one(3)
    by (intro exI [of _ "out # outs"] exI [of _ st'])
      (simp add: one(4-6) refusals_Cons rf_plus_assoc)
qed


definition ex_begin_payload :: bytes where
  "ex_begin_payload = [0x42, 0x44, 3, 1, 1, 0, 0, 0, 0, 0, 0, 0, 0, 0, 0, 0, 0, 0, 0, 0, 1, 0, 64, 0,
     0x20, 40, 0, 0, 5, 0, 0, 0, 10, 0, 0, 0, 0, 0, 0, 0, 0, 0, 0, 0, 9, 0, 0, 0,
     0, 0, 0, 0, 0, 0, 0, 0, 0, 0, 0, 0, 0, 0, 0, 0]"

definition ex_end_payload :: bytes where
  "ex_end_payload = [0x42, 0x44, 3, 1, 2, 0, 0, 0, 0, 0, 0, 0, 0, 0, 0, 0, 0, 0, 0, 0, 1, 0, 44, 0,
     0x22, 20, 0, 0, 5, 0, 0, 0, 10, 0, 0, 0, 0, 0, 0, 0, 9, 0, 0, 0]"

definition ex_datagram :: "bytes \<Rightarrow> recorded_datagram" where
  "ex_datagram payload =
     \<lparr>rd_payload = payload, rd_src = \<lparr>sa_ip = 7, sa_port = 1\<rparr>, rd_dst = \<lparr>sa_ip = 8, sa_port = 9002\<rparr>,
      rd_role = Snapshot, rd_recv_ts_ns = 1, rd_recv_ts_kind = KernelSoftware, rd_drop_delta = 0,
      rd_ttl = None, rd_link_headers = None, rd_wire_payload_len = 0\<rparr>"

definition ex_header :: "u64 \<Rightarrow> u16 \<Rightarrow> datagram_header" where
  "ex_header n len =
     \<lparr>hdr_magic = 0x4442, hdr_schema_version = 3, hdr_channel_id = 1, hdr_sequence_number = n,
      hdr_send_timestamp_ns = 0, hdr_msg_count = 1, hdr_reset_count = 0, hdr_datagram_len = len\<rparr>"

lemma ex_end_header: "header_peek ex_end_payload = Inr (ex_header 2 44)" "header_decode ex_end_payload = Inr (ex_header 2 44)"
  by (simp_all add: header_peek_def header_decode_def ex_end_payload_def DATAGRAM_HEADER_SIZE_def MAX_DATAGRAM_SIZE_def
    SUPPORTED_SCHEMA_VERSIONS_def SCHEMA_VERSION_def slice_def from_le_def ex_header_def declared_len_at_def Let_def)

lemma ex_begin_header: "header_peek ex_begin_payload = Inr (ex_header 1 64)" "header_decode ex_begin_payload = Inr (ex_header 1 64)"
  by (simp_all add: header_peek_def header_decode_def ex_begin_payload_def DATAGRAM_HEADER_SIZE_def MAX_DATAGRAM_SIZE_def
    SUPPORTED_SCHEMA_VERSIONS_def SCHEMA_VERSION_def slice_def from_le_def ex_header_def declared_len_at_def Let_def)

definition ex_end_frame :: bytes where
  "ex_end_frame = [0x22, 20, 0, 0, 5, 0, 0, 0, 10, 0, 0, 0, 0, 0, 0, 0, 9, 0, 0, 0]"

definition ex_begin_frame :: bytes where
  "ex_begin_frame = [0x20, 40, 0, 0, 5, 0, 0, 0, 10, 0, 0, 0, 0, 0, 0, 0, 0, 0, 0, 0, 9, 0, 0, 0,
     0, 0, 0, 0, 0, 0, 0, 0, 0, 0, 0, 0, 0, 0, 0, 0]"

lemma ex_frames:
  "slice ex_end_payload 24 44 = ex_end_frame" "slice ex_begin_payload 24 64 = ex_begin_frame"
  "well_framed ex_end_frame" "well_framed ex_begin_frame"
  by (simp_all add: slice_def ex_end_payload_def ex_end_frame_def ex_begin_payload_def ex_begin_frame_def well_framed_def)

lemma decode_one_frame:
  assumes "header_decode buf = Inr (ex_header n len)" "slice buf 24 (unat len) = frame" "well_framed frame"
  shows "datagram_decode buf MAGIC_MBP = Inr \<lparr>dg_header = ex_header n len, dg_messages = frame\<rparr>"
    "walked \<lparr>dg_header = ex_header n len, dg_messages = frame\<rparr> = [message_ref_of frame]"
proof -
  have "validate_from frame (Suc 0) 0 0 = Inr (Suc 0)"
    using validate_from_accepts [of "[frame]" "[]" "[]" 0] assms(3) by simp
  then show "datagram_decode buf MAGIC_MBP = Inr \<lparr>dg_header = ex_header n len, dg_messages = frame\<rparr>"
    using assms by (simp add: datagram_decode_def validate_messages_def Let_def DATAGRAM_HEADER_SIZE_def)
      (simp add: ex_header_def MAGIC_MBP_def)
  show "walked \<lparr>dg_header = ex_header n len, dg_messages = frame\<rparr> = [message_ref_of frame]"
    using collect_frames [of "[frame]" "[]" "[]"] assms(3)
    by (simp add: walked_def messages_def ex_header_def)
qed

lemma ex_messages:
  "datagram_messages MAGIC_MBP i (ex_datagram ex_begin_payload) =
     [DecodedState (item_from (provenance_of (ex_datagram ex_begin_payload) (ex_header 1 64) i 0)
        (StateBegin \<lparr>sb_instrument_id = 5, sb_anchor_seq = 10, sb_total_levels = 0, sb_snapshot_id = 9,
           sb_last_instrument_seq = 0, sb_timestamp_ns = 0, sb_depth_bound = 0\<rparr>))]"
  "datagram_messages MAGIC_MBP i (ex_datagram ex_end_payload) =
     [DecodedState (item_from (provenance_of (ex_datagram ex_end_payload) (ex_header 2 44) i 0)
        (StateEnd \<lparr>se_instrument_id = 5, se_anchor_seq = 10, se_snapshot_id = 9\<rparr>))]"
proof -
  have magic: "hdr_magic (ex_header n len) = MAGIC_MBP" "hdr_schema_version (ex_header n len) = 3" for n len
    by (simp_all add: ex_header_def MAGIC_MBP_def)
  have opens: "snapshot_begin_decode ex_begin_frame = Inr \<lparr>sb_instrument_id = 5, sb_anchor_seq = 10,
      sb_total_levels = 0, sb_snapshot_id = 9, sb_last_instrument_seq = 0, sb_timestamp_ns = 0, sb_depth_bound = 0\<rparr>"
    by (simp add: snapshot_begin_decode_def check_header_def snapshot_begin_message_def ex_begin_frame_def
        u32_at_def u64_at_def slice_def from_le_def)
  have closes: "snapshot_end_decode ex_end_frame = Inr \<lparr>se_instrument_id = 5, se_anchor_seq = 10, se_snapshot_id = 9\<rparr>"
    by (simp add: snapshot_end_decode_def check_header_def snapshot_end_message_def ex_end_frame_def
        u32_at_def u64_at_def slice_def from_le_def)
  note types = quote_message_def trade_message_def level_update_message_def book_clear_message_def
    instrument_definition_message_def manifest_summary_message_def TYPE_HEARTBEAT_def TYPE_END_OF_SESSION_def
    snapshot_begin_message_def snapshot_level_message_def snapshot_end_message_def
  note dec = decode_one_frame [OF ex_begin_header(2), of ex_begin_frame] decode_one_frame [OF ex_end_header(2), of ex_end_frame]
  have r: "read_message (ex_begin_frame ! 0) ex_begin_frame 3 p = Some (DecodedState (item_from p
        (StateBegin \<lparr>sb_instrument_id = 5, sb_anchor_seq = 10, sb_total_levels = 0, sb_snapshot_id = 9,
           sb_last_instrument_seq = 0, sb_timestamp_ns = 0, sb_depth_bound = 0\<rparr>)))"
    "read_message (ex_end_frame ! 0) ex_end_frame 3 p = Some (DecodedState (item_from p
        (StateEnd \<lparr>se_instrument_id = 5, se_anchor_seq = 10, se_snapshot_id = 9\<rparr>)))" for p
    unfolding read_message_def opens closes
    by (simp_all add: types read_as_def) (simp_all add: ex_begin_frame_def ex_end_frame_def)
  show "datagram_messages MAGIC_MBP i (ex_datagram ex_begin_payload) =
     [DecodedState (item_from (provenance_of (ex_datagram ex_begin_payload) (ex_header 1 64) i 0)
        (StateBegin \<lparr>sb_instrument_id = 5, sb_anchor_seq = 10, sb_total_levels = 0, sb_snapshot_id = 9,
           sb_last_instrument_seq = 0, sb_timestamp_ns = 0, sb_depth_bound = 0\<rparr>))]"
    using dec(1,2) ex_frames r(1)
    by (simp add: datagram_messages_def ex_datagram_def [of ex_begin_payload] ex_begin_header magic message_ref_of_def)
  show "datagram_messages MAGIC_MBP i (ex_datagram ex_end_payload) =
     [DecodedState (item_from (provenance_of (ex_datagram ex_end_payload) (ex_header 2 44) i 0)
        (StateEnd \<lparr>se_instrument_id = 5, se_anchor_seq = 10, se_snapshot_id = 9\<rparr>))]"
    using dec(3,4) ex_frames r(2)
    by (simp add: datagram_messages_def ex_datagram_def [of ex_end_payload] ex_end_header magic message_ref_of_def)
qed

lemma ex_tidy:
  "tidy om_empty (messages_at MAGIC_MBP 0 (concat [[ex_datagram ex_begin_payload], [ex_datagram ex_end_payload]]))"
  by (simp add: ex_messages) (simp add: item_from_def is_ended_def om_lookup_def om_empty_def
      provenance_of_def ex_datagram_def ex_header_def instance_of_def)

definition ex_input :: event_input where
  "ex_input = \<lparr>ei_site = ''s'', ei_recorder = ''r'', ei_env = ''e'', ei_feed = ''f'', ei_object_key = ''k'',
     ei_object_sha256 = ''h'', ei_segment_seq = 0, ei_magic = MAGIC_MBP, ei_observation = ''o'',
     ei_persist_snapshot_levels = False, ei_derivation = DerivationLive\<rparr>"


end
