(* ===== verification/Spec2Isabelle.thy ===== *)
theory Spec2Isabelle
  imports Any_Message Loss_Scenarios Egress_Stream Era_Store Fixed_Point Sequence_Tracker
    Lowering_Contract Registry_Runs Book_Levels Derivation_Windows
begin

text \<open>
  A development of the core of the edge multicast reference: the wire format, the publisher that
  numbers and sends datagrams, and the recorder that derives what was lost from what arrived. Paths
  below are under \<open>src/rust\<close>.

  The parts and how they interact. A venue adapter states events as text or fixed-point scalars
  (\<open>adapter/dz-adapter-core\<close>). The publisher lowers them to messages at each instrument's
  exponents (\<open>publisher/dz-publisher-lowering\<close>), mints instrument identifiers and keeps them
  in a record on disk (\<open>publisher/dz-publisher-refdata\<close>), packs messages into datagrams, numbers
  the datagrams per channel and hands them to sinks (\<open>publisher/dz-publisher-egress\<close>). The
  messages and datagrams are the codec crates' (\<open>codec/dz-edge-core, -tob, -mbp, -refdata\<close>).
  The recorder decodes the same datagrams, classifies each sequence number
  (\<open>recorder/dz-recorder-core\<close>) and reports which numbers arrived, which are missing and who
  lost them (\<open>recorder/dz-recorder-loss\<close>).

  Theories.
  \<^item> Edge_Prelude: machine integers, little-endian fields, byte layouts, sums; the layout lemmas
    every codec rests on, in the collections named there.
  \<^item> Wire_Core (\<open>constants.rs, datagram.rs, channel.rs, feed.rs, message.rs\<close>): the header, the
    errors, a feed and a message as records of the trait's functions, the channel's counter.
  \<^item> Messages_Shared, Messages_Tob, Messages_Mbp, Messages_Refdata, Any_Message: one record,
    encoder, decoder and validation per message type, and one datatype of all of them. Lemmas: the
    encoding has the announced size and type, decoding returns the message, validation holds.
  \<^item> Datagram_Builder, Datagram_Walk (\<open>datagram.rs, walk.rs\<close>): packing and reading back. What
    is packed is what the walk yields; a decoder's answers are total and its messages tile the body.
  \<^item> Text_Field, Fixed_Point, Text_Codec: padded text and decimal text to scaled integers.
  \<^item> Egress_Sink, Egress, Egress_Stream (\<open>sink.rs, transmitter.rs, egress.rs, sequencer.rs\<close>):
    the sink interface as a record of functions on a sink state, the fan-out and the transmitter as
    providers of it, the composer; the numbers on the wire of a channel are consecutive.
  \<^item> Era_Store (\<open>era.rs\<close>): the file system as a map with one step per call, a crash possible
    between any two; eras never repeat.
  \<^item> Scaling, Lowering, Lowering_Contract: exact conversion or a refusal, and what the lowered
    messages satisfy.
  \<^item> Refdata_Record, Record_Text, Record_Roundtrip, Record_Soundness, Record_Extend
    (\<open>state.rs\<close>): the persisted identifier record, its text format and the loader, and what
    appending a line to a record does to what loads from it; Refdata_Compose (\<open>definition.rs,
    strike.rs\<close>): a listing to a definition message; Refdata_Pacer (\<open>policy.rs, pacer.rs\<close>).
  \<^item> Refdata_Store (\<open>state.rs\<close>): the state store as a record of functions on a store
    state, the file store and the memory store as its providers, and the interface
    \<open>durable_store\<close>: what a write leaves is what the next load reads.
  \<^item> Refdata_Registry (\<open>registry.rs, clock.rs\<close>): offer, withdraw, retire, compaction and
    opening; Registry_Slots: the identifier table holds one slot per identifier and the published
    set is read off it; Registry_Ledger and Registry_Life: the ledger of identifiers ever written
    down, and the machine \<open>life\<close> of runs, failures and restarts over one store. The machine
    assumes that the \<open>2 ^ 32\<close> slots never run out, that the configured identity is
    the same in every run, and, where a lemma says \<open>keep\<close>, that no identifier is old enough to
    be forgotten; Registry_Runs: the properties, with the file store in the interface's place.
  \<^item> Seen_Window, Sequence_Tracker (\<open>sequence.rs\<close>): the classification of a sequence number,
    and the window of numbers seen before.
  \<^item> Recorded_Datagram, Ordered_Map, Delivered_Ranges, Loss_Deriver, Loss_Scenarios
    (\<open>deriver.rs, run.rs\<close>): the ranges delivered in an era, the bounded store of instances,
    and what is reported as lost.
  \<^item> Instrument_Table (\<open>recorder/dz-recorder-events/src/instruments.rs\<close>): what the
    definitions and summaries of an era stated, and since where; what an identifier resolves to at
    a position is a statement that was in force there.
  \<^item> Consumer_Book (\<open>book.rs\<close>): the book a subscriber would hold, its certainty and its
    key; Book_Trust: a book is certain exactly if what anchors it stands, was not disowned and has
    no hole after it, read off the list of calls alone; Book_Levels: the levels are those of an
    independent replay, the top of the book is the best of them, and what an applied snapshot cycle
    does to the changes heard while it was open.
  \<^item> Archived_Refdata, Wire_Capture (\<open>recorder/dz-recorder-relower/src: join.rs, refdata.rs,
    wire.rs, error.rs\<close> and the caveats of \<open>finding.rs\<close>): the reference data and the
    messages an archive of datagrams holds, with a reason for everything skipped.
  \<^item> Row_Types (\<open>recorder/dz-recorder-rows/src/rows.rs\<close>): the rows the derivation writes;
    Event_Derivation (\<open>derive.rs\<close>): messages to rows, in archive order, over the tables and
    the book; Derivation_Split: that order, and a derivation as one fold over the ordered messages;
    Derivation_Windows: windows derived one after the other from a carried state give the rows
    of one derivation over their concatenation, where no snapshot record follows the end of its
    cycle (\<open>tidy\<close>) and fewer than \<open>2 ^ 64\<close> datagrams arrive. The counters of refused
    book changes are per window, and their sum over windows is not claimed.

  Machine integers are words of their width where arithmetic on them can wrap or is checked; sizes
  and counts that the code keeps in \<open>usize\<close> and only compares are natural numbers. A trait is a
  record of functions and its laws a locale, interpreted on the providers of the code. Errors are
  the left of a sum. There is no fuel: every loop of the code modelled here recurses on its input or
  on a measure that decreases.

  Not modelled: sockets, files other than through the file-system steps of the stores, metrics other
  than as a list of what was recorded, logging, threads, configuration and command lines, the
  database loader, and the ingress transports.
\<close>

end
